(* ===== verification/Prelude.thy ===== *)
theory Prelude
  imports Main "HOL-Library.Word" "HOL-Library.Monad_Syntax"
begin

text \<open>
  Shared vocabulary of the development: the machine integer types of the kernel
  (\<open>uint8_t\<close>, \<open>uint16_t\<close>, \<open>uint32_t\<close>), address arithmetic on 32-bit words, the regions
  of the address space that reads and writes touch, and the named theorem
  collections the component theories add to.
\<close>

unbundle bit_operations_syntax

type_synonym u8 = "8 word"
type_synonym u16 = "16 word"
type_synonym u32 = "32 word"

named_theorems mem_simps \<open>reads over writes of the byte memory\<close>
named_theorems frame_simps \<open>fields and bytes an operation leaves alone\<close>

section \<open>Address arithmetic\<close>

lemma unat_add_nowrap:
  fixes a b :: "'a::len word"
  assumes "unat a + unat b < 2 ^ LENGTH('a)"
  shows "unat (a + b) = unat a + unat b"
  using assms by (simp add: unat_word_ariths)

lemma unat_add_of_nat:
  fixes a :: "'a::len word"
  assumes "unat a + k < 2 ^ LENGTH('a)"
  shows "unat (a + of_nat k) = unat a + k"
  using assms by (simp add: unat_word_ariths unsigned_of_nat take_bit_eq_mod)

lemma unat_add_numeral32:
  fixes a :: u32
  assumes "unat a + numeral k < 2 ^ 32"
  shows "unat (a + numeral k) = unat a + numeral k"
  using unat_add_of_nat [of a "numeral k"] assms by simp

lemma unat_lt32: "unat (a :: u32) < 4294967296"
  using unsigned_less [of a] by simp

lemma unat_lt16: "unat (a :: u16) < 65536"
  using unsigned_less [of a] by simp

lemma unat_lt8: "unat (a :: u8) < 256"
  using unsigned_less [of a] by simp

lemma unat_sub32:
  fixes a b :: u32
  shows "unat (a - b) =
    (if unat b \<le> unat a then unat a - unat b else 4294967296 + unat a - unat b)"
  unfolding unat_sub_if_size word_le_nat_alt word_size by auto

lemma unat_minus_1_32: "unat (- 1 :: u32) = 4294967295"
  by (simp add: unsigned_minus_1_eq_mask mask_eq_exp_minus_1)

text \<open>Conversion of an \<open>unsigned int\<close> to \<open>int\<close>.\<close>

lemma sint32_uint:
  fixes i :: u32
  shows "sint i = (if uint i < 2147483648 then uint i else uint i - 4294967296)"
proof -
  have bnd: "0 \<le> uint i" "uint i < 4294967296"
    using unsigned_less [of i, where ?'a = int] by simp_all
  have "sint i = uint i - 2 ^ 32 * of_bool (bit (uint i) 31)"
    unfolding sint_uint signed_take_bit_eq_take_bit_minus
    using take_bit_int_eq_self [of "uint i" 32] bnd by simp
  moreover have "bit (uint i) 31 \<longleftrightarrow> \<not> uint i < 2147483648"
  proof (cases "uint i < 2147483648")
    case True
    then show ?thesis using bnd by (simp add: bit_iff_odd div_pos_pos_trivial)
  next
    case False
    have "uint i div 2147483648 = 1"
      using False bnd by (intro int_div_pos_eq [where r = "uint i - 2147483648"]) auto
    then show ?thesis using False by (simp add: bit_iff_odd)
  qed
  ultimately show ?thesis by simp
qed

lemma sint32:
  fixes i :: u32
  shows "sint i = (if unat i < 2147483648 then int (unat i) else int (unat i) - 4294967296)"
proof -
  have u: "uint i = int (unat i)" by simp
  show ?thesis unfolding sint32_uint u by (simp only: of_nat_less_numeral_iff)
qed

section \<open>Regions of the address space\<close>

text \<open>
  \<open>region a n\<close> are the \<open>n\<close> addresses from \<open>a\<close> upwards, wrapping at the end of the
  address space as pointer arithmetic does. Two regions are \<open>apart\<close> when each
  starts beyond the end of the other going upwards.
\<close>

definition region :: "u32 \<Rightarrow> nat \<Rightarrow> u32 set" where
  "region a n = {x. unat (x - a) < n}"

definition apart :: "u32 \<Rightarrow> nat \<Rightarrow> u32 \<Rightarrow> nat \<Rightarrow> bool" where
  "apart a n b k \<longleftrightarrow> n \<le> unat (b - a) \<and> k \<le> unat (a - b)"

lemma apart_sym: "apart a n b k \<longleftrightarrow> apart b k a n"
  by (auto simp: apart_def)

lemma region_empty [simp]: "region a 0 = {}"
  by (simp add: region_def)

lemma region_mono: "n \<le> k \<Longrightarrow> region a n \<subseteq> region a k"
  by (auto simp: region_def)

lemma in_region_offset:
  assumes "i + n \<le> 4294967296"
  shows "x \<in> region (a + of_nat i) n \<longleftrightarrow> i \<le> unat (x - a) \<and> unat (x - a) < i + n"
proof (cases "i < 4294967296")
  case True
  then have i: "unat (of_nat i :: u32) = i" by (simp add: unsigned_of_nat take_bit_eq_mod)
  have eq: "x - (a + of_nat i) = (x - a) - of_nat i" by (simp add: algebra_simps)
  have "unat ((x - a) - of_nat i) < n \<longleftrightarrow> i \<le> unat (x - a) \<and> unat (x - a) < i + n"
    using assms unat_lt32 [of "x - a"] unfolding unat_sub32 i by auto
  then show ?thesis unfolding region_def mem_Collect_eq eq .
next
  case False
  then have "n = 0" using assms by simp
  then show ?thesis using False unat_lt32 [of "x - a"] by (simp add: region_def)
qed

lemma region_offset:
  assumes "i + n \<le> k" "k \<le> 4294967296"
  shows "region (a + of_nat i) n \<subseteq> region a k"
  using assms by (auto simp: in_region_offset) (simp add: region_def)

lemma in_region_base [simp]: "a \<in> region a n \<longleftrightarrow> 0 < n"
  by (simp add: region_def)

lemma in_region_nat:
  assumes "unat a + n \<le> 4294967296"
  shows "x \<in> region a n \<longleftrightarrow> unat a \<le> unat x \<and> unat x < unat a + n"
  using assms unat_lt32 [of a] unat_lt32 [of x]
  by (auto simp: region_def unat_sub32 split: if_splits)

lemma apart_disjoint:
  assumes "apart a n b k"
  shows "region a n \<inter> region b k = {}"
proof -
  have False if "unat (x - a) < n" "unat (x - b) < k" for x
    using that assms unat_lt32 [of a] unat_lt32 [of b] unat_lt32 [of x]
    by (auto simp: apart_def unat_sub32 split: if_splits)
  then show ?thesis by (auto simp: region_def)
qed

lemma apartI:
  assumes "0 < n" "unat a + n \<le> unat b" "unat b + k \<le> 4294967296"
  shows "apart a n b k"
  using assms unat_lt32 [of a] unat_lt32 [of b]
  by (auto simp: apart_def unat_sub32)

lemma apartI2:
  assumes "0 < k" "unat b + k \<le> unat a" "unat a + n \<le> 4294967296"
  shows "apart a n b k"
  using assms apartI [where a = b and b = a and n = k and k = n] by (simp add: apart_sym)

lemma apart_mono: "apart a n b k \<Longrightarrow> n' \<le> n \<Longrightarrow> k' \<le> k \<Longrightarrow> apart a n' b k'"
  by (auto simp: apart_def)

lemma apart_offset:
  assumes "apart a n b k" "i + n' \<le> n" "j + k' \<le> k" "0 < n'" "0 < k'"
  shows "apart (a + of_nat i) n' (b + of_nat j) k'"
proof -
  let ?d = "b - a"
  have eq: "b + of_nat j - (a + of_nat i) = ?d + of_nat j - of_nat i"
    "a + of_nat i - (b + of_nat j) = of_nat i - (?d + of_nat j)"
    by (simp_all add: algebra_simps)
  have d: "n \<le> unat ?d" "unat ?d + k \<le> 4294967296"
    using assms(1,3,5) unat_lt32 [of a] unat_lt32 [of b]
    by (auto simp: apart_def unat_sub32 split: if_splits)
  have dj: "unat (?d + of_nat j) = unat ?d + j"
    using d assms(3,5) by (subst unat_add_of_nat) auto
  have i: "unat (of_nat i :: u32) = i"
    using d assms(2,4) unat_lt32 [of ?d] by (simp add: unsigned_of_nat take_bit_eq_mod)
  show ?thesis
    unfolding apart_def eq using d dj i assms(2-5)
    by (auto simp: unat_sub32)
qed

end
