(* ===== verification/Memory.thy ===== *)
theory Memory
  imports Prelude
begin

text \<open>
  The byte memory of the kernel and the string routines of
  \<open>src/kernel/std/string.cpp\<close>. Memory is a function from 32-bit addresses to bytes:
  every address can be read and written, as on the machine, and pointers are plain
  addresses. Multi-byte accesses are little-endian, as on i386.
\<close>

type_synonym mem = "u32 \<Rightarrow> u8"

section \<open>Little-endian accesses\<close>

definition rd8 :: "mem \<Rightarrow> u32 \<Rightarrow> u8" where
  "rd8 m a = m a"

definition rd16 :: "mem \<Rightarrow> u32 \<Rightarrow> u16" where
  "rd16 m a = ucast (m a) OR push_bit 8 (ucast (m (a + 1)))"

definition rd32 :: "mem \<Rightarrow> u32 \<Rightarrow> u32" where
  "rd32 m a = ucast (m a) OR push_bit 8 (ucast (m (a + 1)))
     OR push_bit 16 (ucast (m (a + 2))) OR push_bit 24 (ucast (m (a + 3)))"

definition wr8 :: "u32 \<Rightarrow> u8 \<Rightarrow> mem \<Rightarrow> mem" where
  "wr8 a v m = m(a := v)"

definition wr16 :: "u32 \<Rightarrow> u16 \<Rightarrow> mem \<Rightarrow> mem" where
  "wr16 a v m = m(a := ucast v, a + 1 := ucast (drop_bit 8 v))"

definition wr32 :: "u32 \<Rightarrow> u32 \<Rightarrow> mem \<Rightarrow> mem" where
  "wr32 a v m = m(a := ucast v, a + 1 := ucast (drop_bit 8 v),
     a + 2 := ucast (drop_bit 16 v), a + 3 := ucast (drop_bit 24 v))"

lemma rd8_wr8_same [mem_simps]: "rd8 (wr8 a v m) a = v"
  by (simp add: rd8_def wr8_def)

lemma rd16_wr16_same [mem_simps]: "rd16 (wr16 a v m) a = v"
  unfolding rd16_def wr16_def
  by (rule bit_word_eqI) (auto simp: bit_or_iff bit_push_bit_iff bit_ucast_iff bit_drop_bit_eq)

lemma bytes_of_u32:
  fixes v :: u32
  shows "ucast (ucast v :: u8) OR push_bit 8 (ucast (ucast (drop_bit 8 v) :: u8))
     OR push_bit 16 (ucast (ucast (drop_bit 16 v) :: u8))
     OR push_bit 24 (ucast (ucast (drop_bit 24 v) :: u8)) = v"
proof (rule bit_word_eqI)
  fix n assume "n < LENGTH(32)"
  then consider "n < 8" | "8 \<le> n" "n < 16" | "16 \<le> n" "n < 24" | "24 \<le> n" "n < 32"
    by force
  then show "bit ((ucast (ucast v :: u8) :: u32) OR push_bit 8 (ucast (ucast (drop_bit 8 v) :: u8))
     OR push_bit 16 (ucast (ucast (drop_bit 16 v) :: u8))
     OR push_bit 24 (ucast (ucast (drop_bit 24 v) :: u8))) n = bit v n"
    by cases (auto simp: bit_or_iff bit_push_bit_iff bit_ucast_iff bit_drop_bit_eq)
qed

lemma rd32_wr32_same [mem_simps]: "rd32 (wr32 a v m) a = v"
  by (simp add: rd32_def wr32_def bytes_of_u32)

lemma in_region_small [simp]:
  "a \<in> region a (Suc n)" "a + 1 \<in> region a 2" "a + 1 \<in> region a 4"
  "a + 2 \<in> region a 4" "a + 3 \<in> region a 4"
  by (simp_all add: region_def)

lemma wr8_other [frame_simps]: "x \<notin> region a 1 \<Longrightarrow> wr8 a v m x = m x"
  by (auto simp: wr8_def)

lemma wr16_other [frame_simps]: "x \<notin> region a 2 \<Longrightarrow> wr16 a v m x = m x"
  by (auto simp: wr16_def)

lemma wr32_other [frame_simps]: "x \<notin> region a 4 \<Longrightarrow> wr32 a v m x = m x"
  by (auto simp: wr32_def)

text \<open>A read only depends on the bytes of its region.\<close>

lemma rd8_cong: "(\<And>x. x \<in> region a 1 \<Longrightarrow> m x = m' x) \<Longrightarrow> rd8 m a = rd8 m' a"
  by (simp add: rd8_def)

lemma rd16_cong: "(\<And>x. x \<in> region a 2 \<Longrightarrow> m x = m' x) \<Longrightarrow> rd16 m a = rd16 m' a"
  by (simp add: rd16_def)

lemma rd32_cong: "(\<And>x. x \<in> region a 4 \<Longrightarrow> m x = m' x) \<Longrightarrow> rd32 m a = rd32 m' a"
  by (simp add: rd32_def)

lemma apart_notin: "apart a n b k \<Longrightarrow> x \<in> region b k \<Longrightarrow> x \<notin> region a n"
  using apart_disjoint by blast

lemma rd8_wr8_apart [mem_simps]: "apart a 1 b 1 \<Longrightarrow> rd8 (wr8 a v m) b = rd8 m b"
  by (intro rd8_cong wr8_other) (rule apart_notin)

lemma rd8_wr32_apart [mem_simps]: "apart a 4 b 1 \<Longrightarrow> rd8 (wr32 a v m) b = rd8 m b"
  by (intro rd8_cong wr32_other) (rule apart_notin)

lemma rd16_wr16_apart [mem_simps]: "apart a 2 b 2 \<Longrightarrow> rd16 (wr16 a v m) b = rd16 m b"
  by (intro rd16_cong wr16_other) (rule apart_notin)

lemma rd32_wr8_apart [mem_simps]: "apart a 1 b 4 \<Longrightarrow> rd32 (wr8 a v m) b = rd32 m b"
  by (intro rd32_cong wr8_other) (rule apart_notin)

lemma rd32_wr32_apart [mem_simps]: "apart a 4 b 4 \<Longrightarrow> rd32 (wr32 a v m) b = rd32 m b"
  by (intro rd32_cong wr32_other) (rule apart_notin)

section \<open>Byte strings in memory\<close>

definition bytes_at :: "mem \<Rightarrow> u32 \<Rightarrow> nat \<Rightarrow> u8 list" where
  "bytes_at m a n = map (\<lambda>i. m (a + of_nat i)) [0..<n]"

lemma length_bytes_at [simp]: "length (bytes_at m a n) = n"
  by (simp add: bytes_at_def)

lemma nth_bytes_at [simp]: "i < n \<Longrightarrow> bytes_at m a n ! i = m (a + of_nat i)"
  by (simp add: bytes_at_def)

lemma bytes_at_0 [simp]: "bytes_at m a 0 = []"
  by (simp add: bytes_at_def)

lemma bytes_at_Suc: "bytes_at m a (Suc n) = m a # bytes_at m (a + 1) n"
  by (simp add: bytes_at_def map_upt_Suc add.assoc del: upt_Suc)

lemma bytes_at_add: "bytes_at m a (n + k) = bytes_at m a n @ bytes_at m (a + of_nat n) k"
  by (induction n arbitrary: a) (simp_all add: bytes_at_Suc add.assoc)

lemma of_nat_in_region:
  assumes "i < n" "n \<le> 4294967296"
  shows "a + of_nat i \<in> region a n"
  using assms by (simp add: region_def unsigned_of_nat take_bit_eq_mod)

lemma bytes_at_cong:
  assumes "\<And>x. x \<in> region a n \<Longrightarrow> m x = m' x" "n \<le> 4294967296"
  shows "bytes_at m a n = bytes_at m' a n"
  using assms by (auto simp: bytes_at_def of_nat_in_region)

lemma region_Suc:
  assumes "n < 4294967296"
  shows "region d (Suc n) = insert d (region (d + 1) n)"
proof -
  have y: "unat y < Suc n \<longleftrightarrow> y = 0 \<or> unat (y - 1) < n" for y :: u32
  proof (cases "y = 0")
    case False
    then have "0 < unat y" by (simp add: unat_gt_0)
    then show ?thesis using False by (simp add: unat_sub32) auto
  qed simp
  have "unat (x - d) < Suc n \<longleftrightarrow> x = d \<or> unat (x - (d + 1)) < n" for x
    using y [of "x - d"] by (simp add: diff_diff_eq)
  then show ?thesis by (auto simp: region_def)
qed

section \<open>src/kernel/std/string.cpp\<close>

text \<open>\<open>rep movsb\<close> with the direction flag clear: one byte at a time, upwards.\<close>

primrec movsb :: "nat \<Rightarrow> u32 \<Rightarrow> u32 \<Rightarrow> mem \<Rightarrow> mem" where
  "movsb 0 d s m = m"
| "movsb (Suc n) d s m = movsb n (d + 1) (s + 1) (m(d := m s))"

definition memcpy :: "u32 \<Rightarrow> u32 \<Rightarrow> u32 \<Rightarrow> mem \<Rightarrow> mem" where
  "memcpy dst src sz m = movsb (unat sz) dst src m"

function memcmp_loop :: "mem \<Rightarrow> u32 \<Rightarrow> u32 \<Rightarrow> u32 \<Rightarrow> u32 \<Rightarrow> int" where
  "memcmp_loop m lhs rhs count i =
     (if i < count then
        if rd8 m (lhs + i) \<noteq> rd8 m (rhs + i) then uint (rd8 m (lhs + i)) - uint (rd8 m (rhs + i))
        else memcmp_loop m lhs rhs count (i + 1)
      else 0)"
  by pat_completeness auto
termination
proof (relation "measure (\<lambda>(m, lhs, rhs, count, i). unat count - unat i)", goal_cases)
  case 1
  show ?case by simp
next
  case (2 m lhs rhs count i)
  then have "unat i < unat count" by (simp add: word_less_nat_alt)
  moreover have "unat count < 4294967296" by (rule unat_lt32)
  ultimately show ?case by (simp add: unat_word_ariths)
qed

declare memcmp_loop.simps [simp del]

definition memcmp :: "mem \<Rightarrow> u32 \<Rightarrow> u32 \<Rightarrow> u32 \<Rightarrow> int" where
  "memcmp m lhs rhs count = memcmp_loop m lhs rhs count 0"

text \<open>\<open>rep stosb\<close> and \<open>rep stosw\<close>.\<close>

primrec stosb :: "nat \<Rightarrow> u32 \<Rightarrow> u8 \<Rightarrow> mem \<Rightarrow> mem" where
  "stosb 0 d c m = m"
| "stosb (Suc n) d c m = stosb n (d + 1) c (wr8 d c m)"

definition memset :: "u32 \<Rightarrow> u8 \<Rightarrow> u32 \<Rightarrow> mem \<Rightarrow> mem" where
  "memset dst c count m = stosb (unat count) dst c m"

primrec stosw :: "nat \<Rightarrow> u32 \<Rightarrow> u16 \<Rightarrow> mem \<Rightarrow> mem" where
  "stosw 0 d c m = m"
| "stosw (Suc n) d c m = stosw n (d + 2) c (wr16 d c m)"

definition memset16 :: "u32 \<Rightarrow> u16 \<Rightarrow> u32 \<Rightarrow> mem \<Rightarrow> mem" where
  "memset16 dst c count m = stosw (unat count) dst c m"

section \<open>What the string routines do\<close>

lemma movsb_other [frame_simps]:
  "x \<notin> region d n \<Longrightarrow> n \<le> 4294967296 \<Longrightarrow> movsb n d s m x = m x"
  by (induction n arbitrary: d s m) (auto simp: region_Suc)

lemma movsb_at:
  "n \<le> unat (d - s) \<or> d = s \<Longrightarrow> n \<le> 4294967295 \<Longrightarrow> i < n
   \<Longrightarrow> movsb n d s m (d + of_nat i) = m (s + of_nat i)"
proof (induction n arbitrary: d s m i)
  case 0
  then show ?case by simp
next
  case (Suc n)
  have d: "d \<notin> region (d + 1) n"
    using Suc.prems(2) by (simp add: region_def unat_minus_1_32)
  show ?case
  proof (cases i)
    case 0
    with d Suc.prems(2) show ?thesis by (simp add: movsb_other)
  next
    case i: (Suc j)
    have ne: "s + of_nat i \<noteq> d" if "d \<noteq> s"
    proof
      assume "s + of_nat i = d"
      then have "unat (d - s) = unat (of_nat i :: u32)" by auto
      also have "\<dots> = i"
        using Suc.prems(2,3) by (simp add: unsigned_of_nat take_bit_eq_mod)
      finally show False using Suc.prems that by simp
    qed
    have eqs: "d + of_nat i = (d + 1) + of_nat j" "s + of_nat i = (s + 1) + of_nat j"
      by (simp_all add: i add.assoc)
    have "n \<le> unat (d + 1 - (s + 1)) \<or> d + 1 = s + 1"
      using Suc.prems(1) by auto
    then have "movsb n (d + 1) (s + 1) (m(d := m s)) (d + 1 + of_nat j)
      = (m(d := m s)) (s + 1 + of_nat j)"
      by (rule Suc.IH) (use Suc.prems i in auto)
    also have "\<dots> = m (s + of_nat i)"
      using ne eqs(2) by (cases "d = s") (auto simp: add.assoc)
    finally show ?thesis unfolding movsb.simps eqs .
  qed
qed

lemma bytes_at_movsb:
  assumes "n \<le> unat (d - s) \<or> d = s" "n \<le> 4294967295"
  shows "bytes_at (movsb n d s m) d n = bytes_at m s n"
  using assms by (auto simp: bytes_at_def movsb_at)

lemma memcpy_other [frame_simps]:
  "x \<notin> region dst (unat sz) \<Longrightarrow> memcpy dst src sz m x = m x"
  using unat_lt32 [of sz] by (simp add: memcpy_def movsb_other)

lemma bytes_at_memcpy [mem_simps]:
  "apart src (unat sz) dst (unat sz) \<Longrightarrow>
   bytes_at (memcpy dst src sz m) dst (unat sz) = bytes_at m src (unat sz)"
  unfolding memcpy_def using unat_lt32 [of sz]
  by (intro bytes_at_movsb) (auto simp: apart_def)

lemma stosb_other [frame_simps]:
  "x \<notin> region d n \<Longrightarrow> n \<le> 4294967296 \<Longrightarrow> stosb n d c m x = m x"
  by (induction n arbitrary: d m) (auto simp: region_Suc wr8_def)

lemma stosb_in:
  "x \<in> region d n \<Longrightarrow> n \<le> 4294967295 \<Longrightarrow> stosb n d c m x = c"
proof (induction n arbitrary: d m)
  case 0
  then show ?case by simp
next
  case (Suc n)
  have d: "d \<notin> region (d + 1) n"
    using Suc.prems(2) by (simp add: region_def unat_minus_1_32)
  show ?case
    using Suc d by (cases "x = d") (auto simp: region_Suc wr8_def stosb_other)
qed

lemma memset_apply:
  "memset dst c count m x = (if x \<in> region dst (unat count) then c else m x)"
  using unat_lt32 [of count] by (simp add: memset_def stosb_in stosb_other)

lemma stosw_other [frame_simps]:
  "x \<notin> region d (2 * n) \<Longrightarrow> 2 * n \<le> 4294967295 \<Longrightarrow> stosw n d c m x = m x"
proof (induction n arbitrary: d m)
  case 0
  then show ?case by simp
next
  case (Suc n)
  have "region d (2 * Suc n) = insert d (insert (d + 1) (region (d + 2) (2 * n)))"
    using Suc.prems(2) region_Suc [of "2 * n + 1" d] region_Suc [of "2 * n" "d + 1"]
    by (simp add: add.assoc)
  then show ?case using Suc by (simp add: wr16_def)
qed

text \<open>\<open>memcmp\<close> compares the two byte strings at their first difference.\<close>

fun byte_diff :: "u8 list \<Rightarrow> u8 list \<Rightarrow> int" where
  "byte_diff (x # xs) (y # ys) = (if x \<noteq> y then uint x - uint y else byte_diff xs ys)"
| "byte_diff _ _ = 0"

lemma byte_diff_eq_0: "length xs = length ys \<Longrightarrow> byte_diff xs ys = 0 \<longleftrightarrow> xs = ys"
  by (induction xs ys rule: byte_diff.induct) (auto simp: word_uint_eq_iff)

lemma memcmp_loop_byte_diff:
  "memcmp_loop m lhs rhs count i =
   byte_diff (bytes_at m (lhs + i) (unat count - unat i)) (bytes_at m (rhs + i) (unat count - unat i))"
proof (induction m lhs rhs count i rule: memcmp_loop.induct)
  case (1 m lhs rhs count i)
  show ?case
  proof (cases "i < count")
    case False
    then show ?thesis by (simp add: memcmp_loop.simps [of m lhs rhs count i] word_less_nat_alt)
  next
    case True
    then have lt: "unat i < unat count" by (simp add: word_less_nat_alt)
    then have "unat (i + 1) = unat i + 1"
      using unat_lt32 [of count] by (simp add: unat_word_ariths)
    then have "unat count - unat i = Suc (unat count - unat (i + 1))"
      using lt by simp
    then show ?thesis
      using 1 True by (simp add: memcmp_loop.simps [of m lhs rhs count i] bytes_at_Suc rd8_def add.assoc)
  qed
qed

lemma memcmp_byte_diff:
  "memcmp m lhs rhs count = byte_diff (bytes_at m lhs (unat count)) (bytes_at m rhs (unat count))"
  by (simp add: memcmp_def memcmp_loop_byte_diff)

lemma memcmp_eq_0:
  "memcmp m lhs rhs count = 0 \<longleftrightarrow> bytes_at m lhs (unat count) = bytes_at m rhs (unat count)"
  by (simp add: memcmp_byte_diff byte_diff_eq_0)

end
