(* ===== verification/Inet.thy ===== *)
theory Inet
  imports Memory
begin

text \<open>
  Byte order conversion, \<open>src/kernel/std/inet.cpp\<close>.
\<close>

definition htonl :: "u32 \<Rightarrow> u32" where
  "htonl value = drop_bit 24 (value AND 0xff000000) OR drop_bit 8 (value AND 0x00ff0000)
     OR push_bit 8 (value AND 0x0000ff00) OR push_bit 24 (value AND 0x000000ff)"

definition htons :: "u16 \<Rightarrow> u16" where
  "htons value = drop_bit 8 (value AND 0xff00) OR push_bit 8 (value AND 0x00ff)"

definition ntohl :: "u32 \<Rightarrow> u32" where
  "ntohl value = htonl value"

definition ntohs :: "u16 \<Rightarrow> u16" where
  "ntohs value = htons value"

lemma mask16: "(0xff00 :: u16) = push_bit 8 (mask 8)" "(0x00ff :: u16) = mask 8"
  by (simp_all add: mask_eq_exp_minus_1)

lemma mask32:
  "(0xff000000 :: u32) = push_bit 24 (mask 8)" "(0x00ff0000 :: u32) = push_bit 16 (mask 8)"
  "(0x0000ff00 :: u32) = push_bit 8 (mask 8)" "(0x000000ff :: u32) = mask 8"
  by (simp_all add: mask_eq_exp_minus_1)

lemma bit_htons:
  "bit (htons v) n \<longleftrightarrow> (if n < 8 then bit v (n + 8) else n < 16 \<and> bit v (n - 8))"
  unfolding htons_def mask16
  by (auto simp: bit_or_iff bit_and_iff bit_push_bit_iff bit_drop_bit_eq bit_mask_iff add.commute
      dest: bit_imp_le_length)

lemma htons_htons [simp]: "htons (htons v) = v"
  by (rule bit_word_eqI) (auto simp: bit_htons)

lemma htons_inject [simp]: "htons v = htons w \<longleftrightarrow> v = w"
  by (metis htons_htons)

lemma ntohs_htons [simp]: "ntohs (htons v) = v" "htons (ntohs v) = v"
  by (simp_all add: ntohs_def)

lemma bit_htonl:
  "bit (htonl v) n \<longleftrightarrow>
     (if n < 8 then bit v (n + 24) else if n < 16 then bit v (n + 8)
      else if n < 24 then bit v (n - 8) else n < 32 \<and> bit v (n - 24))"
  unfolding htonl_def mask32
  by (auto simp: bit_or_iff bit_and_iff bit_push_bit_iff bit_drop_bit_eq bit_mask_iff add.commute
      dest: bit_imp_le_length)

lemma htonl_htonl [simp]: "htonl (htonl v) = v"
  by (rule bit_word_eqI) (auto simp: bit_htonl)

lemma ntohl_htonl [simp]: "ntohl (htonl v) = v" "htonl (ntohl v) = v"
  by (simp_all add: ntohl_def)

text \<open>A converted value lies in memory most significant byte first.\<close>

definition be16 :: "u16 \<Rightarrow> u8 list" where
  "be16 v = [ucast (drop_bit 8 v), ucast v]"

lemma ucast_htons: "(ucast (htons v) :: u8) = ucast (drop_bit 8 v)"
  by (rule bit_word_eqI) (auto simp: bit_htons bit_ucast_iff bit_drop_bit_eq add.commute)

lemma ucast_drop_htons: "(ucast (drop_bit 8 (htons v)) :: u8) = ucast v"
  by (rule bit_word_eqI) (auto simp: bit_htons bit_ucast_iff bit_drop_bit_eq add.commute)

lemma bytes_at_wr16_htons: "bytes_at (wr16 a (htons v) m) a 2 = be16 v"
  by (simp add: bytes_at_Suc numeral_2_eq_2 wr16_def be16_def ucast_htons ucast_drop_htons)

lemma unat_htons: "unat (htons v) = unat v mod 256 * 256 + unat v div 256"
proof -
  have "htons v = push_bit 8 (take_bit 8 v) OR drop_bit 8 v"
    by (rule bit_word_eqI) (auto simp: bit_htons bit_or_iff bit_push_bit_iff bit_take_bit_iff
        bit_drop_bit_eq add.commute dest: bit_imp_le_length)
  also have "\<dots> = push_bit 8 (take_bit 8 v) + drop_bit 8 v"
    by (rule disjunctive_add_eq_or [symmetric]; rule bit_word_eqI)
      (auto simp: bit_and_iff bit_push_bit_iff bit_take_bit_iff bit_drop_bit_eq
        dest: bit_imp_le_length)
  finally have "htons v = push_bit 8 (take_bit 8 v) + drop_bit 8 v" .
  moreover have "unat v div 256 < 256" "unat v div 256 < 65536"
    using unat_lt16 [of v] by (simp_all add: div_less_iff_less_mult)
  moreover have "unat v mod 256 * 256 + unat v div 256 < 65536"
    using \<open>unat v div 256 < 256\<close> mod_less_divisor [of 256 "unat v"] by linarith
  ultimately show ?thesis
    by (simp add: unat_word_ariths unsigned_push_bit_eq unsigned_take_bit_eq unsigned_drop_bit_eq
        take_bit_eq_mod drop_bit_eq_div push_bit_eq_mult)
qed

end
