(* ===== verification/Machine.thy ===== *)
theory Machine
  imports Inet
begin

text \<open>
  The machine the kernel runs on and its port I/O (\<open>src/kernel/drivers/io.cpp\<close>,
  \<open>src/kernel/debug/bochs.cpp\<close>). The state holds the byte memory and the log of all
  port accesses so far, newest first. The hardware is not part of the repository: what
  a port read answers is a parameter, a function of the whole log and the port, one
  field per access width, which no operation of the kernel changes.
\<close>

datatype io_event =
    Out8 u16 u8 | Out16 u16 u16 | Out32 u16 u32
  | In8 u16 u8 | In16 u16 u16 | In32 u16 u32

record machine =
  mem :: mem
  port_log :: "io_event list"
  hw8 :: "io_event list \<Rightarrow> u16 \<Rightarrow> u8"
  hw16 :: "io_event list \<Rightarrow> u16 \<Rightarrow> u16"
  hw32 :: "io_event list \<Rightarrow> u16 \<Rightarrow> u32"

section \<open>src/kernel/drivers/io.cpp\<close>

definition write8 :: "u16 \<Rightarrow> u8 \<Rightarrow> 'a machine_scheme \<Rightarrow> 'a machine_scheme" where
  "write8 port v s = s\<lparr>port_log := Out8 port v # port_log s\<rparr>"

text \<open>The two jumps after the write only spend time.\<close>

definition write8_slow :: "u16 \<Rightarrow> u8 \<Rightarrow> 'a machine_scheme \<Rightarrow> 'a machine_scheme" where
  "write8_slow port v s = write8 port v s"

definition write16 :: "u16 \<Rightarrow> u16 \<Rightarrow> 'a machine_scheme \<Rightarrow> 'a machine_scheme" where
  "write16 port v s = s\<lparr>port_log := Out16 port v # port_log s\<rparr>"

definition write32 :: "u16 \<Rightarrow> u32 \<Rightarrow> 'a machine_scheme \<Rightarrow> 'a machine_scheme" where
  "write32 port v s = s\<lparr>port_log := Out32 port v # port_log s\<rparr>"

definition read8 :: "u16 \<Rightarrow> 'a machine_scheme \<Rightarrow> u8 \<times> 'a machine_scheme" where
  "read8 port s =
     (let data = hw8 s (port_log s) port in (data, s\<lparr>port_log := In8 port data # port_log s\<rparr>))"

definition read16 :: "u16 \<Rightarrow> 'a machine_scheme \<Rightarrow> u16 \<times> 'a machine_scheme" where
  "read16 port s =
     (let data = hw16 s (port_log s) port in (data, s\<lparr>port_log := In16 port data # port_log s\<rparr>))"

definition read32 :: "u16 \<Rightarrow> 'a machine_scheme \<Rightarrow> u32 \<times> 'a machine_scheme" where
  "read32 port s =
     (let data = hw32 s (port_log s) port in (data, s\<lparr>port_log := In32 port data # port_log s\<rparr>))"

lemmas port_defs = write8_def write8_slow_def write16_def write32_def
  read8_def read16_def read32_def

section \<open>C strings\<close>

text \<open>
  The kernel only prints string literals and its own NUL-terminated buffers. A C string
  is the list of bytes from the pointer on, terminator included; reading past the end of
  that list is an access outside the object and has no result.
\<close>

type_synonym c_string = "u8 list"

definition byte_of_char :: "char \<Rightarrow> u8" where
  "byte_of_char c = of_nat (of_char c)"

definition lit :: "string \<Rightarrow> c_string" where
  "lit cs = map byte_of_char cs @ [0]"

section \<open>src/kernel/debug/bochs.cpp\<close>

fun bochs_print :: "c_string \<Rightarrow> 'a machine_scheme \<Rightarrow> 'a machine_scheme option" where
  "bochs_print [] s = None"
| "bochs_print (c # msg) s = (if c \<noteq> 0 then bochs_print msg (write8 0xe9 c s) else Some s)"

lemma bochs_print_nul:
  "0 \<notin> set cs \<Longrightarrow>
   bochs_print (cs @ 0 # rest) s = Some (s\<lparr>port_log := map (Out8 0xe9) (rev cs) @ port_log s\<rparr>)"
  by (induction cs arbitrary: s) (auto simp: write8_def)

lemma bochs_print_unterminated: "0 \<notin> set cs \<Longrightarrow> bochs_print cs s = None"
  by (induction cs arbitrary: s) auto

end
