(* ===== verification/Allocator.thy ===== *)
theory Allocator
  imports Prelude
begin

text \<open>
  The contract the two allocators of the kernel (page frames and heap) share, and what
  a client gets from it. An allocator hands out pointers that nobody owns, an exhausted
  one hands out nothing and keeps its state, and freeing an owned pointer takes exactly
  that pointer back. A client makes requests in any order and frees only pointers it
  holds; \<open>client_run\<close> relates the states such a client can go through.
\<close>

inductive client_run ::
  "('n \<Rightarrow> 's \<Rightarrow> bool) \<Rightarrow> ('n \<Rightarrow> 's \<Rightarrow> ('p option \<times> 's) option) \<Rightarrow> ('p \<Rightarrow> 's \<Rightarrow> 's option)
    \<Rightarrow> 's \<Rightarrow> 's \<Rightarrow> 'p set \<Rightarrow> bool"
  for ok al fr s0 where
  start: "client_run ok al fr s0 s0 {}"
| got: "client_run ok al fr s0 s H \<Longrightarrow> ok n s \<Longrightarrow> al n s = Some (Some p, s')
     \<Longrightarrow> client_run ok al fr s0 s' (insert p H)"
| full: "client_run ok al fr s0 s H \<Longrightarrow> ok n s \<Longrightarrow> al n s = Some (None, s')
     \<Longrightarrow> client_run ok al fr s0 s' H"
| gave: "client_run ok al fr s0 s H \<Longrightarrow> p \<in> H \<Longrightarrow> fr p s = Some s'
     \<Longrightarrow> client_run ok al fr s0 s' (H - {p})"

locale allocator =
  fixes inv :: "'s \<Rightarrow> bool"
    and owned :: "'s \<Rightarrow> 'p set"
    and ok :: "'n \<Rightarrow> 's \<Rightarrow> bool"
    and al :: "'n \<Rightarrow> 's \<Rightarrow> ('p option \<times> 's) option"
    and fr :: "'p \<Rightarrow> 's \<Rightarrow> 's option"
  assumes al_total: "inv s \<Longrightarrow> ok n s \<Longrightarrow> al n s \<noteq> None"
    and al_fresh: "inv s \<Longrightarrow> ok n s \<Longrightarrow> al n s = Some (Some p, s') \<Longrightarrow>
          inv s' \<and> p \<notin> owned s \<and> owned s' = insert p (owned s)"
    and al_full: "inv s \<Longrightarrow> ok n s \<Longrightarrow> al n s = Some (None, s') \<Longrightarrow> s' = s"
    and fr_owned: "inv s \<Longrightarrow> p \<in> owned s \<Longrightarrow>
          \<exists>s'. fr p s = Some s' \<and> inv s' \<and> owned s' = owned s - {p}"
begin

text \<open>Exact accounting: what is owned is what was owned at the start and what the
  client holds, and the two never overlap.\<close>

lemma accounting:
  assumes "client_run ok al fr s0 s H" "inv s0"
  shows "inv s \<and> owned s = owned s0 \<union> H \<and> owned s0 \<inter> H = {}"
  using assms
proof (induction rule: client_run.induct)
  case start
  then show ?case by simp
next
  case (got s H n p s')
  then show ?case using al_fresh [of s n p s'] by auto
next
  case (full s H n s')
  then show ?case using al_full [of s n s'] by auto
next
  case (gave s H p s')
  then show ?case using fr_owned [of s p] by fastforce
qed

text \<open>A pointer handed out in a run is neither held nor part of what was owned before.\<close>

lemma never_twice:
  assumes "client_run ok al fr s0 s H" "inv s0" "ok n s" "al n s = Some (Some p, s')"
  shows "p \<notin> H \<and> p \<notin> owned s0"
  using accounting [OF assms(1,2)] al_fresh [OF _ assms(3,4)] by auto

text \<open>No request of such a client is without a result.\<close>

lemma never_stuck:
  assumes "client_run ok al fr s0 s H" "inv s0"
  shows "(ok n s \<longrightarrow> al n s \<noteq> None) \<and> (p \<in> H \<longrightarrow> fr p s \<noteq> None)"
  using accounting [OF assms] al_total [of s n] fr_owned [of s p] by auto

text \<open>A client that gives everything back leaves the ownership it found.\<close>

lemma balanced:
  assumes "client_run ok al fr s0 s {}" "inv s0"
  shows "owned s = owned s0"
  using accounting [OF assms] by simp

end

end
