(* ===== verification/Frames.thy ===== *)
theory Frames
  imports Machine Allocator
begin

text \<open>
  The page frame allocator, \<open>src/kernel/memory/frame_alloc.cpp\<close>: one bit per 4 KiB frame,
  set when the frame is owned. The bitmap is an array of \<open>FRAME_BITMAP_SIZE\<close> bytes; an
  index outside it is an access outside the object and has no result (\<open>None\<close>).
  \<open>&_kernel_end\<close> is a symbol of the linker script and a parameter.
\<close>

definition FRAME_BITMAP_SIZE :: nat where
  "FRAME_BITMAP_SIZE = 0x10000"

record frames = machine +
  bitmap :: "nat \<Rightarrow> u8"

text \<open>The three bit operations take an \<open>int\<close>; a negative one indexes before the array
  or shifts by a negative count.\<close>

definition mark_as_owned :: "int \<Rightarrow> 'a frames_scheme \<Rightarrow> 'a frames_scheme option" where
  "mark_as_owned i s =
     (let bitmap_byte = nat i div 8; byte_index = nat i mod 8
      in if 0 \<le> i \<and> bitmap_byte < FRAME_BITMAP_SIZE
         then Some (s\<lparr>bitmap := (bitmap s)
           (bitmap_byte := bitmap s bitmap_byte OR push_bit byte_index 1)\<rparr>)
         else None)"

definition mark_as_free :: "int \<Rightarrow> 'a frames_scheme \<Rightarrow> 'a frames_scheme option" where
  "mark_as_free i s =
     (let bitmap_byte = nat i div 8; byte_index = nat i mod 8
      in if 0 \<le> i \<and> bitmap_byte < FRAME_BITMAP_SIZE
         then Some (s\<lparr>bitmap := (bitmap s)
           (bitmap_byte := bitmap s bitmap_byte AND NOT (push_bit byte_index 1))\<rparr>)
         else None)"

definition get_frame :: "int \<Rightarrow> 'a frames_scheme \<Rightarrow> bool option" where
  "get_frame i s =
     (let bitmap_byte = nat i div 8; byte_index = nat i mod 8
      in if 0 \<le> i \<and> bitmap_byte < FRAME_BITMAP_SIZE
         then Some (bitmap s bitmap_byte AND push_bit byte_index 1 \<noteq> 0)
         else None)"

text \<open>\<open>init\<close>: the loop compares \<open>i * 4096\<close> in 32 bits.\<close>

function frames_init_loop :: "u32 \<Rightarrow> u32 \<Rightarrow> 'a frames_scheme \<Rightarrow> 'a frames_scheme option" where
  "frames_init_loop kernel_end i s =
     (if i * 4096 < kernel_end + 0x10000 then
        case mark_as_owned (sint i) s of
          None \<Rightarrow> None
        | Some s' \<Rightarrow> frames_init_loop kernel_end (i + 1) s'
      else Some s)"
  by pat_completeness auto

lemma mark_as_owned_bound: "mark_as_owned (sint (i :: u32)) s = Some s' \<Longrightarrow> unat i < 524288"
  using unat_lt32 [of i]
  by (auto simp: mark_as_owned_def Let_def FRAME_BITMAP_SIZE_def sint32 split: if_splits)

termination frames_init_loop
proof (relation "measure (\<lambda>(k, i, s). 524288 - unat i)", goal_cases)
  case 1
  show ?case by simp
next
  case (2 kernel_end i s s')
  then have "unat i < 524288" by (auto dest: mark_as_owned_bound)
  then show ?case by (simp add: unat_word_ariths)
qed

declare frames_init_loop.simps [simp del]

definition frames_init :: "u32 \<Rightarrow> 'a frames_scheme \<Rightarrow> 'a frames_scheme option" where
  "frames_init kernel_end s = frames_init_loop kernel_end 0 s"

text \<open>\<open>alloc\<close>: first fit; \<open>(void* )-1\<close> when every frame is owned.\<close>

function frames_alloc_loop :: "u32 \<Rightarrow> 'a frames_scheme \<Rightarrow> (u32 \<times> 'a frames_scheme) option" where
  "frames_alloc_loop i s =
     (if i < 8 * of_nat FRAME_BITMAP_SIZE then
        case get_frame (sint i) s of
          None \<Rightarrow> None
        | Some used \<Rightarrow>
            if \<not> used then
              case mark_as_owned (sint i) s of None \<Rightarrow> None | Some s' \<Rightarrow> Some (i * 4096, s')
            else frames_alloc_loop (i + 1) s
      else Some (-1, s))"
  by pat_completeness auto
termination
proof (relation "measure (\<lambda>(i, s). 524288 - unat i)", goal_cases)
  case 1
  show ?case by simp
next
  case (2 i s used)
  then have "unat i < 524288" by (simp add: FRAME_BITMAP_SIZE_def word_less_nat_alt)
  then show ?case by (simp add: unat_word_ariths)
qed

declare frames_alloc_loop.simps [simp del]

definition frames_alloc :: "'a frames_scheme \<Rightarrow> (u32 \<times> 'a frames_scheme) option" where
  "frames_alloc s = frames_alloc_loop 0 s"

definition frames_free :: "u32 \<Rightarrow> 'a frames_scheme \<Rightarrow> 'a frames_scheme option" where
  "frames_free ptr s = (let i = ptr div 4096 in mark_as_free (sint i) s)"

section \<open>The set of owned frames\<close>

definition owned_frames :: "'a frames_scheme \<Rightarrow> nat set" where
  "owned_frames s = {i. i < 524288 \<and> bit (bitmap s (i div 8)) (i mod 8)}"

definition own_frame :: "nat \<Rightarrow> 'a frames_scheme \<Rightarrow> 'a frames_scheme" where
  "own_frame i s = s\<lparr>bitmap := (bitmap s)
     (i div 8 := bitmap s (i div 8) OR push_bit (i mod 8) 1)\<rparr>"

definition disown_frame :: "nat \<Rightarrow> 'a frames_scheme \<Rightarrow> 'a frames_scheme" where
  "disown_frame i s = s\<lparr>bitmap := (bitmap s)
     (i div 8 := bitmap s (i div 8) AND NOT (push_bit (i mod 8) 1))\<rparr>"

lemma bit_power_byte: "k < 8 \<Longrightarrow> bit (2 ^ k :: u8) j \<longleftrightarrow> j = k"
  by (auto simp: bit_exp_iff)

lemma byte_index: "i div 8 < 65536 \<longleftrightarrow> i < (524288 :: nat)"
  by (simp add: div_less_iff_less_mult)

lemma frame_index: "i div 8 = j div 8 \<Longrightarrow> i mod 8 = j mod 8 \<Longrightarrow> i = (j :: nat)"
  by (metis div_mult_mod_eq)

lemma owned_own_frame: "i < 524288 \<Longrightarrow> owned_frames (own_frame i s) = insert i (owned_frames s)"
  by (auto simp: owned_frames_def own_frame_def bit_or_iff bit_power_byte
      dest: frame_index split: if_splits)

lemma owned_disown_frame: "owned_frames (disown_frame i s) = owned_frames s - {i}"
  by (auto simp: owned_frames_def disown_frame_def bit_and_iff bit_not_iff bit_power_byte
      dest: frame_index split: if_splits)

lemma mark_as_owned_eq:
  "mark_as_owned (int i) s = (if i < 524288 then Some (own_frame i s) else None)"
  by (auto simp: mark_as_owned_def own_frame_def FRAME_BITMAP_SIZE_def Let_def byte_index)

lemma mark_as_free_eq:
  "mark_as_free (int i) s = (if i < 524288 then Some (disown_frame i s) else None)"
  by (auto simp: mark_as_free_def disown_frame_def FRAME_BITMAP_SIZE_def Let_def byte_index)

lemma get_frame_eq:
  "get_frame (int i) s = (if i < 524288 then Some (i \<in> owned_frames s) else None)"
  by (auto simp: get_frame_def owned_frames_def FRAME_BITMAP_SIZE_def Let_def byte_index
      bit_iff_and_push_bit_not_eq_0)

text \<open>The same for the \<open>unsigned int\<close> counters of the callers.\<close>

lemma sint_frame: "unat (i :: u32) < 2147483648 \<Longrightarrow> sint i = int (unat i)"
  unfolding sint32 by simp

lemma negative_frame:
  assumes "\<not> unat (i :: u32) < 2147483648"
  shows "sint i < 0"
  using assms unat_lt32 [of i] unfolding sint32 by (simp del: of_nat_unat)

lemma mark_as_owned_word:
  "mark_as_owned (sint (i :: u32)) s = (if unat i < 524288 then Some (own_frame (unat i) s) else None)"
proof (cases "unat i < 2147483648")
  case True
  show ?thesis unfolding sint_frame [OF True] mark_as_owned_eq ..
next
  case False
  then show ?thesis using negative_frame [OF False] by (simp add: mark_as_owned_def Let_def)
qed

lemma mark_as_free_word:
  "mark_as_free (sint (i :: u32)) s = (if unat i < 524288 then Some (disown_frame (unat i) s) else None)"
proof (cases "unat i < 2147483648")
  case True
  show ?thesis unfolding sint_frame [OF True] mark_as_free_eq ..
next
  case False
  then show ?thesis using negative_frame [OF False] by (simp add: mark_as_free_def Let_def)
qed

lemma get_frame_word:
  "get_frame (sint (i :: u32)) s = (if unat i < 524288 then Some (unat i \<in> owned_frames s) else None)"
proof (cases "unat i < 2147483648")
  case True
  show ?thesis unfolding sint_frame [OF True] get_frame_eq ..
next
  case False
  then show ?thesis using negative_frame [OF False] by (simp add: get_frame_def Let_def)
qed

lemma own_frame_other [frame_simps]:
  "mem (own_frame i s) = mem s" "port_log (own_frame i s) = port_log s"
  by (simp_all add: own_frame_def)

lemma disown_frame_other [frame_simps]:
  "mem (disown_frame i s) = mem s" "port_log (disown_frame i s) = port_log s"
  by (simp_all add: disown_frame_def)

section \<open>Allocation and release\<close>

lemma frames_alloc_loop_eq:
  assumes "unat i \<le> 524288" "{..<unat i} \<subseteq> owned_frames s"
  shows "frames_alloc_loop i s =
    (if owned_frames s = {..<524288} then Some (-1, s)
     else let k = (LEAST k. k \<notin> owned_frames s)
       in Some (of_nat k * 4096, own_frame k s))"
  using assms
proof (induction i s rule: frames_alloc_loop.induct)
  case (1 i s)
  have sub: "owned_frames s \<subseteq> {..<524288}" by (auto simp: owned_frames_def)
  have bound: "i < 8 * of_nat FRAME_BITMAP_SIZE \<longleftrightarrow> unat i < 524288"
    by (simp add: FRAME_BITMAP_SIZE_def word_less_nat_alt)
  show ?case
  proof (cases "unat i < 524288")
    case False
    then have "owned_frames s = {..<524288}" using "1.prems" sub by auto
    then show ?thesis using False by (simp add: frames_alloc_loop.simps [of i s] bound)
  next
    case lt: True
    note frame = lt get_frame_word [of i s] mark_as_owned_word [of i s]
    show ?thesis
    proof (cases "unat i \<in> owned_frames s")
      case True
      have suc: "unat (i + 1) = unat i + 1" using lt by (simp add: unat_word_ariths)
      have "frames_alloc_loop (i + 1) s =
        (if owned_frames s = {..<524288} then Some (-1, s)
         else let k = (LEAST k. k \<notin> owned_frames s) in Some (of_nat k * 4096, own_frame k s))"
      proof (rule "1.IH")
        show "i < 8 * of_nat FRAME_BITMAP_SIZE" using lt by (simp add: bound)
        show "get_frame (sint i) s = Some True" using frame True by simp
        show "{..<unat (i + 1)} \<subseteq> owned_frames s"
          using "1.prems"(2) True by (auto simp: suc less_Suc_eq)
      qed (use lt suc in auto)
      then show ?thesis using frame True by (simp add: frames_alloc_loop.simps [of i s] bound)
    next
      case False
      have "(LEAST k. k \<notin> owned_frames s) = unat i"
        using False "1.prems"(2) by (intro Least_equality) (auto simp: not_less [symmetric])
      moreover have "owned_frames s \<noteq> {..<524288}" using False lt by auto
      ultimately show ?thesis using frame False
        by (simp add: frames_alloc_loop.simps [of i s] bound)
    qed
  qed
qed

lemma frames_alloc_eq:
  "frames_alloc s =
    (if owned_frames s = {..<524288} then Some (-1, s)
     else let k = (LEAST k. k \<notin> owned_frames s) in Some (of_nat k * 4096, own_frame k s))"
  by (simp add: frames_alloc_def frames_alloc_loop_eq)

lemma frames_free_eq:
  "frames_free p s =
    (if unat p div 4096 < 524288 then Some (disown_frame (unat p div 4096) s) else None)"
  by (simp add: frames_free_def mark_as_free_word unat_div)

lemma frames_init_loop_eq:
  assumes "unat kernel_end + 0x10000 < 0x80000000"
    and "unat i * 4096 < unat kernel_end + 0x10000 + 4096"
  shows "\<exists>bm. frames_init_loop kernel_end i s = Some (s\<lparr>bitmap := bm\<rparr>) \<and>
    owned_frames (s\<lparr>bitmap := bm\<rparr>) =
      owned_frames s \<union> {j. unat i \<le> j \<and> j * 4096 < unat kernel_end + 0x10000}"
  using assms
proof (induction kernel_end i s rule: frames_init_loop.induct)
  case (1 kernel_end i s)
  have k: "unat (kernel_end + 0x10000) = unat kernel_end + 0x10000"
    using "1.prems"(1) by (simp add: unat_word_ariths)
  have i: "unat (i * 4096) = unat i * 4096"
    using "1.prems" by (simp add: unat_word_ariths)
  show ?case
  proof (cases "unat i * 4096 < unat kernel_end + 0x10000")
    case False
    then have "frames_init_loop kernel_end i s = Some (s\<lparr>bitmap := bitmap s\<rparr>)"
      by (simp add: frames_init_loop.simps [of kernel_end i s] word_less_nat_alt k i)
    moreover have "{j. unat i \<le> j \<and> j * 4096 < unat kernel_end + 0x10000} = {}"
      using False by auto
    ultimately show ?thesis by (intro exI [of _ "bitmap s"]) auto
  next
    case True
    then have lt: "unat i < 524288" using "1.prems"(1) by simp
    have suc: "unat (i + 1) = unat i + 1" using lt by (simp add: unat_word_ariths)
    have m: "mark_as_owned (sint i) s = Some (own_frame (unat i) s)"
      using lt by (simp add: mark_as_owned_word)
    have g: "i * 4096 < kernel_end + 0x10000"
      using True by (simp add: word_less_nat_alt k i)
    obtain bm where bm: "frames_init_loop kernel_end (i + 1) (own_frame (unat i) s)
        = Some ((own_frame (unat i) s)\<lparr>bitmap := bm\<rparr>)"
      "owned_frames ((own_frame (unat i) s)\<lparr>bitmap := bm\<rparr>) = owned_frames (own_frame (unat i) s)
        \<union> {j. unat (i + 1) \<le> j \<and> j * 4096 < unat kernel_end + 0x10000}"
      using "1.IH" [OF g m] "1.prems" True suc by auto
    have "(own_frame (unat i) s)\<lparr>bitmap := bm\<rparr> = s\<lparr>bitmap := bm\<rparr>"
      by (simp add: own_frame_def)
    moreover have "{j. unat i \<le> j \<and> j * 4096 < unat kernel_end + 0x10000}
        = insert (unat i) {j. unat (i + 1) \<le> j \<and> j * 4096 < unat kernel_end + 0x10000}"
      using True suc by auto
    ultimately show ?thesis
      using bm lt g m by (auto simp: frames_init_loop.simps [of kernel_end i s] owned_own_frame)
  qed
qed

section \<open>The allocator contract\<close>

definition owned_pages :: "'a frames_scheme \<Rightarrow> u32 set" where
  "owned_pages s = (\<lambda>i. of_nat i * 4096) ` owned_frames s"

text \<open>A caller tells success from failure by comparing with \<open>(void* )-1\<close>.\<close>

definition frames_request :: "unit \<Rightarrow> 'a frames_scheme \<Rightarrow> (u32 option \<times> 'a frames_scheme) option" where
  "frames_request n s = (case frames_alloc s of None \<Rightarrow> None
     | Some (p, s') \<Rightarrow> Some (if p = -1 then None else Some p, s'))"

lemma unat_page: "i < 524288 \<Longrightarrow> unat (of_nat i * 4096 :: u32) = i * 4096"
  using unat_lt32 [of "of_nat i"]
  by (simp add: unat_mult_lem [THEN iffD1] unsigned_of_nat take_bit_nat_eq_self)

lemma page_inject:
  assumes "i < 524288" "j < 524288"
  shows "of_nat i * 4096 = (of_nat j * 4096 :: u32) \<longleftrightarrow> i = j"
proof
  assume "of_nat i * 4096 = (of_nat j * 4096 :: u32)"
  then have "unat (of_nat i * 4096 :: u32) = unat (of_nat j * 4096 :: u32)" by (rule arg_cong)
  then have "i * 4096 = j * 4096"
    unfolding unat_page [OF assms(1)] unat_page [OF assms(2)] .
  then show "i = j" by simp
qed simp

lemma page_not_minus_1:
  assumes "i < 524288"
  shows "of_nat i * 4096 \<noteq> (-1 :: u32)"
proof
  assume "of_nat i * 4096 = (-1 :: u32)"
  then have "unat (of_nat i * 4096 :: u32) = unat (- 1 :: u32)" by (rule arg_cong)
  then have "i * 4096 = 4294967295"
    unfolding unat_page [OF assms] unat_minus_1_32 .
  then show False using assms by simp
qed

lemma first_free:
  assumes "owned_frames s \<noteq> {..<524288}"
  shows "(LEAST k. k \<notin> owned_frames s) < 524288"
    and "(LEAST k. k \<notin> owned_frames s) \<notin> owned_frames s"
proof -
  have "owned_frames s \<subseteq> {..<524288}" by (auto simp: owned_frames_def)
  then obtain k where k: "k < 524288" "k \<notin> owned_frames s" using assms by blast
  then show "(LEAST k. k \<notin> owned_frames s) < 524288"
    by (meson Least_le le_less_trans)
  show "(LEAST k. k \<notin> owned_frames s) \<notin> owned_frames s"
    using k(2) by (rule LeastI)
qed

lemma owned_frames_lt: "i \<in> owned_frames s \<Longrightarrow> i < 524288"
  by (simp add: owned_frames_def)

lemma frames_request_cases:
  "frames_request n s =
    (if owned_frames s = {..<524288} then Some (None, s)
     else let k = (LEAST k. k \<notin> owned_frames s) in Some (Some (of_nat k * 4096), own_frame k s))"
  using first_free(1) [of s] page_not_minus_1
  by (auto simp: frames_request_def frames_alloc_eq Let_def)

interpretation frame_pages: allocator "\<lambda>s. True" owned_pages "\<lambda>n s. True" frames_request frames_free
proof (unfold_locales, goal_cases)
  case (1 s n)
  show ?case by (simp add: frames_request_cases Let_def)
next
  case (2 s n p s')
  let ?k = "LEAST k. k \<notin> owned_frames s"
  have nf: "owned_frames s \<noteq> {..<524288}" and p: "p = of_nat ?k * 4096" and s': "s' = own_frame ?k s"
    using 2(3) by (auto simp: frames_request_cases Let_def split: if_splits)
  have "p \<notin> owned_pages s"
    unfolding p using first_free [OF nf] by (auto simp: owned_pages_def page_inject owned_frames_lt)
  then show ?case
    using first_free [OF nf] by (simp add: p s' owned_pages_def owned_own_frame)
next
  case (3 s n s')
  then show ?case by (auto simp: frames_request_cases Let_def split: if_splits)
next
  case (4 s p)
  then obtain i where i: "i \<in> owned_frames s" "p = of_nat i * 4096"
    by (auto simp: owned_pages_def)
  then have "unat p div 4096 = i" "i < 524288"
    using unat_page [OF owned_frames_lt [OF i(1)]] by (auto dest: owned_frames_lt)
  moreover have "owned_pages (disown_frame i s) = owned_pages s - {p}"
    using i by (auto simp: owned_pages_def owned_disown_frame page_inject owned_frames_lt)
  ultimately show ?case by (simp add: frames_free_eq)
qed

lemma frames_init_eq:
  assumes "unat kernel_end + 0x10000 < 0x80000000"
  obtains bm where "frames_init kernel_end s = Some (s\<lparr>bitmap := bm\<rparr>)"
    "owned_frames (s\<lparr>bitmap := bm\<rparr>) = owned_frames s \<union> {j. j * 4096 < unat kernel_end + 0x10000}"
  using frames_init_loop_eq [OF assms, of 0 s] by (auto simp: frames_init_def)

section \<open>Properties\<close>

text \<open>
  Frame allocation is total, first fit and exact: it returns the lowest frame that is
  not owned and owns exactly that frame in addition, or \<open>(void* )-1\<close> and an unchanged
  state when all 524288 frames of the bitmap are owned.
\<close>

theorem frames_alloc_first_fit:
  "\<exists>s'. frames_alloc s =
      Some (if owned_frames s = {..<524288} then -1
            else of_nat (LEAST k. k \<notin> owned_frames s) * 4096, s')
    \<and> owned_frames s' = (if owned_frames s = {..<524288} then owned_frames s
            else insert (LEAST k. k \<notin> owned_frames s) (owned_frames s))
    \<and> mem s' = mem s \<and> port_log s' = port_log s"
  using first_free(1) [of s]
  by (simp add: frames_alloc_eq Let_def owned_own_frame frame_simps)

text \<open>
  Initialisation owns the low memory and nothing else: for a kernel image that, with
  the 64 KiB behind it, ends below the 2 GiB the bitmap describes, \<open>init\<close> returns and
  the frames it adds are exactly those that start below \<open>&_kernel_end + 0x10000\<close>.
\<close>

theorem frames_init_owns_low_memory:
  assumes "unat kernel_end + 0x10000 < 0x80000000"
  shows "\<exists>s'. frames_init kernel_end s = Some s' \<and>
    owned_frames s' = owned_frames s \<union> {j. j * 4096 < unat kernel_end + 0x10000} \<and>
    mem s' = mem s \<and> port_log s' = port_log s"
  by (rule frames_init_eq [OF assms, of s]) auto

definition example_frames :: frames where
  "example_frames = \<lparr>mem = (\<lambda>_. 0), port_log = [], hw8 = (\<lambda>_ _. 0), hw16 = (\<lambda>_ _. 0),
     hw32 = (\<lambda>_ _. 0), bitmap = (\<lambda>_. 0)\<rparr>"

lemma owned_example_frames: "owned_frames example_frames = {}"
  by (simp add: owned_frames_def example_frames_def)

theorem frames_init_owns_low_memory_witness:
  "\<exists>s'. frames_init 0x1000 example_frames = Some s' \<and> owned_frames s' = {j. j * 4096 < 0x11000}"
proof -
  have h: "unat (0x1000 :: u32) + 0x10000 < 0x80000000" by simp
  show ?thesis
    using frames_init_owns_low_memory [OF h, of example_frames] by (auto simp: owned_example_frames)
qed

text \<open>
  C4. What the frame allocator promises the rest of the kernel: start it with an empty
  bitmap and initialise it, then let a client allocate and free (frames it holds) in any
  order. The next frame it hands out is not held by the client, is page aligned, and
  starts beyond the kernel image and the 64 KiB behind it.
\<close>

theorem frames_client_safe:
  assumes "unat kernel_end + 0x10000 < 0x80000000"
    and "owned_frames s = {}" and "frames_init kernel_end s = Some s0"
    and "client_run (\<lambda>n s. True) frames_request frames_free s0 t H"
    and "frames_request () t = Some (Some p, t')"
  shows "p \<notin> H \<and> 4096 dvd unat p \<and> unat kernel_end + 0x10000 \<le> unat p"
proof -
  have fresh: "p \<notin> H \<and> p \<notin> owned_pages s0"
    by (rule frame_pages.never_twice [OF assms(4) TrueI TrueI assms(5)])
  obtain i where i: "i < 524288" "p = of_nat i * 4096" "unat p = i * 4096"
    using assms(5) first_free(1) [of t] unat_page
    by (auto simp: frames_request_cases Let_def split: if_splits)
  have "owned_frames s0 = {j. j * 4096 < unat kernel_end + 0x10000}"
    by (rule frames_init_eq [OF assms(1), of s]) (use assms(2,3) in simp)
  then have "\<not> i * 4096 < unat kernel_end + 0x10000"
    using fresh i by (auto simp: owned_pages_def)
  then show ?thesis using fresh i by simp
qed

theorem frames_client_safe_witness:
  "\<exists>s0 t'. frames_init 0x1000 example_frames = Some s0 \<and>
     frames_request () s0 = Some (Some 0x11000, t') \<and> 0x11000 \<le> unat (0x11000 :: u32)"
proof -
  have h: "unat (0x1000 :: u32) + 0x10000 < 0x80000000" by simp
  obtain s0 where s0: "frames_init 0x1000 example_frames = Some s0"
    "owned_frames s0 = {j. j * 4096 < 0x11000}"
    by (rule frames_init_eq [OF h, of example_frames]) (auto simp: owned_example_frames)
  have least: "(LEAST k. k \<notin> owned_frames s0) = 17"
    unfolding s0(2) by (rule Least_equality) auto
  have nf: "owned_frames s0 \<noteq> {..<524288}"
  proof
    assume "owned_frames s0 = {..<524288}"
    then have "17 \<in> owned_frames s0" by simp
    then show False by (simp add: s0(2))
  qed
  obtain t' where r: "frames_request () s0 = Some (Some 0x11000, t')"
    using nf by (simp add: frames_request_cases least Let_def)
  have "unat (0x1000 :: u32) + 0x10000 \<le> unat (0x11000 :: u32)"
    using frames_client_safe [OF h owned_example_frames s0(1) client_run.start r] by blast
  then show ?thesis using s0(1) r by auto
qed

text \<open>
  A frame above the 2 GiB that the bitmap describes has no bit: releasing one indexes
  beyond the array, so \<open>free\<close> has a result exactly for the addresses below 2 GiB, and
  there it gives back exactly the frame that holds the address.
\<close>

theorem frames_free_exact:
  "frames_free p s = (if unat p < 0x80000000 then Some (disown_frame (unat p div 4096) s) else None)
   \<and> owned_frames (disown_frame (unat p div 4096) s) = owned_frames s - {unat p div 4096}"
  by (simp add: frames_free_eq owned_disown_frame div_less_iff_less_mult)

end
