(* ===== verification/Heap.thy ===== *)
theory Heap
  imports Frames
begin

text \<open>
  The kernel heap, \<open>src/kernel/memory/alloc.cpp\<close>: blocks with a 16-byte header, linked in
  both directions, living in the byte memory. The operations are translated statement
  by statement: every field access goes through memory. The specification is a list of
  blocks that lie one behind the other; \<open>heap_inv\<close> relates the two.
\<close>

record heap = frames +
  heap_top :: u32

section \<open>Headers in memory\<close>

text \<open>Layout on i386: \<open>is_allocated\<close> at 0, \<open>size\<close> at 4, \<open>next\<close> at 8, \<open>prev\<close> at 12.\<close>

record heap_block_header =
  is_allocated :: bool
  blk_size :: u32
  blk_next :: u32
  blk_prev :: u32

definition sizeof_header :: u32 where
  "sizeof_header = 16"

definition read_header :: "mem \<Rightarrow> u32 \<Rightarrow> heap_block_header" where
  "read_header m a = \<lparr>is_allocated = (rd8 m a \<noteq> 0), blk_size = rd32 m (a + 4),
     blk_next = rd32 m (a + 8), blk_prev = rd32 m (a + 12)\<rparr>"

definition set_allocated :: "u32 \<Rightarrow> bool \<Rightarrow> mem \<Rightarrow> mem" where
  "set_allocated a b m = wr8 a (if b then 1 else 0) m"

definition set_size :: "u32 \<Rightarrow> u32 \<Rightarrow> mem \<Rightarrow> mem" where
  "set_size a v m = wr32 (a + 4) v m"

definition set_next :: "u32 \<Rightarrow> u32 \<Rightarrow> mem \<Rightarrow> mem" where
  "set_next a v m = wr32 (a + 8) v m"

definition set_prev :: "u32 \<Rightarrow> u32 \<Rightarrow> mem \<Rightarrow> mem" where
  "set_prev a v m = wr32 (a + 12) v m"

section \<open>The operations\<close>

text \<open>\<open>next\<close> and \<open>prev\<close> of the first header are not written.\<close>

definition heap_allocator_init :: "u32 \<Rightarrow> u32 \<Rightarrow> 'a heap_scheme \<Rightarrow> 'a heap_scheme" where
  "heap_allocator_init base sz s =
     s\<lparr>heap_top := base, mem := set_size base sz (set_allocated base False (mem s))\<rparr>"

text \<open>The search loop of \<open>kmalloc\<close>; on a cyclic list it may not end.\<close>

partial_function (option) kmalloc_search :: "mem \<Rightarrow> u32 \<Rightarrow> u32 \<Rightarrow> u32 \<Rightarrow> u32 option" where
  "kmalloc_search m sz chunk result =
     (if chunk \<noteq> 0 \<and> result = 0 then
        kmalloc_search m sz (blk_next (read_header m chunk))
          (if sz < blk_size (read_header m chunk) \<and> \<not> is_allocated (read_header m chunk)
           then chunk else result)
      else Some result)"

definition kmalloc_split :: "u32 \<Rightarrow> u32 \<Rightarrow> mem \<Rightarrow> mem" where
  "kmalloc_split result sz m0 =
     (let tmp = result + sizeof_header + sz;
          m1 = set_allocated tmp False m0;
          m2 = set_prev tmp result m1;
          m3 = set_next tmp (blk_next (read_header m2 result)) m2;
          m4 = set_size tmp (blk_size (read_header m3 result) - sz - sizeof_header) m3;
          m5 = (if blk_next (read_header m4 tmp) \<noteq> 0
                then set_prev (blk_next (read_header m4 tmp)) tmp m4 else m4);
          m6 = set_next result tmp m5
      in set_size result sz m6)"

definition kmalloc :: "u32 \<Rightarrow> 'a heap_scheme \<Rightarrow> (u32 \<times> 'a heap_scheme) option" where
  "kmalloc sz s =
     (case kmalloc_search (mem s) sz (heap_top s) 0 of
        None \<Rightarrow> None
      | Some result \<Rightarrow>
          if result = 0 then Some (-1, s)
          else
            let m = (if sz + sizeof_header < blk_size (read_header (mem s) result)
                     then kmalloc_split result sz (mem s) else mem s)
            in Some (result + sizeof_header, s\<lparr>mem := set_allocated result True m\<rparr>))"

text \<open>\<open>kfree\<close>: the block is marked free, merged into a free predecessor, then its free
  successor is merged into it.\<close>

definition kfree_merge_prev :: "u32 \<Rightarrow> mem \<Rightarrow> u32 \<times> mem" where
  "kfree_merge_prev block m0 =
     (if blk_prev (read_header m0 block) \<noteq> 0
         \<and> \<not> is_allocated (read_header m0 (blk_prev (read_header m0 block)))
      then
        let m1 = set_next (blk_prev (read_header m0 block)) (blk_next (read_header m0 block)) m0;
            m2 = (if blk_next (read_header m1 block) \<noteq> 0
                  then set_prev (blk_next (read_header m1 block)) (blk_prev (read_header m1 block)) m1
                  else m1);
            prev = blk_prev (read_header m2 block);
            m3 = set_size prev
              (blk_size (read_header m2 prev) + (blk_size (read_header m2 block) + sizeof_header)) m2
        in (blk_prev (read_header m3 block), m3)
      else (block, m0))"

definition kfree_merge_next :: "u32 \<Rightarrow> mem \<Rightarrow> mem" where
  "kfree_merge_next block m0 =
     (if blk_next (read_header m0 block) \<noteq> 0
         \<and> \<not> is_allocated (read_header m0 (blk_next (read_header m0 block)))
      then
        let m1 = set_size block (blk_size (read_header m0 block)
              + (blk_size (read_header m0 (blk_next (read_header m0 block))) + sizeof_header)) m0;
            m2 = set_next block (blk_next (read_header m1 (blk_next (read_header m1 block)))) m1
        in if blk_next (read_header m2 block) \<noteq> 0
           then set_prev (blk_next (read_header m2 block)) block m2 else m2
      else m0)"

definition kfree :: "u32 \<Rightarrow> 'a heap_scheme \<Rightarrow> 'a heap_scheme" where
  "kfree ptr s =
     (let block = ptr - sizeof_header;
          m0 = set_allocated block False (mem s);
          (block', m1) = kfree_merge_prev block m0
      in s\<lparr>mem := kfree_merge_next block' m1\<rparr>)"

text \<open>The global allocation operators.\<close>

definition operator_new :: "u32 \<Rightarrow> 'a heap_scheme \<Rightarrow> (u32 \<times> 'a heap_scheme) option" where
  "operator_new sz s = kmalloc sz s"

definition operator_new_array :: "u32 \<Rightarrow> 'a heap_scheme \<Rightarrow> (u32 \<times> 'a heap_scheme) option" where
  "operator_new_array sz s = kmalloc sz s"

definition operator_delete :: "u32 \<Rightarrow> 'a heap_scheme \<Rightarrow> 'a heap_scheme" where
  "operator_delete ptr s = kfree ptr s"

definition operator_delete_array :: "u32 \<Rightarrow> 'a heap_scheme \<Rightarrow> 'a heap_scheme" where
  "operator_delete_array ptr s = kfree ptr s"

section \<open>Reads of headers after writes\<close>

lemma set_allocated_other [frame_simps]:
  "x \<notin> region a 16 \<Longrightarrow> set_allocated a b m x = m x"
  by (simp add: set_allocated_def wr8_def region_def) (metis diff_self unsigned_0 zero_less_numeral)

lemma region_field: "apart a 16 b k \<Longrightarrow> i \<le> 12 \<Longrightarrow> 0 < k \<Longrightarrow> apart (a + of_nat i) 4 b k"
  using apart_offset [of a 16 b k i 4 0 k] by simp

lemma header_fields_apart:
  assumes "apart a 16 b 16"
  shows "apart (a + 4) 4 b 1" "apart (a + 8) 4 b 1" "apart (a + 12) 4 b 1"
    and "apart (a + 4) 4 (b + 4) 4" "apart (a + 4) 4 (b + 8) 4" "apart (a + 4) 4 (b + 12) 4"
    and "apart (a + 8) 4 (b + 4) 4" "apart (a + 8) 4 (b + 8) 4" "apart (a + 8) 4 (b + 12) 4"
    and "apart (a + 12) 4 (b + 4) 4" "apart (a + 12) 4 (b + 8) 4" "apart (a + 12) 4 (b + 12) 4"
    and "apart a 1 b 1" "apart a 1 (b + 4) 4" "apart a 1 (b + 8) 4" "apart a 1 (b + 12) 4"
  using apart_offset [OF assms, of 4 4 0 1] apart_offset [OF assms, of 8 4 0 1]
    apart_offset [OF assms, of 12 4 0 1]
    apart_offset [OF assms, of 4 4 4 4] apart_offset [OF assms, of 4 4 8 4]
    apart_offset [OF assms, of 4 4 12 4] apart_offset [OF assms, of 8 4 4 4]
    apart_offset [OF assms, of 8 4 8 4] apart_offset [OF assms, of 8 4 12 4]
    apart_offset [OF assms, of 12 4 4 4] apart_offset [OF assms, of 12 4 8 4]
    apart_offset [OF assms, of 12 4 12 4] apart_offset [OF assms, of 0 1 0 1]
    apart_offset [OF assms, of 0 1 4 4] apart_offset [OF assms, of 0 1 8 4]
    apart_offset [OF assms, of 0 1 12 4]
  by simp_all

lemma own_fields_apart:
  "apart (a + 4) 4 a 1" "apart (a + 8) 4 a 1" "apart (a + 12) 4 a 1"
  "apart a 1 (a + 4) 4" "apart a 1 (a + 8) 4" "apart a 1 (a + 12) 4"
  "apart (a + 4) 4 (a + 8) 4" "apart (a + 4) 4 (a + 12) 4"
  "apart (a + 8) 4 (a + 4) 4" "apart (a + 8) 4 (a + 12) 4"
  "apart (a + 12) 4 (a + 4) 4" "apart (a + 12) 4 (a + 8) 4"
  by (simp_all add: apart_def)

lemma read_header_same [mem_simps]:
  "read_header (set_allocated a b m) a = (read_header m a)\<lparr>is_allocated := b\<rparr>"
  "read_header (set_size a v m) a = (read_header m a)\<lparr>blk_size := v\<rparr>"
  "read_header (set_next a v m) a = (read_header m a)\<lparr>blk_next := v\<rparr>"
  "read_header (set_prev a v m) a = (read_header m a)\<lparr>blk_prev := v\<rparr>"
  by (simp_all add: read_header_def set_allocated_def set_size_def set_next_def set_prev_def
      mem_simps own_fields_apart del: One_nat_def)

lemma read_header_apart [mem_simps]:
  assumes "apart a 16 b 16"
  shows "read_header (set_allocated a c m) b = read_header m b"
    and "read_header (set_size a v m) b = read_header m b"
    and "read_header (set_next a v m) b = read_header m b"
    and "read_header (set_prev a v m) b = read_header m b"
  by (simp_all add: read_header_def set_allocated_def set_size_def set_next_def set_prev_def
      mem_simps header_fields_apart [OF assms] del: One_nat_def)

lemma field_in_header:
  "x \<in> region (a + 4) 4 \<Longrightarrow> x \<in> region a 16"
  "x \<in> region (a + 8) 4 \<Longrightarrow> x \<in> region a 16"
  "x \<in> region (a + 12) 4 \<Longrightarrow> x \<in> region a 16"
proof -
  have *: "unat (x - a) < 16" if "unat (x - (a + d)) < 4" "unat d \<le> 12" for d
  proof -
    have "x - a = (x - (a + d)) + d" by simp
    moreover have "unat ((x - (a + d)) + d) = unat (x - (a + d)) + unat d"
      using that by (intro unat_add_nowrap) simp
    ultimately show ?thesis using that by simp
  qed
  show "x \<in> region (a + 4) 4 \<Longrightarrow> x \<in> region a 16"
    "x \<in> region (a + 8) 4 \<Longrightarrow> x \<in> region a 16"
    "x \<in> region (a + 12) 4 \<Longrightarrow> x \<in> region a 16"
    using * [of 4] * [of 8] * [of 12] by (simp_all add: region_def)
qed

lemma set_field_other [frame_simps]:
  "x \<notin> region a 16 \<Longrightarrow> set_size a v m x = m x"
  "x \<notin> region a 16 \<Longrightarrow> set_next a v m x = m x"
  "x \<notin> region a 16 \<Longrightarrow> set_prev a v m x = m x"
  by (auto simp: set_size_def set_next_def set_prev_def intro!: wr32_other dest: field_in_header)

end
