(* ===== verification/Heap_Spec.thy ===== *)
theory Heap_Spec
  imports Heap
begin

text \<open>
  The specification of the heap: a list of blocks in address order, each behind the
  payload of the one before. \<open>abs_malloc\<close> and \<open>abs_free\<close> work on the list alone;
  \<open>heap_inv\<close> says that memory holds the list, doubly linked. The main lemmas are the
  refinements \<open>kmalloc_refines\<close> and \<open>kfree_refines\<close>, with the bytes they leave alone.
\<close>

datatype block = Block (b_addr: u32) (b_size: u32) (b_used: bool)

section \<open>Abstract operations\<close>

definition suitable :: "u32 \<Rightarrow> block \<Rightarrow> bool" where
  "suitable sz b \<longleftrightarrow> \<not> b_used b \<and> sz < b_size b"

text \<open>What becomes of the block that serves a request.\<close>

definition carve :: "u32 \<Rightarrow> block \<Rightarrow> block list" where
  "carve sz b =
     (if sz + 16 < b_size b
      then [Block (b_addr b) sz True, Block (b_addr b + 16 + sz) (b_size b - sz - 16) False]
      else [Block (b_addr b) (b_size b) True])"

fun abs_malloc :: "u32 \<Rightarrow> block list \<Rightarrow> (u32 \<times> block list) option" where
  "abs_malloc sz [] = None"
| "abs_malloc sz (b # bs) =
     (if suitable sz b then Some (b_addr b + 16, carve sz b @ bs)
      else map_option (\<lambda>(p, bs'). (p, b # bs')) (abs_malloc sz bs))"

fun merge_next :: "block \<Rightarrow> block list \<Rightarrow> block list" where
  "merge_next b [] = [b]"
| "merge_next b (c # bs) =
     (if b_used c then b # c # bs
      else Block (b_addr b) (b_size b + (b_size c + 16)) (b_used b) # bs)"

fun abs_free :: "u32 \<Rightarrow> block list \<Rightarrow> block list" where
  "abs_free p [] = []"
| "abs_free p (b # bs) =
     (if b_addr b + 16 = p then merge_next (Block (b_addr b) (b_size b) False) bs
      else case bs of [] \<Rightarrow> [b]
        | c # cs \<Rightarrow>
            if b_addr c + 16 = p \<and> \<not> b_used b
            then merge_next (Block (b_addr b) (b_size b + (b_size c + 16)) False) cs
            else b # abs_free p bs)"

section \<open>Layout\<close>

fun laid :: "nat \<Rightarrow> block list \<Rightarrow> nat \<Rightarrow> bool" where
  "laid n [] e \<longleftrightarrow> n = e"
| "laid n (b # bs) e \<longleftrightarrow>
     unat (b_addr b) = n \<and> 0 < n \<and> n + 16 \<le> 4294967296 \<and> laid (n + 16 + unat (b_size b)) bs e"

lemma laid_append: "laid n (xs @ ys) e \<longleftrightarrow> (\<exists>k. laid n xs k \<and> laid k ys e)"
  by (induction xs arbitrary: n) auto

lemma laid_le: "laid n bs e \<Longrightarrow> n \<le> e"
  by (induction bs arbitrary: n) fastforce+

lemma laid_bounds:
  "laid n bs e \<Longrightarrow> b \<in> set bs \<Longrightarrow>
   n \<le> unat (b_addr b) \<and> 0 < unat (b_addr b) \<and> unat (b_addr b) + 16 \<le> 4294967296 \<and>
   unat (b_addr b) + 16 + unat (b_size b) \<le> e"
proof (induction bs arbitrary: n)
  case Nil
  then show ?case by simp
next
  case (Cons c bs)
  show ?case
  proof (cases "b = c")
    case True
    then show ?thesis using Cons.prems(1) laid_le by fastforce
  next
    case False
    then show ?thesis using Cons.IH [of "n + 16 + unat (b_size c)"] Cons.prems by simp
  qed
qed

text \<open>Two addresses with room for a header each, the first below the second.\<close>

definition before :: "u32 \<Rightarrow> u32 \<Rightarrow> bool" where
  "before x y \<longleftrightarrow> unat x + 16 \<le> unat y \<and> unat y + 16 \<le> 4294967296"

lemma before_apart: "before x y \<Longrightarrow> apart x 16 y 16" "before x y \<Longrightarrow> apart y 16 x 16"
  by (auto simp: before_def intro: apartI apartI2)

lemma before_neq: "before x y \<Longrightarrow> x \<noteq> y" "before x y \<Longrightarrow> y \<noteq> x"
  by (auto simp: before_def)

lemma laid_before: "laid n bs e \<Longrightarrow> sorted_wrt (\<lambda>b c. before (b_addr b) (b_addr c)) bs"
  by (induction bs arbitrary: n) (fastforce simp: before_def dest: laid_bounds)+

lemma laid_distinct: "laid n bs e \<Longrightarrow> distinct (map b_addr bs)"
  by (induction bs arbitrary: n) (fastforce dest: laid_bounds)+

section \<open>The list in memory\<close>

fun first_addr :: "block list \<Rightarrow> u32 \<Rightarrow> u32" where
  "first_addr [] q = q"
| "first_addr (b # bs) q = b_addr b"

fun last_addr :: "u32 \<Rightarrow> block list \<Rightarrow> u32" where
  "last_addr p [] = p"
| "last_addr p (b # bs) = last_addr (b_addr b) bs"

fun chain :: "mem \<Rightarrow> u32 \<Rightarrow> block list \<Rightarrow> u32 \<Rightarrow> bool" where
  "chain m p [] q \<longleftrightarrow> True"
| "chain m p (b # bs) q \<longleftrightarrow>
     read_header m (b_addr b) = \<lparr>is_allocated = b_used b, blk_size = b_size b,
       blk_next = first_addr bs q, blk_prev = p\<rparr> \<and> chain m (b_addr b) bs q"

lemma first_addr_append [simp]: "first_addr (xs @ ys) q = first_addr xs (first_addr ys q)"
  by (cases xs) auto

lemma last_addr_append [simp]: "last_addr p (xs @ ys) = last_addr (last_addr p xs) ys"
  by (induction xs arbitrary: p) auto

lemma last_addr_in: "last_addr p bs = p \<or> (\<exists>b\<in>set bs. last_addr p bs = b_addr b)"
  by (induction bs arbitrary: p) auto

lemma chain_append [simp]:
  "chain m p (xs @ ys) q \<longleftrightarrow> chain m p xs (first_addr ys q) \<and> chain m (last_addr p xs) ys q"
  by (induction xs arbitrary: p) auto

lemma chain_cong:
  "(\<And>b. b \<in> set bs \<Longrightarrow> read_header m (b_addr b) = read_header m' (b_addr b)) \<Longrightarrow>
   chain m p bs q = chain m' p bs q"
  by (induction bs arbitrary: p) auto

definition heap_inv :: "'a heap_scheme \<Rightarrow> block list \<Rightarrow> nat \<Rightarrow> bool" where
  "heap_inv s bs e \<longleftrightarrow> bs \<noteq> [] \<and> heap_top s = b_addr (hd bs) \<and> chain (mem s) 0 bs 0 \<and>
     laid (unat (heap_top s)) bs e \<and> e \<le> unat (heap_top s) + 16 + 0xffffffff"

definition header_bytes :: "block list \<Rightarrow> u32 set" where
  "header_bytes bs = (\<Union>b\<in>set bs. region (b_addr b) 16)"

definition payload :: "block \<Rightarrow> u32 set" where
  "payload b = {x. unat (b_addr b) + 16 \<le> unat x \<and> unat x < unat (b_addr b) + 16 + unat (b_size b)}"

lemma in_header_bytes:
  assumes "laid n bs e"
  shows "x \<in> header_bytes bs \<longleftrightarrow>
    (\<exists>b\<in>set bs. unat (b_addr b) \<le> unat x \<and> unat x < unat (b_addr b) + 16)"
  using laid_bounds [OF assms] by (auto simp: header_bytes_def in_region_nat)

lemma payload_not_header:
  "laid n bs e \<Longrightarrow> b \<in> set bs \<Longrightarrow> payload b \<inter> header_bytes bs = {}"
proof (induction bs arbitrary: n)
  case Nil
  then show ?case by simp
next
  case (Cons c bs)
  let ?n = "n + 16 + unat (b_size c)"
  have rest: "laid ?n bs e" using Cons.prems by simp
  have "x \<notin> header_bytes (c # bs)" if "x \<in> payload b" for x
  proof (cases "b = c")
    case True
    then have "unat x < ?n" "n + 16 \<le> unat x" using that Cons.prems(1) by (auto simp: payload_def)
    then show ?thesis
      using laid_bounds [OF rest] Cons.prems(1)
      by (fastforce simp: in_header_bytes [OF Cons.prems(1)])
  next
    case False
    then have b: "b \<in> set bs" using Cons.prems(2) by simp
    have "?n \<le> unat (b_addr b)" using laid_bounds [OF rest b] by simp
    then have "\<not> unat x < unat (b_addr c) + 16" using that Cons.prems(1) by (auto simp: payload_def)
    moreover have "x \<notin> header_bytes bs" using Cons.IH [OF rest b] that by blast
    ultimately show ?thesis
      by (auto simp: in_header_bytes [OF Cons.prems(1)] in_header_bytes [OF rest])
  qed
  then show ?case by blast
qed

lemma payload_disjoint:
  "laid n bs e \<Longrightarrow> b \<in> set bs \<Longrightarrow> c \<in> set bs \<Longrightarrow> b \<noteq> c \<Longrightarrow> payload b \<inter> payload c = {}"
proof (induction bs arbitrary: n)
  case Nil
  then show ?case by simp
next
  case (Cons d bs)
  have rest: "laid (n + 16 + unat (b_size d)) bs e" using Cons.prems by simp
  then show ?case
    using Cons.IH [OF rest] Cons.prems laid_bounds [OF rest]
    by (fastforce simp: payload_def)
qed

section \<open>kmalloc refines the specification\<close>

text \<open>There is room for a request in a block when its new header still fits below 4 GiB.\<close>

definition room :: "u32 \<Rightarrow> block \<Rightarrow> bool" where
  "room sz b \<longleftrightarrow> unat sz + 16 < 4294967296 \<and>
     (unat sz + 16 < unat (b_size b) \<longrightarrow> unat (b_addr b) + 32 + unat sz \<le> 4294967296)"

lemma search_found: "result \<noteq> 0 \<Longrightarrow> kmalloc_search m sz chunk result = Some result"
  by (subst kmalloc_search.simps) simp

lemma kmalloc_search_chain:
  "chain m p bs 0 \<Longrightarrow> laid n bs e \<Longrightarrow>
   kmalloc_search m sz (first_addr bs 0) 0 =
     Some (case find (suitable sz) bs of None \<Rightarrow> 0 | Some b \<Rightarrow> b_addr b)"
proof (induction bs arbitrary: p n)
  case Nil
  then show ?case by (subst kmalloc_search.simps) simp
next
  case (Cons b bs)
  have nz: "b_addr b \<noteq> 0" using Cons.prems(2) by auto
  show ?case
    using Cons nz by (subst kmalloc_search.simps) (auto simp: suitable_def [of sz b] search_found)
qed

lemma abs_malloc_none: "find (suitable sz) bs = None \<Longrightarrow> abs_malloc sz bs = None"
  by (induction bs) (auto split: if_splits)

lemma abs_malloc_split:
  "\<forall>x\<in>set xs. \<not> suitable sz x \<Longrightarrow> suitable sz b \<Longrightarrow>
   abs_malloc sz (xs @ b # ys) = Some (b_addr b + 16, xs @ carve sz b @ ys)"
  by (induction xs) auto

lemma find_split:
  "find P bs = Some b \<Longrightarrow> \<exists>xs ys. bs = xs @ b # ys \<and> (\<forall>x\<in>set xs. \<not> P x) \<and> P b"
  by (induction bs) (auto split: if_splits, fastforce, metis append_Cons set_ConsD)

lemma word_sum_16: "unat sz + 16 < 4294967296 \<Longrightarrow> unat (sz + 16 :: u32) = unat sz + 16"
  using unat_add_nowrap [of sz 16] by simp

lemma laid_carve:
  assumes "laid n (b # ys) e" "room sz b" "suitable sz b"
  shows "laid n (carve sz b @ ys) e"
proof (cases "sz + 16 < b_size b")
  case True
  have s16: "unat (sz + 16) = unat sz + 16"
    using assms(2) by (intro word_sum_16) (simp add: room_def)
  then have lt: "unat sz + 16 < unat (b_size b)" using True by (simp add: word_less_nat_alt)
  then have fit: "unat (b_addr b) + 32 + unat sz \<le> 4294967296" using assms(2) by (simp add: room_def)
  have "unat (b_addr b + 16 + sz) = unat (b_addr b) + 16 + unat sz"
    using fit by (simp add: unat_add_nowrap)
  moreover have "unat (b_size b - sz - 16) = unat (b_size b) - unat sz - 16"
    using lt s16 by (simp add: diff_diff_add unat_sub word_le_nat_alt)
  ultimately show ?thesis
    using assms(1) True fit lt by (simp add: carve_def algebra_simps)
next
  case False
  then show ?thesis using assms(1) by (simp add: carve_def)
qed

lemma split_chain:
  assumes ch: "chain m p (xs @ b # ys) 0"
    and la: "laid n (xs @ carve sz b @ ys) e"
    and big: "sz + 16 < b_size b"
  shows "chain (set_allocated (b_addr b) True (kmalloc_split (b_addr b) sz m)) p (xs @ carve sz b @ ys) 0"
proof -
  let ?a = "b_addr b" and ?t = "b_addr b + 16 + sz"
  let ?m = "set_allocated ?a True (kmalloc_split ?a sz m)"
  have L: "carve sz b = [Block ?a sz True, Block ?t (b_size b - sz - 16) False]"
    using big by (simp add: carve_def)
  have ha: "read_header m ?a = \<lparr>is_allocated = b_used b, blk_size = b_size b,
      blk_next = first_addr ys 0, blk_prev = last_addr p xs\<rparr>"
    using ch by simp
  have at: "before ?a ?t"
    and xa: "\<And>x. x \<in> set xs \<Longrightarrow> before (b_addr x) ?a"
    and xt: "\<And>x. x \<in> set xs \<Longrightarrow> before (b_addr x) ?t"
    and ay: "\<And>y. y \<in> set ys \<Longrightarrow> before ?a (b_addr y)"
    and ty: "\<And>y. y \<in> set ys \<Longrightarrow> before ?t (b_addr y)"
    and xy: "\<And>x y. x \<in> set xs \<Longrightarrow> y \<in> set ys \<Longrightarrow> before (b_addr x) (b_addr y)"
    and yy: "sorted_wrt (\<lambda>b c. before (b_addr b) (b_addr c)) ys"
    using laid_before [OF la] by (auto simp: L sorted_wrt_append)
  have nz: "b_addr y \<noteq> 0" if "y \<in> set ys" for y
    using laid_bounds [OF la, of y] that by (auto simp: L)
  note simps = kmalloc_split_def sizeof_header_def Let_def mem_simps before_apart before_neq ha at
  show ?thesis
  proof (cases ys)
    case Nil
    have "read_header ?m ?a = \<lparr>is_allocated = True, blk_size = sz, blk_next = ?t, blk_prev = last_addr p xs\<rparr>"
      "read_header ?m ?t = \<lparr>is_allocated = False, blk_size = b_size b - sz - 16, blk_next = 0, blk_prev = ?a\<rparr>"
      using Nil by (simp_all add: simps)
    moreover have "read_header ?m (b_addr x) = read_header m (b_addr x)" if "x \<in> set xs" for x
      using Nil by (simp add: simps xa xt that)
    then have "chain ?m p xs ?a = chain m p xs ?a" by (rule chain_cong)
    ultimately show ?thesis using ch Nil by (simp add: L)
  next
    case (Cons c cs)
    note cf = ay [of c] ty [of c] nz [of c]
    have h: "read_header ?m ?a = \<lparr>is_allocated = True, blk_size = sz, blk_next = ?t, blk_prev = last_addr p xs\<rparr>"
      "read_header ?m ?t = \<lparr>is_allocated = False, blk_size = b_size b - sz - 16,
         blk_next = b_addr c, blk_prev = ?a\<rparr>"
      "read_header ?m (b_addr c) = (read_header m (b_addr c))\<lparr>blk_prev := ?t\<rparr>"
      using Cons cf by (simp_all add: simps)
    moreover have "read_header ?m (b_addr x) = read_header m (b_addr x)" if "x \<in> set xs" for x
      using Cons cf by (simp add: simps xa xt xy that)
    then have "chain ?m p xs ?a = chain m p xs ?a" by (rule chain_cong)
    moreover have "read_header ?m (b_addr y) = read_header m (b_addr y)" if "y \<in> set cs" for y
      using Cons cf yy by (simp add: simps ay ty that)
    then have "chain ?m (b_addr c) cs 0 = chain m (b_addr c) cs 0" by (rule chain_cong)
    ultimately show ?thesis using ch Cons by (simp add: L)
  qed
qed

lemma take_chain:
  assumes ch: "chain m p (xs @ b # ys) 0" and la: "laid n (xs @ b # ys) e"
  shows "chain (set_allocated (b_addr b) c m) p (xs @ Block (b_addr b) (b_size b) c # ys) 0"
proof -
  let ?m = "set_allocated (b_addr b) c m"
  have *: "\<And>x. x \<in> set xs \<Longrightarrow> before (b_addr x) (b_addr b)"
    "\<And>y. y \<in> set ys \<Longrightarrow> before (b_addr b) (b_addr y)"
    using laid_before [OF la] by (auto simp: sorted_wrt_append)
  have "chain ?m p xs (b_addr b) = chain m p xs (b_addr b)"
    by (rule chain_cong) (simp add: mem_simps before_apart *)
  moreover have "chain ?m (b_addr b) ys 0 = chain m (b_addr b) ys 0"
    by (rule chain_cong) (simp add: mem_simps before_apart *)
  ultimately show ?thesis using ch by (simp add: mem_simps)
qed

lemma in_header_bytesI: "b \<in> set bs \<Longrightarrow> x \<in> region (b_addr b) 16 \<Longrightarrow> x \<in> header_bytes bs"
  by (auto simp: header_bytes_def)

text \<open>The bytes of \<open>kmalloc\<close>'s writes all belong to headers of the new list.\<close>

lemma split_frame:
  assumes "read_header m (b_addr b) = h" "blk_next h = first_addr ys 0" "sz + 16 < b_size b"
    and "x \<notin> header_bytes (xs @ carve sz b @ ys)" "before (b_addr b) (b_addr b + 16 + sz)"
  shows "kmalloc_split (b_addr b) sz m x = m x"
proof -
  have nx: "x \<notin> region (b_addr b) 16" "x \<notin> region (b_addr b + 16 + sz) 16"
    "\<And>y. y \<in> set ys \<Longrightarrow> x \<notin> region (b_addr y) 16"
    using assms(3,4) by (auto simp: header_bytes_def carve_def)
  have "first_addr ys 0 \<noteq> 0 \<Longrightarrow> x \<notin> region (first_addr ys 0) 16"
    using nx(3) by (cases ys) auto
  moreover have "read_header m (b_addr b) = h" "blk_next h = first_addr ys 0" by fact+
  ultimately show ?thesis
    using nx(1,2) assms(5)
    by (simp add: kmalloc_split_def sizeof_header_def Let_def mem_simps before_apart)
      (simp add: set_allocated_other set_field_other)
qed

lemma heap_invD:
  assumes "heap_inv s bs e"
  shows "chain (mem s) 0 bs 0" "laid (unat (heap_top s)) bs e"
    "heap_top s = first_addr bs 0" "heap_top s \<noteq> 0"
proof -
  from assms obtain b cs where b: "bs = b # cs" "heap_top s = b_addr b"
    unfolding heap_inv_def by (cases bs) simp_all
  show "chain (mem s) 0 bs 0" "laid (unat (heap_top s)) bs e"
    using assms unfolding heap_inv_def by blast+
  then show "heap_top s = first_addr bs 0" "heap_top s \<noteq> 0"
    using b by auto
qed

lemma heap_inv_bound: "heap_inv s bs e \<Longrightarrow> e \<le> unat (heap_top s) + 16 + 0xffffffff"
  unfolding heap_inv_def by blast

lemma heap_invI:
  assumes "bs \<noteq> []" "heap_top s = b_addr (hd bs)" "chain (mem s) 0 bs 0"
    "laid (unat (heap_top s)) bs e" "e \<le> unat (heap_top s) + 16 + 0xffffffff"
  shows "heap_inv s bs e"
  using assms unfolding heap_inv_def by blast

lemma carve_not_Nil [simp]: "carve sz b \<noteq> []"
  by (simp add: carve_def)

text \<open>
  The refinement: on a heap that holds \<open>bs\<close>, \<open>kmalloc\<close> returns; it reports \<open>-1\<close> and
  changes nothing where the specification has no block, and otherwise returns the
  specification's pointer, leaves its list in memory, and writes header bytes only.
\<close>

lemma kmalloc_refines:
  assumes inv: "heap_inv s bs e"
    and rm: "\<And>b. find (suitable sz) bs = Some b \<Longrightarrow> room sz b"
  shows "case abs_malloc sz bs of
      None \<Rightarrow> kmalloc sz s = Some (-1, s)
    | Some (p, bs') \<Rightarrow> \<exists>m. kmalloc sz s = Some (p, s\<lparr>mem := m\<rparr>) \<and> heap_inv (s\<lparr>mem := m\<rparr>) bs' e \<and>
        (\<forall>x. x \<notin> header_bytes bs' \<longrightarrow> m x = mem s x)"
proof -
  note D = heap_invD [OF inv]
  have srch: "kmalloc_search (mem s) sz (heap_top s) 0
      = Some (case find (suitable sz) bs of None \<Rightarrow> 0 | Some b \<Rightarrow> b_addr b)"
    unfolding D(3) using D(1,2) by (rule kmalloc_search_chain)
  show ?thesis
  proof (cases "find (suitable sz) bs")
    case None
    then show ?thesis by (simp add: abs_malloc_none kmalloc_def srch)
  next
    case (Some b)
    then obtain xs ys where bs: "bs = xs @ b # ys" "\<forall>x\<in>set xs. \<not> suitable sz x" "suitable sz b"
      using find_split [of "suitable sz" bs b] by blast
    have room: "room sz b" using rm Some by blast
    have ab: "abs_malloc sz bs = Some (b_addr b + 16, xs @ carve sz b @ ys)"
      unfolding bs(1) using bs(2,3) by (rule abs_malloc_split)
    have nz: "b_addr b \<noteq> 0" using laid_bounds [OF D(2), of b] by (auto simp: bs(1))
    have ch: "chain (mem s) 0 (xs @ b # ys) 0" and la: "laid (unat (heap_top s)) (xs @ b # ys) e"
      using D(1,2) by (simp_all add: bs(1))
    have la': "laid (unat (heap_top s)) (xs @ carve sz b @ ys) e"
      using la laid_carve [OF _ room bs(3)] unfolding laid_append by blast
    have hb: "read_header (mem s) (b_addr b) = \<lparr>is_allocated = b_used b, blk_size = b_size b,
        blk_next = first_addr ys 0, blk_prev = last_addr 0 xs\<rparr>"
      using ch by simp
    let ?m0 = "if sz + 16 < b_size b then kmalloc_split (b_addr b) sz (mem s) else mem s"
    let ?m = "set_allocated (b_addr b) True ?m0"
    have km: "kmalloc sz s = Some (b_addr b + 16, s\<lparr>mem := ?m\<rparr>)"
      using nz by (simp add: kmalloc_def srch Some sizeof_header_def hb)
    have chm: "chain ?m 0 (xs @ carve sz b @ ys) 0"
    proof (cases "sz + 16 < b_size b")
      case True
      then show ?thesis using split_chain [OF ch la' True] by simp
    next
      case False
      then show ?thesis using take_chain [OF ch la, of True] by (simp add: carve_def)
    qed
    have hd: "b_addr (hd (xs @ carve sz b @ ys)) = heap_top s"
      using D(3) by (cases xs) (auto simp: bs(1) carve_def)
    have fr: "?m x = mem s x" if x: "x \<notin> header_bytes (xs @ carve sz b @ ys)" for x
    proof -
      have xb: "x \<notin> region (b_addr b) 16"
        using x by (auto simp: header_bytes_def carve_def split: if_splits)
      show ?thesis
      proof (cases "sz + 16 < b_size b")
        case True
        have "before (b_addr b) (b_addr b + 16 + sz)"
          using laid_before [OF la'] True by (simp add: carve_def sorted_wrt_append)
        then have "kmalloc_split (b_addr b) sz (mem s) x = mem s x"
          by (intro split_frame [OF hb _ True x]) simp
        then show ?thesis using True xb by (simp add: frame_simps)
      next
        case False
        then show ?thesis using xb by (simp add: frame_simps)
      qed
    qed
    have "heap_inv (s\<lparr>mem := ?m\<rparr>) (xs @ carve sz b @ ys) e"
      using chm la' hd heap_inv_bound [OF inv]
      by (intro heap_invI) (simp_all del: chain_append)
    then show ?thesis using ab km fr by auto
  qed
qed

section \<open>kfree refines the specification\<close>

lemma merge_size:
  assumes "laid n (b # c # ys) e" "e \<le> N + 16 + 0xffffffff" "N \<le> n"
  shows "unat (b_size b + (b_size c + 16)) = unat (b_size b) + (unat (b_size c) + 16)"
proof -
  have "n + 16 + unat (b_size b) + 16 + unat (b_size c) \<le> e"
    using assms(1) laid_le [of "n + 16 + unat (b_size b) + 16 + unat (b_size c)" ys e] by simp
  then have "unat (b_size b) + (unat (b_size c) + 16) < 4294967296" using assms(2,3) by simp
  then show ?thesis by (simp add: unat_add_nowrap)
qed

lemma laid_merge:
  assumes "laid n (b # c # ys) e" "e \<le> N + 16 + 0xffffffff" "N \<le> n"
  shows "laid n (Block (b_addr b) (b_size b + (b_size c + 16)) u # ys) e"
  using assms(1) merge_size [OF assms] by (simp add: algebra_simps)

text \<open>What both merges do to the list: the two blocks become one, under the first address.\<close>

lemma merge_chain:
  assumes ch: "chain m p (xs @ b # c # ys) 0" and la: "laid n (xs @ b # c # ys) e"
    and hb: "read_header m' (b_addr b) = \<lparr>is_allocated = u, blk_size = v,
        blk_next = first_addr ys 0, blk_prev = last_addr p xs\<rparr>"
    and other: "\<And>d. d \<noteq> b_addr b \<Longrightarrow> d \<in> b_addr ` set (xs @ b # c # ys) \<Longrightarrow>
        read_header m' d = (if d = first_addr ys 0 then (read_header m d)\<lparr>blk_prev := b_addr b\<rparr>
          else read_header m d)"
  shows "chain m' p (xs @ Block (b_addr b) v u # ys) 0"
proof -
  have dist: "distinct (map b_addr (xs @ b # c # ys))" using la by (rule laid_distinct)
  note B = laid_before [OF la, unfolded sorted_wrt_append, simplified]
  have "read_header m' (b_addr x) = read_header m (b_addr x)" if x: "x \<in> set xs" for x
  proof -
    have "b_addr x \<noteq> b_addr b" using B x before_neq by blast
    moreover have "b_addr x \<noteq> 0" using laid_bounds [OF la, of x] x by auto
    moreover have "b_addr x \<noteq> b_addr d" if "d \<in> set ys" for d
      using B x that before_neq by blast
    ultimately show ?thesis using other [of "b_addr x"] x by (cases ys) auto
  qed
  then have "chain m' p xs (b_addr b) = chain m p xs (b_addr b)"
    by (rule chain_cong)
  moreover have "chain m' (b_addr b) ys 0"
  proof (cases ys)
    case (Cons d ds)
    have "read_header m' (b_addr y) = read_header m (b_addr y)" if y: "y \<in> set ds" for y
    proof -
      have "b_addr y \<noteq> b_addr b" "b_addr y \<noteq> b_addr d"
        using B y Cons before_neq by (metis list.set_intros(1,2) sorted_wrt.simps(2))+
      then show ?thesis using other [of "b_addr y"] y Cons by simp
    qed
    then have "chain m' (b_addr d) ds 0 = chain m (b_addr d) ds 0" by (rule chain_cong)
    then show ?thesis using ch dist other [of "b_addr d"] Cons by auto
  qed simp
  ultimately show ?thesis using ch hb by simp
qed

lemma kfree_merge_next_chain:
  assumes ch: "chain m 0 (xs @ b # ys) 0" and la: "laid n (xs @ b # ys) e"
    and bound: "e \<le> n + 16 + 0xffffffff"
  shows "chain (kfree_merge_next (b_addr b) m) 0 (xs @ merge_next b ys) 0"
    and "laid n (xs @ merge_next b ys) e"
    and "x \<notin> header_bytes (xs @ b # ys) \<Longrightarrow> kfree_merge_next (b_addr b) m x = m x"
proof (atomize (full), cases "ys = [] \<or> b_used (hd ys)")
  case True
  then show "chain (kfree_merge_next (b_addr b) m) 0 (xs @ merge_next b ys) 0 \<and>
    laid n (xs @ merge_next b ys) e \<and>
    (x \<notin> header_bytes (xs @ b # ys) \<longrightarrow> kfree_merge_next (b_addr b) m x = m x)"
    using ch la by (cases ys) (auto simp: kfree_merge_next_def)
next
  case False
  then obtain c cs where ys: "ys = c # cs" "\<not> b_used c" by (cases ys) auto
  let ?m = "kfree_merge_next (b_addr b) m"
  have la2: "laid n (xs @ b # c # cs) e" and ch2: "chain m 0 (xs @ b # c # cs) 0"
    using la ch by (simp_all add: ys)
  note B = laid_before [OF la2, unfolded sorted_wrt_append, simplified]
  have nz: "b_addr c \<noteq> 0" using laid_bounds [OF la2, of c] by auto
  have hb: "read_header m (b_addr b) = \<lparr>is_allocated = b_used b, blk_size = b_size b,
      blk_next = b_addr c, blk_prev = last_addr 0 xs\<rparr>"
    and hc: "read_header m (b_addr c) = \<lparr>is_allocated = False, blk_size = b_size c,
      blk_next = first_addr cs 0, blk_prev = b_addr b\<rparr>"
    using ch2 ys(2) by simp_all
  have bc: "before (b_addr b) (b_addr c)" using B by blast
  have m: "?m = (let m2 = set_next (b_addr b) (first_addr cs 0)
        (set_size (b_addr b) (b_size b + (b_size c + 16)) m)
      in if first_addr cs 0 \<noteq> 0 then set_prev (first_addr cs 0) (b_addr b) m2 else m2)"
    using nz by (simp add: kfree_merge_next_def Let_def mem_simps before_apart bc hb hc sizeof_header_def)
  have bf: "first_addr cs 0 \<noteq> 0 \<Longrightarrow> before (b_addr b) (first_addr cs 0)"
    using B by (cases cs) auto
  have hb': "read_header ?m (b_addr b) = \<lparr>is_allocated = b_used b,
      blk_size = b_size b + (b_size c + 16), blk_next = first_addr cs 0, blk_prev = last_addr 0 xs\<rparr>"
    using bf by (simp add: m Let_def mem_simps before_apart hb)
  have other: "read_header ?m d = (if d = first_addr cs 0
      then (read_header m d)\<lparr>blk_prev := b_addr b\<rparr> else read_header m d)"
    if "d \<noteq> b_addr b" "d \<in> b_addr ` set (xs @ b # c # cs)" for d
  proof -
    have db: "apart (b_addr b) 16 d 16" using that B by (auto intro: before_apart)
    have dn: "d \<noteq> 0" using that(2) laid_bounds [OF la2] by force
    show ?thesis
    proof (cases cs)
      case Nil
      then show ?thesis using dn by (simp add: m Let_def mem_simps db)
    next
      case (Cons f fs)
      have nf: "b_addr f \<noteq> 0" using laid_bounds [OF la2, of f] Cons by auto
      have df: "d \<noteq> b_addr f \<Longrightarrow> apart (b_addr f) 16 d 16"
        using that B Cons by (auto intro: before_apart)
      show ?thesis
        using nf df db by (cases "d = b_addr f") (simp_all add: m Let_def mem_simps Cons)
    qed
  qed
  have "chain ?m 0 (xs @ merge_next b ys) 0"
    using merge_chain [OF ch2 la2 hb' other] by (simp add: ys)
  moreover have "laid n (xs @ merge_next b ys) e"
  proof -
    obtain k where k: "laid n xs k" "laid k (b # c # cs) e"
      using la2 unfolding laid_append by blast
    have "laid k (Block (b_addr b) (b_size b + (b_size c + 16)) (b_used b) # cs) e"
      by (rule laid_merge [OF k(2) bound laid_le [OF k(1)]])
    then have "laid n (xs @ Block (b_addr b) (b_size b + (b_size c + 16)) (b_used b) # cs) e"
      using k(1) unfolding laid_append by blast
    then show ?thesis by (simp add: ys)
  qed
  moreover have "?m x = m x" if x: "x \<notin> header_bytes (xs @ b # ys)"
  proof -
    have "x \<notin> region (b_addr b) 16" using x by (auto simp: header_bytes_def)
    moreover have "first_addr cs 0 \<noteq> 0 \<Longrightarrow> x \<notin> region (first_addr cs 0) 16"
      using x ys by (cases cs) (auto simp: header_bytes_def)
    ultimately show ?thesis by (simp add: m Let_def set_field_other)
  qed
  ultimately show "chain ?m 0 (xs @ merge_next b ys) 0 \<and> laid n (xs @ merge_next b ys) e \<and>
    (x \<notin> header_bytes (xs @ b # ys) \<longrightarrow> ?m x = m x)" by blast
qed

definition prev_merged :: "block list \<Rightarrow> block \<Rightarrow> block list \<times> block" where
  "prev_merged xs b =
     (if xs = [] \<or> b_used (last xs) then (xs, b)
      else (butlast xs, Block (b_addr (last xs)) (b_size (last xs) + (b_size b + 16)) False))"

lemma last_addr_last: "xs \<noteq> [] \<Longrightarrow> last_addr p xs = b_addr (last xs)"
  by (induction xs arbitrary: p) auto

lemma kfree_merge_prev_chain:
  assumes ch: "chain m 0 (xs @ b # ys) 0" and la: "laid n (xs @ b # ys) e"
    and bound: "e \<le> n + 16 + 0xffffffff" and pm: "prev_merged xs b = (zs, d)"
  shows "\<exists>m'. kfree_merge_prev (b_addr b) m = (b_addr d, m') \<and>
    chain m' 0 (zs @ d # ys) 0 \<and> laid n (zs @ d # ys) e \<and>
    header_bytes (zs @ d # ys) \<subseteq> header_bytes (xs @ b # ys) \<and>
    (\<forall>x. x \<notin> header_bytes (xs @ b # ys) \<longrightarrow> m' x = m x)"
proof (cases "xs = [] \<or> b_used (last xs)")
  case True
  have "last xs \<in> set xs" if "xs \<noteq> []" using that by simp
  then have "kfree_merge_prev (b_addr b) m = (b_addr b, m)"
    using True ch by (cases xs rule: rev_cases) (auto simp: kfree_merge_prev_def)
  then show ?thesis using True ch la pm by (auto simp: prev_merged_def)
next
  case False
  then obtain c where xs: "xs = zs @ [c]" "\<not> b_used c" and d: "d =
      Block (b_addr c) (b_size c + (b_size b + 16)) False"
    using pm by (cases xs rule: rev_cases) (auto simp: prev_merged_def)
  have la2: "laid n (zs @ c # b # ys) e" and ch2: "chain m 0 (zs @ c # b # ys) 0"
    using la ch by (simp_all add: xs)
  note B = laid_before [OF la2, unfolded sorted_wrt_append, simplified]
  have nz: "b_addr c \<noteq> 0" using laid_bounds [OF la2, of c] by auto
  have hc: "read_header m (b_addr c) = \<lparr>is_allocated = False, blk_size = b_size c,
      blk_next = b_addr b, blk_prev = last_addr 0 zs\<rparr>"
    and hb: "read_header m (b_addr b) = \<lparr>is_allocated = b_used b, blk_size = b_size b,
      blk_next = first_addr ys 0, blk_prev = b_addr c\<rparr>"
    using ch2 xs(2) by simp_all
  have cb: "before (b_addr c) (b_addr b)" using B by blast
  have fb: "first_addr ys 0 \<noteq> 0 \<Longrightarrow> before (b_addr b) (first_addr ys 0) \<and> before (b_addr c) (first_addr ys 0)"
    using B by (cases ys) auto
  define m' where "m' = (let m1 = set_next (b_addr c) (first_addr ys 0) m;
      m2 = if first_addr ys 0 \<noteq> 0 then set_prev (first_addr ys 0) (b_addr c) m1 else m1
    in set_size (b_addr c) (b_size c + (b_size b + 16)) m2)"
  have run: "kfree_merge_prev (b_addr b) m = (b_addr c, m')"
    using nz fb by (auto simp: kfree_merge_prev_def m'_def Let_def mem_simps before_apart cb hb hc
        sizeof_header_def)
  have hc': "read_header m' (b_addr c) = \<lparr>is_allocated = False,
      blk_size = b_size c + (b_size b + 16), blk_next = first_addr ys 0, blk_prev = last_addr 0 zs\<rparr>"
    using fb by (simp add: m'_def Let_def mem_simps before_apart hc)
  have other: "read_header m' a = (if a = first_addr ys 0
      then (read_header m a)\<lparr>blk_prev := b_addr c\<rparr> else read_header m a)"
    if "a \<noteq> b_addr c" "a \<in> b_addr ` set (zs @ c # b # ys)" for a
  proof -
    have ca: "apart (b_addr c) 16 a 16" using that B by (auto intro: before_apart)
    have an: "a \<noteq> 0" using that(2) laid_bounds [OF la2] by force
    show ?thesis
    proof (cases ys)
      case Nil
      then show ?thesis using an by (simp add: m'_def Let_def mem_simps ca)
    next
      case (Cons f fs)
      have nf: "b_addr f \<noteq> 0" using laid_bounds [OF la2, of f] Cons by auto
      have af: "a \<noteq> b_addr f \<Longrightarrow> apart (b_addr f) 16 a 16"
        using that B Cons by (auto intro: before_apart)
      show ?thesis
        using nf af ca by (cases "a = b_addr f") (simp_all add: m'_def Let_def mem_simps Cons)
    qed
  qed
  have "chain m' 0 (zs @ d # ys) 0"
    unfolding d by (rule merge_chain [OF ch2 la2 hc' other])
  moreover have "laid n (zs @ d # ys) e"
  proof -
    obtain k where k: "laid n zs k" "laid k (c # b # ys) e"
      using la2 unfolding laid_append by blast
    have "laid k (d # ys) e"
      unfolding d by (rule laid_merge [OF k(2) bound laid_le [OF k(1)]])
    then show ?thesis using k(1) unfolding laid_append by blast
  qed
  moreover have "m' x = m x" if x: "x \<notin> header_bytes (xs @ b # ys)" for x
  proof -
    have "x \<notin> region (b_addr c) 16" using x by (auto simp: header_bytes_def xs)
    moreover have "first_addr ys 0 \<noteq> 0 \<Longrightarrow> x \<notin> region (first_addr ys 0) 16"
      using x by (cases ys) (auto simp: header_bytes_def)
    ultimately show ?thesis by (simp add: m'_def Let_def set_field_other)
  qed
  moreover have "header_bytes (zs @ d # ys) \<subseteq> header_bytes (xs @ b # ys)"
    by (auto simp: header_bytes_def xs d)
  ultimately show ?thesis using run by (simp add: d)
qed

lemma abs_free_split:
  "\<forall>x\<in>set xs. b_addr x + 16 \<noteq> p \<Longrightarrow> b_addr b + 16 = p \<Longrightarrow>
   abs_free p (xs @ b # ys) =
     (let (zs, d) = prev_merged xs (Block (b_addr b) (b_size b) False) in zs @ merge_next d ys)"
proof (induction xs)
  case Nil
  then show ?case by (simp add: prev_merged_def)
next
  case (Cons x xs)
  show ?case
  proof (cases xs)
    case Nil
    then show ?thesis using Cons.prems by (simp add: prev_merged_def)
  next
    case (Cons y zs)
    then show ?thesis using Cons.IH Cons.prems by (auto simp: prev_merged_def split: if_splits)
  qed
qed

lemma first_addr_hd: "bs \<noteq> [] \<Longrightarrow> first_addr bs q = b_addr (hd bs)"
  by (cases bs) auto

lemma merge_next_not_Nil [simp]: "merge_next b ys \<noteq> []"
  by (cases ys) auto

lemma hd_merge_next: "b_addr (hd (merge_next b ys)) = b_addr b"
  by (cases ys) auto

lemma hd_prev_merged:
  "prev_merged xs b = (zs, d) \<Longrightarrow>
   b_addr (hd (zs @ merge_next d ys)) = b_addr (hd (xs @ b # ys))"
proof (cases "xs = [] \<or> b_used (last xs)")
  case True
  moreover assume "prev_merged xs b = (zs, d)"
  ultimately show ?thesis by (cases xs) (auto simp: prev_merged_def hd_merge_next)
next
  case False
  then obtain ws c where "xs = ws @ [c]" by (metis append_butlast_last_id)
  moreover assume "prev_merged xs b = (zs, d)"
  ultimately show ?thesis using False by (cases ws) (auto simp: prev_merged_def hd_merge_next)
qed

lemma split_at:
  assumes "laid n bs e" "b \<in> set bs"
  shows "\<exists>xs ys. bs = xs @ b # ys \<and> (\<forall>x\<in>set xs. b_addr x \<noteq> b_addr b)"
proof -
  obtain xs ys where bs: "bs = xs @ b # ys" using assms(2) by (meson split_list)
  have "\<forall>x\<in>set xs. before (b_addr x) (b_addr b)"
    using laid_before [OF assms(1)] by (simp add: bs sorted_wrt_append)
  then show ?thesis using bs before_neq by blast
qed

text \<open>
  The refinement: freeing a block of the list returns, leaves the specification's list in
  memory, and writes bytes of headers of the old list only.
\<close>

lemma kfree_refines:
  assumes inv: "heap_inv s bs e" and b: "b \<in> set bs"
  shows "\<exists>m. kfree (b_addr b + 16) s = s\<lparr>mem := m\<rparr> \<and>
    heap_inv (s\<lparr>mem := m\<rparr>) (abs_free (b_addr b + 16) bs) e \<and>
    (\<forall>x. x \<notin> header_bytes bs \<longrightarrow> m x = mem s x)"
proof -
  note D = heap_invD [OF inv]
  obtain xs ys where bs: "bs = xs @ b # ys" "\<forall>x\<in>set xs. b_addr x \<noteq> b_addr b"
    using split_at [OF D(2) b] by blast
  let ?b = "Block (b_addr b) (b_size b) False"
  let ?m0 = "set_allocated (b_addr b) False (mem s)"
  obtain zs d where pm: "prev_merged xs ?b = (zs, d)" by (cases "prev_merged xs ?b")
  have ch: "chain (mem s) 0 (xs @ b # ys) 0" and la: "laid (unat (heap_top s)) (xs @ b # ys) e"
    using D(1,2) by (simp_all add: bs(1))
  have ch0: "chain ?m0 0 (xs @ ?b # ys) 0" by (rule take_chain [OF ch la])
  have la0: "laid (unat (heap_top s)) (xs @ ?b # ys) e" using la unfolding laid_append by simp
  have hdr: "header_bytes (xs @ ?b # ys) = header_bytes bs" by (simp add: bs(1) header_bytes_def)
  obtain m1 where m1: "kfree_merge_prev (b_addr b) ?m0 = (b_addr d, m1)"
    "chain m1 0 (zs @ d # ys) 0" "laid (unat (heap_top s)) (zs @ d # ys) e"
    "header_bytes (zs @ d # ys) \<subseteq> header_bytes bs"
    "\<And>x. x \<notin> header_bytes bs \<Longrightarrow> m1 x = ?m0 x"
    using kfree_merge_prev_chain [OF ch0 la0 heap_inv_bound [OF inv] pm] by (auto simp: hdr)
  let ?m2 = "kfree_merge_next (b_addr d) m1"
  note N = kfree_merge_next_chain [OF m1(2,3) heap_inv_bound [OF inv]]
  have run: "kfree (b_addr b + 16) s = s\<lparr>mem := ?m2\<rparr>"
    by (simp add: kfree_def sizeof_header_def m1(1) Let_def)
  have ab: "abs_free (b_addr b + 16) bs = zs @ merge_next d ys"
    unfolding bs(1) using abs_free_split [of xs "b_addr b + 16" b ys] bs(2) by (simp add: pm)
  have top: "b_addr (hd (zs @ merge_next d ys)) = heap_top s"
    using hd_prev_merged [OF pm, of ys] D(3) by (cases xs) (auto simp: bs(1))
  have "heap_inv (s\<lparr>mem := ?m2\<rparr>) (zs @ merge_next d ys) e"
    using N(1,2) top heap_inv_bound [OF inv] by (intro heap_invI) (simp_all del: chain_append)
  moreover have "?m2 x = mem s x" if x: "x \<notin> header_bytes bs" for x
  proof -
    have "x \<notin> region (b_addr b) 16" using x by (auto simp: header_bytes_def bs(1))
    then show ?thesis using N(3) [of x] m1(4) m1(5) [OF x] x by (auto simp: frame_simps)
  qed
  ultimately show ?thesis using run ab by auto
qed

section \<open>Facts of the specification\<close>

definition used_blocks :: "block list \<Rightarrow> block set" where
  "used_blocks bs = {b \<in> set bs. b_used b}"

lemma abs_malloc_SomeE:
  assumes "abs_malloc sz bs = Some (p, bs')"
  obtains xs b ys where "bs = xs @ b # ys" "\<forall>x\<in>set xs. \<not> suitable sz x" "suitable sz b"
    "p = b_addr b + 16" "bs' = xs @ carve sz b @ ys"
proof (cases "find (suitable sz) bs")
  case None
  then show ?thesis using assms by (simp add: abs_malloc_none)
next
  case (Some b)
  then obtain xs ys where bs: "bs = xs @ b # ys" "\<forall>x\<in>set xs. \<not> suitable sz x" "suitable sz b"
    using find_split [OF Some] by blast
  then show ?thesis
    using assms abs_malloc_split [OF bs(2,3), of ys] by (intro that [of xs b ys]) auto
qed

lemma abs_malloc_used:
  assumes "abs_malloc sz bs = Some (p, bs')" "laid n bs e"
  shows "\<exists>c. b_addr c + 16 = p \<and> b_used c \<and> sz \<le> b_size c \<and> c \<notin> used_blocks bs \<and>
    (\<forall>b\<in>used_blocks bs. b_addr b \<noteq> b_addr c) \<and> used_blocks bs' = insert c (used_blocks bs)"
proof -
  obtain xs b ys where bs: "bs = xs @ b # ys" "\<forall>x\<in>set xs. \<not> suitable sz x" "suitable sz b"
    and eq: "p = b_addr b + 16" "bs' = xs @ carve sz b @ ys"
    using assms(1) by (rule abs_malloc_SomeE)
  let ?c = "Block (b_addr b) (if sz + 16 < b_size b then sz else b_size b) True"
  have nb: "\<not> b_used b" and le: "sz \<le> b_size b" using bs(3) by (auto simp: suitable_def)
  have "used_blocks bs' = insert ?c (used_blocks bs)"
    using nb by (auto simp: eq bs(1) used_blocks_def carve_def)
  moreover have ne: "b_addr u \<noteq> b_addr b" if "u \<in> used_blocks bs" for u
  proof -
    have "u \<in> set xs \<union> set ys" using that nb by (auto simp: used_blocks_def bs(1))
    then show ?thesis
      using laid_before [OF assms(2)] before_neq by (fastforce simp: bs(1) sorted_wrt_append)
  qed
  moreover have "?c \<notin> used_blocks bs" using ne [of ?c] by auto
  ultimately show ?thesis using le eq(1) by (intro exI [of _ ?c]) auto
qed

lemma abs_free_used:
  assumes "laid n bs e" "b \<in> used_blocks bs"
  shows "used_blocks (abs_free (b_addr b + 16) bs) = used_blocks bs - {b}"
proof -
  have b: "b \<in> set bs" "b_used b" using assms(2) by (auto simp: used_blocks_def)
  obtain xs ys where bs: "bs = xs @ b # ys" "\<forall>x\<in>set xs. b_addr x \<noteq> b_addr b"
    using split_at [OF assms(1) b(1)] by blast
  have nb: "b \<notin> set xs" "b \<notin> set ys"
    using laid_distinct [OF assms(1)] by (auto simp: bs(1))
  obtain zs d where pm: "prev_merged xs (Block (b_addr b) (b_size b) False) = (zs, d)"
    by fastforce
  have ab: "abs_free (b_addr b + 16) bs = zs @ merge_next d ys"
    unfolding bs(1) using abs_free_split [of xs "b_addr b + 16" b ys] bs(2) by (simp add: pm)
  have zs: "{x \<in> set zs. b_used x} = {x \<in> set xs. b_used x}" and d: "\<not> b_used d"
    using pm by (cases xs rule: rev_cases; auto simp: prev_merged_def split: if_splits)+
  have ys: "{x \<in> set (merge_next d ys). b_used x} = {x \<in> set ys. b_used x}"
    using d by (cases ys) auto
  have "used_blocks (abs_free (b_addr b + 16) bs)
      = {x \<in> set zs. b_used x} \<union> {x \<in> set (merge_next d ys). b_used x}"
    by (auto simp: used_blocks_def ab)
  also have "\<dots> = used_blocks bs - {b}"
    unfolding zs ys using nb by (auto simp: used_blocks_def bs(1))
  finally show ?thesis .
qed

text \<open>No two neighbours are both free: \<open>kfree\<close> merges, and \<open>kmalloc\<close> splits one block.\<close>

fun coalesced :: "block list \<Rightarrow> bool" where
  "coalesced (b # c # bs) \<longleftrightarrow> (b_used b \<or> b_used c) \<and> coalesced (c # bs)"
| "coalesced _ \<longleftrightarrow> True"

lemma coalesced_Cons:
  "coalesced (b # bs) \<longleftrightarrow> (bs = [] \<or> b_used b \<or> b_used (hd bs)) \<and> coalesced bs"
  by (cases bs) auto

lemma coalesced_append:
  "coalesced (xs @ ys) \<longleftrightarrow> coalesced xs \<and> coalesced ys \<and>
    (xs = [] \<or> ys = [] \<or> b_used (last xs) \<or> b_used (hd ys))"
  by (induction xs) (auto simp: coalesced_Cons hd_append)

lemma coalesced_malloc:
  assumes "coalesced bs" "abs_malloc sz bs = Some (p, bs')"
  shows "coalesced bs'"
proof -
  obtain xs b ys where bs: "bs = xs @ b # ys" "\<forall>x\<in>set xs. \<not> suitable sz x" "suitable sz b"
    and eq: "p = b_addr b + 16" "bs' = xs @ carve sz b @ ys"
    using assms(2) by (rule abs_malloc_SomeE)
  have "\<not> b_used b" using bs(3) by (simp add: suitable_def)
  then show ?thesis
    using assms(1) by (auto simp: bs(1) eq coalesced_append coalesced_Cons carve_def)
qed

lemma coalesced_free:
  assumes "coalesced bs" "laid n bs e" "b \<in> used_blocks bs"
  shows "coalesced (abs_free (b_addr b + 16) bs)"
proof -
  have b: "b \<in> set bs" "b_used b" using assms(3) by (auto simp: used_blocks_def)
  obtain xs ys where bs: "bs = xs @ b # ys" "\<forall>x\<in>set xs. b_addr x \<noteq> b_addr b"
    using split_at [OF assms(2) b(1)] by blast
  obtain zs d where pm: "prev_merged xs (Block (b_addr b) (b_size b) False) = (zs, d)"
    by fastforce
  have ab: "abs_free (b_addr b + 16) bs = zs @ merge_next d ys"
    unfolding bs(1) using abs_free_split [of xs "b_addr b + 16" b ys] bs(2) by (simp add: pm)
  have "coalesced zs \<and> (zs = [] \<or> b_used (last zs))" "\<not> b_used d"
    using pm assms(1)
    by (cases xs rule: rev_cases; auto simp: prev_merged_def bs(1) coalesced_append split: if_splits)+
  moreover have "coalesced (merge_next d ys)" if "\<not> b_used d"
    using that assms(1) by (cases ys) (auto simp: bs(1) coalesced_append coalesced_Cons)
  ultimately show ?thesis unfolding ab by (auto simp: coalesced_append)
qed

text \<open>Freeing the block just allocated gives the old list back.\<close>

lemma abs_free_malloc:
  assumes "coalesced bs" "laid n bs e" "abs_malloc sz bs = Some (p, bs')"
  shows "abs_free p bs' = bs"
proof -
  obtain xs b ys where bs: "bs = xs @ b # ys" "\<forall>x\<in>set xs. \<not> suitable sz x" "suitable sz b"
    and eq: "p = b_addr b + 16" "bs' = xs @ carve sz b @ ys"
    using assms(3) by (rule abs_malloc_SomeE)
  have nb: "\<not> b_used b" using bs(3) by (simp add: suitable_def)
  have near: "xs = [] \<or> b_used (last xs)" "ys = [] \<or> b_used (hd ys)"
    using assms(1) nb by (auto simp: bs(1) coalesced_append coalesced_Cons)
  have nx: "\<forall>x\<in>set xs. b_addr x + 16 \<noteq> p"
    using laid_before [OF assms(2)] before_neq by (fastforce simp: bs(1) eq sorted_wrt_append)
  have b: "Block (b_addr b) (b_size b) False = b" using nb by (cases b) simp
  let ?c = "Block (b_addr b) (if sz + 16 < b_size b then sz else b_size b) True"
  obtain ys' where ys': "carve sz b @ ys = ?c # ys'"
    "ys' = (if sz + 16 < b_size b
      then Block (b_addr b + 16 + sz) (b_size b - sz - 16) False # ys else ys)"
    by (simp add: carve_def)
  have "abs_free p bs' = xs @ merge_next (Block (b_addr b) (b_size ?c) False) ys'"
    using abs_free_split [of xs p ?c ys'] nx near(1) by (simp add: eq ys' prev_merged_def)
  also have "merge_next (Block (b_addr b) (b_size ?c) False) ys' = b # ys"
    using near(2) b by (cases ys) (auto simp: ys'(2))
  finally show ?thesis by (simp add: bs(1))
qed

end
