(* ===== verification/Heap_Contract.thy ===== *)
theory Heap_Contract
  imports Heap_Spec
begin

text \<open>
  What the heap promises its callers: the allocator contract for \<open>kmalloc\<close> and
  \<open>kfree\<close> on a heap that ends below the last byte of the address space, and the
  properties of single calls and of whole runs.
\<close>

definition fits :: "u32 \<Rightarrow> block list \<Rightarrow> bool" where
  "fits sz bs = (case find (suitable sz) bs of None \<Rightarrow> True | Some b \<Rightarrow> room sz b)"

lemma fitsD: "fits sz bs \<Longrightarrow> find (suitable sz) bs = Some b \<Longrightarrow> room sz b"
  by (simp add: fits_def)

lemma room_below:
  assumes "laid n bs e" "e \<le> 0xffffffff" "b \<in> set bs" "suitable sz b"
  shows "room sz b"
proof -
  have "0 < unat (b_addr b)" "unat (b_addr b) + 16 + unat (b_size b) \<le> 0xffffffff"
    using laid_bounds [OF assms(1,3)] assms(2) by auto
  moreover have "unat sz < unat (b_size b)"
    using assms(4) by (simp add: suitable_def word_less_nat_alt)
  ultimately show ?thesis by (simp add: room_def)
qed

lemma fits_below: "laid n bs e \<Longrightarrow> e \<le> 0xffffffff \<Longrightarrow> fits sz bs"
  using room_below find_split [of "suitable sz" bs] by (fastforce simp: fits_def split: option.splits)

section \<open>The list is determined by the state\<close>

lemma chain_unique:
  "chain m p bs 0 \<Longrightarrow> chain m p cs 0 \<Longrightarrow> first_addr bs 0 = first_addr cs 0 \<Longrightarrow>
   \<forall>b\<in>set bs \<union> set cs. b_addr b \<noteq> 0 \<Longrightarrow> bs = cs"
proof (induction bs arbitrary: p cs)
  case Nil
  then show ?case by (cases cs) auto
next
  case (Cons b bs)
  from Cons.prems(3,4) obtain c ds where cs: "cs = c # ds" "b_addr b = b_addr c"
    by (cases cs) auto
  then have "b_used b = b_used c" "b_size b = b_size c" "first_addr bs 0 = first_addr ds 0"
    using Cons.prems(1,2) by auto
  moreover from this have "bs = ds"
    using Cons.IH [of "b_addr b" ds] Cons.prems cs by auto
  ultimately show ?case using cs by (cases b; cases c) auto
qed

lemma heap_inv_unique:
  assumes "heap_inv s bs e" "heap_inv s cs e'"
  shows "bs = cs \<and> e = e'"
proof -
  note D = heap_invD [OF assms(1)] and D' = heap_invD [OF assms(2)]
  have "bs = cs"
    using chain_unique [OF D(1) D'(1)] D(2,3) D'(2,3) laid_bounds by fastforce
  moreover have "laid n ds e \<Longrightarrow> laid n ds e' \<Longrightarrow> e = e'" for n ds
    by (induction ds arbitrary: n) auto
  ultimately show ?thesis using D(2) D'(2) by blast
qed

section \<open>The allocator contract\<close>

definition heap_ok :: "'a heap_scheme \<Rightarrow> bool" where
  "heap_ok s \<longleftrightarrow> (\<exists>bs e. heap_inv s bs e \<and> e \<le> 0xffffffff \<and> coalesced bs)"

definition heap_owned :: "'a heap_scheme \<Rightarrow> u32 set" where
  "heap_owned s = {p. \<exists>bs e b. heap_inv s bs e \<and> b \<in> used_blocks bs \<and> p = b_addr b + 16}"

definition heap_request :: "u32 \<Rightarrow> 'a heap_scheme \<Rightarrow> (u32 option \<times> 'a heap_scheme) option" where
  "heap_request sz s = (case kmalloc sz s of None \<Rightarrow> None
     | Some (p, s') \<Rightarrow> Some (if p = -1 then None else Some p, s'))"

definition heap_release :: "u32 \<Rightarrow> 'a heap_scheme \<Rightarrow> 'a heap_scheme option" where
  "heap_release p s = Some (kfree p s)"

lemma heap_owned_eq:
  assumes "heap_inv s bs e"
  shows "heap_owned s = (\<lambda>b. b_addr b + 16) ` used_blocks bs"
proof -
  have "bs' = bs" if "heap_inv s bs' e'" for bs' e'
    using heap_inv_unique [OF that assms] by simp
  then show ?thesis using assms unfolding heap_owned_def by blast
qed

lemma payload_pointer:
  assumes "laid n bs e" "e \<le> 0xffffffff" "b \<in> set bs" "0 < b_size b"
  shows "unat (b_addr b + 16) = unat (b_addr b) + 16" "b_addr b + 16 \<noteq> -1"
proof -
  have "0 < unat (b_size b)" using assms(4) by (simp add: word_less_nat_alt)
  then have lt: "unat (b_addr b) + 16 < 0xffffffff"
    using laid_bounds [OF assms(1,3)] assms(2) by linarith
  then show u: "unat (b_addr b + 16) = unat (b_addr b) + 16"
    by (intro unat_add_numeral32) simp
  show "b_addr b + 16 \<noteq> -1"
  proof
    assume "b_addr b + 16 = -1"
    then have "unat (b_addr b + 16) = unat (-1 :: u32)" by (rule arg_cong)
    then show False using lt unfolding u unat_minus_1_32 by simp
  qed
qed

text \<open>One call on a well-formed heap, in the terms of the contract.\<close>

lemma heap_request_cases:
  assumes inv: "heap_inv s bs e" and e: "e \<le> 0xffffffff"
  shows "(abs_malloc sz bs = None \<and> heap_request sz s = Some (None, s)) \<or>
    (\<exists>p bs' m. abs_malloc sz bs = Some (p, bs') \<and> heap_request sz s = Some (Some p, s\<lparr>mem := m\<rparr>) \<and>
      heap_inv (s\<lparr>mem := m\<rparr>) bs' e \<and> (\<forall>x. x \<notin> header_bytes bs' \<longrightarrow> m x = mem s x))"
proof -
  note D = heap_invD [OF inv]
  note R = kmalloc_refines [OF inv fitsD [OF fits_below [OF D(2) e]], of sz]
  show ?thesis
  proof (cases "abs_malloc sz bs")
    case None
    then show ?thesis using R by (simp add: heap_request_def)
  next
    case (Some r)
    then obtain p bs' where r: "abs_malloc sz bs = Some (p, bs')" by (cases r) auto
    obtain xs b ys where b': "bs = xs @ b # ys" "\<forall>x\<in>set xs. \<not> suitable sz x" "suitable sz b"
      "p = b_addr b + 16" "bs' = xs @ carve sz b @ ys"
      using r by (rule abs_malloc_SomeE)
    then have b: "b \<in> set bs" "suitable sz b" "p = b_addr b + 16" by simp_all
    have "0 < b_size b" using b(2) unfolding suitable_def by (metis word_gt_0 word_not_simps(1))
    then have "p \<noteq> -1" using payload_pointer [OF D(2) e b(1)] b(3) by simp
    then show ?thesis using R r by (auto simp: heap_request_def)
  qed
qed

lemma used_pointer_inject:
  assumes "laid n bs e" "b \<in> used_blocks bs" "c \<in> used_blocks bs" "b_addr b + 16 = b_addr c + 16"
  shows "b = c"
  using assms laid_distinct [OF assms(1)]
  by (auto simp: used_blocks_def distinct_map dest: inj_onD)

interpretation heap_blocks: allocator heap_ok heap_owned "\<lambda>sz s. True" heap_request heap_release
proof (unfold_locales, goal_cases)
  case (1 s sz)
  then obtain bs e where "heap_inv s bs e" "e \<le> 0xffffffff" by (auto simp: heap_ok_def)
  then show ?case using heap_request_cases [of s bs e sz] by auto
next
  case (2 s sz p s')
  then obtain bs e where inv: "heap_inv s bs e" "e \<le> 0xffffffff" "coalesced bs"
    by (auto simp: heap_ok_def)
  then obtain bs' m where r: "abs_malloc sz bs = Some (p, bs')" "s' = s\<lparr>mem := m\<rparr>"
    "heap_inv s' bs' e"
    using heap_request_cases [OF inv(1,2), of sz] 2(3) by auto
  note D = heap_invD [OF inv(1)]
  obtain c where c: "b_addr c + 16 = p" "c \<notin> used_blocks bs"
    "\<And>b. b \<in> used_blocks bs \<Longrightarrow> b_addr b \<noteq> b_addr c" "used_blocks bs' = insert c (used_blocks bs)"
    using abs_malloc_used [OF r(1) D(2)] by blast
  have "heap_ok s'" using r(3) inv(2) coalesced_malloc [OF inv(3) r(1)] by (auto simp: heap_ok_def)
  moreover have "b_addr b + 16 \<noteq> p" if "b \<in> used_blocks bs" for b
    using c(1) c(3) [OF that] by auto
  then have "p \<notin> heap_owned s" by (auto simp: heap_owned_eq [OF inv(1)])
  moreover have "heap_owned s' = insert p (heap_owned s)"
    using c(1,4) by (simp add: heap_owned_eq [OF inv(1)] heap_owned_eq [OF r(3)])
  ultimately show ?case by blast
next
  case (3 s sz s')
  then obtain bs e where "heap_inv s bs e" "e \<le> 0xffffffff" by (auto simp: heap_ok_def)
  then show ?case using heap_request_cases [of s bs e sz] 3(3) by auto
next
  case (4 s p)
  then obtain bs e where inv: "heap_inv s bs e" "e \<le> 0xffffffff" "coalesced bs"
    by (auto simp: heap_ok_def)
  note D = heap_invD [OF inv(1)]
  obtain b where b: "b \<in> used_blocks bs" "p = b_addr b + 16"
    using 4(2) by (auto simp: heap_owned_eq [OF inv(1)])
  then have "b \<in> set bs" by (simp add: used_blocks_def)
  then obtain m where m: "kfree p s = s\<lparr>mem := m\<rparr>" "heap_inv (s\<lparr>mem := m\<rparr>) (abs_free p bs) e"
    using kfree_refines [OF inv(1)] b(2) by blast
  have "heap_ok (s\<lparr>mem := m\<rparr>)"
    using m(2) inv(2) coalesced_free [OF inv(3) D(2) b(1)] b(2) by (auto simp: heap_ok_def)
  moreover have "heap_owned (s\<lparr>mem := m\<rparr>) = heap_owned s - {p}"
    using abs_free_used [OF D(2) b(1)] b used_pointer_inject [OF D(2)]
    by (auto simp: heap_owned_eq [OF inv(1)] heap_owned_eq [OF m(2)])
  ultimately show ?case using m(1) by (simp add: heap_release_def)
qed

section \<open>Properties\<close>

lemma heap_init_inv:
  assumes "0 < unat base" "unat base + 16 \<le> 4294967296"
    and "rd32 (mem s) (base + 8) = 0" "rd32 (mem s) (base + 12) = 0"
  shows "heap_inv (heap_allocator_init base sz s) [Block base sz False] (unat base + 16 + unat sz)"
proof -
  have "unat sz \<le> 0xffffffff" using unat_lt32 [of sz] by simp
  moreover have "blk_next (read_header (mem s) base) = 0" "blk_prev (read_header (mem s) base) = 0"
    using assms(3,4) by (simp_all add: read_header_def)
  ultimately show ?thesis
    using assms(1,2) by (intro heap_invI) (simp_all add: heap_allocator_init_def mem_simps)
qed

text \<open>The requests of a run keep the end of the heap.\<close>

lemma client_extent:
  assumes "client_run (\<lambda>n s. True) heap_request heap_release s0 t H"
    and "heap_inv s0 bs0 e" "e \<le> 0xffffffff" "coalesced bs0"
  shows "\<exists>bs. heap_inv t bs e"
proof -
  have ok0: "heap_ok s0" using assms by (auto simp: heap_ok_def)
  show ?thesis
    using assms(1)
  proof (induction rule: client_run.induct)
    case start
    show ?case using assms(2) by blast
  next
    case (got s H n p s')
    then obtain bs where bs: "heap_inv s bs e" by blast
    show ?case using heap_request_cases [OF bs assms(3), of n] got(3) by auto
  next
    case (full s H n s')
    then obtain bs where bs: "heap_inv s bs e" by blast
    show ?case using heap_request_cases [OF bs assms(3), of n] full(3) bs by auto
  next
    case (gave s H p s')
    then obtain bs where bs: "heap_inv s bs e" by blast
    have "p \<in> heap_owned s"
      using heap_blocks.accounting [OF gave(1) ok0] gave(2) by auto
    then obtain b where b: "b \<in> used_blocks bs" "p = b_addr b + 16"
      by (auto simp: heap_owned_eq [OF bs])
    then have "b \<in> set bs" by (simp add: used_blocks_def)
    then show ?case using kfree_refines [OF bs] b(2) gave(3) by (fastforce simp: heap_release_def)
  qed
qed

text \<open>
  Initialising the heap at an address with room for a header, over memory whose
  \<open>next\<close> and \<open>prev\<close> words are zero (the code does not write them), gives a well-formed
  heap of one free block of the given size.
\<close>

theorem heap_init_wellformed:
  assumes "0 < unat base" "unat base + 16 \<le> 4294967296"
    and "rd32 (mem s) (base + 8) = 0" "rd32 (mem s) (base + 12) = 0"
  shows "heap_inv (heap_allocator_init base sz s) [Block base sz False] (unat base + 16 + unat sz)"
  using assms by (rule heap_init_inv)

definition blank_heap :: heap where
  "blank_heap = \<lparr>mem = (\<lambda>_. 0), port_log = [], hw8 = (\<lambda>_ _. 0), hw16 = (\<lambda>_ _. 0),
     hw32 = (\<lambda>_ _. 0), bitmap = (\<lambda>_. 0), heap_top = 0\<rparr>"

definition small_heap :: heap where
  "small_heap = heap_allocator_init 0x1000 0x100 blank_heap"

theorem heap_init_wellformed_witness:
  "heap_inv small_heap [Block 0x1000 0x100 False] 0x1110"
proof -
  have "heap_inv (heap_allocator_init 0x1000 0x100 blank_heap) [Block 0x1000 0x100 False]
      (unat (0x1000 :: u32) + 16 + unat (0x100 :: u32))"
    by (rule heap_init_wellformed) (simp_all add: blank_heap_def rd32_def)
  then show ?thesis by (simp add: small_heap_def)
qed

lemma small_heap_inv: "heap_inv small_heap [Block 0x1000 0x100 False] 0x1110"
proof -
  have "read_header (mem small_heap) 0x1000 = \<lparr>is_allocated = False, blk_size = 0x100,
      blk_next = 0, blk_prev = 0\<rparr>"
    by (simp add: small_heap_def heap_allocator_init_def mem_simps)
      (simp add: read_header_def rd8_def rd32_def blank_heap_def)
  moreover have "heap_top small_heap = 0x1000"
    by (simp add: small_heap_def heap_allocator_init_def)
  ultimately show ?thesis by (simp add: heap_inv_def)
qed

lemma small_heap_alloc:
  obtains m where "kmalloc 0x20 small_heap = Some (0x1010, small_heap\<lparr>mem := m\<rparr>)"
    "heap_inv (small_heap\<lparr>mem := m\<rparr>) [Block 0x1000 0x20 True, Block 0x1030 0xd0 False] 0x1110"
proof -
  have f: "fits 0x20 [Block 0x1000 0x100 False]"
    by (simp add: fits_def suitable_def room_def)
  have a: "abs_malloc 0x20 [Block 0x1000 0x100 False]
      = Some (0x1010, [Block 0x1000 0x20 True, Block 0x1030 0xd0 False])"
    by (simp add: suitable_def carve_def)
  show ?thesis using kmalloc_refines [OF small_heap_inv fitsD [OF f]] that unfolding a by auto
qed

text \<open>
  C2. \<open>kmalloc\<close> is correct: on a well-formed heap with a block list \<open>bs\<close>, for a request
  whose split still fits below 4 GiB, it returns. When no free block is strictly larger
  than the request it returns \<open>(void* )-1\<close> and changes nothing. Otherwise it follows the
  first-fit specification: the heap stays well formed, exactly one used block is added, its
  payload is at least as large as the request and disjoint from every other used payload,
  and the contents of every other used block are untouched.
\<close>

theorem kmalloc_correct:
  assumes "heap_inv s bs e" "fits sz bs"
  shows "case abs_malloc sz bs of
      None \<Rightarrow> kmalloc sz s = Some (-1, s) \<and> (\<forall>b\<in>set bs. b_used b \<or> b_size b \<le> sz)
    | Some (p, bs') \<Rightarrow> \<exists>m c. kmalloc sz s = Some (p, s\<lparr>mem := m\<rparr>) \<and>
        heap_inv (s\<lparr>mem := m\<rparr>) bs' e \<and> p = b_addr c + 16 \<and> sz \<le> b_size c \<and>
        c \<notin> used_blocks bs \<and> used_blocks bs' = insert c (used_blocks bs) \<and>
        (\<forall>b\<in>used_blocks bs. payload b \<inter> payload c = {} \<and> (\<forall>x\<in>payload b. m x = mem s x))"
proof -
  note D = heap_invD [OF assms(1)]
  note R = kmalloc_refines [OF assms(1) fitsD [OF assms(2)]]
  show ?thesis
  proof (cases "abs_malloc sz bs")
    case None
    have "abs_malloc sz cs = None \<Longrightarrow> \<forall>b\<in>set cs. \<not> suitable sz b" for cs
      by (induction cs) (auto split: if_splits)
    from this [OF None] show ?thesis using None R by (auto simp: suitable_def not_less)
  next
    case (Some r)
    then obtain p bs' where r: "abs_malloc sz bs = Some (p, bs')" by (cases r) auto
    obtain c where c: "b_addr c + 16 = p" "sz \<le> b_size c" "c \<notin> used_blocks bs"
      "used_blocks bs' = insert c (used_blocks bs)"
      using abs_malloc_used [OF r D(2)] by blast
    obtain m where m: "kmalloc sz s = Some (p, s\<lparr>mem := m\<rparr>)" "heap_inv (s\<lparr>mem := m\<rparr>) bs' e"
      "\<And>x. x \<notin> header_bytes bs' \<Longrightarrow> m x = mem s x"
      using R r by auto
    note D' = heap_invD [OF m(2)]
    have "payload b \<inter> payload c = {} \<and> (\<forall>x\<in>payload b. m x = mem s x)" if b: "b \<in> used_blocks bs" for b
    proof -
      have "b \<in> set bs'" "c \<in> set bs'" "b \<noteq> c"
        using b c(3,4) by (auto simp: used_blocks_def)
      then show ?thesis
        using payload_disjoint [OF D'(2)] payload_not_header [OF D'(2)] m(3) by blast
    qed
    then have "kmalloc sz s = Some (p, s\<lparr>mem := m\<rparr>) \<and>
        heap_inv (s\<lparr>mem := m\<rparr>) bs' e \<and> p = b_addr c + 16 \<and> sz \<le> b_size c \<and>
        c \<notin> used_blocks bs \<and> used_blocks bs' = insert c (used_blocks bs) \<and>
        (\<forall>b\<in>used_blocks bs. payload b \<inter> payload c = {} \<and> (\<forall>x\<in>payload b. m x = mem s x))"
      using m(1,2) c by blast
    then show ?thesis unfolding r by (simp only: option.case prod.case) blast
  qed
qed

theorem kmalloc_correct_witness:
  "\<exists>m. kmalloc 0x20 small_heap = Some (0x1010, small_heap\<lparr>mem := m\<rparr>) \<and>
     heap_inv (small_heap\<lparr>mem := m\<rparr>) [Block 0x1000 0x20 True, Block 0x1030 0xd0 False] 0x1110"
proof -
  have f: "fits 0x20 [Block 0x1000 0x100 False]"
    by (simp add: fits_def suitable_def room_def)
  have a: "abs_malloc 0x20 [Block 0x1000 0x100 False]
      = Some (0x1010, [Block 0x1000 0x20 True, Block 0x1030 0xd0 False])"
    by (simp add: suitable_def carve_def)
  show ?thesis using kmalloc_correct [OF small_heap_inv f] unfolding a by auto
qed

text \<open>
  C3. \<open>kfree\<close> is correct: freeing a used block of a well-formed heap returns, follows the
  specification (the block is merged with a free predecessor and a free successor), leaves
  a well-formed heap of the same extent whose used blocks are the old ones without the
  freed one, never leaves two free blocks side by side if there were none before, and
  touches the contents of no used block.
\<close>

theorem kfree_correct:
  assumes "heap_inv s bs e" "b \<in> used_blocks bs"
  shows "\<exists>m bs'. kfree (b_addr b + 16) s = s\<lparr>mem := m\<rparr> \<and> bs' = abs_free (b_addr b + 16) bs \<and>
    heap_inv (s\<lparr>mem := m\<rparr>) bs' e \<and> used_blocks bs' = used_blocks bs - {b} \<and>
    (coalesced bs \<longrightarrow> coalesced bs') \<and> (\<forall>c\<in>used_blocks bs. \<forall>x\<in>payload c. m x = mem s x)"
proof -
  note D = heap_invD [OF assms(1)]
  have "b \<in> set bs" using assms(2) by (simp add: used_blocks_def)
  then obtain m where m: "kfree (b_addr b + 16) s = s\<lparr>mem := m\<rparr>"
    "heap_inv (s\<lparr>mem := m\<rparr>) (abs_free (b_addr b + 16) bs) e"
    "\<And>x. x \<notin> header_bytes bs \<Longrightarrow> m x = mem s x"
    using kfree_refines [OF assms(1)] by blast
  have "\<forall>c\<in>used_blocks bs. \<forall>x\<in>payload c. m x = mem s x"
    using payload_not_header [OF D(2)] m(3) by (auto simp: used_blocks_def)
  then show ?thesis
    using m(1,2) abs_free_used [OF D(2) assms(2)] coalesced_free [OF _ D(2) assms(2)] by blast
qed

theorem kfree_correct_witness:
  "\<exists>(s :: heap) m. heap_inv s [Block 0x1000 0x20 True, Block 0x1030 0xd0 False] 0x1110 \<and>
     kfree 0x1010 s = s\<lparr>mem := m\<rparr> \<and> heap_inv (s\<lparr>mem := m\<rparr>) [Block 0x1000 0x100 False] 0x1110"
proof -
  let ?bs = "[Block 0x1000 0x20 True, Block 0x1030 0xd0 False]"
  obtain s :: heap where s: "heap_inv s ?bs 0x1110"
    by (rule small_heap_alloc)
  have u: "Block 0x1000 0x20 True \<in> used_blocks ?bs" by (simp add: used_blocks_def)
  have "abs_free 0x1010 ?bs = [Block 0x1000 0x100 False]" by simp
  then have "\<exists>m. kfree 0x1010 s = s\<lparr>mem := m\<rparr> \<and>
      heap_inv (s\<lparr>mem := m\<rparr>) [Block 0x1000 0x100 False] 0x1110"
    using kfree_correct [OF s u] by auto
  then show ?thesis using s by blast
qed

text \<open>
  Allocating and freeing again restores the heap: if no two free blocks are neighbours,
  \<open>kfree\<close> of the pointer a successful \<open>kmalloc\<close> returned leaves exactly the block list
  that was there before.
\<close>

theorem kmalloc_kfree_restores:
  assumes "heap_inv s bs e" "e \<le> 0xffffffff" "coalesced bs"
    and "kmalloc sz s = Some (p, s')" "p \<noteq> -1"
  shows "heap_inv (kfree p s') bs e"
proof -
  note D = heap_invD [OF assms(1)]
  note R = kmalloc_refines [OF assms(1) fitsD [OF fits_below [OF D(2) assms(2)]], of sz]
  obtain bs' where r: "abs_malloc sz bs = Some (p, bs')" "heap_inv s' bs' e"
    using R assms(4,5) by (auto split: option.splits)
  obtain c where c: "b_addr c + 16 = p" "used_blocks bs' = insert c (used_blocks bs)"
    using abs_malloc_used [OF r(1) D(2)] by blast
  then have "c \<in> set bs'" by (auto simp: used_blocks_def)
  then have "\<exists>m. kfree p s' = s'\<lparr>mem := m\<rparr> \<and> heap_inv (s'\<lparr>mem := m\<rparr>) (abs_free p bs') e"
    using kfree_refines [OF r(2)] c(1) by blast
  then show ?thesis using abs_free_malloc [OF assms(3) D(2) r(1)] by auto
qed

theorem kmalloc_kfree_restores_witness:
  "\<exists>s'. kmalloc 0x20 small_heap = Some (0x1010, s') \<and>
     heap_inv (kfree 0x1010 s') [Block 0x1000 0x100 False] 0x1110"
proof -
  obtain m where m: "kmalloc 0x20 small_heap = Some (0x1010, small_heap\<lparr>mem := m\<rparr>)"
    by (rule small_heap_alloc)
  show ?thesis
    using m kmalloc_kfree_restores [OF small_heap_inv _ _ m] by simp
qed

text \<open>
  C1. What the heap promises the rest of the kernel, over whole executions: initialise it
  below the end of the address space, then let a client allocate and free (pointers it
  holds) in any order and any sizes. In every state it reaches, the heap is a well-formed
  list that ends where it ended, no two free blocks are neighbours, the pointers the
  client holds are exactly the payload addresses of the used blocks, and the payloads of
  the used blocks are pairwise disjoint. No request is without a result.
\<close>

theorem heap_client_safe:
  assumes "0 < unat base" "unat base + 16 + unat sz \<le> 0xffffffff"
    and "rd32 (mem s) (base + 8) = 0" "rd32 (mem s) (base + 12) = 0"
    and "client_run (\<lambda>n s. True) heap_request heap_release (heap_allocator_init base sz s) t H"
  shows "(\<exists>bs. heap_inv t bs (unat base + 16 + unat sz) \<and> coalesced bs \<and>
      H = (\<lambda>b. b_addr b + 16) ` used_blocks bs \<and>
      (\<forall>b\<in>used_blocks bs. \<forall>c\<in>used_blocks bs. b \<noteq> c \<longrightarrow> payload b \<inter> payload c = {}))
    \<and> kmalloc n t \<noteq> None"
proof -
  let ?s0 = "heap_allocator_init base sz s"
  have inv0: "heap_inv ?s0 [Block base sz False] (unat base + 16 + unat sz)"
    using assms(1-4) by (intro heap_init_inv) simp_all
  then have ok0: "heap_ok ?s0" using assms(2) by (fastforce simp: heap_ok_def)
  have own0: "heap_owned ?s0 = {}" by (simp add: heap_owned_eq [OF inv0] used_blocks_def)
  have "heap_ok t" and own: "heap_owned t = H"
    using heap_blocks.accounting [OF assms(5) ok0] own0 by auto
  then obtain bs e where bs: "heap_inv t bs e" "e \<le> 0xffffffff" "coalesced bs"
    by (auto simp: heap_ok_def)
  have "e = unat base + 16 + unat sz"
    using client_extent [OF assms(5) inv0 assms(2)] heap_inv_unique [OF bs(1)] by auto
  moreover have "payload b \<inter> payload c = {}"
    if "b \<in> used_blocks bs" "c \<in> used_blocks bs" "b \<noteq> c" for b c
    using that payload_disjoint [OF heap_invD(2) [OF bs(1)]] by (auto simp: used_blocks_def)
  moreover have "kmalloc n t \<noteq> None"
    using heap_request_cases [OF bs(1,2), of n] by (auto simp: heap_request_def split: option.splits)
  ultimately show ?thesis using bs own by (auto simp: heap_owned_eq [OF bs(1)])
qed

theorem heap_client_safe_witness:
  "\<exists>t bs. heap_request 0x20 small_heap = Some (Some 0x1010, t) \<and> heap_inv t bs 0x1110 \<and>
     coalesced bs \<and> {0x1010} = (\<lambda>b. b_addr b + 16) ` used_blocks bs"
proof -
  obtain m where m: "kmalloc 0x20 small_heap = Some (0x1010, small_heap\<lparr>mem := m\<rparr>)"
    by (rule small_heap_alloc)
  let ?t = "small_heap\<lparr>mem := m\<rparr>"
  have r: "heap_request 0x20 small_heap = Some (Some 0x1010, ?t)"
    by (simp add: heap_request_def m)
  have st: "client_run (\<lambda>n s. True) heap_request heap_release small_heap small_heap {}"
    by (rule client_run.start)
  from client_run.got [OF st _ r] have run: "client_run (\<lambda>n s. True) heap_request heap_release
      (heap_allocator_init 0x1000 0x100 blank_heap) ?t {0x1010}"
    by (simp add: small_heap_def)
  have "\<exists>bs. heap_inv ?t bs (unat (0x1000 :: u32) + 16 + unat (0x100 :: u32)) \<and> coalesced bs \<and>
      {0x1010} = (\<lambda>b. b_addr b + 16) ` used_blocks bs"
    using heap_client_safe [OF _ _ _ _ run, of 0] by (auto simp: blank_heap_def rd32_def)
  then show ?thesis using r by auto
qed

text \<open>
  The size check of \<open>kmalloc\<close> wraps: \<open>size + sizeof(header)\<close> is computed in 32 bits, so
  on a heap of the size the kernel configures (0xffffffff) a request within 15 bytes of
  4 GiB is served. The call succeeds although the block would end beyond the address
  space, the new header lands inside the header of the block itself, and the \<open>prev\<close> link
  of the first block is overwritten.
\<close>

theorem kmalloc_size_check_wraps:
  "\<exists>s'. kmalloc 0xfffffff8 (heap_allocator_init 0xc0200000 0xffffffff blank_heap) = Some (0xc0200010, s') \<and>
     blk_prev (read_header (mem s') 0xc0200000) = 0xfffffff7 \<and>
     blk_next (read_header (mem s') 0xc0200000) = 0xc0200008"
proof -
  let ?s = "heap_allocator_init 0xc0200000 0xffffffff blank_heap"
  let ?m = "set_allocated 0xc0200000 True (kmalloc_split 0xc0200000 0xfffffff8 (mem ?s))"
  have h: "read_header (mem ?s) 0xc0200000 = \<lparr>is_allocated = False, blk_size = 0xffffffff,
      blk_next = 0, blk_prev = 0\<rparr>"
    by (simp add: heap_allocator_init_def mem_simps)
      (simp add: read_header_def rd8_def rd32_def blank_heap_def)
  have top: "heap_top ?s = 0xc0200000" by (simp add: heap_allocator_init_def)
  have srch: "kmalloc_search (mem ?s) 0xfffffff8 0xc0200000 0 = Some 0xc0200000"
    by (subst kmalloc_search.simps) (simp add: h search_found)
  have "kmalloc 0xfffffff8 ?s = Some (0xc0200010, ?s\<lparr>mem := ?m\<rparr>)"
    by (simp add: kmalloc_def top srch h sizeof_header_def)
  moreover have "blk_prev (read_header ?m 0xc0200000) = 0xfffffff7" by code_simp
  moreover have "blk_next (read_header ?m 0xc0200000) = 0xc0200008" by code_simp
  ultimately show ?thesis by auto
qed

end
