(* ===== verification/Paging.thy ===== *)
theory Paging
  imports Heap
begin

text \<open>
  Two-level i386 page tables, \<open>src/kernel/memory/paging.cpp\<close>. Directory and table entries
  are the words in memory the code's bit fields lay out (bit 0 present, bit 1 writable,
  bits 12 to 31 the frame number); the code reads and writes both levels through their
  physical addresses, which the boot code maps one to one. The effect of the tables on
  the memory other code sees is not part of the memory model: the theory verifies the
  tables themselves. \<open>cr3\<close> is the register, \<open>invalidated\<close> the operands of
  \<open>invlpg\<close>, newest first.
\<close>

record paging = heap +
  current_page_dir :: u32
  cr3 :: u32
  invalidated :: "u32 list"

section \<open>Entries\<close>

definition entry_present :: "u32 \<Rightarrow> bool" where
  "entry_present e = bit e 0"

definition entry_address :: "u32 \<Rightarrow> u32" where
  "entry_address e = drop_bit 12 e"

text \<open>Assignments to the bit fields keep the other bits of the word.\<close>

definition set_address :: "u32 \<Rightarrow> u32 \<Rightarrow> mem \<Rightarrow> mem" where
  "set_address a v m = wr32 a (rd32 m a AND 0xfff OR push_bit 12 v) m"

definition set_read_write :: "u32 \<Rightarrow> mem \<Rightarrow> mem" where
  "set_read_write a m = wr32 a (rd32 m a OR 2) m"

definition set_present :: "u32 \<Rightarrow> mem \<Rightarrow> mem" where
  "set_present a m = wr32 a (rd32 m a OR 1) m"

definition pd_index :: "u32 \<Rightarrow> u32" where
  "pd_index vaddr = drop_bit 22 (vaddr AND 0xFFC00000)"

definition pt_index :: "u32 \<Rightarrow> u32" where
  "pt_index vaddr = drop_bit 12 (vaddr AND 0x003FF000)"

section \<open>The operations\<close>

definition paging_init :: "'a paging_scheme \<Rightarrow> 'a paging_scheme" where
  "paging_init s = s"

text \<open>\<open>map_page\<close> does not look at what \<open>frames::alloc\<close> returns.\<close>

definition map_page :: "u32 \<Rightarrow> u32 \<Rightarrow> 'a paging_scheme \<Rightarrow> (u32 \<times> 'a paging_scheme) option" where
  "map_page paddr vaddr s =
     do {
       let dir = current_page_dir s + 4 * pd_index vaddr;
       (page_table, s) \<leftarrow>
         (if \<not> entry_present (rd32 (mem s) dir) then
            do {
              (frame, s) \<leftarrow> frames_alloc s;
              let m = set_address dir (drop_bit 12 frame) (mem s);
              let m = set_read_write dir m;
              let m = set_present dir m;
              Some (frame, s\<lparr>mem := m\<rparr>)
            }
          else Some (push_bit 12 (entry_address (rd32 (mem s) dir)), s));
       let entry = page_table + 4 * pt_index vaddr;
       let m = set_address entry (drop_bit 12 paddr) (mem s);
       let m = set_read_write entry m;
       let m = set_present entry m;
       Some (vaddr, s\<lparr>mem := m\<rparr>)
     }"

definition unmap_page :: "u32 \<Rightarrow> 'a paging_scheme \<Rightarrow> 'a paging_scheme" where
  "unmap_page vaddr s =
     (let dir = rd32 (mem s) (current_page_dir s + 4 * pd_index vaddr)
      in if \<not> entry_present dir then s
         else let page_table = push_bit 12 (entry_address dir)
              in s\<lparr>mem := wr32 (page_table + 4 * pt_index vaddr) 0 (mem s),
                   invalidated := vaddr # invalidated s\<rparr>)"

definition page_present :: "u32 \<Rightarrow> 'a paging_scheme \<Rightarrow> bool" where
  "page_present vaddr s =
     (let dir = rd32 (mem s) (current_page_dir s + 4 * pd_index vaddr)
      in if \<not> entry_present dir then False
         else let page_table = push_bit 12 (entry_address dir)
              in if \<not> entry_present (rd32 (mem s) (page_table + 4 * pt_index vaddr)) then False
                 else True)"

definition vaddr_to_paddr :: "u32 \<Rightarrow> 'a paging_scheme \<Rightarrow> u32" where
  "vaddr_to_paddr vaddr s =
     (let dir = rd32 (mem s) (current_page_dir s + 4 * pd_index vaddr)
      in if \<not> entry_present dir then 0
         else let page_table = push_bit 12 (entry_address dir);
                  entry = rd32 (mem s) (page_table + 4 * pt_index vaddr)
              in if \<not> entry_present entry then 0
                 else push_bit 12 (entry_address entry) OR (vaddr AND 0xfff))"

definition set_cr3 :: "u32 \<Rightarrow> 'a paging_scheme \<Rightarrow> 'a paging_scheme" where
  "set_cr3 pd s = s\<lparr>cr3 := pd, current_page_dir := pd\<rparr>"

definition get_cr3 :: "'a paging_scheme \<Rightarrow> u32" where
  "get_cr3 s = cr3 s"

section \<open>The translation the tables describe\<close>

text \<open>The word an address selects in the second level, and the page it names.\<close>

definition entry_base :: "u32 \<Rightarrow> u32" where
  "entry_base e = push_bit 12 (entry_address e)"

definition slot :: "mem \<Rightarrow> u32 \<Rightarrow> u32 \<Rightarrow> u32 option" where
  "slot m dir v = (let e = rd32 m (dir + 4 * pd_index v)
     in if entry_present e then Some (entry_base e + 4 * pt_index v) else None)"

definition decode :: "u32 \<Rightarrow> u32 option" where
  "decode e = (if entry_present e then Some (entry_base e) else None)"

definition walk :: "mem \<Rightarrow> u32 \<Rightarrow> u32 \<Rightarrow> u32 option" where
  "walk m dir v = (case slot m dir v of None \<Rightarrow> None | Some a \<Rightarrow> decode (rd32 m a))"

lemma page_present_walk: "page_present v s \<longleftrightarrow> walk (mem s) (current_page_dir s) v \<noteq> None"
  by (simp add: page_present_def walk_def slot_def decode_def entry_base_def Let_def)

lemma vaddr_to_paddr_walk:
  "vaddr_to_paddr v s = (case walk (mem s) (current_page_dir s) v of
     None \<Rightarrow> 0 | Some base \<Rightarrow> base OR (v AND 0xfff))"
  by (simp add: vaddr_to_paddr_def walk_def slot_def decode_def entry_base_def Let_def)

text \<open>The three assignments to one entry, in one.\<close>

definition make_entry :: "u32 \<Rightarrow> u32 \<Rightarrow> mem \<Rightarrow> mem" where
  "make_entry a p m = wr32 a (rd32 m a AND 0xfff OR push_bit 12 (drop_bit 12 p) OR 3) m"

lemma wr32_wr32: "wr32 a v (wr32 a w m) = wr32 a v m"
  by (rule ext) (simp add: wr32_def)

lemma set_entry:
  "set_present a (set_read_write a (set_address a (drop_bit 12 p) m)) = make_entry a p m"
  by (simp add: set_present_def set_read_write_def set_address_def make_entry_def mem_simps
      wr32_wr32 or.assoc)

lemma bit_3: "bit (3 :: u32) n \<longleftrightarrow> n < 2"
  using bit_mask_iff [of 2 n, where 'a = "32 word"] by (auto simp: mask_eq_exp_minus_1)

lemma bit_fff: "bit (0xfff :: u32) n \<longleftrightarrow> n < 12"
  using bit_mask_iff [of 12 n, where 'a = "32 word"] by (auto simp: mask_eq_exp_minus_1)

lemma bit_page_mask: "bit (0xfffff000 :: u32) n \<longleftrightarrow> 12 \<le> n \<and> n < 32"
proof -
  have "(0xfffff000 :: u32) = push_bit 12 (mask 20)" by (simp add: mask_eq_exp_minus_1)
  then show ?thesis
    by (simp only: bit_push_bit_iff bit_mask_iff) auto
qed

lemma decode_entry:
  "decode (w AND 0xfff OR push_bit 12 (drop_bit 12 p) OR 3) = Some (p AND 0xfffff000)"
proof -
  let ?e = "w AND 0xfff OR push_bit 12 (drop_bit 12 p) OR (3 :: u32)"
  have "entry_present ?e" by (simp add: entry_present_def bit_or_iff bit_3)
  moreover have "entry_base ?e = p AND 0xfffff000"
    unfolding entry_base_def entry_address_def
    by (rule bit_word_eqI, simp only: bit_or_iff bit_and_iff bit_push_bit_iff bit_drop_bit_eq
        bit_3 bit_fff bit_page_mask o_apply le_add_diff_inverse) auto
  ultimately show ?thesis by (simp add: decode_def)
qed

section \<open>Entries that do not overlap\<close>

lemma pd_index_lt: "unat (pd_index v) < 1024"
proof -
  have "pd_index v = take_bit 10 (drop_bit 22 v)"
    unfolding pd_index_def
    by (simp add: drop_bit_and take_bit_eq_mask mask_eq_exp_minus_1)
  then show ?thesis by (simp add: take_bit_eq_mod unat_mod)
qed

lemma pt_index_lt: "unat (pt_index v) < 1024"
proof -
  have "pt_index v = take_bit 10 (drop_bit 12 v)"
    unfolding pt_index_def
    by (simp add: drop_bit_and take_bit_eq_mask mask_eq_exp_minus_1)
  then show ?thesis by (simp add: take_bit_eq_mod unat_mod)
qed

definition page_aligned :: "u32 \<Rightarrow> bool" where
  "page_aligned a \<longleftrightarrow> 4096 dvd unat a"

lemma unat_entry_base: "unat (entry_base e) = unat e div 4096 * 4096"
proof -
  have "unat e div 4096 * 4096 < 4294967296" using unat_lt32 [of e] by simp
  then show ?thesis
    by (simp add: entry_base_def entry_address_def push_bit_eq_mult drop_bit_eq_div
        unat_word_ariths unat_div)
qed

lemma page_aligned_entry_base [simp]: "page_aligned (entry_base e)"
  by (simp add: page_aligned_def unat_entry_base)

lemma entry_base_aligned: "page_aligned a \<Longrightarrow> entry_base a = a"
  by (simp add: word_unat_eq_iff unat_entry_base page_aligned_def)

lemma unat_entry:
  assumes "page_aligned a" "unat i < 1024"
  shows "unat (a + 4 * i) = unat a + 4 * unat i"
proof -
  obtain k where k: "unat a = 4096 * k" using assms(1) by (auto simp: page_aligned_def)
  then have "k < 1048576" using unat_lt32 [of a] by simp
  then have "unat a + 4096 \<le> 4294967296" using k by simp
  moreover have "unat (4 * i) = 4 * unat i"
    using assms(2) by (simp add: unat_word_ariths)
  ultimately show ?thesis
    using assms(2) by (subst unat_add_nowrap) simp_all
qed

lemma entry_end:
  assumes "page_aligned a" "unat i < 1024"
  shows "unat (a + 4 * i) + 4 \<le> 4294967296"
  using assms unat_entry [OF assms] unat_lt32 [of a]
  by (auto simp: page_aligned_def elim!: dvdE)

lemma table_index:
  assumes "1024 * k + i = 1024 * l + (j :: nat)" "i < 1024" "j < 1024"
  shows "k = l \<and> i = j"
proof -
  have "(1024 * k + i) div 1024 = (1024 * l + j) div 1024" using assms(1) by (rule arg_cong)
  then have "k = l" using assms(2,3) by simp
  then show ?thesis using assms(1) by simp
qed

lemma entry_apart:
  assumes "page_aligned a" "page_aligned b" "unat i < 1024" "unat j < 1024" "a \<noteq> b \<or> i \<noteq> j"
  shows "apart (a + 4 * i) 4 (b + 4 * j) 4"
proof -
  obtain k l where kl: "unat a = 4096 * k" "unat b = 4096 * l"
    using assms(1,2) unfolding page_aligned_def by (elim dvdE)
  have "unat a \<noteq> unat b \<or> unat i \<noteq> unat j" using assms(5) by (simp add: word_unat_eq_iff)
  then have "1024 * k + unat i \<noteq> 1024 * l + unat j"
    using kl assms(3,4) table_index [of k "unat i" l "unat j"] by auto
  then have "1024 * k + unat i < 1024 * l + unat j \<or> 1024 * l + unat j < 1024 * k + unat i"
    by (simp only: nat_neq_iff)
  then have "unat a + 4 * unat i + 4 \<le> unat b + 4 * unat j \<or>
      unat b + 4 * unat j + 4 \<le> unat a + 4 * unat i"
    unfolding kl by linarith
  then show ?thesis
    using unat_entry [OF assms(1,3)] unat_entry [OF assms(2,4)]
      entry_end [OF assms(1,3)] entry_end [OF assms(2,4)]
    by (auto intro: apartI apartI2)
qed

section \<open>Writes to the two levels\<close>

lemma rd32_entry_write:
  assumes "page_aligned a" "page_aligned b" "unat i < 1024" "unat j < 1024"
  shows "rd32 (wr32 (a + 4 * i) v m) (b + 4 * j) = (if a = b \<and> i = j then v else rd32 m (b + 4 * j))"
  using entry_apart [OF assms] by (auto simp: mem_simps)

lemma entry_inject:
  assumes "page_aligned a" "page_aligned b" "unat i < 1024" "unat j < 1024"
  shows "a + 4 * i = b + 4 * j \<longleftrightarrow> a = b \<and> i = j"
proof
  assume eq: "a + 4 * i = b + 4 * j"
  show "a = b \<and> i = j"
    using entry_apart [OF assms] unfolding eq by (auto simp: apart_def)
qed simp

lemma slot_table_write:
  assumes "page_aligned dir" "page_aligned t" "t \<noteq> dir" "unat j < 1024"
  shows "slot (wr32 (t + 4 * j) v m) dir w = slot m dir w"
  using rd32_entry_write [OF assms(2,1,4) pd_index_lt] assms(3) by (simp add: slot_def)

lemma slot_entry: "slot m dir w = Some a \<Longrightarrow> \<exists>t. page_aligned t \<and> a = t + 4 * pt_index w"
  by (auto simp: slot_def Let_def split: if_splits intro: page_aligned_entry_base)

lemma walk_table_write:
  assumes "page_aligned dir" "page_aligned t" "t \<noteq> dir" "unat j < 1024"
  shows "walk (wr32 (t + 4 * j) v m) dir w =
    (if slot m dir w = Some (t + 4 * j) then decode v else walk m dir w)"
proof (cases "slot m dir w")
  case None
  then show ?thesis by (simp add: walk_def slot_table_write [OF assms])
next
  case (Some a)
  then obtain u where u: "page_aligned u" "a = u + 4 * pt_index w" using slot_entry by blast
  show ?thesis
    using rd32_entry_write [OF assms(2) u(1) assms(4) pt_index_lt, of v m w]
      entry_inject [OF assms(2) u(1) assms(4) pt_index_lt, of w]
    by (auto simp: walk_def slot_table_write [OF assms] Some u(2))
qed

lemma slot_dir_write:
  assumes "page_aligned dir" "unat i < 1024"
  shows "slot (wr32 (dir + 4 * i) v m) dir w =
    (if pd_index w = i then if entry_present v then Some (entry_base v + 4 * pt_index w) else None
     else slot m dir w)"
  using rd32_entry_write [OF assms(1,1,2) pd_index_lt, of v m w] by (auto simp: slot_def Let_def)

lemma walk_dir_write:
  assumes "page_aligned dir" "unat i < 1024"
    and "pd_index w = i \<Longrightarrow> entry_present v \<and> entry_base v \<noteq> dir"
    and "pd_index w \<noteq> i \<Longrightarrow> entry_present (rd32 m (dir + 4 * pd_index w)) \<Longrightarrow>
      entry_base (rd32 m (dir + 4 * pd_index w)) \<noteq> dir"
  shows "walk (wr32 (dir + 4 * i) v m) dir w =
    (if pd_index w = i then decode (rd32 m (entry_base v + 4 * pt_index w)) else walk m dir w)"
proof -
  have r: "rd32 (wr32 (dir + 4 * i) v m) (t + 4 * pt_index w) = rd32 m (t + 4 * pt_index w)"
    if "page_aligned t" "t \<noteq> dir" for t
    using rd32_entry_write [OF assms(1) that(1) assms(2) pt_index_lt] that(2) by auto
  show ?thesis
  proof (cases "pd_index w = i")
    case True
    then show ?thesis
      using assms(3) r [of "entry_base v"] by (simp add: walk_def slot_dir_write [OF assms(1,2)])
  next
    case False
    have "rd32 (wr32 (dir + 4 * i) v m) a = rd32 m a" if "slot m dir w = Some a" for a
      using that assms(4) [OF False] r by (auto simp: slot_def Let_def split: if_splits)
    then show ?thesis
      using False by (simp add: walk_def slot_dir_write [OF assms(1,2)] split: option.split)
  qed
qed

section \<open>The invariant\<close>

text \<open>
  The directory and the tables it names lie in owned frames, and no table is the
  directory. (Two directory entries may share a table, as the entries 0 and 768 of the
  boot code do.)
\<close>

definition dir_entry :: "'a paging_scheme \<Rightarrow> u32 \<Rightarrow> u32" where
  "dir_entry s v = rd32 (mem s) (current_page_dir s + 4 * pd_index v)"

definition paging_ok :: "'a paging_scheme \<Rightarrow> bool" where
  "paging_ok s \<longleftrightarrow> current_page_dir s \<in> owned_pages s \<and>
     (\<forall>v. entry_present (dir_entry s v) \<longrightarrow>
       entry_base (dir_entry s v) \<in> owned_pages s - {current_page_dir s})"

lemma owned_page_aligned: "a \<in> owned_pages s \<Longrightarrow> page_aligned a"
  using unat_page by (auto simp: owned_pages_def page_aligned_def dest: owned_frames_lt)

lemma paging_okD:
  assumes "paging_ok s"
  shows "page_aligned (current_page_dir s)"
    and "entry_present (dir_entry s v) \<Longrightarrow> entry_base (dir_entry s v) \<noteq> current_page_dir s"
    and "entry_present (dir_entry s v) \<Longrightarrow> entry_base (dir_entry s v) \<in> owned_pages s"
  using assms owned_page_aligned by (auto simp: paging_ok_def)

section \<open>Mapping a page\<close>

lemma map_page_eq:
  "map_page p v s =
    (if entry_present (dir_entry s v)
     then Some (v, s\<lparr>mem := make_entry (entry_base (dir_entry s v) + 4 * pt_index v) p (mem s)\<rparr>)
     else case frames_alloc s of None \<Rightarrow> None
       | Some (f, s1) \<Rightarrow> Some (v, s1\<lparr>mem := make_entry (f + 4 * pt_index v) p
           (make_entry (current_page_dir s + 4 * pd_index v) f (mem s1))\<rparr>))"
  by (auto simp: map_page_def dir_entry_def set_entry entry_base_def Let_def
      split: option.splits)

text \<open>Frame numbers of a mapped page: the low twelve bits of the physical address are lost.\<close>

lemma decode_make_entry: "decode (rd32 (make_entry a p m) a) = Some (p AND 0xfffff000)"
  by (simp add: make_entry_def mem_simps decode_entry)

lemma slot_dir_entry:
  "entry_present (dir_entry s v) \<Longrightarrow>
   slot (mem s) (current_page_dir s) v = Some (entry_base (dir_entry s v) + 4 * pt_index v)"
  by (simp add: slot_def dir_entry_def)

lemma dir_entry_table_write:
  assumes "paging_ok s" "page_aligned t" "t \<noteq> current_page_dir s" "unat j < 1024"
  shows "dir_entry (s\<lparr>mem := wr32 (t + 4 * j) e (mem s)\<rparr>) w = dir_entry s w"
  using rd32_entry_write [OF assms(2) paging_okD(1) [OF assms(1)] assms(4) pd_index_lt] assms(3)
  by (simp add: dir_entry_def)

lemma paging_ok_table_write:
  assumes "paging_ok s" "page_aligned t" "t \<noteq> current_page_dir s" "unat j < 1024"
  shows "paging_ok (s\<lparr>mem := wr32 (t + 4 * j) e (mem s)\<rparr>)"
  using assms(1) unfolding paging_ok_def dir_entry_table_write [OF assms]
  by (simp add: owned_pages_def owned_frames_def)

text \<open>Into an existing table: one entry of it changes.\<close>

lemma map_page_old:
  assumes "paging_ok s" "entry_present (dir_entry s v)"
  obtains m where "map_page p v s = Some (v, s\<lparr>mem := m\<rparr>)" "paging_ok (s\<lparr>mem := m\<rparr>)"
    "\<And>w. walk m (current_page_dir s) w =
      (if slot (mem s) (current_page_dir s) w = slot (mem s) (current_page_dir s) v then Some (p AND 0xfffff000)
       else walk (mem s) (current_page_dir s) w)"
    "\<And>w. dir_entry (s\<lparr>mem := m\<rparr>) w = dir_entry s w"
proof -
  let ?dir = "current_page_dir s" and ?t = "entry_base (dir_entry s v)"
  let ?e = "rd32 (mem s) (?t + 4 * pt_index v) AND 0xfff OR push_bit 12 (drop_bit 12 p) OR 3"
  let ?m = "wr32 (?t + 4 * pt_index v) ?e (mem s)"
  note W = paging_okD(1) [OF assms(1)] page_aligned_entry_base
    paging_okD(2) [OF assms] pt_index_lt
  have map: "map_page p v s = Some (v, s\<lparr>mem := ?m\<rparr>)"
    by (simp add: map_page_eq assms(2) make_entry_def)
  have walks: "walk ?m ?dir w = (if slot (mem s) ?dir w = slot (mem s) ?dir v then Some (p AND 0xfffff000)
      else walk (mem s) ?dir w)" for w
    using walk_table_write [OF W] by (simp add: slot_dir_entry [OF assms(2)] decode_entry)
  have ok: "paging_ok (s\<lparr>mem := ?m\<rparr>)" "dir_entry (s\<lparr>mem := ?m\<rparr>) w = dir_entry s w" for w
    by (rule paging_ok_table_write [OF assms(1) W(2-4)] dir_entry_table_write [OF assms(1) W(2-4)])+
  show ?thesis by (rule that [OF map ok(1) walks ok(2)])
qed

text \<open>
  C27. \<open>map_page\<close> into an existing page table: it returns the virtual address, afterwards
  the page is present and every address of it translates to the page of the physical
  address with its own offset, the translation of every address that selects another
  table entry is unchanged, no frame is allocated and the tables stay well formed.
\<close>

theorem map_page_existing_table:
  assumes "paging_ok s" "entry_present (dir_entry s v)"
  shows "\<exists>m. map_page p v s = Some (v, s\<lparr>mem := m\<rparr>) \<and> paging_ok (s\<lparr>mem := m\<rparr>) \<and>
    page_present v (s\<lparr>mem := m\<rparr>) \<and>
    vaddr_to_paddr v (s\<lparr>mem := m\<rparr>) = (p AND 0xfffff000) OR (v AND 0xfff) \<and>
    (\<forall>w. slot (mem s) (current_page_dir s) w \<noteq> slot (mem s) (current_page_dir s) v \<longrightarrow>
       walk m (current_page_dir s) w = walk (mem s) (current_page_dir s) w)"
  by (rule map_page_old [OF assms, of p]) (auto simp: page_present_walk vaddr_to_paddr_walk)

definition example_paging :: paging where
  "example_paging = \<lparr>mem = wr32 0x1000 0x2003 (\<lambda>_. 0), port_log = [], hw8 = (\<lambda>_ _. 0),
     hw16 = (\<lambda>_ _. 0), hw32 = (\<lambda>_ _. 0), bitmap = (\<lambda>_. 0)(0 := 6), heap_top = 0,
     current_page_dir = 0x1000, cr3 = 0x1000, invalidated = []\<rparr>"

lemma rd32_zero: "rd32 (\<lambda>_. 0) a = 0"
  by (simp add: rd32_def)

lemma example_dir_entry: "dir_entry example_paging v = (if pd_index v = 0 then 0x2003 else 0)"
  using rd32_entry_write [where a = "0x1000" and b = "0x1000" and i = 0 and j = "pd_index v" and v = "0x2003" and m = "\<lambda>_. 0"] pd_index_lt [of v]
  by (auto simp: dir_entry_def example_paging_def page_aligned_def rd32_zero)

lemma example_owned_page: "0x1000 \<in> owned_pages example_paging" "0x2000 \<in> owned_pages example_paging"
proof -
  have "bit (6 :: u8) 1" "bit (6 :: u8) 2" by (simp_all add: bit_numeral_rec)
  then have "1 \<in> owned_frames example_paging" "2 \<in> owned_frames example_paging"
    by (simp_all add: owned_frames_def example_paging_def)
  then have "of_nat 1 * 4096 \<in> owned_pages example_paging" "of_nat 2 * 4096 \<in> owned_pages example_paging"
    unfolding owned_pages_def by blast+
  then show "0x1000 \<in> owned_pages example_paging" "0x2000 \<in> owned_pages example_paging"
    by simp_all
qed

lemma example_paging_ok: "paging_ok example_paging"
proof -
  have "entry_present 0x2003" "entry_base 0x2003 = 0x2000" "\<not> entry_present 0"
    by (simp_all add: entry_present_def entry_base_def entry_address_def)
  moreover have "current_page_dir example_paging = 0x1000" by (simp add: example_paging_def)
  ultimately show ?thesis
    using example_owned_page by (simp add: paging_ok_def example_dir_entry)
qed

theorem map_page_existing_table_witness:
  "\<exists>m. map_page 0xb8000 0x5000 example_paging = Some (0x5000, example_paging\<lparr>mem := m\<rparr>) \<and>
     vaddr_to_paddr 0x5000 (example_paging\<lparr>mem := m\<rparr>) = 0xb8000"
proof -
  have "entry_present (dir_entry example_paging 0x5000)"
    by (simp add: example_dir_entry pd_index_def entry_present_def)
  from map_page_existing_table [OF example_paging_ok this, where p = "0xb8000"] show ?thesis by auto
qed

section \<open>Mapping a page in a new table\<close>

definition next_frame :: "'a frames_scheme \<Rightarrow> u32" where
  "next_frame s = of_nat (LEAST k. k \<notin> owned_frames s) * 4096"

lemma next_frame:
  assumes "owned_frames s \<noteq> {..<524288}"
  shows "frames_alloc s = Some (next_frame s, own_frame (LEAST k. k \<notin> owned_frames s) s)"
    and "next_frame s \<notin> owned_pages s" and "page_aligned (next_frame s)"
    and "owned_pages (own_frame (LEAST k. k \<notin> owned_frames s) s) = insert (next_frame s) (owned_pages s)"
proof -
  note F = first_free [OF assms]
  show "frames_alloc s = Some (next_frame s, own_frame (LEAST k. k \<notin> owned_frames s) s)"
    using assms by (simp add: frames_alloc_eq next_frame_def Let_def)
  show "next_frame s \<notin> owned_pages s"
    using F by (auto simp: owned_pages_def next_frame_def page_inject owned_frames_lt)
  show "page_aligned (next_frame s)"
    unfolding next_frame_def page_aligned_def unat_page [OF F(1)] by simp
  show "owned_pages (own_frame (LEAST k. k \<notin> owned_frames s) s) = insert (next_frame s) (owned_pages s)"
    by (simp add: owned_pages_def owned_own_frame [OF F(1)] next_frame_def)
qed

lemma own_frame_paging [frame_simps]:
  "current_page_dir (own_frame i s) = current_page_dir s"
  by (simp add: own_frame_def)

lemma owned_pages_mem [simp]: "owned_pages (s\<lparr>mem := m\<rparr>) = owned_pages s"
  by (simp add: owned_pages_def owned_frames_def)

lemma entry_base_mask: "entry_base f = f AND 0xfffff000"
  unfolding entry_base_def entry_address_def
  by (rule bit_word_eqI, simp only: bit_and_iff bit_push_bit_iff bit_drop_bit_eq bit_page_mask
      o_apply le_add_diff_inverse) auto

lemma walk_new_table:
  assumes dir: "page_aligned dir" and f: "page_aligned f" "f \<noteq> dir"
    and e: "entry_present e" "entry_base e = f"
    and others: "\<And>w. pd_index w \<noteq> pd_index v \<Longrightarrow> entry_present (rd32 m (dir + 4 * pd_index w)) \<Longrightarrow>
      entry_base (rd32 m (dir + 4 * pd_index w)) \<noteq> dir \<and> entry_base (rd32 m (dir + 4 * pd_index w)) \<noteq> f"
  shows "walk (wr32 (f + 4 * pt_index v) x (wr32 (dir + 4 * pd_index v) e m)) dir w =
    (if pd_index w \<noteq> pd_index v then walk m dir w
     else if pt_index w = pt_index v then decode x else decode (rd32 m (f + 4 * pt_index w)))"
proof -
  let ?m1 = "wr32 (dir + 4 * pd_index v) e m"
  have w1: "walk ?m1 dir w = (if pd_index w = pd_index v
      then decode (rd32 m (f + 4 * pt_index w)) else walk m dir w)"
    using walk_dir_write [OF dir pd_index_lt, of w v e m] e f others by auto
  have "slot ?m1 dir w = Some (f + 4 * pt_index v) \<longleftrightarrow>
      pd_index w = pd_index v \<and> pt_index w = pt_index v"
  proof (cases "pd_index w = pd_index v")
    case True
    then show ?thesis
      using entry_inject [OF f(1) f(1) pt_index_lt pt_index_lt]
      by (simp add: slot_dir_write [OF dir pd_index_lt] e)
  next
    case False
    then have "slot ?m1 dir w = slot m dir w" by (simp add: slot_dir_write [OF dir pd_index_lt])
    moreover have "entry_base (rd32 m (dir + 4 * pd_index w)) + 4 * pt_index w \<noteq> f + 4 * pt_index v"
      if "entry_present (rd32 m (dir + 4 * pd_index w))"
      using others [OF False that] entry_inject [OF page_aligned_entry_base f(1) pt_index_lt pt_index_lt]
      by simp
    ultimately show ?thesis using False by (simp add: slot_def Let_def)
  qed
  then show ?thesis
    unfolding walk_table_write [OF dir f pt_index_lt] w1 by auto
qed

text \<open>Into a new table: one directory entry changes as well.\<close>

lemma map_page_new:
  fixes s :: "'a paging_scheme"
  assumes "paging_ok s" "\<not> entry_present (dir_entry s v)" "owned_frames s \<noteq> {..<524288}"
  defines "s1 \<equiv> own_frame (LEAST k. k \<notin> owned_frames s) s"
  obtains m where "map_page p v s = Some (v, s1\<lparr>mem := m\<rparr>)" "paging_ok (s1\<lparr>mem := m\<rparr>)"
    "\<And>w. walk m (current_page_dir s) w =
      (if pd_index w \<noteq> pd_index v then walk (mem s) (current_page_dir s) w
       else if pt_index w = pt_index v then Some (p AND 0xfffff000)
       else decode (rd32 (mem s) (next_frame s + 4 * pt_index w)))"
    "\<And>w. pd_index w \<noteq> pd_index v \<Longrightarrow> dir_entry (s1\<lparr>mem := m\<rparr>) w = dir_entry s w"
    "\<And>w. pd_index w = pd_index v \<Longrightarrow> entry_present (dir_entry (s1\<lparr>mem := m\<rparr>) w) \<and>
      entry_base (dir_entry (s1\<lparr>mem := m\<rparr>) w) = next_frame s"
proof -
  let ?dir = "current_page_dir s" and ?f = "next_frame s"
  let ?s1 = "own_frame (LEAST k. k \<notin> owned_frames s) s"
  note N = next_frame [OF assms(3)] and dir = paging_okD(1) [OF assms(1)]
  have ne: "?f \<noteq> ?dir" using N(2) assms(1) by (auto simp: paging_ok_def)
  define e where "e = rd32 (mem s) (?dir + 4 * pd_index v) AND 0xfff OR push_bit 12 (drop_bit 12 ?f) OR 3"
  define m1 where "m1 = wr32 (?dir + 4 * pd_index v) e (mem s)"
  define e2 where "e2 = rd32 m1 (?f + 4 * pt_index v) AND 0xfff OR push_bit 12 (drop_bit 12 p) OR 3"
  define m where "m = wr32 (?f + 4 * pt_index v) e2 m1"
  let ?s' = "?s1\<lparr>mem := m\<rparr>"
  have "decode e = Some ?f"
    unfolding e_def decode_entry using entry_base_aligned [OF N(3)] by (simp add: entry_base_mask)
  then have e: "entry_present e" "entry_base e = ?f"
    by (auto simp: decode_def split: if_splits)
  have map: "map_page p v s = Some (v, ?s')"
    using assms(2) by (simp add: map_page_eq N(1) make_entry_def frame_simps m_def m1_def e_def e2_def)
  have dirs: "dir_entry ?s' w = (if pd_index w = pd_index v then e else dir_entry s w)" for w
    using rd32_entry_write [OF N(3) dir pt_index_lt pd_index_lt] ne
      rd32_entry_write [OF dir dir pd_index_lt pd_index_lt]
    by (auto simp: dir_entry_def frame_simps m_def m1_def)
  have ok: "paging_ok ?s'"
    using assms(1) ne unfolding paging_ok_def dirs by (auto simp: N(4) frame_simps e)
  have walks: "walk m ?dir w = (if pd_index w \<noteq> pd_index v then walk (mem s) ?dir w
       else if pt_index w = pt_index v then Some (p AND 0xfffff000)
       else decode (rd32 (mem s) (?f + 4 * pt_index w)))" for w
  proof -
    have "entry_base (dir_entry s u) \<noteq> ?dir \<and> entry_base (dir_entry s u) \<noteq> ?f"
      if "entry_present (dir_entry s u)" for u
      using paging_okD(2,3) [OF assms(1) that] N(2) by metis
    then show ?thesis
      using walk_new_table [OF dir N(3) ne e, of v "mem s" e2 w]
      by (simp add: m_def m1_def e2_def decode_entry dir_entry_def)
  qed
  show ?thesis
  proof (rule that)
    show "map_page p v s = Some (v, s1\<lparr>mem := m\<rparr>)" "paging_ok (s1\<lparr>mem := m\<rparr>)"
      using map ok by (simp_all add: s1_def)
    show "\<And>w. pd_index w \<noteq> pd_index v \<Longrightarrow> dir_entry (s1\<lparr>mem := m\<rparr>) w = dir_entry s w"
      "\<And>w. pd_index w = pd_index v \<Longrightarrow> entry_present (dir_entry (s1\<lparr>mem := m\<rparr>) w) \<and>
      entry_base (dir_entry (s1\<lparr>mem := m\<rparr>) w) = next_frame s"
      using dirs e by (simp_all add: s1_def)
  qed (rule walks)
qed

text \<open>
  C28. \<open>map_page\<close> where the directory has no table yet and a frame is free: it takes the
  lowest free frame as the table, the page is present and translates to the given page,
  the translation outside the 4 MiB of the new table is unchanged, and the tables stay
  well formed. The new table is not cleared: every other page of those 4 MiB translates
  to whatever the frame happened to contain.
\<close>

theorem map_page_new_table:
  assumes "paging_ok s" "\<not> entry_present (dir_entry s v)" "owned_frames s \<noteq> {..<524288}"
  shows "\<exists>s'. map_page p v s = Some (v, s') \<and> paging_ok s' \<and>
    owned_pages s' = insert (next_frame s) (owned_pages s) \<and> next_frame s \<notin> owned_pages s \<and>
    page_present v s' \<and> vaddr_to_paddr v s' = (p AND 0xfffff000) OR (v AND 0xfff) \<and>
    (\<forall>w. walk (mem s') (current_page_dir s') w =
      (if pd_index w \<noteq> pd_index v then walk (mem s) (current_page_dir s) w
       else if pt_index w = pt_index v then Some (p AND 0xfffff000)
       else decode (rd32 (mem s) (next_frame s + 4 * pt_index w))))"
proof -
  define s1 where "s1 = own_frame (LEAST k. k \<notin> owned_frames s) s"
  obtain m where m: "map_page p v s = Some (v, s1\<lparr>mem := m\<rparr>)" "paging_ok (s1\<lparr>mem := m\<rparr>)"
    "\<And>w. walk m (current_page_dir s) w =
      (if pd_index w \<noteq> pd_index v then walk (mem s) (current_page_dir s) w
       else if pt_index w = pt_index v then Some (p AND 0xfffff000)
       else decode (rd32 (mem s) (next_frame s + 4 * pt_index w)))"
    by (rule map_page_new [OF assms, of p]) (simp add: s1_def)
  have "current_page_dir s1 = current_page_dir s" by (simp add: s1_def frame_simps)
  then show ?thesis
    using m next_frame(2,4) [OF assms(3), folded s1_def]
    by (intro exI [of _ "s1\<lparr>mem := m\<rparr>"]) (simp add: page_present_walk vaddr_to_paddr_walk)
qed

lemma example_next_frame: "next_frame example_paging = 0" "owned_frames example_paging \<noteq> {..<524288}"
proof -
  have "0 \<notin> owned_frames example_paging"
    by (simp add: owned_frames_def example_paging_def)
  then have "(LEAST k. k \<notin> owned_frames example_paging) = 0" by (intro Least_equality) auto
  then show "next_frame example_paging = 0" by (simp add: next_frame_def)
  show "owned_frames example_paging \<noteq> {..<524288}"
    using \<open>0 \<notin> owned_frames example_paging\<close> by (metis lessThan_iff zero_less_numeral)
qed

theorem map_page_new_table_witness:
  "\<exists>s'. map_page 0xfd000000 0xe0000000 example_paging = Some (0xe0000000, s') \<and>
     vaddr_to_paddr 0xe0000000 s' = 0xfd000000 \<and> 0 \<in> owned_pages s'"
proof -
  have "\<not> entry_present (dir_entry example_paging 0xe0000000)"
    by (simp add: example_dir_entry pd_index_def entry_present_def)
  from map_page_new_table [OF example_paging_ok this example_next_frame(2), where p = "0xfd000000"]
  show ?thesis by (auto simp: example_next_frame(1))
qed

text \<open>
  \<open>map_page\<close> does not check the frame allocator: when no frame is left and the
  directory has no table for the address, it still returns normally, having written a
  present directory entry that names the page 0xfffff000 as the table.
\<close>

theorem map_page_exhausted:
  assumes "\<not> entry_present (dir_entry s v)" "owned_frames s = {..<524288}"
    and "apart (-1 + 4 * pt_index v) 4 (current_page_dir s + 4 * pd_index v) 4"
  shows "\<exists>s'. map_page p v s = Some (v, s') \<and> decode (dir_entry s' v) = Some 0xfffff000"
proof -
  let ?dir = "current_page_dir s + 4 * pd_index v"
  let ?m1 = "make_entry ?dir (-1) (mem s)"
  let ?m = "make_entry (-1 + 4 * pt_index v) p ?m1"
  have "map_page p v s = Some (v, s\<lparr>mem := ?m\<rparr>)"
    by (simp add: map_page_eq assms(1) frames_alloc_eq assms(2))
  moreover have "decode (rd32 ?m1 ?dir) = Some 0xfffff000"
    unfolding decode_make_entry by simp
  moreover have "rd32 ?m ?dir = rd32 ?m1 ?dir"
    unfolding make_entry_def [of "-1 + 4 * pt_index v"] by (rule rd32_wr32_apart [OF assms(3)])
  ultimately show ?thesis by (simp add: dir_entry_def)
qed

definition full_paging :: paging where
  "full_paging = \<lparr>mem = (\<lambda>_. 0), port_log = [], hw8 = (\<lambda>_ _. 0),
     hw16 = (\<lambda>_ _. 0), hw32 = (\<lambda>_ _. 0), bitmap = (\<lambda>_. 0xff), heap_top = 0,
     current_page_dir = 0x1000, cr3 = 0x1000, invalidated = []\<rparr>"

lemma bit_ff: "n < 8 \<Longrightarrow> bit (0xff :: u8) n"
  using bit_mask_iff [of 8 n, where 'a = "8 word"] by (simp add: mask_eq_exp_minus_1)

theorem map_page_exhausted_witness:
  "\<exists>s'. map_page 0xfd000000 0xe0000000 full_paging = Some (0xe0000000, s') \<and>
     decode (dir_entry s' 0xe0000000) = Some 0xfffff000"
proof -
  have "owned_frames full_paging = {..<524288}"
    using bit_ff [of "i mod 8" for i] by (auto simp: owned_frames_def full_paging_def)
  moreover have "\<not> entry_present (dir_entry full_paging 0xe0000000)"
    by (simp add: dir_entry_def full_paging_def rd32_zero entry_present_def)
  moreover have "apart (-1 + 4 * pt_index 0xe0000000) 4 (current_page_dir full_paging + 4 * pd_index 0xe0000000) 4"
    by (simp add: full_paging_def pt_index_def pd_index_def apart_def)
  ultimately show ?thesis using map_page_exhausted [of full_paging "0xe0000000"] by blast
qed

section \<open>Unmapping\<close>

lemma unmap_page_eq:
  "unmap_page v s =
    (if entry_present (dir_entry s v)
     then s\<lparr>mem := wr32 (entry_base (dir_entry s v) + 4 * pt_index v) 0 (mem s),
            invalidated := v # invalidated s\<rparr>
     else s)"
  by (simp add: unmap_page_def dir_entry_def entry_base_def Let_def)

lemma decode_0: "decode 0 = None"
  by (simp add: decode_def entry_present_def)

lemma walk_unmap:
  assumes "paging_ok s"
  shows "walk (mem (unmap_page v s)) (current_page_dir s) w =
    (if slot (mem s) (current_page_dir s) w = slot (mem s) (current_page_dir s) v then None
     else walk (mem s) (current_page_dir s) w)"
proof (cases "entry_present (dir_entry s v)")
  case True
  show ?thesis
    using walk_table_write [OF paging_okD(1) [OF assms] page_aligned_entry_base
        paging_okD(2) [OF assms True] pt_index_lt]
    by (simp add: unmap_page_eq True slot_dir_entry [OF True] decode_0)
next
  case False
  then have "slot (mem s) (current_page_dir s) v = None" by (simp add: slot_def dir_entry_def)
  then show ?thesis by (simp add: unmap_page_eq False walk_def)
qed

lemma unmap_page_dir [simp]: "current_page_dir (unmap_page v s) = current_page_dir s"
  by (simp add: unmap_page_eq)

text \<open>
  \<open>unmap_page\<close>: afterwards no address of the page translates, every address that
  selects another table entry translates as before, the tables stay well formed, and the
  translation cache is told about the address exactly when there was a table to change.
\<close>

theorem unmap_page_correct:
  assumes "paging_ok s"
  shows "paging_ok (unmap_page v s) \<and> \<not> page_present v (unmap_page v s) \<and>
    vaddr_to_paddr v (unmap_page v s) = 0 \<and>
    (\<forall>w. slot (mem s) (current_page_dir s) w \<noteq> slot (mem s) (current_page_dir s) v \<longrightarrow>
       walk (mem (unmap_page v s)) (current_page_dir s) w = walk (mem s) (current_page_dir s) w) \<and>
    invalidated (unmap_page v s) =
      (if entry_present (dir_entry s v) then v # invalidated s else invalidated s)"
proof -
  have "paging_ok (unmap_page v s)"
  proof (cases "entry_present (dir_entry s v)")
    case True
    have "paging_ok (s\<lparr>mem := wr32 (entry_base (dir_entry s v) + 4 * pt_index v) 0 (mem s)\<rparr>)"
      by (rule paging_ok_table_write [OF assms page_aligned_entry_base
            paging_okD(2) [OF assms True] pt_index_lt])
    then show ?thesis
      using True by (simp add: unmap_page_eq paging_ok_def dir_entry_def owned_pages_def owned_frames_def)
  qed (simp add: unmap_page_eq assms)
  then show ?thesis
    using walk_unmap [OF assms] by (simp add: page_present_walk vaddr_to_paddr_walk)
      (simp add: unmap_page_eq)
qed

theorem unmap_page_correct_witness:
  "\<not> page_present 0x5000 (unmap_page 0x5000 example_paging)"
  using unmap_page_correct [OF example_paging_ok, where v = "0x5000"] by simp

text \<open>
  Mapping a page that was not present into an existing table and unmapping it again
  restores the translation of every address.
\<close>

theorem map_unmap_restores:
  assumes "paging_ok s" "entry_present (dir_entry s v)" "\<not> page_present v s"
    and "map_page p v s = Some (v, s')"
  shows "walk (mem (unmap_page v s')) (current_page_dir s) w = walk (mem s) (current_page_dir s) w"
proof -
  let ?t = "entry_base (dir_entry s v)"
  note W = paging_okD(1) [OF assms(1)] page_aligned_entry_base paging_okD(2) [OF assms(1,2)]
    pt_index_lt
  obtain e where s': "s' = s\<lparr>mem := wr32 (?t + 4 * pt_index v) e (mem s)\<rparr>"
    using assms(2,4) by (auto simp: map_page_eq make_entry_def)
  have "paging_ok s'" unfolding s' by (rule paging_ok_table_write [OF assms(1) W(2-4)])
  moreover have "current_page_dir s' = current_page_dir s" "slot (mem s') (current_page_dir s) = slot (mem s) (current_page_dir s)"
    by (simp_all add: s' slot_table_write [OF W] fun_eq_iff)
  ultimately have "walk (mem (unmap_page v s')) (current_page_dir s) w =
    (if slot (mem s) (current_page_dir s) w = slot (mem s) (current_page_dir s) v then None
     else walk (mem s') (current_page_dir s) w)"
    using walk_unmap [of s' v w] by simp
  moreover have "walk (mem s) (current_page_dir s) w = None"
    if "slot (mem s) (current_page_dir s) w = slot (mem s) (current_page_dir s) v"
    using that assms(3) by (simp add: page_present_walk walk_def)
  ultimately show ?thesis
    by (auto simp: s' walk_table_write [OF W] slot_dir_entry [OF assms(2)])
qed

theorem map_unmap_restores_witness:
  "\<exists>s'. map_page 0xb8000 0x5000 example_paging = Some (0x5000, s') \<and>
     walk (mem (unmap_page 0x5000 s')) 0x1000 0x5000 = None"
proof -
  have d: "entry_present (dir_entry example_paging 0x5000)"
    by (simp add: example_dir_entry pd_index_def entry_present_def)
  have dir: "current_page_dir example_paging = 0x1000" by (simp add: example_paging_def)
  have n: "walk (mem example_paging) 0x1000 0x5000 = None" by code_simp
  then have "\<not> page_present 0x5000 example_paging" by (simp add: page_present_walk dir)
  from map_unmap_restores [OF example_paging_ok d this, where p = "0xb8000" and w = "0x5000"] n
  show ?thesis by (simp add: map_page_eq d dir)
qed

end
