(* ===== verification/Video.thy ===== *)
theory Video
  imports Paging
begin

text \<open>
  The text console on the linear framebuffer, \<open>src/kernel/drivers/video.cpp\<close>. The
  framebuffer is memory from \<open>VGA_FRAMEBUFFER_BASE\<close> on; the font (an asset linked into
  the image) is an array of 4096 bytes, and an index outside it has no result.
\<close>

record cursor_pos =
  cur_x :: u32
  cur_y :: u32

definition VGA_FRAMEBUFFER_BASE :: u32 where
  "VGA_FRAMEBUFFER_BASE = 0xe0000000"

definition VGA_CHAR_HEIGHT :: u32 where
  "VGA_CHAR_HEIGHT = 16"

record video = paging +
  display_font :: "nat \<Rightarrow> u8"
  vga_mem :: u32
  cursor :: cursor_pos
  scr_w :: u32
  scr_h :: u32
  scr_bpp :: u32
  scr_pitch :: u32

section \<open>The operations\<close>

definition compute_vga_offset :: "cursor_pos \<Rightarrow> 'a video_scheme \<Rightarrow> u32" where
  "compute_vga_offset pos s = cur_y pos * scr_pitch s + cur_x pos * (scr_bpp s div 8)"

text \<open>The mapping loop of \<open>init\<close>: \<open>n\<close> more pages, from page \<open>i\<close>.\<close>

primrec video_map_loop :: "nat \<Rightarrow> u32 \<Rightarrow> u32 \<Rightarrow> 'a video_scheme \<Rightarrow> 'a video_scheme option" where
  "video_map_loop 0 framebuffer i s = Some s"
| "video_map_loop (Suc n) framebuffer i s =
     (let offset = i * 4096
      in case map_page (offset + framebuffer) (offset + VGA_FRAMEBUFFER_BASE) s of
           None \<Rightarrow> None
         | Some (_, s') \<Rightarrow> video_map_loop n framebuffer (i + 1) s')"

text \<open>A quotient by 4096 is below \<open>2 ^ 20\<close>, so the signed counter of the loop is exact.
  From page 524288 on, \<open>i * 4096\<close> overflows \<open>int\<close>; the words of the model wrap, as the code does on
  the i386. The properties are about framebuffers of at most 131072 pages.\<close>

definition video_init :: "u32 \<Rightarrow> u32 \<Rightarrow> u32 \<Rightarrow> u32 \<Rightarrow> u32 \<Rightarrow> 'a video_scheme \<Rightarrow> 'a video_scheme option" where
  "video_init framebuffer w h bpp pitch s =
     (let pages_for_framebuffer = (pitch * h * (bpp div 8)) div 4096
      in case video_map_loop (Suc (unat pages_for_framebuffer)) framebuffer 0 s of
           None \<Rightarrow> None
         | Some s' \<Rightarrow> Some (s'\<lparr>cursor := \<lparr>cur_x = 0, cur_y = 0\<rparr>, scr_w := w, scr_h := h,
             scr_bpp := bpp, scr_pitch := pitch\<rparr>))"

definition put_pixel :: "u32 \<Rightarrow> u32 \<Rightarrow> u32 \<Rightarrow> 'a video_scheme \<Rightarrow> 'a video_scheme" where
  "put_pixel x y color s =
     (let offset = compute_vga_offset \<lparr>cur_x = x, cur_y = y\<rparr> s;
          m1 = wr8 (vga_mem s + offset) (ucast (color AND 0xff)) (mem s);
          m2 = wr8 (vga_mem s + (offset + 1)) (ucast (drop_bit 8 color AND 0xff)) m1;
          m3 = wr8 (vga_mem s + (offset + 2)) (ucast (drop_bit 16 color AND 0xff)) m2
      in s\<lparr>mem := m3\<rparr>)"

definition get_cursor_pos :: "'a video_scheme \<Rightarrow> cursor_pos" where
  "get_cursor_pos s = cursor s"

definition set_cursor_pos :: "cursor_pos \<Rightarrow> 'a video_scheme \<Rightarrow> 'a video_scheme" where
  "set_cursor_pos pos s = s\<lparr>cursor := pos\<rparr>"

definition scroll :: "'a video_scheme \<Rightarrow> 'a video_scheme" where
  "scroll s = s\<lparr>mem := memcpy VGA_FRAMEBUFFER_BASE
     (VGA_FRAMEBUFFER_BASE + scr_pitch s * VGA_CHAR_HEIGHT)
     (scr_pitch s * (scr_h s - VGA_CHAR_HEIGHT)) (mem s)\<rparr>"

definition clear :: "'a video_scheme \<Rightarrow> 'a video_scheme" where
  "clear s = s\<lparr>mem := memset VGA_FRAMEBUFFER_BASE 0
     (scr_pitch s * scr_h s * (scr_bpp s div 8)) (mem s)\<rparr>"

definition font_byte :: "u32 \<Rightarrow> 'a video_scheme \<Rightarrow> u8 option" where
  "font_byte i s = (if unat i < 4096 then Some (display_font s (unat i)) else None)"

text \<open>The inner and the outer drawing loop of \<open>putc\<close>.\<close>

primrec putc_row :: "nat \<Rightarrow> u8 \<Rightarrow> u32 \<Rightarrow> u32 \<Rightarrow> 'a video_scheme \<Rightarrow> 'a video_scheme" where
  "putc_row 0 line px py s = s"
| "putc_row (Suc n) line px py s =
     (let x = 8 - Suc n; pixel = push_bit x line AND 0x80
      in putc_row n line px py
           (put_pixel (px + of_nat x) py (if pixel \<noteq> 0 then 0xffffff else 0) s))"

primrec putc_rows :: "nat \<Rightarrow> u32 \<Rightarrow> u32 \<Rightarrow> u32 \<Rightarrow> 'a video_scheme \<Rightarrow> 'a video_scheme option" where
  "putc_rows 0 glyph px py s = Some s"
| "putc_rows (Suc n) glyph px py s =
     (let y = 16 - Suc n
      in case font_byte (glyph + of_nat y) s of
           None \<Rightarrow> None
         | Some line \<Rightarrow> putc_rows n glyph px py (putc_row 8 line px (py + of_nat y) s))"

text \<open>\<open>char\<close> is signed on i386, so the conversion to \<open>unsigned int\<close> extends the sign.\<close>

definition putc :: "u8 \<Rightarrow> 'a video_scheme \<Rightarrow> 'a video_scheme option" where
  "putc c s =
     do {
       let pos = get_cursor_pos s;
       (pos, s) \<leftarrow>
         (if c = 10 then Some (pos\<lparr>cur_x := 0, cur_y := cur_y pos + 1\<rparr>, s)
          else do {
            let glyph = scast c * VGA_CHAR_HEIGHT;
            s \<leftarrow> putc_rows 16 glyph (cur_x pos * 8) (cur_y pos * VGA_CHAR_HEIGHT) s;
            Some (pos\<lparr>cur_x := cur_x pos + 1\<rparr>, s)
          });
       let pos = (if scr_w s div 8 \<le> cur_x pos
                  then pos\<lparr>cur_x := 0, cur_y := cur_y pos + 1\<rparr> else pos);
       let (pos, s) = (if scr_h s div VGA_CHAR_HEIGHT - 1 \<le> cur_y pos
                  then (pos\<lparr>cur_y := cur_y pos - 1\<rparr>, scroll s) else (pos, s));
       Some (set_cursor_pos pos s)
     }"

section \<open>The screen as a picture\<close>

text \<open>
  The geometries \<open>init\<close> is called with: at least three bytes per pixel, rows of at least
  \<open>w\<close> pixels, at least two lines of text, and a framebuffer that ends below 4 GiB.
\<close>

definition geometry :: "'a video_scheme \<Rightarrow> bool" where
  "geometry s \<longleftrightarrow> vga_mem s = VGA_FRAMEBUFFER_BASE \<and> 3 \<le> unat (scr_bpp s div 8) \<and>
     8 \<le> unat (scr_w s) \<and> 32 \<le> unat (scr_h s) \<and>
     unat (scr_w s) * unat (scr_bpp s div 8) \<le> unat (scr_pitch s) \<and>
     unat (scr_pitch s) * unat (scr_h s) \<le> 0x20000000"

definition framebuffer :: "'a video_scheme \<Rightarrow> u32 set" where
  "framebuffer s = region VGA_FRAMEBUFFER_BASE (unat (scr_pitch s) * unat (scr_h s))"

definition pixel_off :: "'a video_scheme \<Rightarrow> nat \<Rightarrow> nat \<Rightarrow> nat" where
  "pixel_off s x y = y * unat (scr_pitch s) + x * unat (scr_bpp s div 8)"

definition pixel :: "'a video_scheme \<Rightarrow> nat \<Rightarrow> nat \<Rightarrow> u8 list" where
  "pixel s x y = bytes_at (mem s) (VGA_FRAMEBUFFER_BASE + of_nat (pixel_off s x y)) 3"

definition colour :: "u32 \<Rightarrow> u8 list" where
  "colour c = [ucast c, ucast (drop_bit 8 c), ucast (drop_bit 16 c)]"

lemma geometry_mem [simp]:
  "geometry (s\<lparr>mem := m\<rparr>) = geometry s" "framebuffer (s\<lparr>mem := m\<rparr>) = framebuffer s"
  "pixel_off (s\<lparr>mem := m\<rparr>) = pixel_off s"
  by (simp_all add: geometry_def framebuffer_def pixel_off_def fun_eq_iff)

lemma pixel_off_end:
  assumes "geometry s" "x < unat (scr_w s)" "y < unat (scr_h s)"
  shows "pixel_off s x y + 3 \<le> (y + 1) * unat (scr_pitch s)"
    and "pixel_off s x y + 3 \<le> unat (scr_pitch s) * unat (scr_h s)"
    and "pixel_off s x y + 3 \<le> 0x20000000"
proof -
  let ?B = "unat (scr_bpp s div 8)" and ?P = "unat (scr_pitch s)"
  have "(x + 1) * ?B \<le> unat (scr_w s) * ?B" using assms(2) by (intro mult_le_mono1) simp
  then have "x * ?B + 3 \<le> ?P" using assms(1) by (simp add: geometry_def)
  then show row: "pixel_off s x y + 3 \<le> (y + 1) * ?P" by (simp add: pixel_off_def)
  have "(y + 1) * ?P \<le> ?P * unat (scr_h s)"
    using assms(3) by (subst mult.commute [of ?P]) (intro mult_le_mono1, simp)
  with row show "pixel_off s x y + 3 \<le> ?P * unat (scr_h s)" by linarith
  then show "pixel_off s x y + 3 \<le> 0x20000000" using assms(1) by (simp add: geometry_def)
qed

lemma unat_framebuffer: "n < 0x20000000 \<Longrightarrow> unat (VGA_FRAMEBUFFER_BASE + of_nat n) = 0xe0000000 + n"
  using unat_add_of_nat [of VGA_FRAMEBUFFER_BASE n] by (simp add: VGA_FRAMEBUFFER_BASE_def)

lemma in_region_framebuffer:
  assumes "n < 0x20000000" "n + k \<le> 0x20000000"
  shows "a \<in> region (VGA_FRAMEBUFFER_BASE + of_nat n) k \<longleftrightarrow>
    0xe0000000 + n \<le> unat a \<and> unat a < 0xe0000000 + n + k"
  using assms(2) unat_framebuffer [OF assms(1)] by (subst in_region_nat) simp_all

lemma pixel_apart:
  assumes "geometry s" "x < unat (scr_w s)" "y < unat (scr_h s)"
    and "i < unat (scr_w s)" "j < unat (scr_h s)" "x \<noteq> i \<or> y \<noteq> j"
  shows "apart (VGA_FRAMEBUFFER_BASE + of_nat (pixel_off s x y)) 3
     (VGA_FRAMEBUFFER_BASE + of_nat (pixel_off s i j)) 3"
proof -
  have less: "pixel_off s a b + 3 \<le> pixel_off s c d"
    if "b < d \<or> b = d \<and> a < c" "a < unat (scr_w s)" "b < unat (scr_h s)" for a b c d
    using that(1)
  proof
    assume "b < d"
    then have "(b + 1) * unat (scr_pitch s) \<le> d * unat (scr_pitch s)" by (intro mult_le_mono1) simp
    then show ?thesis using pixel_off_end(1) [OF assms(1) that(2,3)] by (simp add: pixel_off_def)
  next
    assume bd: "b = d \<and> a < c"
    then have "(a + 1) * unat (scr_bpp s div 8) \<le> c * unat (scr_bpp s div 8)"
      by (intro mult_le_mono1) simp
    then show ?thesis using bd assms(1) by (simp add: pixel_off_def geometry_def)
  qed
  note E = pixel_off_end(3) [OF assms(1-3)] pixel_off_end(3) [OF assms(1,4,5)]
  from assms(6) consider "y < j \<or> y = j \<and> x < i" | "j < y \<or> j = y \<and> i < x" by linarith
  then show ?thesis
  proof cases
    case 1
    from less [OF 1 assms(2,3)] show ?thesis
      using E by (intro apartI) (simp_all add: unat_framebuffer)
  next
    case 2
    from less [OF 2 assms(4,5)] show ?thesis
      using E by (intro apartI2) (simp_all add: unat_framebuffer)
  qed
qed

lemma pixel_in_framebuffer:
  assumes "geometry s" "x < unat (scr_w s)" "y < unat (scr_h s)"
  shows "region (VGA_FRAMEBUFFER_BASE + of_nat (pixel_off s x y)) 3 \<subseteq> framebuffer s"
proof
  fix a assume a: "a \<in> region (VGA_FRAMEBUFFER_BASE + of_nat (pixel_off s x y)) 3"
  then show "a \<in> framebuffer s"
    using pixel_off_end(2,3) [OF assms] assms(1) unfolding framebuffer_def geometry_def
    using in_region_framebuffer [of "pixel_off s x y" 3 a]
      in_region_framebuffer [of 0 "unat (scr_pitch s) * unat (scr_h s)" a]
    by simp
qed

section \<open>Drawing\<close>

lemma ucast_byte: "(ucast (x AND 0xff) :: u8) = ucast (x :: u32)"
proof -
  have ff: "(0xff :: u32) = mask 8" by (simp add: mask_eq_exp_minus_1)
  show ?thesis
    unfolding ff by (rule bit_word_eqI, simp only: bit_ucast_iff bit_and_iff bit_mask_iff) auto
qed

text \<open>What \<open>put_pixel\<close> writes.\<close>

definition pixel_mem :: "u32 \<Rightarrow> u32 \<Rightarrow> mem \<Rightarrow> mem" where
  "pixel_mem a c m = m(a := ucast c, a + 1 := ucast (drop_bit 8 c), a + 2 := ucast (drop_bit 16 c))"

lemma put_pixel_eq:
  assumes "geometry s"
  shows "put_pixel x y c s =
    s\<lparr>mem := pixel_mem (VGA_FRAMEBUFFER_BASE + of_nat (pixel_off s (unat x) (unat y))) c (mem s)\<rparr>"
proof -
  have "compute_vga_offset \<lparr>cur_x = x, cur_y = y\<rparr> s = of_nat (pixel_off s (unat x) (unat y))"
    by (simp add: compute_vga_offset_def pixel_off_def)
  then show ?thesis
    using assms by (simp add: put_pixel_def pixel_mem_def wr8_def ucast_byte geometry_def add.assoc Let_def)
qed

lemma pixel_mem_other: "a \<notin> region b 3 \<Longrightarrow> pixel_mem b c m a = m a"
  by (auto simp: pixel_mem_def region_def)

lemma pixel_mem_same: "bytes_at (pixel_mem a c m) a 3 = colour c"
  by (simp add: bytes_at_Suc numeral_3_eq_3 pixel_mem_def colour_def add.assoc)

lemma pixel_put_pixel:
  assumes "geometry s" "unat x < unat (scr_w s)" "unat y < unat (scr_h s)"
    and "i < unat (scr_w s)" "j < unat (scr_h s)"
  shows "pixel (put_pixel x y c s) i j = (if i = unat x \<and> j = unat y then colour c else pixel s i j)"
proof (cases "i = unat x \<and> j = unat y")
  case True
  then show ?thesis by (simp add: put_pixel_eq [OF assms(1)] pixel_def pixel_mem_same)
next
  case False
  then have ap: "apart (VGA_FRAMEBUFFER_BASE + of_nat (pixel_off s (unat x) (unat y))) 3
     (VGA_FRAMEBUFFER_BASE + of_nat (pixel_off s i j)) 3"
    using pixel_apart [OF assms] by auto
  show ?thesis
    using False apart_notin [OF ap]
    by (simp add: put_pixel_eq [OF assms(1)] pixel_def) (auto intro!: bytes_at_cong pixel_mem_other)
qed

lemma put_pixel_outside:
  assumes "geometry s" "unat x < unat (scr_w s)" "unat y < unat (scr_h s)" "a \<notin> framebuffer s"
  shows "mem (put_pixel x y c s) a = mem s a"
  using pixel_in_framebuffer [OF assms(1-3)] assms(4)
  by (auto simp: put_pixel_eq [OF assms(1)] intro!: pixel_mem_other)

text \<open>
  \<open>draws s s' f\<close>: the step from \<open>s\<close> to \<open>s'\<close> only changes framebuffer memory, and the picture
  afterwards is \<open>f\<close>.
\<close>

definition draws :: "'a video_scheme \<Rightarrow> 'a video_scheme \<Rightarrow> (nat \<Rightarrow> nat \<Rightarrow> u8 list) \<Rightarrow> bool" where
  "draws s s' f \<longleftrightarrow> s' = s\<lparr>mem := mem s'\<rparr> \<and> (\<forall>a. a \<notin> framebuffer s \<longrightarrow> mem s' a = mem s a) \<and>
     (\<forall>i<unat (scr_w s). \<forall>j<unat (scr_h s). pixel s' i j = f i j)"

lemma draws_refl: "draws s s (pixel s)"
  by (simp add: draws_def)

lemma draws_put_pixel:
  assumes "geometry s" "unat x < unat (scr_w s)" "unat y < unat (scr_h s)"
  shows "draws s (put_pixel x y c s) (\<lambda>i j. if i = unat x \<and> j = unat y then colour c else pixel s i j)"
  using pixel_put_pixel [OF assms] put_pixel_outside [OF assms] put_pixel_eq [OF assms(1)]
  by (auto simp: draws_def)

lemma draws_state:
  assumes "draws s t f"
  shows "geometry t = geometry s" "framebuffer t = framebuffer s" "scr_w t = scr_w s" "scr_h t = scr_h s"
    "display_font t = display_font s" "cursor t = cursor s" "scr_pitch t = scr_pitch s"
proof -
  have t: "t = s\<lparr>mem := mem t\<rparr>" using assms by (simp add: draws_def)
  show "geometry t = geometry s" "framebuffer t = framebuffer s" "scr_w t = scr_w s" "scr_h t = scr_h s"
    "display_font t = display_font s" "cursor t = cursor s" "scr_pitch t = scr_pitch s"
    by (subst t, simp)+
qed

lemma draws_trans:
  assumes "draws s t f" "draws t u g"
    and "\<And>i j. i < unat (scr_w s) \<Longrightarrow> j < unat (scr_h s) \<Longrightarrow> (pixel t i j = f i j \<Longrightarrow> g i j = h i j)"
  shows "draws s u h"
proof -
  have t: "t = s\<lparr>mem := mem t\<rparr>" "u = t\<lparr>mem := mem u\<rparr>"
    using assms(1,2) by (simp_all add: draws_def)
  have "u = s\<lparr>mem := mem u\<rparr>" by (subst t(2), subst t(1)) simp
  then show ?thesis
    using assms draws_state [OF assms(1)] unfolding draws_def by simp
qed

definition ink :: "bool \<Rightarrow> u8 list" where
  "ink b = colour (if b then 0xffffff else 0)"

lemma shifted_bit:
  assumes "x < 8"
  shows "push_bit x (line :: u8) AND 0x80 \<noteq> 0 \<longleftrightarrow> bit line (7 - x)"
proof -
  have "(0x80 :: u8) = push_bit 7 1" by simp
  then have "push_bit x line AND 0x80 \<noteq> 0 \<longleftrightarrow> bit (push_bit x line) 7"
    by (simp only: bit_iff_and_push_bit_not_eq_0)
  then show ?thesis using assms by (simp add: bit_push_bit_iff)
qed

lemma draws_putc_row:
  assumes "geometry s" "n \<le> 8" "unat px + 8 \<le> unat (scr_w s)" "unat py < unat (scr_h s)"
  shows "draws s (putc_row n line px py s)
    (\<lambda>i j. if j = unat py \<and> unat px + (8 - n) \<le> i \<and> i < unat px + 8
       then ink (bit line (7 - (i - unat px))) else pixel s i j)"
  using assms
proof (induction n arbitrary: s)
  case 0
  then show ?case by (auto simp: draws_def)
next
  case (Suc n)
  define x where "x = 8 - Suc n"
  define c :: u32 where "c = (if bit line (7 - x) then 0xffffff else 0)"
  have x: "x < 8" "8 - n = x + 1" using Suc.prems(2) by (auto simp: x_def)
  let ?s1 = "put_pixel (px + of_nat x) py c s"
  have px: "unat (px + of_nat x) = unat px + x"
    using x Suc.prems(3) unat_lt32 [of "scr_w s"] by (intro unat_add_of_nat) simp
  have c: "colour c = ink (bit line (7 - x))" by (simp add: c_def ink_def)
  have d1: "draws s ?s1 (\<lambda>i j. if i = unat px + x \<and> j = unat py then ink (bit line (7 - x)) else pixel s i j)"
    using draws_put_pixel [of s "px + of_nat x" py c, unfolded px c] Suc.prems x(1) by simp
  note G = draws_state [OF d1]
  have "draws ?s1 (putc_row n line px py ?s1)
    (\<lambda>i j. if j = unat py \<and> unat px + (8 - n) \<le> i \<and> i < unat px + 8
       then ink (bit line (7 - (i - unat px))) else pixel ?s1 i j)"
    using Suc.prems G by (intro Suc.IH) simp_all
  moreover have "putc_row (Suc n) line px py s = putc_row n line px py ?s1"
    using shifted_bit [OF x(1), of line] by (simp add: Let_def c_def x_def)
  ultimately show ?case
    unfolding x_def [symmetric] x(2) using x(1) by (auto intro!: draws_trans [OF d1])
qed

lemma draws_putc_rows:
  assumes "geometry s" "n \<le> 16" "unat px + 8 \<le> unat (scr_w s)" "unat py + 16 \<le> unat (scr_h s)"
    and "unat glyph + 16 \<le> 4096"
  shows "\<exists>s'. putc_rows n glyph px py s = Some s' \<and> draws s s'
    (\<lambda>i j. if unat py + (16 - n) \<le> j \<and> j < unat py + 16 \<and> unat px \<le> i \<and> i < unat px + 8
       then ink (bit (display_font s (unat glyph + (j - unat py))) (7 - (i - unat px)))
       else pixel s i j)"
  using assms
proof (induction n arbitrary: s)
  case 0
  then show ?case by (auto simp: draws_def)
next
  case (Suc n)
  define y where "y = 16 - Suc n"
  have y: "y < 16" "16 - n = y + 1" using Suc.prems(2) by (auto simp: y_def)
  have py: "unat (py + of_nat y) = unat py + y"
    using y Suc.prems(4) unat_lt32 [of "scr_h s"] by (intro unat_add_of_nat) simp
  have gl: "unat (glyph + of_nat y) = unat glyph + y"
    using y Suc.prems(5) by (intro unat_add_of_nat) simp
  define line where "line = display_font s (unat glyph + y)"
  have font: "font_byte (glyph + of_nat y) s = Some line"
    using y Suc.prems(5) by (simp add: font_byte_def gl line_def)
  let ?s1 = "putc_row 8 line px (py + of_nat y) s"
  have d1: "draws s ?s1 (\<lambda>i j. if j = unat py + y \<and> unat px \<le> i \<and> i < unat px + 8
       then ink (bit line (7 - (i - unat px))) else pixel s i j)"
    using draws_putc_row [of s 8 px "py + of_nat y" line, unfolded py] Suc.prems y(1) by simp
  note G = draws_state [OF d1]
  obtain s' where s': "putc_rows n glyph px py ?s1 = Some s'"
    "draws ?s1 s' (\<lambda>i j. if unat py + (16 - n) \<le> j \<and> j < unat py + 16 \<and> unat px \<le> i \<and> i < unat px + 8
       then ink (bit (display_font s (unat glyph + (j - unat py))) (7 - (i - unat px)))
       else pixel ?s1 i j)"
    using Suc.IH [of ?s1] Suc.prems unfolding G by auto
  have "putc_rows (Suc n) glyph px py s = Some s'"
    using s'(1) font by (simp add: Let_def y_def)
  moreover have "draws s s'
    (\<lambda>i j. if unat py + y \<le> j \<and> j < unat py + 16 \<and> unat px \<le> i \<and> i < unat px + 8
       then ink (bit (display_font s (unat glyph + (j - unat py))) (7 - (i - unat px)))
       else pixel s i j)"
    using y s'(2) unfolding y(2) by (auto intro!: draws_trans [OF d1] simp: line_def)
  ultimately show ?case unfolding y_def by blast
qed

section \<open>Scrolling\<close>

lemma draws_scroll:
  assumes "geometry s"
  shows "draws s (scroll s) (\<lambda>i j. if j + 16 < unat (scr_h s) then pixel s i (j + 16) else pixel s i j)"
proof -
  let ?P = "unat (scr_pitch s)" and ?h = "unat (scr_h s)"
  let ?n = "?P * (?h - 16)"
  let ?d = VGA_FRAMEBUFFER_BASE and ?s = "VGA_FRAMEBUFFER_BASE + of_nat (16 * ?P)"
  have g: "24 \<le> ?P" "32 \<le> ?h" "?P * ?h \<le> 0x20000000"
    using assms mult_le_mono [of 8 "unat (scr_w s)" 3 "unat (scr_bpp s div 8)"]
    by (auto simp: geometry_def)
  have n: "?n + 16 * ?P \<le> 0x20000000"
    using g by (simp add: diff_mult_distrib2 mult.commute)
  have "unat (scr_pitch s * (scr_h s - VGA_CHAR_HEIGHT)) = ?n"
    using g n by (simp add: VGA_CHAR_HEIGHT_def unat_word_ariths unat_sub_if_size word_le_nat_alt word_size)
  moreover have "scr_pitch s * VGA_CHAR_HEIGHT = of_nat (16 * ?P)" by (simp add: VGA_CHAR_HEIGHT_def)
  ultimately have sc: "scroll s = s\<lparr>mem := movsb ?n ?d ?s (mem s)\<rparr>"
    by (simp add: scroll_def memcpy_def)
  have "unat (of_nat (16 * ?P) :: u32) = 16 * ?P"
    using n by (simp add: unat_word_ariths)
  then have "?n \<le> unat (?d - ?s)"
    using n g unat_sub32 [of 0 "of_nat (16 * ?P)"] by simp
  then have mv: "movsb ?n ?d ?s (mem s) (?d + of_nat i) = mem s (?s + of_nat i)" if "i < ?n" for i
    using that n by (intro movsb_at) auto
  have out: "movsb ?n ?d ?s (mem s) a = mem s a" if "a \<notin> region ?d ?n" for a
    using that n by (intro movsb_other) auto
  have "region ?d ?n \<subseteq> framebuffer s"
    unfolding framebuffer_def by (intro region_mono mult_le_mono2) simp
  moreover have "pixel (scroll s) i j = (if j + 16 < ?h then pixel s i (j + 16) else pixel s i j)"
    if ij: "i < unat (scr_w s)" "j < ?h" for i j
  proof (cases "j + 16 < ?h")
    case True
    then have "(j + 1) * ?P \<le> (?h - 16) * ?P" by (intro mult_le_mono1) simp
    then have lt: "pixel_off s i j + 3 \<le> ?n"
      using pixel_off_end(1) [OF assms ij] by (simp add: mult.commute)
    have "pixel_off s i (j + 16) = 16 * ?P + pixel_off s i j"
      by (simp add: pixel_off_def algebra_simps)
    moreover have "movsb ?n ?d ?s (mem s) (?d + (of_nat (pixel_off s i j) + of_nat k))
        = mem s (?s + (of_nat (pixel_off s i j) + of_nat k))" if "k < 3" for k
      using mv [of "pixel_off s i j + k"] lt that by simp
    ultimately show ?thesis
      using True by (simp add: sc pixel_def bytes_at_def add.assoc)
  next
    case False
    then have "(?h - 16) * ?P \<le> j * ?P" by (intro mult_le_mono1) simp
    then have "?n \<le> pixel_off s i j"
      unfolding pixel_off_def mult.commute [of ?P] by (rule trans_le_add1)
    then have "movsb ?n ?d ?s (mem s) a = mem s a" if "a \<in> region (?d + of_nat (pixel_off s i j)) 3" for a
      using that pixel_off_end(3) [OF assms ij] n
        in_region_framebuffer [of "pixel_off s i j" 3 a] in_region_framebuffer [of 0 ?n a]
      by (intro out) auto
    then show ?thesis
      using False by (auto simp: sc pixel_def intro!: bytes_at_cong)
  qed
  ultimately show ?thesis
    using out by (auto simp: draws_def sc)
qed

section \<open>The console\<close>

text \<open>
  What the console is meant to be: a grid of 8 by 16 cells with a cursor, a newline and a
  glyph as its two steps, wrapping at the right edge and scrolling by a line of text
  before the last line.
\<close>

record console =
  col :: nat
  row :: nat
  pic :: "nat \<Rightarrow> nat \<Rightarrow> u8 list"

definition draw_glyph :: "(nat \<Rightarrow> u8) \<Rightarrow> nat \<Rightarrow> console \<Rightarrow> nat \<Rightarrow> nat \<Rightarrow> u8 list" where
  "draw_glyph font g k i j =
     (if j div 16 = row k \<and> i div 8 = col k then ink (bit (font (16 * g + j mod 16)) (7 - i mod 8))
      else pic k i j)"

definition console_type :: "(nat \<Rightarrow> u8) \<Rightarrow> nat \<Rightarrow> console \<Rightarrow> console" where
  "console_type font g k =
     (if g = 10 then k\<lparr>col := 0, row := row k + 1\<rparr>
      else k\<lparr>col := col k + 1, pic := draw_glyph font g k\<rparr>)"

definition console_wrap :: "nat \<Rightarrow> console \<Rightarrow> console" where
  "console_wrap w k = (if w div 8 \<le> col k then k\<lparr>col := 0, row := row k + 1\<rparr> else k)"

definition console_scroll :: "nat \<Rightarrow> console \<Rightarrow> console" where
  "console_scroll h k =
     (if h div 16 - 1 \<le> row k
      then k\<lparr>row := row k - 1, pic := (\<lambda>i j. if j + 16 < h then pic k i (j + 16) else pic k i j)\<rparr>
      else k)"

definition console_putc :: "nat \<Rightarrow> nat \<Rightarrow> (nat \<Rightarrow> u8) \<Rightarrow> nat \<Rightarrow> console \<Rightarrow> console" where
  "console_putc w h font g k = console_scroll h (console_wrap w (console_type font g k))"

text \<open>The state shows a console when the cursor and all pixels on the screen agree.\<close>

definition cursor_ok :: "'a video_scheme \<Rightarrow> bool" where
  "cursor_ok s \<longleftrightarrow> unat (cur_x (cursor s)) < unat (scr_w s) div 8 \<and>
     unat (cur_y (cursor s)) < unat (scr_h s) div 16 - 1"

definition shows_console :: "'a video_scheme \<Rightarrow> console \<Rightarrow> bool" where
  "shows_console s k \<longleftrightarrow> unat (cur_x (cursor s)) = col k \<and> unat (cur_y (cursor s)) = row k \<and>
     (\<forall>i<unat (scr_w s). \<forall>j<unat (scr_h s). pixel s i j = pic k i j)"

lemma sint8: 
  fixes c :: u8
  shows "sint c = (if unat c < 128 then int (unat c) else int (unat c) - 256)"
proof -
  have "sint c = uint c - 2 ^ 8 * of_bool (bit (uint c) 7)"
    unfolding sint_uint signed_take_bit_eq_take_bit_minus
    using take_bit_int_eq_self [of "uint c" 8] unsigned_less [of c, where ?'a = int] by simp
  moreover have "bit (uint c) 7 \<longleftrightarrow> \<not> unat c < 128"
  proof -
    have "bit (uint c) 7 \<longleftrightarrow> bit (unat c) 7" by (simp add: bit_unsigned_iff)
    also have "\<dots> \<longleftrightarrow> odd (unat c div 128)" by (simp add: bit_iff_odd)
    also have "\<dots> \<longleftrightarrow> \<not> unat c < 128"
    proof (cases "unat c < 128")
      case False
      then have "unat c div 128 = 1" using unat_lt8 [of c] by (simp add: div_nat_eqI)
      then show ?thesis using False by simp
    qed simp
    finally show ?thesis .
  qed
  ultimately show ?thesis by simp
qed
lemma unat_scast8: "unat (scast (c :: u8) :: u32) = (if unat c < 128 then unat c else unat c + 4294967040)"
proof -
  have "uint (scast c :: u32) = sint c mod 4294967296"
    unfolding scast_eq uint_word_of_int by simp
  also have "\<dots> = (if unat c < 128 then int (unat c) else int (unat c) + 4294967040)"
    using mod_pos_pos_trivial [of "int (unat c)" 4294967296]
      mod_pos_pos_trivial [of "int (unat c) - 256 + 4294967296" 4294967296]
      mod_add_self2 [of "int (unat c) - 256" "4294967296"] unat_lt8 [of c]
    unfolding sint8 by (simp del: of_nat_unat mod_add_self2 split: if_splits)
  finally have u: "uint (scast c :: u32) = (if unat c < 128 then int (unat c) else int (unat c) + 4294967040)" .
  show ?thesis
    unfolding unat_eq_nat_uint [of "scast c :: u32"] u by (simp del: of_nat_unat add: nat_add_distrib)
qed
section \<open>\<open>putc\<close> refines the console\<close>

lemma unat_mult_below:
  fixes a b :: u32
  assumes "unat a * unat b < 4294967296"
  shows "unat (a * b) = unat a * unat b"
  using assms by (simp add: unat_word_ariths)

lemma draws_glyph:
  assumes "geometry s" "cursor_ok s" "unat (c :: u8) < 128"
  shows "\<exists>s'. putc_rows 16 (scast c * VGA_CHAR_HEIGHT) (cur_x (cursor s) * 8)
      (cur_y (cursor s) * VGA_CHAR_HEIGHT) s = Some s' \<and>
    draws s s' (\<lambda>i j. if j div 16 = unat (cur_y (cursor s)) \<and> i div 8 = unat (cur_x (cursor s))
       then ink (bit (display_font s (16 * unat c + j mod 16)) (7 - i mod 8)) else pixel s i j)"
proof -
  let ?X = "unat (cur_x (cursor s))" and ?Y = "unat (cur_y (cursor s))"
  have X: "?X * 8 + 8 \<le> unat (scr_w s)" and Y: "?Y * 16 + 16 \<le> unat (scr_h s)"
    using assms(2) by (auto simp: cursor_ok_def)
  have px: "unat (cur_x (cursor s) * 8) = ?X * 8"
    using X unat_lt32 [of "scr_w s"] by (simp add: unat_mult_below)
  have py: "unat (cur_y (cursor s) * VGA_CHAR_HEIGHT) = ?Y * 16"
    using Y unat_lt32 [of "scr_h s"] by (simp add: unat_mult_below VGA_CHAR_HEIGHT_def)
  have gl: "unat (scast c * VGA_CHAR_HEIGHT) = 16 * unat c"
    using assms(3) unat_scast8 [of c] unat_mult_below [of "scast c" VGA_CHAR_HEIGHT]
    by (simp add: VGA_CHAR_HEIGHT_def)
  obtain s' where s': "putc_rows 16 (scast c * VGA_CHAR_HEIGHT) (cur_x (cursor s) * 8)
      (cur_y (cursor s) * VGA_CHAR_HEIGHT) s = Some s'"
    "draws s s' (\<lambda>i j. if ?Y * 16 \<le> j \<and> j < ?Y * 16 + 16 \<and> ?X * 8 \<le> i \<and> i < ?X * 8 + 8
       then ink (bit (display_font s (16 * unat c + (j - ?Y * 16))) (7 - (i - ?X * 8)))
       else pixel s i j)"
    using draws_putc_rows [OF assms(1), of 16 "cur_x (cursor s) * 8" "cur_y (cursor s) * VGA_CHAR_HEIGHT"
        "scast c * VGA_CHAR_HEIGHT"] X Y assms(3) unfolding px py gl by auto
  have cell: "?Y * 16 \<le> j \<and> j < ?Y * 16 + 16 \<longleftrightarrow> j div 16 = ?Y" for j
    by auto
  have cell': "?X * 8 \<le> i \<and> i < ?X * 8 + 8 \<longleftrightarrow> i div 8 = ?X" for i
    by auto
  have "j - ?Y * 16 = j mod 16" if "j div 16 = ?Y" for j
    using that by (simp add: minus_div_mult_eq_mod [symmetric])
  moreover have "i - ?X * 8 = i mod 8" if "i div 8 = ?X" for i
    using that by (simp add: minus_div_mult_eq_mod [symmetric])
  ultimately show ?thesis
    using s' cell cell' by (intro exI [of _ s'] conjI) (auto simp: draws_def)
qed

text \<open>The first step of \<open>putc\<close>: newline or glyph.\<close>

definition putc_type :: "u8 \<Rightarrow> 'a video_scheme \<Rightarrow> (cursor_pos \<times> 'a video_scheme) option" where
  "putc_type c s =
     (if c = 10 then Some ((cursor s)\<lparr>cur_x := 0, cur_y := cur_y (cursor s) + 1\<rparr>, s)
      else do {
        s' \<leftarrow> putc_rows 16 (scast c * VGA_CHAR_HEIGHT) (cur_x (cursor s) * 8)
          (cur_y (cursor s) * VGA_CHAR_HEIGHT) s;
        Some ((cursor s)\<lparr>cur_x := cur_x (cursor s) + 1\<rparr>, s')
      })"

lemma putc_type_console:
  assumes "geometry s" "cursor_ok s" "unat c < 128" "shows_console s k"
  shows "\<exists>pos s' k'. putc_type c s = Some (pos, s') \<and> draws s s' (pic k') \<and>
    k' = console_type (display_font s) (unat c) k \<and>
    unat (cur_x pos) = col k' \<and> unat (cur_y pos) = row k' \<and>
    (col k' < unat (scr_w s) div 8 \<and> row k' < unat (scr_h s) div 16 \<or>
     col k' = unat (scr_w s) div 8 \<and> row k' < unat (scr_h s) div 16 - 1)"
proof -
  have inc: "unat (v + 1) = unat v + 1" if "unat v < n div 8" "n \<le> 4294967296" for v :: u32 and n
    using that by (subst unat_add_nowrap) simp_all
  have X: "unat (cur_x (cursor s) + 1) = unat (cur_x (cursor s)) + 1"
    and Y: "unat (cur_y (cursor s) + 1) = unat (cur_y (cursor s)) + 1"
    using assms(2) inc [of _ "unat (scr_w s)"] inc [of _ "unat (scr_h s)"] unat_lt32 [of "scr_w s"] unat_lt32 [of "scr_h s"]
    by (auto simp: cursor_ok_def)
  show ?thesis
  proof (cases "c = 10")
    case True
    then show ?thesis
      using assms(1,2,4) Y
      by (auto simp: putc_type_def console_type_def shows_console_def cursor_ok_def draws_def geometry_def)
  next
    case False
    then have "unat c \<noteq> 10" by (simp add: word_unat_eq_iff)
    then show ?thesis
      using draws_glyph [OF assms(1-3)] False assms(2,4) X
      by (auto simp: putc_type_def console_type_def shows_console_def cursor_ok_def draws_def draw_glyph_def)
  qed
qed

text \<open>The rest of \<open>putc\<close>: wrap, scroll and store the cursor.\<close>

definition putc_finish :: "cursor_pos \<Rightarrow> 'a video_scheme \<Rightarrow> 'a video_scheme" where
  "putc_finish pos s =
     (let pos = (if scr_w s div 8 \<le> cur_x pos
                 then pos\<lparr>cur_x := 0, cur_y := cur_y pos + 1\<rparr> else pos)
      in if scr_h s div VGA_CHAR_HEIGHT - 1 \<le> cur_y pos
         then (scroll s)\<lparr>cursor := pos\<lparr>cur_y := cur_y pos - 1\<rparr>\<rparr> else s\<lparr>cursor := pos\<rparr>)"

lemma putc_finish_eq:
  "(let pos = (if scr_w s div 8 \<le> cur_x pos
               then pos\<lparr>cur_x := 0, cur_y := cur_y pos + 1\<rparr> else pos);
        (pos, s) = (if scr_h s div VGA_CHAR_HEIGHT - 1 \<le> cur_y pos
               then (pos\<lparr>cur_y := cur_y pos - 1\<rparr>, scroll s) else (pos, s))
    in Some (set_cursor_pos pos s)) = Some (putc_finish pos s)"
  by (auto simp: putc_finish_def set_cursor_pos_def Let_def)

lemma putc_eq:
  "putc c s = (case putc_type c s of None \<Rightarrow> None | Some (pos, s') \<Rightarrow> Some (putc_finish pos s'))"
  unfolding putc_def putc_finish_eq unfolding putc_type_def get_cursor_pos_def Let_def
  by (auto split: bind_splits)

lemma geometry_cursor [simp]:
  "geometry (s\<lparr>cursor := c\<rparr>) = geometry s" "pixel (s\<lparr>cursor := c\<rparr>) = pixel s"
  "framebuffer (s\<lparr>cursor := c\<rparr>) = framebuffer s"
  by (simp_all add: geometry_def pixel_def pixel_off_def framebuffer_def fun_eq_iff)

lemma putc_finish_console:
  assumes "geometry s" "unat (cur_x pos) = col k" "unat (cur_y pos) = row k"
    and "\<forall>i<unat (scr_w s). \<forall>j<unat (scr_h s). pixel s i j = pic k i j"
    and "col k < unat (scr_w s) div 8 \<and> row k < unat (scr_h s) div 16 \<or>
     col k = unat (scr_w s) div 8 \<and> row k < unat (scr_h s) div 16 - 1"
  shows "cursor_ok (putc_finish pos s) \<and>
    shows_console (putc_finish pos s) (console_scroll (unat (scr_h s)) (console_wrap (unat (scr_w s)) k)) \<and>
    (\<exists>s1. draws s s1 (pixel s1) \<and> putc_finish pos s = s1\<lparr>cursor := cursor (putc_finish pos s)\<rparr>)"
proof -
  let ?w = "unat (scr_w s) div 8" and ?h = "unat (scr_h s) div 16"
  define pos1 where "pos1 = (if scr_w s div 8 \<le> cur_x pos
    then pos\<lparr>cur_x := 0, cur_y := cur_y pos + 1\<rparr> else pos)"
  define k1 where "k1 = console_wrap (unat (scr_w s)) k"
  have h: "2 \<le> ?h" "8 \<le> unat (scr_w s)" using assms(1) by (auto simp: geometry_def)
  have le: "scr_w s div 8 \<le> cur_x pos \<longleftrightarrow> ?w \<le> col k"
    using assms(2) by (simp add: word_le_nat_alt unat_div)
  have inc: "unat (cur_y pos + 1) = row k + 1" if "row k < ?h"
    using that assms(3) unat_lt32 [of "scr_h s"] by (subst unat_add_nowrap) simp_all
  have p1: "unat (cur_x pos1) = col k1" "unat (cur_y pos1) = row k1" "pic k1 = pic k"
    "col k1 < ?w" "row k1 \<le> ?h - 1"
    using assms(2,3,5) h inc by (auto simp: pos1_def k1_def console_wrap_def le)
  have last: "unat (scr_h s div VGA_CHAR_HEIGHT - 1) = ?h - 1"
    using h by (simp add: VGA_CHAR_HEIGHT_def unat_sub32 unat_div)
  have ge: "scr_h s div VGA_CHAR_HEIGHT - 1 \<le> cur_y pos1 \<longleftrightarrow> row k1 = ?h - 1"
    using p1(2,5) unfolding word_le_nat_alt last by auto
  show ?thesis
  proof (cases "row k1 = ?h - 1")
    case True
    have dec: "unat (cur_y pos1 - 1) = row k1 - 1"
      using p1(2) True h by (simp add: unat_sub32)
    have fin: "putc_finish pos s = (scroll s)\<lparr>cursor := pos1\<lparr>cur_y := cur_y pos1 - 1\<rparr>\<rparr>"
      using True ge by (simp add: putc_finish_def pos1_def [symmetric] Let_def)
    note d = draws_scroll [OF assms(1)]
    note S = draws_state [OF d]
    have "draws s (scroll s) (pixel (scroll s))" using d by (simp add: draws_def)
    moreover have "\<forall>i<unat (scr_w s). \<forall>j<unat (scr_h s). pixel (scroll s) i j =
        (if j + 16 < unat (scr_h s) then pic k1 i (j + 16) else pic k1 i j)"
      using d assms(4) p1(3) by (auto simp: draws_def)
    moreover have "?h - 1 - 1 < ?h - 1" using h by linarith
    ultimately show ?thesis
      unfolding fin k1_def [symmetric] using p1 True dec h S
      by (auto simp: cursor_ok_def shows_console_def console_scroll_def)
  next
    case False
    have fin: "putc_finish pos s = s\<lparr>cursor := pos1\<rparr>"
      using False ge by (simp add: putc_finish_def pos1_def [symmetric] Let_def)
    show ?thesis
      unfolding fin k1_def [symmetric] using p1 False h assms(4) draws_refl [of s]
      by (auto simp: cursor_ok_def shows_console_def console_scroll_def)
  qed
qed

lemma putc_console:
  assumes "geometry s" "cursor_ok s" "unat c < 128" "shows_console s k"
  shows "\<exists>s'. putc c s = Some s' \<and> geometry s' \<and> cursor_ok s' \<and>
    shows_console s' (console_putc (unat (scr_w s)) (unat (scr_h s)) (display_font s) (unat c) k) \<and>
    s' = s\<lparr>mem := mem s', cursor := cursor s'\<rparr> \<and>
    (\<forall>a. a \<notin> framebuffer s \<longrightarrow> mem s' a = mem s a)"
proof -
  obtain pos s1 k1 where 1: "putc_type c s = Some (pos, s1)" "draws s s1 (pic k1)"
    "k1 = console_type (display_font s) (unat c) k"
    "unat (cur_x pos) = col k1" "unat (cur_y pos) = row k1"
    "col k1 < unat (scr_w s) div 8 \<and> row k1 < unat (scr_h s) div 16 \<or>
     col k1 = unat (scr_w s) div 8 \<and> row k1 < unat (scr_h s) div 16 - 1"
    using putc_type_console [OF assms] by blast
  note S = draws_state [OF 1(2)]
  let ?t = "putc_finish pos s1"
  have g1: "geometry s1" "\<forall>i<unat (scr_w s1). \<forall>j<unat (scr_h s1). pixel s1 i j = pic k1 i j"
    using assms(1) S 1(2) by (auto simp: draws_def)
  obtain s2 where 2: "cursor_ok ?t" "shows_console ?t (console_putc (unat (scr_w s)) (unat (scr_h s))
      (display_font s) (unat c) k)" "draws s1 s2 (pixel s2)" "?t = s2\<lparr>cursor := cursor ?t\<rparr>"
    using putc_finish_console [OF g1(1) 1(4,5) g1(2)] 1(6) S by (auto simp: console_putc_def 1(3))
  have d: "draws s s2 (pixel s2)" by (rule draws_trans [OF 1(2) 2(3)]) simp
  have t: "geometry ?t" "mem ?t = mem s2"
    using assms(1) draws_state(1) [OF d] by (subst 2(4), simp)+
  have "?t = s\<lparr>mem := mem ?t, cursor := cursor ?t\<rparr>"
    using d unfolding draws_def t(2) by (subst 2(4)) (metis video.update_convs(3))
  then show ?thesis
    using 1(1) 2(1,2) t d by (auto simp: putc_eq draws_def)
qed

text \<open>
  C24. \<open>putc\<close> implements the console for every character below 128: on a screen of a
  geometry \<open>init\<close> is called with and a cursor inside the text area, it returns, shows
  the picture and the cursor the console specification gives, keeps the cursor inside the
  text area, and writes no byte outside the framebuffer.
\<close>

theorem putc_refines_console:
  assumes "geometry s" "cursor_ok s" "unat c < 128" "shows_console s k"
  shows "\<exists>s'. putc c s = Some s' \<and> geometry s' \<and> cursor_ok s' \<and>
    shows_console s' (console_putc (unat (scr_w s)) (unat (scr_h s)) (display_font s) (unat c) k) \<and>
    s' = s\<lparr>mem := mem s', cursor := cursor s'\<rparr> \<and>
    (\<forall>a. a \<notin> framebuffer s \<longrightarrow> mem s' a = mem s a)"
  by (rule putc_console [OF assms])

definition example_video :: video where
  "example_video = \<lparr>mem = (\<lambda>_. 0), port_log = [], hw8 = (\<lambda>_ _. 0), hw16 = (\<lambda>_ _. 0),
     hw32 = (\<lambda>_ _. 0), bitmap = (\<lambda>_. 0), heap_top = 0, current_page_dir = 0x1000, cr3 = 0x1000,
     invalidated = [], display_font = (\<lambda>_. 0), vga_mem = VGA_FRAMEBUFFER_BASE,
     cursor = \<lparr>cur_x = 0, cur_y = 0\<rparr>, scr_w = 640, scr_h = 480, scr_bpp = 32, scr_pitch = 2560\<rparr>"

lemma example_video:
  "geometry example_video" "cursor_ok example_video"
  "shows_console example_video \<lparr>col = 0, row = 0, pic = pixel example_video\<rparr>"
  by (simp_all add: example_video_def geometry_def cursor_ok_def shows_console_def)

theorem putc_refines_console_witness:
  "\<exists>s'. putc 65 example_video = Some s' \<and> cursor_ok s' \<and> unat (cur_x (cursor s')) = 1"
  using putc_refines_console [OF example_video(1,2) _ example_video(3), of 65]
  by (auto simp: shows_console_def console_putc_def console_type_def console_wrap_def
      console_scroll_def example_video_def)

text \<open>
  \<open>char\<close> is signed: a character from 128 up becomes a glyph index near 4 GiB, far
  outside the font of 4096 bytes, so printing it has no defined result.
\<close>

theorem putc_outside_font:
  assumes "128 \<le> unat c"
  shows "putc c s = None"
proof -
  have ne: "c \<noteq> 10" using assms by auto
  have "unat (scast c :: u32) = 4294967040 + unat c"
    using assms unat_scast8 [of c] by simp
  then have "unat (scast c * VGA_CHAR_HEIGHT) = (16 * (4294967040 + unat c)) mod 4294967296"
    by (simp add: unat_word_ariths VGA_CHAR_HEIGHT_def mult.commute)
  also have "16 * (4294967040 + unat c) = 4294963200 + 16 * unat c + 15 * 4294967296" by simp
  also have "\<dots> mod 4294967296 = 4294963200 + 16 * unat c"
    unfolding mod_mult_self1 using unat_lt8 [of c] by simp
  finally have "font_byte (scast c * VGA_CHAR_HEIGHT) s = None"
    by (simp add: font_byte_def)
  then have "putc_rows 16 (scast c * VGA_CHAR_HEIGHT) px py s = None" for px py
    using putc_rows.simps(2) [of 15 "scast c * VGA_CHAR_HEIGHT" px py s] by (simp add: numeral_eq_Suc)
  then show ?thesis using ne by (simp add: putc_eq putc_type_def)
qed

theorem putc_outside_font_witness: "putc 0xe9 example_video = None"
  by (rule putc_outside_font) simp

text \<open>
  \<open>clear\<close> clears too much: \<open>scr_pitch\<close> counts bytes, but the length is multiplied by
  the bytes per pixel again. With 32 bits per pixel it zeroes four times the size of the
  framebuffer (and \<open>init\<close> maps as much): every pixel on the screen, and every byte of
  the memory behind it.
\<close>

theorem clear_overruns:
  assumes "geometry s" "unat (scr_pitch s) * unat (scr_h s) * unat (scr_bpp s div 8) \<le> 0x20000000"
  shows "(\<forall>a. mem (clear s) a = (if a \<in> region VGA_FRAMEBUFFER_BASE
      (unat (scr_pitch s) * unat (scr_h s) * unat (scr_bpp s div 8)) then 0 else mem s a)) \<and>
    framebuffer s \<subset> region VGA_FRAMEBUFFER_BASE
      (unat (scr_pitch s) * unat (scr_h s) * unat (scr_bpp s div 8))"
proof -
  let ?N = "unat (scr_pitch s) * unat (scr_h s)" and ?B = "unat (scr_bpp s div 8)"
  have g: "3 \<le> ?B" "?N \<le> 0x20000000" "0 < ?N"
    using assms(1) by (auto simp: geometry_def intro!: gr0I)
  have "unat (scr_pitch s * scr_h s) = ?N" using g by (intro unat_mult_below) simp
  then have "unat (scr_pitch s * scr_h s * (scr_bpp s div 8)) = ?N * ?B"
    using assms(2) unat_mult_below [of "scr_pitch s * scr_h s" "scr_bpp s div 8"] by simp
  then have "mem (clear s) a = (if a \<in> region VGA_FRAMEBUFFER_BASE (?N * ?B) then 0 else mem s a)" for a
    by (simp add: clear_def memset_apply)
  moreover have lt: "?N < ?N * ?B" using g by simp
  then have "of_nat ?N + VGA_FRAMEBUFFER_BASE \<in> region VGA_FRAMEBUFFER_BASE (?N * ?B) - framebuffer s"
    using g(2) by (simp add: framebuffer_def region_def unsigned_of_nat take_bit_eq_mod del: of_nat_mult)
  moreover have "framebuffer s \<subseteq> region VGA_FRAMEBUFFER_BASE (?N * ?B)"
    unfolding framebuffer_def using lt by (intro region_mono) simp
  ultimately show ?thesis by blast
qed

theorem clear_overruns_witness:
  "\<exists>s. s = example_video\<lparr>mem := \<lambda>_. 7\<rparr> \<and> mem (clear s) 0xe012c000 = 0 \<and> 0xe012c000 \<notin> framebuffer s"
proof -
  let ?s = "example_video\<lparr>mem := \<lambda>_. 7\<rparr>"
  have p: "unat (scr_pitch ?s) * unat (scr_h ?s) * unat (scr_bpp ?s div 8) = 0x4b0000"
    by (simp add: example_video_def)
  have g: "geometry ?s" by (simp add: example_video(1))
  have "mem (clear ?s) 0xe012c000 = 0"
    using clear_overruns [OF g] p by (simp add: VGA_FRAMEBUFFER_BASE_def region_def)
  then show ?thesis
    by (simp add: framebuffer_def example_video_def VGA_FRAMEBUFFER_BASE_def region_def)
qed

end
