(* ===== verification/Printf.thy ===== *)
theory Printf
  imports Video
begin

text \<open>
  Formatted output, \<open>src/kernel/std/printf.cpp\<close>. The variable arguments are the words
  behind \<open>fmt\<close> on the stack, a list here: taking one that was not passed has no result.
  The local buffers of \<open>print_hex\<close> and \<open>print_dec\<close> are lists, and a write outside
  them has no result. Both print through \<open>printf\<close>, which is a parameter of their
  definitions; \<open>printf\<close> closes the recursion with a bound on its depth that is
  shown to be enough.
\<close>

definition hex_digits :: c_string where
  "hex_digits = lit ''0123456789abcdef''"

text \<open>\<open>str[offset] = c\<close> on a local buffer.\<close>

definition store :: "u32 \<Rightarrow> u8 \<Rightarrow> u8 list \<Rightarrow> u8 list option" where
  "store offset c str = (if unat offset < length str then Some (str[unat offset := c]) else None)"

text \<open>The digit loop of \<open>print_hex\<close>, a \<open>do\<close> loop; the padding loop for \<open>n\<close> more zeros.\<close>

function hex_loop :: "u32 \<Rightarrow> u32 \<Rightarrow> u8 \<Rightarrow> u8 list \<Rightarrow> (u32 \<times> u8 \<times> u8 list) option" where
  "hex_loop val offset printed str =
     do {
       str \<leftarrow> store offset (hex_digits ! unat (ucast (val AND 0xf) :: u8)) str;
       if drop_bit 4 val \<noteq> 0 then hex_loop (drop_bit 4 val) (offset - 1) (printed + 1) str
       else Some (offset - 1, printed + 1, str)
     }"
  by pat_completeness auto
termination
  by (relation "measure (\<lambda>(val, _). unat val)")
    (auto simp: drop_bit_eq_div unat_div word_unat_eq_iff intro!: div_less_dividend)

declare hex_loop.simps [simp del]

primrec pad_loop :: "nat \<Rightarrow> u32 \<Rightarrow> u8 list \<Rightarrow> (u32 \<times> u8 list) option" where
  "pad_loop 0 offset str = Some (offset, str)"
| "pad_loop (Suc n) offset str =
     (case store offset 48 str of None \<Rightarrow> None | Some str' \<Rightarrow> pad_loop n (offset - 1) str')"

text \<open>\<open>printf(str + offset + 1)\<close>: a pointer outside the buffer and its end has no result.\<close>

definition string_from :: "u32 \<Rightarrow> u8 list \<Rightarrow> c_string option" where
  "string_from offset str = (if unat offset \<le> length str then Some (drop (unat offset) str) else None)"

type_synonym 'a printer = "c_string \<Rightarrow> u32 list \<Rightarrow> 'a video_scheme \<Rightarrow> 'a video_scheme option"

definition print_hex :: "'a printer \<Rightarrow> u32 \<Rightarrow> int \<Rightarrow> 'a video_scheme \<Rightarrow> 'a video_scheme option" where
  "print_hex printf val padding s =
     do {
       let str = replicate 9 0;
       (offset, printed, str) \<leftarrow> hex_loop val 7 0 str;
       (offset, str) \<leftarrow> pad_loop (nat (padding - uint printed)) offset str;
       str \<leftarrow> string_from (offset + 1) str;
       printf str [] s
     }"

function dec_loop :: "u32 \<Rightarrow> u32 \<Rightarrow> u8 list \<Rightarrow> (u32 \<times> u8 list) option" where
  "dec_loop val offset str =
     do {
       str \<leftarrow> store offset (ucast (val mod 10) + 48) str;
       if val div 10 \<noteq> 0 then dec_loop (val div 10) (offset - 1) str
       else Some (offset - 1, str)
     }"
  by pat_completeness auto
termination
  by (relation "measure (\<lambda>(val, _). unat val)")
    (auto simp: unat_div word_unat_eq_iff intro!: div_less_dividend)

declare dec_loop.simps [simp del]

definition print_dec :: "'a printer \<Rightarrow> u32 \<Rightarrow> 'a video_scheme \<Rightarrow> 'a video_scheme option" where
  "print_dec printf val s =
     do {
       let str = replicate 11 0;
       (offset, str) \<leftarrow> dec_loop val 9 str;
       str \<leftarrow> string_from (offset + 1) str;
       printf str [] s
     }"

text \<open>
  The inner loop that reads the width; \<open>c\<close> is what follows the percent sign. A width
  beyond \<open>int\<close> overflows and has no result.
\<close>

fun scan_width :: "c_string \<Rightarrow> int \<Rightarrow> (int \<times> c_string) option" where
  "scan_width [] n = None"
| "scan_width (c # cs) n =
     (if 48 \<le> c \<and> c \<le> 57
      then if n * 10 + (uint c - 48) < 2147483648 then scan_width cs (n * 10 + (uint c - 48)) else None
      else Some (n, c # cs))"

lemma scan_width_length: "scan_width cs n = Some (k, rest) \<Longrightarrow> length rest \<le> length cs"
  by (induction cs n rule: scan_width.induct) (fastforce split: if_splits)+

text \<open>
  The main loop. The list is what \<open>c\<close> points to; after a conversion the code steps over
  the conversion character whatever it is, also over the terminator. Every conversion
  takes an argument, known or not; the comparison of the digits is signed, and a byte
  from 128 up is not a digit in either reading.
\<close>

function printf_loop :: "'a printer \<Rightarrow> c_string \<Rightarrow> u32 list \<Rightarrow> 'a video_scheme \<Rightarrow> 'a video_scheme option" where
  "printf_loop printf [] va_args s = None"
| "printf_loop printf (c # cs) va_args s =
     (if c = 0 then Some s
      else if c = 37 then
        case scan_width cs 0 of
          None \<Rightarrow> None
        | Some (format_param, []) \<Rightarrow> None
        | Some (format_param, conv # rest) \<Rightarrow>
            (if conv = 120 then
               case va_args of [] \<Rightarrow> None
               | v # _ \<Rightarrow> (case print_hex printf v format_param s of None \<Rightarrow> None
                   | Some s' \<Rightarrow> printf_loop printf rest (tl va_args) s')
             else if conv = 100 then
               case va_args of [] \<Rightarrow> None
               | v # _ \<Rightarrow> (case print_dec printf v s of None \<Rightarrow> None
                   | Some s' \<Rightarrow> printf_loop printf rest (tl va_args) s')
             else printf_loop printf rest (tl va_args) s)
      else case putc c s of None \<Rightarrow> None | Some s' \<Rightarrow> printf_loop printf cs va_args s')"
  by pat_completeness auto
termination
  by (relation "measure (\<lambda>(_, cs, _). length cs)") (auto dest: scan_width_length)

text \<open>\<open>printf\<close> with at most \<open>n\<close> nested calls.\<close>

primrec printf_depth :: "nat \<Rightarrow> 'a printer" where
  "printf_depth 0 = (\<lambda>fmt va_args s. None)"
| "printf_depth (Suc n) = printf_loop (printf_depth n)"

definition printf :: "'a printer" where
  "printf = printf_depth 2"

section \<open>Digits\<close>

fun digits :: "nat \<Rightarrow> nat \<Rightarrow> nat list" where
  "digits b n = (if b < 2 \<or> n < b then [n] else digits b (n div b) @ [n mod b])"

declare digits.simps [simp del]

definition digits_value :: "nat \<Rightarrow> nat list \<Rightarrow> nat" where
  "digits_value b ds = foldl (\<lambda>v d. v * b + d) 0 ds"

lemma digits_value: "digits_value b (digits b n) = n"
  by (induction b n rule: digits.induct) (subst digits.simps, auto simp: digits_value_def)

lemma digits_less: "2 \<le> b \<Longrightarrow> d \<in> set (digits b n) \<Longrightarrow> d < b"
  by (induction b n rule: digits.induct) (subst (asm) (2) digits.simps, auto split: if_splits)

lemma length_digits:
  assumes "2 \<le> b" "n < b ^ k" "0 < k"
  shows "length (digits b n) \<le> k"
  using assms
proof (induction b n arbitrary: k rule: digits.induct)
  case (1 b n)
  show ?case
  proof (cases "n < b")
    case True
    then show ?thesis using "1.prems" by (subst digits.simps) simp
  next
    case False
    have "k \<noteq> 1" using False "1.prems"(2) by auto
    then obtain j where k: "k = Suc j" "0 < j" using "1.prems"(3) by (cases k) auto
    then have "n div b < b ^ j"
      using "1.prems"(1,2) by (simp add: div_less_iff_less_mult mult.commute)
    then have "length (digits b (n div b)) \<le> j"
      using "1.IH" [of j] "1.prems"(1) False k(2) by simp
    then show ?thesis using False "1.prems"(1) k(1) by (subst digits.simps) simp
  qed
qed

lemma digits_nonempty [simp]: "digits b n \<noteq> []"
  by (subst digits.simps) simp

lemma digits_0: "digits b 0 = [0]"
  by (subst digits.simps) auto

text \<open>No leading zero, except for the number zero itself.\<close>

lemma hd_digits: "hd (digits b n) = 0 \<Longrightarrow> 2 \<le> b \<Longrightarrow> n = 0"
proof (induction b n rule: digits.induct)
  case (1 b n)
  show ?case
  proof (cases "n < b")
    case True
    then show ?thesis using "1.prems"(1) by (simp add: digits.simps [of b n])
  next
    case False
    then have "hd (digits b (n div b)) = 0"
      using "1.prems" by (simp add: digits.simps [of b n])
    then have "n div b = 0" using 1 False by simp
    then show ?thesis using False "1.prems"(2) by (simp add: div_eq_0_iff)
  qed
qed

section \<open>The local buffers\<close>

text \<open>The buffers are filled from the back: \<open>n\<close> free bytes in front of what is written.\<close>

lemma store_back:
  assumes "0 < n" "n \<le> 16"
  shows "store (of_nat n - 1) c (replicate n 0 @ tail) = Some (replicate (n - 1) 0 @ c # tail)"
proof -
  have "unat (of_nat n - 1 :: u32) = n - 1"
    using assms by (simp add: unat_sub32 unsigned_of_nat take_bit_eq_mod)
  moreover have "replicate n (0 :: u8) = replicate (n - 1) 0 @ [0]"
    using assms(1) by (cases n) (simp_all add: replicate_append_same)
  ultimately show ?thesis using assms(1) by (simp add: store_def list_update_append)
qed

lemma store_underflow: "length tail < 100 \<Longrightarrow> store (of_nat 0 - 1) c (replicate 0 0 @ tail) = None"
  by (simp add: store_def unat_minus_1_32)

definition hex_char :: "nat \<Rightarrow> u8" where
  "hex_char d = hex_digits ! d"

definition dec_char :: "nat \<Rightarrow> u8" where
  "dec_char d = of_nat d + 48"

lemma hex_loop_digits:
  assumes "length (digits 16 (unat val)) \<le> n" "n \<le> 8"
  shows "hex_loop val (of_nat n - 1) printed (replicate n 0 @ tail) =
    Some (of_nat (n - length (digits 16 (unat val))) - 1,
      printed + of_nat (length (digits 16 (unat val))),
      replicate (n - length (digits 16 (unat val))) 0 @ map hex_char (digits 16 (unat val)) @ tail)"
  using assms
proof (induction "unat val" arbitrary: val n printed tail rule: less_induct)
  case less
  let ?d = "unat val mod 16"
  have n0: "0 < n" using less.prems(1) by (cases n) auto
  have f: "(0xf :: u32) = mask 4" by (simp add: mask_eq_exp_minus_1)
  have "unat (val AND 0xf) = ?d"
    unfolding f by (simp flip: take_bit_eq_mask add: take_bit_eq_mod unat_mod)
  then have d: "unat (ucast (val AND 0xf) :: u8) = ?d"
    by (simp add: unsigned_ucast_eq take_bit_eq_mod)
  have st: "store (of_nat n - 1) c (replicate n 0 @ tail) = Some (replicate (n - 1) 0 @ c # tail)" for c
    using n0 less.prems(2) by (intro store_back) simp_all
  have sh: "unat (drop_bit 4 val) = unat val div 16" by (simp add: drop_bit_eq_div unat_div)
  have step: "hex_loop val (of_nat n - 1) printed (replicate n 0 @ tail) =
    (if drop_bit 4 val \<noteq> 0 then hex_loop (drop_bit 4 val) (of_nat (n - 1) - 1) (printed + 1)
        (replicate (n - 1) 0 @ hex_char ?d # tail)
     else Some (of_nat (n - 1) - 1, printed + 1, replicate (n - 1) 0 @ hex_char ?d # tail))"
    using n0 by (subst hex_loop.simps) (simp add: st d hex_char_def of_nat_diff)
  show ?case
  proof (cases "drop_bit 4 val = 0")
    case True
    then have "unat val < 16" using sh by (simp add: div_eq_0_iff)
    then show ?thesis using True step by (simp add: digits.simps)
  next
    case False
    then have big: "\<not> unat val < 16" using sh by (auto simp: word_unat_eq_iff)
    then have D: "digits 16 (unat val) = digits 16 (unat val div 16) @ [?d]"
      by (subst digits.simps) simp
    have "hex_loop (drop_bit 4 val) (of_nat (n - 1) - 1) (printed + 1)
        (replicate (n - 1) 0 @ hex_char ?d # tail) =
      Some (of_nat (n - 1 - length (digits 16 (unat val div 16))) - 1,
        printed + 1 + of_nat (length (digits 16 (unat val div 16))),
        replicate (n - 1 - length (digits 16 (unat val div 16))) 0 @
          map hex_char (digits 16 (unat val div 16)) @ hex_char ?d # tail)"
      unfolding sh [symmetric] using less.prems big
      by (intro less.hyps) (simp_all add: sh D)
    then show ?thesis using False step by (simp add: D add.assoc)
  qed
qed

lemma dec_loop_digits:
  assumes "length (digits 10 (unat val)) \<le> n" "n \<le> 10"
  shows "dec_loop val (of_nat n - 1) (replicate n 0 @ tail) =
    Some (of_nat (n - length (digits 10 (unat val))) - 1,
      replicate (n - length (digits 10 (unat val))) 0 @ map dec_char (digits 10 (unat val)) @ tail)"
  using assms
proof (induction "unat val" arbitrary: val n tail rule: less_induct)
  case less
  let ?d = "unat val mod 10"
  have n0: "0 < n" using less.prems(1) by (cases n) auto
  have "of_nat (unat (val mod 10)) = (ucast (val mod 10) :: u8)" by (rule of_nat_unat)
  then have d: "(ucast (val mod 10) :: u8) + 48 = dec_char ?d"
    by (simp add: dec_char_def unat_mod)
  have st: "store (of_nat n - 1) c (replicate n 0 @ tail) = Some (replicate (n - 1) 0 @ c # tail)" for c
    using n0 less.prems(2) by (intro store_back) simp_all
  have sh: "unat (val div 10) = unat val div 10" by (simp add: unat_div)
  have step: "dec_loop val (of_nat n - 1) (replicate n 0 @ tail) =
    (if val div 10 \<noteq> 0 then dec_loop (val div 10) (of_nat (n - 1) - 1) (replicate (n - 1) 0 @ dec_char ?d # tail)
     else Some (of_nat (n - 1) - 1, replicate (n - 1) 0 @ dec_char ?d # tail))"
    using n0 by (subst dec_loop.simps) (simp add: st d of_nat_diff)
  show ?case
  proof (cases "val div 10 = 0")
    case True
    then have "unat val < 10" using sh by (simp add: div_eq_0_iff)
    then show ?thesis using True step by (simp add: digits.simps)
  next
    case False
    then have big: "\<not> unat val < 10" using sh by (auto simp: word_unat_eq_iff)
    then have D: "digits 10 (unat val) = digits 10 (unat val div 10) @ [?d]"
      by (subst digits.simps) simp
    have "dec_loop (val div 10) (of_nat (n - 1) - 1) (replicate (n - 1) 0 @ dec_char ?d # tail) =
      Some (of_nat (n - 1 - length (digits 10 (unat val div 10))) - 1,
        replicate (n - 1 - length (digits 10 (unat val div 10))) 0 @
          map dec_char (digits 10 (unat val div 10)) @ dec_char ?d # tail)"
      unfolding sh [symmetric] using less.prems big
      by (intro less.hyps) (simp_all add: sh D)
    then show ?thesis using False step by (simp add: D)
  qed
qed

lemma pad_loop_zeros:
  assumes "n \<le> 8" "n + length tail < 100"
  shows "pad_loop k (of_nat n - 1) (replicate n 0 @ tail) =
    (if k \<le> n then Some (of_nat (n - k) - 1, replicate (n - k) 0 @ replicate k 48 @ tail) else None)"
  using assms
proof (induction k arbitrary: n tail)
  case 0
  then show ?case by simp
next
  case (Suc k)
  show ?case
  proof (cases "n = 0")
    case True
    then show ?thesis using store_underflow [of tail 48] Suc.prems(2) by simp
  next
    case False
    then have st: "store (of_nat n - 1) 48 (replicate n 0 @ tail) = Some (replicate (n - 1) 0 @ 48 # tail)"
      using Suc.prems(1) by (intro store_back) simp_all
    have e: "of_nat n - 1 - 1 = (of_nat (n - 1) - 1 :: u32)" using False by (simp add: of_nat_diff)
    have "pad_loop (Suc k) (of_nat n - 1) (replicate n 0 @ tail) =
        pad_loop k (of_nat (n - 1) - 1) (replicate (n - 1) 0 @ 48 # tail)"
      by (simp only: pad_loop.simps st option.case e)
    moreover have "k \<le> n - 1 \<longleftrightarrow> Suc k \<le> n" "n - 1 - k = n - Suc k" using False by auto
    moreover have "replicate k 48 @ 48 # tail = replicate (Suc k) 48 @ tail"
      by (simp add: replicate_app_Cons_same)
    ultimately show ?thesis
      using Suc.IH [of "n - 1" "48 # tail"] Suc.prems False by (simp only:) simp
  qed
qed

lemma string_from_back:
  assumes "n \<le> 16"
  shows "string_from (of_nat n - 1 + 1) (replicate n 0 @ tail) = Some tail"
  using assms by (simp add: string_from_def unsigned_of_nat take_bit_eq_mod)

section \<open>What \<open>print_hex\<close> and \<open>print_dec\<close> print\<close>

definition hex_string :: "u32 \<Rightarrow> int \<Rightarrow> u8 list" where
  "hex_string val padding =
     replicate (nat padding - length (digits 16 (unat val))) 48 @ map hex_char (digits 16 (unat val))"

definition dec_string :: "u32 \<Rightarrow> u8 list" where
  "dec_string val = map dec_char (digits 10 (unat val))"

lemma hex_digits_bound: "length (digits 16 (unat (val :: u32))) \<le> 8"
  using unat_lt32 [of val] by (intro length_digits) simp_all

lemma dec_digits_bound: "length (digits 10 (unat (val :: u32))) \<le> 10"
  using unat_lt32 [of val] by (intro length_digits) simp_all

lemma print_hex_string:
  "print_hex pr val padding s =
    (if padding \<le> 8 then pr (hex_string val padding @ [0]) [] s else None)"
proof -
  let ?ds = "digits 16 (unat val)" and ?l = "length (digits 16 (unat val))"
  note l = hex_digits_bound [of val]
  have p: "uint (of_nat ?l :: u8) = int ?l"
    using l by (simp add: unsigned_of_nat take_bit_eq_mod)
  have "hex_loop val 7 0 (replicate 9 0) =
    Some (of_nat (8 - ?l) - 1, of_nat ?l, replicate (8 - ?l) 0 @ map hex_char ?ds @ [0])"
    using hex_loop_digits [of val 8 0 "[0]"] l
    by (simp add: replicate_append_same eval_nat_numeral del: of_nat_diff)
  moreover have "nat (padding - int ?l) \<le> 8 - ?l \<longleftrightarrow> padding \<le> 8" using l by linarith
  moreover have "nat padding - ?l = nat (padding - int ?l)" by linarith
  ultimately show ?thesis
    using pad_loop_zeros [of "8 - ?l" "map hex_char ?ds @ [0]" "nat (padding - int ?l)"] l
      string_from_back [of "8 - ?l - nat (padding - int ?l)"]
    by (simp add: print_hex_def p hex_string_def del: of_nat_diff)
qed

lemma print_dec_string: "print_dec pr val s = pr (dec_string val @ [0]) [] s"
proof -
  let ?ds = "digits 10 (unat val)" and ?l = "length (digits 10 (unat val))"
  note l = dec_digits_bound [of val]
  have "dec_loop val 9 (replicate 11 0) =
    Some (of_nat (10 - ?l) - 1, replicate (10 - ?l) 0 @ map dec_char ?ds @ [0])"
    using dec_loop_digits [of val 10 "[0]"] l
    by (simp add: replicate_append_same eval_nat_numeral del: of_nat_diff)
  then show ?thesis
    using string_from_back [of "10 - ?l" "map dec_char ?ds @ [0]"]
    by (simp add: print_dec_def dec_string_def del: of_nat_diff)
qed

section \<open>What \<open>printf\<close> prints\<close>

primrec puts :: "u8 list \<Rightarrow> 'a video_scheme \<Rightarrow> 'a video_scheme option" where
  "puts [] s = Some s"
| "puts (c # cs) s = (case putc c s of None \<Rightarrow> None | Some s' \<Rightarrow> puts cs s')"

lemma puts_append: "puts (xs @ ys) s = (case puts xs s of None \<Rightarrow> None | Some s' \<Rightarrow> puts ys s')"
  by (induction xs arbitrary: s) (auto split: option.split)

text \<open>
  The width in front of a conversion: the longest run of decimal digits, read as a number in
  base 10. The loop of the code, which reads digit by digit and gives up at the first value
  beyond \<open>int\<close>, finds the same.
\<close>

definition decimal_digit :: "u8 \<Rightarrow> bool" where
  "decimal_digit c \<longleftrightarrow> 48 \<le> uint c \<and> uint c \<le> 57"

definition width_value :: "int \<Rightarrow> c_string \<Rightarrow> int" where
  "width_value n cs = foldl (\<lambda>v c. v * 10 + (uint c - 48)) n (takeWhile decimal_digit cs)"

lemma width_value_simps:
  "width_value n [] = n"
  "width_value n (c # cs) = (if decimal_digit c then width_value (n * 10 + (uint c - 48)) cs else n)"
  by (simp_all add: width_value_def)

lemma width_value_grows: "0 \<le> n \<Longrightarrow> n \<le> width_value n cs"
proof (induction cs arbitrary: n)
  case Nil
  then show ?case by (simp add: width_value_simps)
next
  case (Cons c cs)
  show ?case using Cons.IH [of "n * 10 + (uint c - 48)"] Cons.prems
    by (auto simp: width_value_simps decimal_digit_def)
qed

lemma scan_width_value:
  "0 \<le> n \<Longrightarrow> n < 2147483648 \<Longrightarrow> scan_width cs n =
    (if dropWhile decimal_digit cs = [] \<or> 2147483648 \<le> width_value n cs then None
     else Some (width_value n cs, dropWhile decimal_digit cs))"
proof (induction cs arbitrary: n)
  case Nil
  then show ?case by simp
next
  case (Cons c cs)
  let ?n = "n * 10 + (uint c - 48)"
  have iff: "48 \<le> c \<and> c \<le> 57 \<longleftrightarrow> decimal_digit c" by (simp add: decimal_digit_def word_le_def)
  show ?case
  proof (cases "decimal_digit c")
    case True
    then have n: "0 \<le> ?n" using Cons.prems by (simp add: decimal_digit_def)
    show ?thesis
    proof (cases "?n < 2147483648")
      case small: True
      show ?thesis unfolding scan_width.simps iff using Cons.IH [OF n small] True small by (simp add: width_value_simps)
    next
      case False
      then show ?thesis unfolding scan_width.simps iff
        using width_value_grows [OF n, of cs] True by (simp add: width_value_simps)
    qed
  next
    case False
    then show ?thesis unfolding scan_width.simps iff using Cons.prems by (simp add: width_value_simps)
  qed
qed

lemma dropWhile_shorter: "dropWhile P cs = x # xs \<Longrightarrow> length xs < length cs"
  using length_dropWhile_le [of P cs] by simp

text \<open>The characters a format string and its arguments stand for.\<close>

function format :: "c_string \<Rightarrow> u32 list \<Rightarrow> u8 list option" where
  "format [] va_args = None"
| "format (c # cs) va_args =
     (if c = 0 then Some []
      else if c = 37 then
        case dropWhile decimal_digit cs of
          [] \<Rightarrow> None
        | conv # rest \<Rightarrow>
            (if 2147483648 \<le> width_value 0 cs then None
             else if conv = 120 then
               case va_args of [] \<Rightarrow> None
               | v # vs \<Rightarrow> if width_value 0 cs \<le> 8
                   then map_option ((@) (hex_string v (width_value 0 cs))) (format rest vs) else None
             else if conv = 100 then
               case va_args of [] \<Rightarrow> None
               | v # vs \<Rightarrow> map_option ((@) (dec_string v)) (format rest vs)
             else format rest (tl va_args))
      else map_option ((#) c) (format cs va_args))"
  by pat_completeness auto
termination
  by (relation "measure (\<lambda>(cs, _). length cs)") (auto dest: dropWhile_shorter)

definition plain :: "u8 list \<Rightarrow> bool" where
  "plain cs \<longleftrightarrow> (\<forall>c\<in>set cs. c \<noteq> 0 \<and> c \<noteq> 37)"

lemma printf_loop_plain: "plain cs \<Longrightarrow> printf_loop pr (cs @ 0 # rest) va_args s = puts cs s"
  by (induction cs arbitrary: s) (auto simp: plain_def split: option.split)

lemma hex_char_cases: "d < 16 \<Longrightarrow> hex_char d \<in> set [48,49,50,51,52,53,54,55,56,57,97,98,99,100,101,102]"
proof -
  assume "d < 16"
  then have "d \<in> set [0..<16]" by simp
  moreover have "\<forall>d\<in>set [0..<16]. hex_char d \<in> set [48,49,50,51,52,53,54,55,56,57,97,98,99,100,101,102]"
    by code_simp
  ultimately show ?thesis by blast
qed

lemma dec_char_cases: "d < 10 \<Longrightarrow> dec_char d \<in> set [48,49,50,51,52,53,54,55,56,57]"
proof -
  assume "d < 10"
  then have "d \<in> set [0..<10]" by simp
  moreover have "\<forall>d\<in>set [0..<10]. dec_char d \<in> set [48,49,50,51,52,53,54,55,56,57]"
    by code_simp
  ultimately show ?thesis by blast
qed

lemma string_chars:
  assumes "c \<in> set (hex_string v w) \<or> c \<in> set (dec_string v)"
  shows "c \<in> set [48,49,50,51,52,53,54,55,56,57,97,98,99,100,101,102]"
proof -
  from assms consider "c = 48" | d where "d \<in> set (digits 16 (unat v))" "c = hex_char d"
    | d where "d \<in> set (digits 10 (unat v))" "c = dec_char d"
    by (auto simp: hex_string_def dec_string_def split: if_splits)
  then show ?thesis
  proof cases
    case 1
    then show ?thesis by simp
  next
    case (2 d)
    then show ?thesis using hex_char_cases [OF digits_less [of 16 d]] by simp
  next
    case (3 d)
    then show ?thesis using dec_char_cases [OF digits_less [of 10 d]] by auto
  qed
qed

lemma plain_strings: "plain (hex_string v w)" "plain (dec_string v)"
proof -
  have "c \<noteq> 0 \<and> c \<noteq> 37" if "c \<in> set (hex_string v w) \<or> c \<in> set (dec_string v)" for c
    using string_chars [OF that] by auto
  then show "plain (hex_string v w)" "plain (dec_string v)" unfolding plain_def by blast+
qed

lemma printf_loop_format:
  assumes "\<And>ds s. plain ds \<Longrightarrow> pr (ds @ [0]) [] s = puts ds s"
  shows "printf_loop pr fmt va_args s =
    (case format fmt va_args of None \<Rightarrow> None | Some cs \<Rightarrow> puts cs s)"
  using assms
proof (induction pr fmt va_args s rule: printf_loop.induct)
  case (1 pr va_args s)
  then show ?case by simp
next
  case (2 pr c cs va_args s)
  note sub = print_hex_string [where pr = pr] print_dec_string [where pr = pr]
    "2.prems" [OF plain_strings(1)] "2.prems" [OF plain_strings(2)]
  show ?case
  proof (cases "c = 37")
    case False
    then show ?thesis using 2 by (auto split: option.split)
  next
    case percent: True
    show ?thesis
    proof (cases "scan_width cs 0")
      case None
      then consider "dropWhile decimal_digit cs = []" | "2147483648 \<le> width_value 0 cs"
        using scan_width_value [of 0 cs] by (auto split: if_splits)
      then show ?thesis
      proof cases
        case 1
        then show ?thesis using None percent by (simp del: dropWhile_eq_Nil_conv)
      next
        case 2
        then show ?thesis using None percent by (simp split: list.split)
      qed
    next
      case (Some wr)
      then obtain conv rest where r: "dropWhile decimal_digit cs = conv # rest" "\<not> 2147483648 \<le> width_value 0 cs"
        "wr = (width_value 0 cs, conv # rest)"
        using scan_width_value [of 0 cs] by (cases "dropWhile decimal_digit cs") (auto split: if_splits)
      then show ?thesis
        using Some percent "2.IH" "2.prems" by (auto simp: sub puts_append split: option.split list.split)
    qed
  qed
qed

section \<open>Properties\<close>

lemma printf_depth_1:
  assumes "plain ds"
  shows "printf_depth (Suc n) (ds @ [0]) [] s = puts ds s"
  by (simp add: printf_loop_plain [OF assms])

lemma printf_depth_format:
  "printf_depth (Suc (Suc m)) fmt va_args s =
    (case format fmt va_args of None \<Rightarrow> None | Some cs \<Rightarrow> puts cs s)"
  unfolding printf_depth.simps(2) [of "Suc m"]
  by (rule printf_loop_format) (rule printf_depth_1)

text \<open>
  C26. \<open>printf\<close> prints what the format specification says, for every format string, every
  argument list and every state: the characters of the formatted text, one by one, and no
  result exactly when the format has none (a string without end, a percent sign at the end
  of the string, a missing argument, a width above 8) or a character of it has none. Two
  nested calls are always enough.
\<close>

theorem printf_formats:
  "printf fmt va_args s = (case format fmt va_args of None \<Rightarrow> None | Some cs \<Rightarrow> puts cs s)
   \<and> printf_depth (Suc (Suc n)) fmt va_args s = printf fmt va_args s"
  unfolding printf_def numeral_2_eq_2 printf_depth_format by simp

definition hex_value :: "u8 \<Rightarrow> nat" where
  "hex_value c = (if 97 \<le> c then unat c - 87 else unat c - 48)"

lemma hex_value_char: "d < 16 \<Longrightarrow> hex_value (hex_char d) = d"
proof -
  assume "d < 16"
  then have "d \<in> set [0..<16]" by simp
  moreover have "\<forall>d\<in>set [0..<16]. hex_value (hex_char d) = d" by code_simp
  ultimately show ?thesis by blast
qed

lemma hex_value_dec_char: "d < 10 \<Longrightarrow> hex_value (dec_char d) = d"
proof -
  assume "d < 10"
  then have "d \<in> set [0..<10]" by simp
  moreover have "\<forall>d\<in>set [0..<10]. hex_value (dec_char d) = d" by code_simp
  ultimately show ?thesis by blast
qed

lemma digits_value_zeros: "digits_value b (replicate k 0 @ ds) = digits_value b ds"
  by (induction k) (simp_all add: digits_value_def)

lemma map_hex_value:
  "map hex_value (hex_string v w) = replicate (nat w - length (digits 16 (unat v))) 0 @ digits 16 (unat v)"
  "map hex_value (dec_string v) = digits 10 (unat v)"
proof -
  have "hex_value 48 = 0" by (simp add: hex_value_def)
  moreover have "map (hex_value \<circ> hex_char) (digits 16 (unat v)) = digits 16 (unat v)"
    by (intro map_idI) (use digits_less [of 16] hex_value_char in auto)
  moreover have "map (hex_value \<circ> dec_char) (digits 10 (unat v)) = digits 10 (unat v)"
    by (intro map_idI) (use digits_less [of 10] hex_value_dec_char in auto)
  ultimately show "map hex_value (hex_string v w) = replicate (nat w - length (digits 16 (unat v))) 0 @ digits 16 (unat v)"
    "map hex_value (dec_string v) = digits 10 (unat v)"
    by (simp_all add: hex_string_def dec_string_def map_replicate)
qed

text \<open>
  \<open>print_hex\<close> and \<open>print_dec\<close> print the number: \<open>print_hex\<close> has a result for a width of
  at most 8 only (a larger one runs off the front of its buffer) and then prints a string
  of hexadecimal digits that reads back as the value, at least as long as the width and
  at most 8; \<open>print_dec\<close> prints a string of decimal digits that reads back as the value,
  without a leading zero unless the value is zero.
\<close>

theorem number_output_correct:
  "print_hex pr v w s = (if w \<le> 8 then pr (hex_string v w @ [0]) [] s else None) \<and>
   digits_value 16 (map hex_value (hex_string v w)) = unat v \<and>
   length (hex_string v w) = max (nat w) (length (digits 16 (unat v))) \<and>
   length (digits 16 (unat v)) \<le> 8 \<and>
   print_dec pr v s = pr (dec_string v @ [0]) [] s \<and>
   digits_value 10 (map hex_value (dec_string v)) = unat v \<and>
   (hex_value (hd (dec_string v)) = 0 \<longleftrightarrow> v = 0)"
proof -
  have "hex_value (hd (dec_string v)) = hd (digits 10 (unat v))"
    using map_hex_value(2) [of v] by (metis digits_nonempty hd_map list.map_disc_iff)
  moreover have "hd (digits 10 (unat v)) = 0 \<longleftrightarrow> v = 0"
    using hd_digits [of 10 "unat v"] by (auto simp: digits_0 word_unat_eq_iff)
  ultimately show ?thesis
    using hex_digits_bound [of v]
    by (simp add: print_hex_string print_dec_string map_hex_value digits_value_zeros digits_value)
      (simp add: hex_string_def)
qed

lemma puts_console:
  assumes "geometry s" "cursor_ok s" "shows_console s k" "\<forall>c\<in>set cs. unat c < 128"
  shows "\<exists>s'. puts cs s = Some s' \<and> geometry s' \<and> cursor_ok s' \<and>
    shows_console s' (fold (console_putc (unat (scr_w s)) (unat (scr_h s)) (display_font s)) (map unat cs) k)
    \<and> s' = s\<lparr>mem := mem s', cursor := cursor s'\<rparr> \<and> (\<forall>a. a \<notin> framebuffer s \<longrightarrow> mem s' a = mem s a)"
  using assms
proof (induction cs arbitrary: s k)
  case Nil
  then show ?case by simp
next
  case (Cons c cs)
  obtain s1 where 1: "putc c s = Some s1" "geometry s1" "cursor_ok s1"
    "shows_console s1 (console_putc (unat (scr_w s)) (unat (scr_h s)) (display_font s) (unat c) k)"
    "s1 = s\<lparr>mem := mem s1, cursor := cursor s1\<rparr>" "\<forall>a. a \<notin> framebuffer s \<longrightarrow> mem s1 a = mem s a"
    using putc_console [of s c k] Cons.prems by auto
  have e: "scr_w s1 = scr_w s" "scr_h s1 = scr_h s" "display_font s1 = display_font s"
    "framebuffer s1 = framebuffer s"
    by (subst 1(5), simp)+
  obtain s2 where 2: "puts cs s1 = Some s2" "geometry s2" "cursor_ok s2"
    "shows_console s2 (fold (console_putc (unat (scr_w s)) (unat (scr_h s)) (display_font s)) (map unat cs)
      (console_putc (unat (scr_w s)) (unat (scr_h s)) (display_font s) (unat c) k))"
    "s2 = s1\<lparr>mem := mem s2, cursor := cursor s2\<rparr>" "\<forall>a. a \<notin> framebuffer s \<longrightarrow> mem s2 a = mem s1 a"
    using Cons.IH [OF 1(2,3,4)] Cons.prems(4) unfolding e by auto
  have "s2 = s\<lparr>mem := mem s2, cursor := cursor s2\<rparr>" by (subst 2(5), subst 1(5)) simp
  then show ?case using 1 2 by auto
qed

text \<open>
  C25. The text arrives on the screen: on a screen with a valid geometry and cursor,
  printing a format that has a text of characters below 128 returns, the screen then
  shows the console after exactly these characters, the cursor is inside the text area,
  and no byte outside the framebuffer has changed.
\<close>

theorem printf_shows_text:
  assumes "geometry s" "cursor_ok s" "shows_console s k"
    and "format fmt va_args = Some cs" "\<forall>c\<in>set cs. unat c < 128"
  shows "\<exists>s'. printf fmt va_args s = Some s' \<and> cursor_ok s' \<and>
    shows_console s' (fold (console_putc (unat (scr_w s)) (unat (scr_h s)) (display_font s)) (map unat cs) k)
    \<and> (\<forall>a. a \<notin> framebuffer s \<longrightarrow> mem s' a = mem s a)"
proof -
  have "printf fmt va_args s = puts cs s"
    unfolding printf_def numeral_2_eq_2 printf_depth_format by (simp add: assms(4))
  then show ?thesis using puts_console [OF assms(1-3,5)] by auto
qed

theorem printf_shows_text_witness:
  "\<exists>s'. printf (lit ''0x%2x'') [10] example_video = Some s' \<and> cursor_ok s' \<and>
     unat (cur_x (cursor s')) = 4"
proof -
  let ?cs = "lit ''0x0a''"
  have f: "format (lit ''0x%2x'') [10] = Some (butlast ?cs)" by code_simp
  have c: "\<forall>c\<in>set (butlast ?cs). unat c < 128" by code_simp
  have l: "map unat (butlast ?cs) = [48, 120, 48, 97]" by code_simp
  show ?thesis
    using printf_shows_text [OF example_video f c]
    by (auto simp: l shows_console_def console_putc_def console_type_def console_wrap_def
        console_scroll_def example_video_def)
qed

end
