(* ===== verification/Devices.thy ===== *)
theory Devices
  imports Printf
begin

text \<open>
  The driver registry, \<open>src/kernel/drivers/devices.cpp\<close>, and the device objects of
  \<open>incl/drivers/devices.hpp\<close>. Device objects live in memory, laid out as the i386 ABI
  does: the vtable pointer at 0, \<open>bus\<close> at 4, \<open>dev_class\<close> at 8, \<open>irq_n\<close> at 12. In
  place of the vtable pointer the state records the dynamic class of each object. The
  registry is an array of 1024 pointers; an index outside it has no result. Its unused
  entries are null: the code follows them all the same, and page 0 is mapped, so that
  such an access reads the low memory; a virtual call through a null pointer has no
  result.
\<close>

datatype bus_type = BUS_NONE | BUS_PCI | BUS_USB

datatype device_class = DEVICE_BLOCK | DEVICE_NETWORK

primrec bus_code :: "bus_type \<Rightarrow> u32" where
  "bus_code BUS_NONE = 0"
| "bus_code BUS_PCI = 1"
| "bus_code BUS_USB = 2"

primrec class_code_of :: "device_class \<Rightarrow> u32" where
  "class_code_of DEVICE_BLOCK = 0"
| "class_code_of DEVICE_NETWORK = 1"

text \<open>The classes with objects of their own.\<close>

datatype driver_class = Class_PCNET | Class_AHCI | Class_RTL8139

record devices = video +
  driver_registry :: "nat \<Rightarrow> u32"
  total_drivers :: int
  dynamic_class :: "u32 \<Rightarrow> driver_class option"

section \<open>Device objects\<close>

definition dev_bus :: "mem \<Rightarrow> u32 \<Rightarrow> u32" where
  "dev_bus m this = rd32 m (this + 4)"

definition dev_class :: "mem \<Rightarrow> u32 \<Rightarrow> u32" where
  "dev_class m this = rd32 m (this + 8)"

definition dev_irq_n :: "mem \<Rightarrow> u32 \<Rightarrow> u8" where
  "dev_irq_n m this = rd8 m (this + 12)"

definition set_dev_bus :: "u32 \<Rightarrow> bus_type \<Rightarrow> mem \<Rightarrow> mem" where
  "set_dev_bus this b m = wr32 (this + 4) (bus_code b) m"

definition set_dev_class :: "u32 \<Rightarrow> device_class \<Rightarrow> mem \<Rightarrow> mem" where
  "set_dev_class this c m = wr32 (this + 8) (class_code_of c) m"

definition set_dev_irq_n :: "u32 \<Rightarrow> u8 \<Rightarrow> mem \<Rightarrow> mem" where
  "set_dev_irq_n this n m = wr8 (this + 12) n m"

text \<open>The constructor runs the default initialiser \<open>irq_n = -1\<close>; \<open>bus\<close> and \<open>dev_class\<close>
  keep what the memory held.\<close>

definition new_Device :: "u32 \<Rightarrow> mem \<Rightarrow> mem" where
  "new_Device this m = set_dev_irq_n this (-1) m"

definition Device_init :: "'a devices_scheme \<Rightarrow> 'a devices_scheme" where
  "Device_init s = s"

definition Device_irq :: "'a devices_scheme \<Rightarrow> 'a devices_scheme" where
  "Device_irq s = s"

section \<open>The registry\<close>

definition devices_init :: "'a devices_scheme \<Rightarrow> 'a devices_scheme" where
  "devices_init s = s\<lparr>driver_registry := (\<lambda>i. if i < 1024 then 0 else driver_registry s i)\<rparr>"

definition register_driver :: "u32 \<Rightarrow> 'a devices_scheme \<Rightarrow> 'a devices_scheme option" where
  "register_driver drv s =
     (if 0 \<le> total_drivers s \<and> total_drivers s < 1024
      then Some (s\<lparr>driver_registry := (driver_registry s)(nat (total_drivers s) := drv),
                   total_drivers := total_drivers s + 1\<rparr>)
      else None)"

function find_device_loop :: "device_class \<Rightarrow> nat \<Rightarrow> 'a devices_scheme \<Rightarrow> u32" where
  "find_device_loop c i s =
     (if i < 1024 then
        if dev_class (mem s) (driver_registry s i) = class_code_of c then driver_registry s i
        else find_device_loop c (i + 1) s
      else 0)"
  by pat_completeness auto
termination
  by (relation "measure (\<lambda>(c, i, s). 1024 - i)") auto

declare find_device_loop.simps [simp del]

definition find_device_by_class :: "device_class \<Rightarrow> 'a devices_scheme \<Rightarrow> u32" where
  "find_device_by_class c s = find_device_loop c 0 s"

text \<open>\<open>send_irq\<close> calls a virtual method, a parameter here.\<close>

type_synonym 'a vmethod = "u32 \<Rightarrow> 'a devices_scheme \<Rightarrow> 'a devices_scheme option"

function send_irq_loop :: "'a vmethod \<Rightarrow> int \<Rightarrow> nat \<Rightarrow> 'a devices_scheme \<Rightarrow> 'a devices_scheme option" where
  "send_irq_loop irq irq_n i s =
     (if i < 1024 then
        if uint (dev_irq_n (mem s) (driver_registry s i)) = irq_n then
          case irq (driver_registry s i) s of
            None \<Rightarrow> None | Some s' \<Rightarrow> send_irq_loop irq irq_n (i + 1) s'
        else send_irq_loop irq irq_n (i + 1) s
      else Some s)"
  by pat_completeness auto
termination
  by (relation "measure (\<lambda>(irq, irq_n, i, s). 1024 - i)") auto

declare send_irq_loop.simps [simp del]

definition send_irq :: "'a vmethod \<Rightarrow> int \<Rightarrow> 'a devices_scheme \<Rightarrow> 'a devices_scheme option" where
  "send_irq irq irq_n s = send_irq_loop irq irq_n 0 s"

section \<open>Lookup\<close>

lemma find_device_loop_eq:
  "find_device_loop c i s =
    (case find (\<lambda>j. dev_class (mem s) (driver_registry s j) = class_code_of c) [i..<1024] of
       None \<Rightarrow> 0 | Some j \<Rightarrow> driver_registry s j)"
proof (induction c i s rule: find_device_loop.induct)
  case (1 c i s)
  show ?case
  proof (cases "i < 1024")
    case True
    then have "[i..<1024] = i # [Suc i..<1024]" by (simp add: upt_conv_Cons)
    then show ?thesis using 1 True by (subst find_device_loop.simps) simp
  next
    case False
    then show ?thesis by (subst find_device_loop.simps) simp
  qed
qed

text \<open>The registry holds \<open>ds\<close>, in order, and nothing else.\<close>

definition registry_is :: "'a devices_scheme \<Rightarrow> u32 list \<Rightarrow> bool" where
  "registry_is s ds \<longleftrightarrow> length ds \<le> 1024 \<and> total_drivers s = int (length ds) \<and>
     (\<forall>i<1024. driver_registry s i = (if i < length ds then ds ! i else 0))"

lemma registry_map: "registry_is s ds \<Longrightarrow>
    map (driver_registry s) [0..<1024] = ds @ replicate (1024 - length ds) 0"
  by (rule nth_equalityI) (auto simp: registry_is_def nth_append)

lemma find_map: "find P (map f xs) = map_option f (find (P \<circ> f) xs)"
  by (induction xs) auto

lemma find_append: "find P (xs @ ys) = (case find P xs of None \<Rightarrow> find P ys | Some x \<Rightarrow> Some x)"
  by (induction xs) auto

lemma find_replicate: "find P (replicate n x) = (if 0 < n \<and> P x then Some x else None)"
  by (induction n) auto

lemma find_device_registry:
  assumes "registry_is s ds"
  shows "find_device_by_class c s =
    (case find (\<lambda>d. dev_class (mem s) d = class_code_of c) ds of None \<Rightarrow> 0 | Some d \<Rightarrow> d)"
proof -
  let ?P = "\<lambda>d. dev_class (mem s) d = class_code_of c"
  have "find_device_by_class c s = (case find (?P \<circ> driver_registry s) [0..<1024] of
      None \<Rightarrow> 0 | Some j \<Rightarrow> driver_registry s j)"
    by (simp add: find_device_by_class_def find_device_loop_eq comp_def)
  also have "\<dots> = (case find ?P (map (driver_registry s) [0..<1024]) of None \<Rightarrow> 0 | Some d \<Rightarrow> d)"
    unfolding find_map by (cases "find (?P \<circ> driver_registry s) [0..<1024]") simp_all
  also have "\<dots> = (case find ?P ds of None \<Rightarrow> 0 | Some d \<Rightarrow> d)"
    unfolding registry_map [OF assms] find_append find_replicate
    by (cases "find ?P ds") simp_all
  finally show ?thesis .
qed

lemma registry_init:
  assumes "total_drivers s = 0"
  shows "registry_is (devices_init s) []"
  using assms by (simp add: registry_is_def devices_init_def)

lemma register_driver_registry:
  assumes "registry_is s ds"
  shows "register_driver d s = (if length ds < 1024
    then Some (s\<lparr>driver_registry := (driver_registry s)(length ds := d), total_drivers := int (length ds) + 1\<rparr>)
    else None)"
  using assms by (auto simp: register_driver_def registry_is_def)

lemma registry_append:
  assumes "registry_is s ds" "register_driver d s = Some s'"
  shows "registry_is s' (ds @ [d])" "mem s' = mem s"
  using assms register_driver_registry [OF assms(1)]
  by (auto simp: registry_is_def nth_append split: if_splits)

section \<open>Interrupt dispatch\<close>

text \<open>
  \<open>irq_calls irq n ds s\<close>: the methods of the devices \<open>ds\<close> in order, for those whose
  \<open>irq_n\<close> is the number when their turn comes.
\<close>

primrec irq_calls :: "'a vmethod \<Rightarrow> int \<Rightarrow> u32 list \<Rightarrow> 'a devices_scheme \<Rightarrow> 'a devices_scheme option" where
  "irq_calls irq n [] s = Some s"
| "irq_calls irq n (d # ds) s =
     (if uint (dev_irq_n (mem s) d) = n
      then case irq d s of None \<Rightarrow> None | Some s' \<Rightarrow> irq_calls irq n ds s'
      else irq_calls irq n ds s)"

text \<open>
  The contract of the virtual method the dispatcher calls: it leaves the registry alone,
  and there is no method behind a null pointer.
\<close>

locale irq_methods =
  fixes irq :: "u32 \<Rightarrow> 'a devices_scheme \<Rightarrow> 'a devices_scheme option"
  assumes keeps_registry: "irq d s = Some s' \<Longrightarrow>
      driver_registry s' = driver_registry s \<and> total_drivers s' = total_drivers s"
    and null_method: "irq 0 s = None"
begin

lemma irq_calls_registry:
  "irq_calls irq n ds s = Some s' \<Longrightarrow>
   driver_registry s' = driver_registry s \<and> total_drivers s' = total_drivers s"
  by (induction ds arbitrary: s) (auto dest: keeps_registry split: if_splits option.splits)

lemma irq_calls_append:
  "irq_calls irq n (ds @ es) s = (case irq_calls irq n ds s of None \<Rightarrow> None | Some s' \<Rightarrow> irq_calls irq n es s')"
  by (induction ds arbitrary: s) (auto split: option.split)

lemma irq_calls_null:
  "irq_calls irq n (replicate k 0) s = (if k = 0 \<or> uint (dev_irq_n (mem s) 0) \<noteq> n then Some s else None)"
  by (induction k) (auto simp: null_method)

lemma send_irq_loop_calls:
  "send_irq_loop irq n i s = irq_calls irq n (map (driver_registry s) [i..<1024]) s"
proof (induction "1024 - i" arbitrary: i s)
  case 0
  then show ?case by (subst send_irq_loop.simps) simp
next
  case (Suc k)
  then have i: "i < 1024" "k = 1024 - (i + 1)" by simp_all
  then have u: "[i..<1024] = i # [Suc i..<1024]" by (simp add: upt_conv_Cons)
  have "driver_registry s' = driver_registry s" if "irq (driver_registry s i) s = Some s'" for s'
    using keeps_registry [OF that] by simp
  then show ?case
    unfolding u using Suc.hyps(1) [OF i(2)] i(1)
    by (subst send_irq_loop.simps) (auto split: option.split)
qed

lemma dispatch:
  assumes "registry_is s ds"
  shows "send_irq irq n s = (case irq_calls irq n ds s of
     None \<Rightarrow> None
   | Some s' \<Rightarrow> if length ds = 1024 \<or> uint (dev_irq_n (mem s') 0) \<noteq> n then Some s' else None)"
proof -
  have "length ds \<le> 1024" using assms by (simp add: registry_is_def)
  then show ?thesis
    unfolding send_irq_def send_irq_loop_calls registry_map [OF assms] irq_calls_append
    by (auto simp: irq_calls_null split: option.split)
qed

end

end
