(* ===== verification/Pci.thy ===== *)
theory Pci
  imports Devices
begin

text \<open>
  PCI configuration space access, \<open>src/kernel/drivers/pci.cpp\<close> (the bus scan of \<open>init\<close>
  is in a later theory, with the drivers it starts), and the layout of the
  \<open>PCIDevice\<close> objects of \<open>incl/drivers/pci.hpp\<close>: behind the 13 bytes of \<open>Device\<close> the
  \<open>info\<close> structure at 16 and \<open>io_base\<close> at 32.
\<close>

definition PCI_COMMAND :: u16 where
  "PCI_COMMAND = 0xcf8"

definition PCI_DATA :: u16 where
  "PCI_DATA = 0xcfc"

record device_info =
  info_bus :: u32
  info_device :: u32
  info_function :: u32
  info_vendor_id :: u16
  info_device_id :: u16

record device_header =
  vendor_id :: u16
  device_id :: u16
  command :: u16
  status :: u16
  revision_id :: u8
  prog_if :: u8
  sub_class :: u8
  class_code :: u8
  cache_line_size :: u8
  latency_timer :: u8
  header_type :: u8
  bist :: u8
  bar0 :: u32
  bar1 :: u32
  bar2 :: u32
  bar3 :: u32
  bar4 :: u32
  bar5 :: u32
  cis_ptr :: u32
  subsystem_vendor_id :: u16
  subsystem_id :: u16
  exp_rom_base :: u32
  capabilities_ptr :: u8
  irq_line :: u8
  irq_pin :: u8
  min_grant :: u8
  max_latency :: u8

section \<open>Configuration accesses\<close>

definition get_id :: "device_info \<Rightarrow> u32 \<Rightarrow> u32" where
  "get_id dev reg = push_bit 31 1 OR push_bit 16 (info_bus dev AND 0xff)
     OR push_bit 11 (info_device dev AND 0x1f) OR push_bit 8 (info_function dev AND 0x07)
     OR (reg AND 0xfc)"

definition config_read :: "device_info \<Rightarrow> u32 \<Rightarrow> 'a machine_scheme \<Rightarrow> u32 \<times> 'a machine_scheme" where
  "config_read dev reg s =
     (let id = get_id dev reg; s = write32 PCI_COMMAND id s in read32 PCI_DATA s)"

definition config_read16 :: "device_info \<Rightarrow> u32 \<Rightarrow> 'a machine_scheme \<Rightarrow> u16 \<times> 'a machine_scheme" where
  "config_read16 dev reg s =
     (let id = get_id dev reg; s = write32 PCI_COMMAND id s; (config, s) = read32 PCI_DATA s
      in (ucast (drop_bit (unat ((reg AND 2) * 8)) config AND 0xffff), s))"

definition config_write :: "device_info \<Rightarrow> u32 \<Rightarrow> u32 \<Rightarrow> 'a machine_scheme \<Rightarrow> 'a machine_scheme" where
  "config_write dev reg val s =
     (let id = get_id dev reg; s = write32 PCI_COMMAND id s in write32 PCI_DATA val s)"

text \<open>
  \<open>get_device_header\<close>: every field with the access the code makes for it. The casts of
  the code bind tighter than its masks.
\<close>

definition get_device_header :: "device_info \<Rightarrow> 'a machine_scheme \<Rightarrow> device_header \<times> 'a machine_scheme" where
  "get_device_header dev s =
     (let (vendor_id, s) = config_read16 dev 0x00 s;
          (device_id, s) = config_read16 dev 0x02 s;
          (command, s) = config_read16 dev 0x04 s;
          (status, s) = config_read16 dev 0x06 s;
          (v, s) = config_read16 dev 0x08 s; revision_id = ucast v AND 0xff;
          (v, s) = config_read16 dev 0x08 s; prog_if = ucast (drop_bit 8 v);
          (v, s) = config_read16 dev 0x0a s; sub_class = ucast v AND 0xff;
          (v, s) = config_read16 dev 0x0a s; class_code = ucast (drop_bit 8 v);
          (v, s) = config_read16 dev 0x0c s; cache_line_size = ucast v AND 0xff;
          (v, s) = config_read16 dev 0x0c s; latency_timer = ucast (drop_bit 8 v);
          (v, s) = config_read16 dev 0x0e s; header_type = ucast v AND 0xff;
          (v, s) = config_read16 dev 0x0e s; bist = ucast (drop_bit 8 v);
          (bar0, s) = config_read dev 0x10 s;
          (bar1, s) = config_read dev 0x14 s;
          (bar2, s) = config_read dev 0x18 s;
          (bar3, s) = config_read dev 0x1c s;
          (bar4, s) = config_read dev 0x20 s;
          (bar5, s) = config_read dev 0x24 s;
          (cis_ptr, s) = config_read dev 0x28 s;
          (subsystem_vendor_id, s) = config_read16 dev 0x2c s;
          (subsystem_id, s) = config_read16 dev 0x2e s;
          (exp_rom_base, s) = config_read dev 0x30 s;
          (v, s) = config_read16 dev 0x34 s; capabilities_ptr = ucast (v AND 0xff);
          (v, s) = config_read16 dev 0x3c s; irq_line = ucast (v AND 0xff);
          (v, s) = config_read16 dev 0x3c s; irq_pin = ucast (drop_bit 8 v);
          (v, s) = config_read16 dev 0x3e s; min_grant = ucast (v AND 0xff);
          (v, s) = config_read16 dev 0x3e s; max_latency = ucast (drop_bit 8 v)
      in (\<lparr>vendor_id = vendor_id, device_id = device_id, command = command, status = status,
           revision_id = revision_id, prog_if = prog_if, sub_class = sub_class,
           class_code = class_code, cache_line_size = cache_line_size,
           latency_timer = latency_timer, header_type = header_type, bist = bist,
           bar0 = bar0, bar1 = bar1, bar2 = bar2, bar3 = bar3, bar4 = bar4, bar5 = bar5,
           cis_ptr = cis_ptr, subsystem_vendor_id = subsystem_vendor_id,
           subsystem_id = subsystem_id, exp_rom_base = exp_rom_base,
           capabilities_ptr = capabilities_ptr, irq_line = irq_line, irq_pin = irq_pin,
           min_grant = min_grant, max_latency = max_latency\<rparr>, s))"

section \<open>PCI device objects\<close>

definition dev_info :: "mem \<Rightarrow> u32 \<Rightarrow> device_info" where
  "dev_info m this = \<lparr>info_bus = rd32 m (this + 16), info_device = rd32 m (this + 20),
     info_function = rd32 m (this + 24), info_vendor_id = rd16 m (this + 28),
     info_device_id = rd16 m (this + 30)\<rparr>"

definition dev_io_base :: "mem \<Rightarrow> u32 \<Rightarrow> u16" where
  "dev_io_base m this = rd16 m (this + 32)"

definition set_dev_io_base :: "u32 \<Rightarrow> u16 \<Rightarrow> mem \<Rightarrow> mem" where
  "set_dev_io_base this v m = wr16 (this + 32) v m"

definition new_PCIDevice :: "device_info \<Rightarrow> u32 \<Rightarrow> mem \<Rightarrow> mem" where
  "new_PCIDevice info this m =
     (let m = new_Device this m;
          m = set_dev_bus this BUS_PCI m;
          m = wr32 (this + 16) (info_bus info) m;
          m = wr32 (this + 20) (info_device info) m
      in wr32 (this + 24) (info_function info) m)"

definition new_PCINetworkDevice :: "device_info \<Rightarrow> u32 \<Rightarrow> mem \<Rightarrow> mem" where
  "new_PCINetworkDevice info this m = set_dev_class this DEVICE_NETWORK (new_PCIDevice info this m)"

section \<open>The address of a configuration register\<close>

lemma low_mask:
  "(0xff :: u32) = mask 8" "(0x1f :: u32) = mask 5" "(0x07 :: u32) = mask 3"
  by (simp_all add: mask_eq_exp_minus_1)

lemma bit_field: "bit (push_bit k (x AND mask w) :: u32) n \<longleftrightarrow> k \<le> n \<and> n < k + w \<and> n < 32 \<and> bit x (n - k)"
  by (auto simp: bit_push_bit_iff bit_and_iff bit_mask_iff)

lemma bit_enable: "bit (push_bit 31 (1 :: u32)) n \<longleftrightarrow> n = 31"
  by (auto simp only: bit_push_bit_iff bit_1_iff possible_bit_word) simp

lemma bit_register: "bit (reg AND 0xfc :: u32) n \<longleftrightarrow> 2 \<le> n \<and> n < 8 \<and> bit reg n"
proof -
  have fc: "(0xfc :: u32) = push_bit 2 (mask 6)" by (simp add: mask_eq_exp_minus_1)
  show ?thesis
    unfolding fc by (auto simp only: bit_and_iff bit_push_bit_iff bit_mask_iff possible_bit_word) simp_all
qed

lemma bit_get_id:
  "bit (get_id dev reg) n \<longleftrightarrow>
    n = 31 \<or> 16 \<le> n \<and> n < 24 \<and> bit (info_bus dev) (n - 16) \<or>
    11 \<le> n \<and> n < 16 \<and> bit (info_device dev) (n - 11) \<or>
    8 \<le> n \<and> n < 11 \<and> bit (info_function dev) (n - 8) \<or> 2 \<le> n \<and> n < 8 \<and> bit reg n"
  unfolding get_id_def low_mask by (auto simp only: bit_or_iff bit_field bit_enable bit_register)

lemma bit_get_id_fields:
  "i < 8 \<Longrightarrow> bit (info_bus dev) i \<longleftrightarrow> bit (get_id dev reg) (16 + i)"
  "i < 5 \<Longrightarrow> bit (info_device dev) i \<longleftrightarrow> bit (get_id dev reg) (11 + i)"
  "i < 3 \<Longrightarrow> bit (info_function dev) i \<longleftrightarrow> bit (get_id dev reg) (8 + i)"
  "2 \<le> i \<Longrightarrow> i < 8 \<Longrightarrow> bit reg i \<longleftrightarrow> bit (get_id dev reg) i"
  by (simp_all add: bit_get_id)

lemma eq_masked:
  fixes x y :: u32
  assumes "\<And>i. i < k \<Longrightarrow> bit x i = bit y i"
  shows "x AND mask k = y AND mask k"
  by (rule bit_word_eqI) (use assms in \<open>auto simp: bit_and_iff bit_mask_iff\<close>)

text \<open>
  The configuration address is exact: two accesses use the same address if and only if
  they agree in the eight bus bits, the five device bits, the three function bits and the
  six bits of the register's word, and the address always has the enable bit.
\<close>

theorem get_id_exact:
  "(get_id d r = get_id d' r' \<longleftrightarrow>
      info_bus d AND 0xff = info_bus d' AND 0xff \<and> info_device d AND 0x1f = info_device d' AND 0x1f \<and>
      info_function d AND 0x07 = info_function d' AND 0x07 \<and> r AND 0xfc = r' AND 0xfc)
   \<and> bit (get_id d r) 31"
proof -
  have "info_bus d AND 0xff = info_bus d' AND 0xff \<and> info_device d AND 0x1f = info_device d' AND 0x1f \<and>
      info_function d AND 0x07 = info_function d' AND 0x07 \<and> r AND 0xfc = r' AND 0xfc"
    if eq: "get_id d r = get_id d' r'"
  proof (intro conjI)
    show "info_bus d AND 0xff = info_bus d' AND 0xff" "info_device d AND 0x1f = info_device d' AND 0x1f"
      "info_function d AND 0x07 = info_function d' AND 0x07"
      unfolding low_mask using bit_get_id_fields(1-3) [of _ d r] bit_get_id_fields(1-3) [of _ d' r'] eq
      by (intro eq_masked; simp)+
    show "r AND 0xfc = r' AND 0xfc"
      by (rule bit_word_eqI) (use bit_get_id_fields(4) [of _ r d] bit_get_id_fields(4) [of _ r' d'] eq
        in \<open>auto simp: bit_register\<close>)
  qed
  moreover have "get_id d r = get_id d' r'"
    if "info_bus d AND 0xff = info_bus d' AND 0xff" "info_device d AND 0x1f = info_device d' AND 0x1f"
      "info_function d AND 0x07 = info_function d' AND 0x07" "r AND 0xfc = r' AND 0xfc"
    unfolding get_id_def that ..
  ultimately show ?thesis by (auto simp: bit_get_id)
qed

section \<open>Reading the header of a device\<close>

text \<open>
  The documented behaviour of the configuration mechanism: a read of the data port answers
  the register selected by the last write to the address port, \<open>cfg\<close> by address.
\<close>

definition pci_answers :: "(u32 \<Rightarrow> u32) \<Rightarrow> 'a machine_scheme \<Rightarrow> bool" where
  "pci_answers cfg s \<longleftrightarrow> (\<forall>log a. hw32 s (Out32 PCI_COMMAND a # log) PCI_DATA = cfg a)"

definition asked :: "(u32 \<Rightarrow> u32) \<Rightarrow> u32 \<Rightarrow> 'a machine_scheme \<Rightarrow> 'a machine_scheme" where
  "asked cfg a s = s\<lparr>port_log := In32 PCI_DATA (cfg a) # Out32 PCI_COMMAND a # port_log s\<rparr>"

lemma pci_answers_asked [simp]: "pci_answers cfg (asked cfg' a s) = pci_answers cfg s"
  by (simp add: pci_answers_def asked_def)

lemma config_read_answer:
  "pci_answers cfg s \<Longrightarrow> config_read dev reg s = (cfg (get_id dev reg), asked cfg (get_id dev reg) s)"
  by (simp add: config_read_def port_defs pci_answers_def asked_def Let_def)

lemma config_read16_answer:
  "pci_answers cfg s \<Longrightarrow> config_read16 dev reg s =
    (ucast (drop_bit (unat ((reg AND 2) * 8)) (cfg (get_id dev reg)) AND 0xffff), asked cfg (get_id dev reg) s)"
  by (simp add: config_read16_def port_defs pci_answers_def asked_def Let_def)

text \<open>Halves and bytes of the double word at an offset.\<close>

definition cfg_half :: "u32 \<Rightarrow> nat \<Rightarrow> u16" where
  "cfg_half v j = ucast (drop_bit (16 * j) v)"

definition cfg_octet :: "u32 \<Rightarrow> nat \<Rightarrow> u8" where
  "cfg_octet v j = ucast (drop_bit (8 * j) v)"

text \<open>The type 0 header as the PCI standard lays it out, \<open>dw\<close> by offset.\<close>

definition header_of :: "(u32 \<Rightarrow> u32) \<Rightarrow> device_header" where
  "header_of dw =
     \<lparr>vendor_id = cfg_half (dw 0x00) 0, device_id = cfg_half (dw 0x00) 1,
      command = cfg_half (dw 0x04) 0, status = cfg_half (dw 0x04) 1,
      revision_id = cfg_octet (dw 0x08) 0, prog_if = cfg_octet (dw 0x08) 1,
      sub_class = cfg_octet (dw 0x08) 2, class_code = cfg_octet (dw 0x08) 3,
      cache_line_size = cfg_octet (dw 0x0c) 0, latency_timer = cfg_octet (dw 0x0c) 1,
      header_type = cfg_octet (dw 0x0c) 2, bist = cfg_octet (dw 0x0c) 3,
      bar0 = dw 0x10, bar1 = dw 0x14, bar2 = dw 0x18, bar3 = dw 0x1c, bar4 = dw 0x20, bar5 = dw 0x24,
      cis_ptr = dw 0x28,
      subsystem_vendor_id = cfg_half (dw 0x2c) 0, subsystem_id = cfg_half (dw 0x2c) 1,
      exp_rom_base = dw 0x30, capabilities_ptr = cfg_octet (dw 0x34) 0,
      irq_line = cfg_octet (dw 0x3c) 0, irq_pin = cfg_octet (dw 0x3c) 1,
      min_grant = cfg_octet (dw 0x3c) 2, max_latency = cfg_octet (dw 0x3c) 3\<rparr>"

lemma byte_of_word_low: "(ucast (ucast (x :: u32) :: u16) :: u8) = ucast x"
  by (rule bit_word_eqI) (auto simp: bit_ucast_iff)

lemma byte_of_word_high: "(ucast (drop_bit 8 (ucast (x :: u32) :: u16)) :: u8) = ucast (drop_bit 8 x)"
  by (rule bit_word_eqI) (auto simp: bit_ucast_iff bit_drop_bit_eq)

lemma ucast_ffff: "(ucast (x AND 0xffff :: u32) :: u16) = ucast x"
proof -
  have "(0xffff :: u32) = mask 16" by (simp add: mask_eq_exp_minus_1)
  then show ?thesis
    by (simp only:) (rule bit_word_eqI, auto simp only: bit_ucast_iff bit_and_iff bit_mask_iff, simp_all)
qed

lemma ucast_ff16: "(ucast (x AND 0xff :: u16) :: u8) = ucast x"
proof -
  have "(0xff :: u16) = mask 8" by (simp add: mask_eq_exp_minus_1)
  then show ?thesis
    by (simp only:) (rule bit_word_eqI, auto simp only: bit_ucast_iff bit_and_iff bit_mask_iff, simp_all)
qed

lemma and_ff8: "(x AND 0xff :: u8) = x"
proof -
  have "(0xff :: u8) = mask 8" by (simp add: mask_eq_exp_minus_1)
  then show ?thesis
    by (simp only:) (rule bit_word_eqI, auto simp only: bit_and_iff bit_mask_iff, simp_all)
qed

lemma get_id_half:
  "get_id dev 0x02 = get_id dev 0" "get_id dev 0x06 = get_id dev 4" "get_id dev 0x0a = get_id dev 8"
  "get_id dev 0x0e = get_id dev 0xc" "get_id dev 0x2e = get_id dev 0x2c" "get_id dev 0x3e = get_id dev 0x3c"
  by (simp_all add: get_id_def)

lemmas header_reads = config_read_answer config_read16_answer ucast_ffff byte_of_word_low
  byte_of_word_high ucast_ff16 and_ff8 get_id_half cfg_half_def cfg_octet_def

lemma get_device_header_fields:
  "pci_answers cfg s \<Longrightarrow> fst (get_device_header dev s) = header_of (\<lambda>n. cfg (get_id dev n))"
  by (simp add: get_device_header_def Let_def header_reads header_of_def)

text \<open>
  \<open>get_device_header\<close> decodes the configuration header: on hardware that follows the
  documented mechanism, every field is the standard's field of the device's configuration
  space, and only the ports were used: the memory is unchanged.
\<close>

theorem get_device_header_decodes:
  assumes "pci_answers cfg s"
  shows "fst (get_device_header dev s) = header_of (\<lambda>n. cfg (get_id dev n)) \<and>
    mem (snd (get_device_header dev s)) = mem s \<and>
    (\<forall>e\<in>set (port_log (snd (get_device_header dev s))) - set (port_log s).
       (\<exists>n. e = Out32 PCI_COMMAND (get_id dev n)) \<or> (\<exists>v. e = In32 PCI_DATA v))"
proof (intro conjI)
  show "fst (get_device_header dev s) = header_of (\<lambda>n. cfg (get_id dev n))"
    by (rule get_device_header_fields [OF assms])
  show "mem (snd (get_device_header dev s)) = mem s"
    using assms by (simp add: get_device_header_def Let_def header_reads) (simp add: asked_def)
  show "\<forall>e\<in>set (port_log (snd (get_device_header dev s))) - set (port_log s).
       (\<exists>n. e = Out32 PCI_COMMAND (get_id dev n)) \<or> (\<exists>v. e = In32 PCI_DATA v)"
    using assms by (simp add: get_device_header_def Let_def header_reads) (auto simp: asked_def)
qed

text \<open>A machine whose only device is a PCnet adapter at bus 0, device 2, function 0.\<close>

definition pcnet_cfg :: "u32 \<Rightarrow> u32" where
  "pcnet_cfg a = (if a = 0x80001000 then 0x20001022 else if a = 0x80001010 then 0xc001
     else if a = 0x8000103c then 0x010b else 0xffffffff)"

definition pcnet_machine :: machine where
  "pcnet_machine = \<lparr>mem = (\<lambda>_. 0), port_log = [], hw8 = (\<lambda>_ _. 0), hw16 = (\<lambda>_ _. 0),
     hw32 = (\<lambda>log port. case log of Out32 _ a # _ \<Rightarrow> pcnet_cfg a | _ \<Rightarrow> 0)\<rparr>"

theorem get_device_header_decodes_witness:
  "vendor_id (fst (get_device_header \<lparr>info_bus = 0, info_device = 2, info_function = 0,
     info_vendor_id = 0, info_device_id = 0\<rparr> pcnet_machine)) = 0x1022"
proof -
  have "pci_answers pcnet_cfg pcnet_machine" by (simp add: pci_answers_def pcnet_machine_def)
  from get_device_header_decodes [OF this] show ?thesis
    by (simp add: header_of_def cfg_half_def get_id_def pcnet_cfg_def)
qed

end
