(* ===== verification/Interrupts.thy ===== *)
theory Interrupts
  imports Pci
begin

text \<open>
  Interrupt descriptor table, interrupt controllers and the C++ side of the handlers,
  \<open>src/kernel/cpu/interrupts.cpp\<close>. The assembly stubs are addresses by vector, a
  parameter; the IDT is an array of 256 entries, and an index outside it has no result.
  \<open>idt_loaded\<close> records the operand of \<open>lidt\<close>, \<open>interrupts_on\<close> the interrupt flag.
\<close>

definition PIC_MASTER_CMD :: u16 where "PIC_MASTER_CMD = 0x20"
definition PIC_SLAVE_CMD :: u16 where "PIC_SLAVE_CMD = 0xa0"
definition PIC_MASTER_DATA :: u16 where "PIC_MASTER_DATA = 0x21"
definition PIC_SLAVE_DATA :: u16 where "PIC_SLAVE_DATA = 0xa1"

lemmas pic_ports = PIC_MASTER_CMD_def PIC_SLAVE_CMD_def PIC_MASTER_DATA_def PIC_SLAVE_DATA_def

record idt_entry =
  offset_lo :: u16
  segment :: u16
  gate :: u8
  zero_bit :: bool
  dpl :: u8
  gate_present :: bool
  offset_hi :: u16

record interrupts = devices +
  idt :: "nat \<Rightarrow> idt_entry"
  idtr_size :: u16
  idtr_linear_addr :: u32
  idt_loaded :: "(u16 \<times> u32) option"
  interrupts_on :: bool

section \<open>The operations\<close>

text \<open>\<open>gate\<close> is a field of four bits.\<close>

definition register_handler :: "int \<Rightarrow> u32 \<Rightarrow> u8 \<Rightarrow> 'a interrupts_scheme \<Rightarrow> 'a interrupts_scheme option" where
  "register_handler int_n handler gate_type s =
     (if 0 \<le> int_n \<and> int_n < 256
      then Some (s\<lparr>idt := (idt s)(nat int_n := (idt s (nat int_n))
         \<lparr>offset_lo := ucast (handler AND 0xffff), offset_hi := ucast (drop_bit 16 handler),
          dpl := 0, segment := 0x8, gate := gate_type AND 0xf, gate_present := True\<rparr>)\<rparr>)
      else None)"

text \<open>The loop over the table in \<open>init\<close>, the programming of the controllers, and the
  vectors it registers, in order.\<close>

definition idt_reset :: "'a interrupts_scheme \<Rightarrow> 'a interrupts_scheme" where
  "idt_reset s = s\<lparr>idt := (\<lambda>i. if i < 256
     then (idt s i)\<lparr>gate_present := False, zero_bit := False, segment := 0x55\<rparr> else idt s i)\<rparr>"

definition pic_init :: "'a interrupts_scheme \<Rightarrow> 'a interrupts_scheme" where
  "pic_init s =
     (let s = write8_slow PIC_MASTER_CMD 0x11 s;
          s = write8_slow PIC_SLAVE_CMD 0x11 s;
          s = write8_slow PIC_MASTER_DATA 0x20 s;
          s = write8_slow PIC_SLAVE_DATA 0x28 s;
          s = write8_slow PIC_MASTER_DATA 0x04 s;
          s = write8_slow PIC_SLAVE_DATA 0x02 s;
          s = write8_slow PIC_MASTER_DATA 0x01 s;
          s = write8_slow PIC_SLAVE_DATA 0x01 s;
          s = write8_slow PIC_MASTER_DATA 0 s;
          s = write8_slow PIC_SLAVE_DATA 0 s;
          s = write8 PIC_MASTER_DATA 0xfb s
      in write8 PIC_SLAVE_DATA 0xff s)"

definition handled_vectors :: "nat list" where
  "handled_vectors = [0x02, 0x06, 0x0d, 0x0e, 0x20, 0x21, 0x22, 0x23, 0x24, 0x25, 0x26, 0x27,
     0x28, 0x29, 0x2a, 0x2b, 0x2c, 0x2d, 0x2e, 0x2f]"

primrec register_all :: "(nat \<Rightarrow> u32) \<Rightarrow> nat list \<Rightarrow> 'a interrupts_scheme \<Rightarrow> 'a interrupts_scheme option" where
  "register_all stub [] s = Some s"
| "register_all stub (v # vs) s =
     (case register_handler (int v) (stub v) 0x0e s of
        None \<Rightarrow> None | Some s' \<Rightarrow> register_all stub vs s')"

text \<open>\<open>sizeof(idt)\<close> is 256 times 8; the address of the table is a parameter.\<close>

definition interrupts_init :: "u32 \<Rightarrow> (nat \<Rightarrow> u32) \<Rightarrow> 'a interrupts_scheme \<Rightarrow> 'a interrupts_scheme option" where
  "interrupts_init idt_addr stub s =
     do {
       let s = idt_reset s;
       let s = s\<lparr>idtr_size := 256 * 8 - 1, idtr_linear_addr := idt_addr\<rparr>;
       let s = pic_init s;
       s \<leftarrow> register_all stub handled_vectors s;
       Some (s\<lparr>idt_loaded := Some (idtr_size s, idtr_linear_addr s), interrupts_on := True\<rparr>)
     }"

text \<open>\<open>1 << n\<close> in \<open>int\<close>, converted to a byte by the assignment; a count below 0 or above
  31 has no result.\<close>

definition shifted_one :: "int \<Rightarrow> u8 option" where
  "shifted_one n = (if 0 \<le> n \<and> n < 32 then Some (ucast (push_bit (nat n) (1 :: u32))) else None)"

definition mask_irq :: "int \<Rightarrow> 'a machine_scheme \<Rightarrow> 'a machine_scheme option" where
  "mask_irq int_n s =
     (let (mask1, s) = read8 PIC_MASTER_DATA s; (mask2, s) = read8 PIC_SLAVE_DATA s
      in if int_n < 8
         then case shifted_one int_n of None \<Rightarrow> None
           | Some b \<Rightarrow> Some (write8 PIC_MASTER_DATA (mask1 OR b) s)
         else case shifted_one (int_n - 8) of None \<Rightarrow> None
           | Some b \<Rightarrow> Some (write8 PIC_SLAVE_DATA (mask2 OR b) s))"

definition unmask_irq :: "int \<Rightarrow> 'a machine_scheme \<Rightarrow> 'a machine_scheme option" where
  "unmask_irq int_n s =
     (let (mask1, s) = read8 PIC_MASTER_DATA s; (mask2, s) = read8 PIC_SLAVE_DATA s
      in if int_n < 8
         then case shifted_one int_n of None \<Rightarrow> None
           | Some b \<Rightarrow> Some (write8 PIC_MASTER_DATA (mask1 AND NOT b) s)
         else case shifted_one (int_n - 8) of None \<Rightarrow> None
           | Some b \<Rightarrow> Some (write8 PIC_SLAVE_DATA (mask2 AND NOT b) s))"

text \<open>\<open>i - 0x20\<close> is computed in 32 bits and converted to \<open>int\<close>.\<close>

definition irq_handler :: "'a vmethod \<Rightarrow> u32 \<Rightarrow> 'a devices_scheme \<Rightarrow> 'a devices_scheme option" where
  "irq_handler irq i s =
     do {
       s \<leftarrow> send_irq irq (sint (i - 0x20)) s;
       let s = write8 PIC_MASTER_CMD 0x20 s;
       Some (write8 PIC_SLAVE_CMD 0x20 s)
     }"

record regs =
  reg_cr2 :: u32
  reg_gs :: u32
  reg_fs :: u32
  reg_es :: u32
  reg_ds :: u32
  reg_edi :: u32
  reg_esi :: u32
  reg_ebp :: u32
  reg_esp :: u32
  reg_ebx :: u32
  reg_edx :: u32
  reg_ecx :: u32
  reg_eax :: u32
  reg_error_code :: u32
  reg_eip :: u32
  reg_cs :: u16
  reg_eflags :: u32

definition line :: "string \<Rightarrow> string" where
  "line cs = cs @ [CHR 0x0A]"

definition regs_format :: string where
  "regs_format = line '''' @ line ''eip=0x%8x cs=0x%4x'' @ line ''eflags=0x%8x''
     @ line ''eax=0x%8x ebx=0x%8x ecx=0x%8x edx=0x%8x''
     @ line ''edi=0x%8x esi=0x%8x ebp=0x%8x esp=0x%8x''
     @ line ''ds=0x%4x'' @ line ''es=0x%4x'' @ line ''fs=0x%4x'' @ line ''gs=0x%4x''
     @ line '''' @ line ''cr2=0x%4x''"

definition isr_handler :: "u32 \<Rightarrow> regs \<Rightarrow> 'a interrupts_scheme \<Rightarrow> 'a interrupts_scheme option" where
  "isr_handler i r s =
     do {
       s \<leftarrow> printf (lit (line ''Something went wrong...'')) [] s;
       s \<leftarrow> bochs_print (lit (line ''Something went wrong...'')) s;
       s \<leftarrow> (if i = 0x06 then printf (lit (line ''EXCEPTION: 0x06 - Invalid opcode'')) [] s
             else if i = 0x08 then printf (lit (line ''EXCEPTION: 0x08 - Double fault'')) [] s
             else if i = 0x0d then
               printf (lit (line ''EXCEPTION: 0x0d - GPF (e: %x)'')) [reg_error_code r] s
             else if i = 0x0e then
               printf (lit (line ''EXCEPTION: 0x0e - Page fault (e: %x)'')) [reg_error_code r] s
             else printf (lit (line ''INTERRUPT: 0x%2x'')) [i] s);
       s \<leftarrow> printf (lit regs_format) [reg_eip r, ucast (reg_cs r), reg_eflags r, reg_eax r, reg_ebx r,
              reg_ecx r, reg_edx r, reg_edi r, reg_esi r, reg_ebp r, reg_esp r, reg_ds r, reg_es r,
              reg_fs r, reg_gs r, reg_cr2 r] s;
       let s = write16 0x8a00 0x8a00 s;
       let s = write16 0x8a00 0x8ae0 s;
       Some (s\<lparr>interrupts_on := False\<rparr>)
     }"

section \<open>The descriptor table\<close>

text \<open>The handler address the processor takes from an entry.\<close>

definition entry_handler :: "idt_entry \<Rightarrow> u32" where
  "entry_handler e = ucast (offset_lo e) OR push_bit 16 (ucast (offset_hi e))"

definition gate_for :: "u32 \<Rightarrow> idt_entry \<Rightarrow> idt_entry" where
  "gate_for h e = e\<lparr>offset_lo := ucast (h AND 0xffff), offset_hi := ucast (drop_bit 16 h),
     dpl := 0, segment := 0x8, gate := 0xe, gate_present := True\<rparr>"

lemma entry_handler_gate: "entry_handler (gate_for h e) = h"
proof -
  have "bit (entry_handler (gate_for h e)) n = bit h n" if "n < 32" for n
    using that
    by (cases "n < 16") (auto simp: entry_handler_def gate_for_def ucast_ffff bit_or_iff bit_ucast_iff
        bit_push_bit_iff bit_drop_bit_eq)
  then show ?thesis by (intro bit_word_eqI) simp
qed

definition gates :: "(nat \<Rightarrow> u32) \<Rightarrow> nat list \<Rightarrow> (nat \<Rightarrow> idt_entry) \<Rightarrow> nat \<Rightarrow> idt_entry" where
  "gates stub vs f i = (if i \<in> set vs then gate_for (stub i) (f i) else f i)"

lemma gates_Cons: "v \<notin> set vs \<Longrightarrow> gates stub vs (f(v := gate_for (stub v) (f v))) = gates stub (v # vs) f"
  by (auto simp: gates_def fun_eq_iff)

lemma register_all_eq:
  assumes "\<forall>v\<in>set vs. v < 256" "distinct vs"
  shows "register_all stub vs s = Some (s\<lparr>idt := gates stub vs (idt s)\<rparr>)"
  using assms
proof (induction vs arbitrary: s)
  case Nil
  have "gates stub [] (idt s) = idt s" by (simp add: gates_def fun_eq_iff)
  then show ?case by simp
next
  case (Cons v vs)
  have r: "register_handler (int v) (stub v) 0x0e s =
      Some (s\<lparr>idt := (idt s)(v := gate_for (stub v) (idt s v))\<rparr>)"
    using Cons.prems(1) by (simp add: register_handler_def gate_for_def)
  have IH: "register_all stub vs (s\<lparr>idt := f\<rparr>) = Some (s\<lparr>idt := gates stub vs f\<rparr>)" for f
    using Cons.IH [of "s\<lparr>idt := f\<rparr>"] Cons.prems by simp
  have v: "v \<notin> set vs" using Cons.prems(2) by simp
  show ?case by (simp only: register_all.simps r option.case IH gates_Cons [OF v])
qed

text \<open>The value a port was last written, newest event first.\<close>

fun last_out8 :: "u16 \<Rightarrow> io_event list \<Rightarrow> u8" where
  "last_out8 p [] = 0"
| "last_out8 p (Out8 q v # log) = (if q = p then v else last_out8 p log)"
| "last_out8 p (e # log) = last_out8 p log"

definition irq_masked :: "'a machine_scheme \<Rightarrow> nat \<Rightarrow> bool" where
  "irq_masked s k = bit (last_out8 (if k < 8 then PIC_MASTER_DATA else PIC_SLAVE_DATA) (port_log s)) (k mod 8)"

text \<open>The exceptions with a handler and the sixteen lines of the remapped controllers.\<close>

lemma set_handled_vectors: "set handled_vectors = {0x02, 0x06, 0x0d, 0x0e} \<union> {0x20..0x2f}"
proof -
  have "{0x20..0x2f :: nat} = set [0x20..<0x30]" unfolding set_upt by auto
  then show ?thesis unfolding handled_vectors_def by (simp add: upt_rec insert_commute)
qed

lemma interrupts_init_run:
  "\<exists>s'. interrupts_init idt_addr stub s = Some s' \<and>
    (\<forall>v<256. gate_present (idt s' v) \<longleftrightarrow> v \<in> set handled_vectors) \<and>
    (\<forall>v\<in>set handled_vectors. entry_handler (idt s' v) = stub v \<and> segment (idt s' v) = 0x8 \<and>
       gate (idt s' v) = 0xe \<and> dpl (idt s' v) = 0 \<and> \<not> zero_bit (idt s' v)) \<and>
    port_log s' = rev [Out8 0x20 0x11, Out8 0xa0 0x11, Out8 0x21 0x20, Out8 0xa1 0x28,
       Out8 0x21 0x04, Out8 0xa1 0x02, Out8 0x21 0x01, Out8 0xa1 0x01, Out8 0x21 0, Out8 0xa1 0,
       Out8 0x21 0xfb, Out8 0xa1 0xff] @ port_log s \<and>
    (\<forall>k<16. irq_masked s' k \<longleftrightarrow> k \<noteq> 2) \<and>
    idt_loaded s' = Some (2047, idt_addr) \<and> interrupts_on s' \<and>
    s' = s\<lparr>port_log := port_log s', idt := idt s', idtr_size := 2047, idtr_linear_addr := idt_addr,
      idt_loaded := idt_loaded s', interrupts_on := True\<rparr>"
proof -
  have vs: "\<forall>v\<in>set handled_vectors. v < 256" "distinct handled_vectors"
    by (simp_all add: handled_vectors_def)
  define s1 where "s1 = pic_init ((idt_reset s)\<lparr>idtr_size := 256 * 8 - 1, idtr_linear_addr := idt_addr\<rparr>)"
  let ?s' = "s1\<lparr>idt := gates stub handled_vectors (idt s1),
    idt_loaded := Some (idtr_size s1, idtr_linear_addr s1), interrupts_on := True\<rparr>"
  have log: "port_log s1 = rev [Out8 0x20 0x11, Out8 0xa0 0x11, Out8 0x21 0x20, Out8 0xa1 0x28,
       Out8 0x21 0x04, Out8 0xa1 0x02, Out8 0x21 0x01, Out8 0xa1 0x01, Out8 0x21 0, Out8 0xa1 0,
       Out8 0x21 0xfb, Out8 0xa1 0xff] @ port_log s"
    by (simp add: s1_def pic_init_def port_defs pic_ports Let_def idt_reset_def)
  have other: "idt s1 = idt (idt_reset s)" "mem s1 = mem s" "idtr_size s1 = 2047" "idtr_linear_addr s1 = idt_addr"
    by (simp_all add: s1_def pic_init_def port_defs Let_def idt_reset_def)
  have masks: "bit (0xfb :: u8) k \<longleftrightarrow> k \<noteq> 2" "bit (0xff :: u8) k" if "k < 8" for k
  proof -
    have "\<forall>k\<in>set [0..<8]. (bit (0xfb :: u8) k \<longleftrightarrow> k \<noteq> 2) \<and> bit (0xff :: u8) k" by code_simp
    then show "bit (0xfb :: u8) k \<longleftrightarrow> k \<noteq> 2" "bit (0xff :: u8) k" using that by simp_all
  qed
  have "interrupts_init idt_addr stub s = Some ?s'"
    by (simp add: interrupts_init_def Let_def register_all_eq [OF vs] s1_def)
  moreover have "\<forall>v<256. gate_present (idt ?s' v) \<longleftrightarrow> v \<in> set handled_vectors"
    by (simp add: other idt_reset_def gates_def gate_for_def)
  moreover have "\<forall>v\<in>set handled_vectors. entry_handler (idt ?s' v) = stub v \<and> segment (idt ?s' v) = 0x8 \<and>
       gate (idt ?s' v) = 0xe \<and> dpl (idt ?s' v) = 0 \<and> \<not> zero_bit (idt ?s' v)"
    using vs(1) by (simp add: other gates_def entry_handler_gate) (simp add: idt_reset_def gate_for_def)
  moreover have "\<forall>k<16. irq_masked ?s' k \<longleftrightarrow> k \<noteq> 2"
    using masks by (auto simp: irq_masked_def log pic_ports)
  moreover have "?s' = s\<lparr>port_log := port_log ?s', idt := idt ?s', idtr_size := 2047, idtr_linear_addr := idt_addr,
      idt_loaded := idt_loaded ?s', interrupts_on := True\<rparr>"
    by (simp add: s1_def pic_init_def port_defs Let_def idt_reset_def)
  ultimately show ?thesis
    using log other by (intro exI [of _ ?s']) simp
qed

text \<open>
  C39. \<open>init\<close> sets up interrupts: it returns; exactly twenty vectors are present, the
  exceptions 2, 6, 13 and 14 and the sixteen interrupt lines from 0x20, each with the address of its stub, the kernel code segment, ring 0 and the
  interrupt gate type; the controllers get the initialisation sequence that remaps them
  to vectors 0x20 and 0x28; every interrupt line but the cascade (2) is masked; and the
  table is loaded with its size minus one before interrupts are enabled.
\<close>

theorem interrupts_init_correct:
  "\<exists>s'. interrupts_init idt_addr stub s = Some s' \<and>
    (\<forall>v<256. gate_present (idt s' v) \<longleftrightarrow> v \<in> {0x02, 0x06, 0x0d, 0x0e} \<union> {0x20..0x2f}) \<and>
    (\<forall>v\<in>{0x02, 0x06, 0x0d, 0x0e} \<union> {0x20..0x2f}. entry_handler (idt s' v) = stub v \<and> segment (idt s' v) = 0x8 \<and>
       gate (idt s' v) = 0xe \<and> dpl (idt s' v) = 0 \<and> \<not> zero_bit (idt s' v)) \<and>
    port_log s' = rev [Out8 0x20 0x11, Out8 0xa0 0x11, Out8 0x21 0x20, Out8 0xa1 0x28,
       Out8 0x21 0x04, Out8 0xa1 0x02, Out8 0x21 0x01, Out8 0xa1 0x01, Out8 0x21 0, Out8 0xa1 0,
       Out8 0x21 0xfb, Out8 0xa1 0xff] @ port_log s \<and>
    (\<forall>k<16. irq_masked s' k \<longleftrightarrow> k \<noteq> 2) \<and>
    idt_loaded s' = Some (2047, idt_addr) \<and> interrupts_on s' \<and> mem s' = mem s"
proof -
  have "mem s' = mem s" if "s' = s\<lparr>port_log := l, idt := f, idtr_size := a, idtr_linear_addr := b,
      idt_loaded := c, interrupts_on := d\<rparr>" for s' l f a b c d
    using that by simp
  then show ?thesis using interrupts_init_run [of idt_addr stub s] unfolding set_handled_vectors by blast
qed

definition reset_state :: interrupts where
  "reset_state = \<lparr>mem = (\<lambda>_. 0), port_log = [], hw8 = (\<lambda>_ _. 0), hw16 = (\<lambda>_ _. 0),
     hw32 = (\<lambda>_ _. 0), bitmap = (\<lambda>_. 0), heap_top = 0, current_page_dir = 0x1000, cr3 = 0x1000,
     invalidated = [], display_font = (\<lambda>_. 0), vga_mem = VGA_FRAMEBUFFER_BASE,
     cursor = \<lparr>cur_x = 0, cur_y = 0\<rparr>, scr_w = 640, scr_h = 480, scr_bpp = 32, scr_pitch = 2560,
     driver_registry = (\<lambda>_. 0), total_drivers = 0, dynamic_class = (\<lambda>_. None),
     idt = (\<lambda>_. \<lparr>offset_lo = 0, segment = 0, gate = 0, zero_bit = False, dpl = 0,
                 gate_present = False, offset_hi = 0\<rparr>),
     idtr_size = 0, idtr_linear_addr = 0, idt_loaded = None, interrupts_on = False\<rparr>"

theorem interrupts_init_correct_witness:
  "\<exists>s'. interrupts_init 0xc0200000 (\<lambda>v. 0xc0100000 + 16 * of_nat v) reset_state = Some s' \<and>
     entry_handler (idt s' 0x2b) = 0xc01002b0 \<and> \<not> gate_present (idt s' 0x30) \<and> \<not> irq_masked s' 2"
proof -
  let ?stub = "\<lambda>v. 0xc0100000 + 16 * of_nat v :: u32"
  let ?vs = "{0x02, 0x06, 0x0d, 0x0e} \<union> {0x20..0x2f} :: nat set"
  have v: "0x2b \<in> ?vs" "0x30 \<notin> ?vs" by simp_all
  obtain s' where s': "interrupts_init 0xc0200000 ?stub reset_state = Some s'"
    "\<forall>v<256. gate_present (idt s' v) \<longleftrightarrow> v \<in> ?vs"
    "\<forall>v\<in>?vs. entry_handler (idt s' v) = ?stub v" "\<forall>k<16. irq_masked s' k \<longleftrightarrow> k \<noteq> 2"
    using interrupts_init_correct [of "0xc0200000" ?stub reset_state] by blast
  have "entry_handler (idt s' 0x2b) = 0xc01002b0" using bspec [OF s'(3) v(1)] by simp
  moreover have "\<not> gate_present (idt s' 0x30)" using s'(2) v(2) by simp
  moreover have "\<not> irq_masked s' 2" using s'(4) by simp
  ultimately show ?thesis using s'(1) by blast
qed

section \<open>Masking\<close>

text \<open>
  The documented behaviour of the controllers after initialisation: a read of a data port
  answers the interrupt mask, the value last written there.
\<close>

definition pic_answers :: "'a machine_scheme \<Rightarrow> bool" where
  "pic_answers s \<longleftrightarrow> (\<forall>log. hw8 s log PIC_MASTER_DATA = last_out8 PIC_MASTER_DATA log \<and>
     hw8 s log PIC_SLAVE_DATA = last_out8 PIC_SLAVE_DATA log)"

text \<open>
  \<open>mask_irq\<close> and \<open>unmask_irq\<close> change exactly one line: for each of the sixteen lines,
  on controllers that answer their mask, both return, and afterwards the given line is
  masked (unmasked) and every other line is as it was.
\<close>

theorem mask_unmask_one_line:
  assumes "pic_answers s" "n < 16"
  shows "\<exists>s1 s2. mask_irq (int n) s = Some s1 \<and> unmask_irq (int n) s = Some s2 \<and>
    (\<forall>k<16. (irq_masked s1 k \<longleftrightarrow> irq_masked s k \<or> k = n) \<and> (irq_masked s2 k \<longleftrightarrow> irq_masked s k \<and> k \<noteq> n)) \<and>
    mem s1 = mem s \<and> mem s2 = mem s"
proof -
  have ne: "PIC_MASTER_DATA \<noteq> PIC_SLAVE_DATA" by (simp add: pic_ports)
  have one: "bit (ucast (push_bit j (1 :: u32)) :: u8) i \<longleftrightarrow> i = j" if "i < 8" "j < 8" for i j
    using that by (auto simp: bit_ucast_iff bit_exp_iff)
  show ?thesis
  proof (cases "n < 8")
    case True
    have "k mod 8 = n \<longleftrightarrow> k = n" if "k < 8" for k using that by simp
    then show ?thesis
      using True assms one [of _ n] ne
      by (auto simp: mask_irq_def unmask_irq_def shifted_one_def port_defs Let_def pic_answers_def
          irq_masked_def bit_or_iff bit_and_iff bit_not_iff)
  next
    case False
    have sh: "shifted_one (int n - 8) = Some (ucast (push_bit (n - 8) (1 :: u32)))"
      using False assms(2) by (simp add: shifted_one_def nat_diff_distrib)
    have "k mod 8 = n - 8 \<longleftrightarrow> k = n" if "8 \<le> k" "k < 16" for k
      using that False assms(2) by (auto simp: mod_if)
    then show ?thesis
      using False assms one [of _ "n - 8"] ne
      by (auto simp: mask_irq_def unmask_irq_def sh port_defs Let_def pic_answers_def
          irq_masked_def bit_or_iff bit_and_iff bit_not_iff)
  qed
qed

definition pic_machine :: machine where
  "pic_machine = \<lparr>mem = (\<lambda>_. 0), port_log = [Out8 0xa1 0xff, Out8 0x21 0xfb],
     hw8 = (\<lambda>log p. last_out8 p log), hw16 = (\<lambda>_ _. 0), hw32 = (\<lambda>_ _. 0)\<rparr>"

theorem mask_unmask_one_line_witness:
  "\<exists>s. unmask_irq 11 pic_machine = Some s \<and> \<not> irq_masked s 11 \<and> irq_masked s 12"
proof -
  have p: "pic_answers pic_machine" by (simp add: pic_answers_def pic_machine_def)
  have m: "irq_masked pic_machine 12"
    using bit_ff [of 4] by (simp add: irq_masked_def pic_machine_def pic_ports)
  obtain s2 where s2: "unmask_irq (int 11) pic_machine = Some s2"
    "\<forall>k<16. irq_masked s2 k \<longleftrightarrow> irq_masked pic_machine k \<and> k \<noteq> 11"
    using mask_unmask_one_line [OF p, of 11] by auto
  have "irq_masked s2 12" "\<not> irq_masked s2 11" using s2(2) m by auto
  then show ?thesis using s2(1) by auto
qed

end
