(* ===== verification/Pcnet.thy ===== *)
theory Pcnet
  imports Interrupts
begin

text \<open>
  The PCnet adapter object, its registers and its transmit side,
  \<open>src/kernel/drivers/net/pcnet.cpp\<close>. (The interrupt handler and \<open>init\<close> call the
  network stack and follow it, in \<open>Pcnet_Driver\<close>.) The object and its descriptors lie in
  memory, at the offsets the i386 ABI gives the fields of the class: \<open>mac\<close> 34,
  \<open>init_done\<close> 40, \<open>rx_descr\<close> 48, \<open>tx_descr\<close> 176, \<open>rx_buffer\<close> 304, \<open>tx_buffer\<close> 12592,
  \<open>init_block\<close> 24880, \<open>rx_n\<close> 24908, \<open>tx_n\<close> 24912, 24928 bytes in all.
\<close>

definition PCNET_16_RDP :: u16 where "PCNET_16_RDP = 0x10"
definition PCNET_16_RAP :: u16 where "PCNET_16_RAP = 0x12"
definition PCNET_16_RESET :: u16 where "PCNET_16_RESET = 0x14"
definition PCNET_16_BDP :: u16 where "PCNET_16_BDP = 0x16"
definition PCNET_32_RDP :: u16 where "PCNET_32_RDP = 0x10"
definition PCNET_32_RAP :: u16 where "PCNET_32_RAP = 0x14"
definition PCNET_32_RESET :: u16 where "PCNET_32_RESET = 0x18"
definition PCNET_32_BDP :: u16 where "PCNET_32_BDP = 0x1c"

lemmas pcnet_ports = PCNET_16_RDP_def PCNET_16_RAP_def PCNET_16_RESET_def PCNET_16_BDP_def
  PCNET_32_RDP_def PCNET_32_RAP_def PCNET_32_RESET_def PCNET_32_BDP_def

section \<open>Fields of the object\<close>

definition sizeof_PCNET :: u32 where "sizeof_PCNET = 24928"

definition dev_mac :: "mem \<Rightarrow> u32 \<Rightarrow> u8 list" where
  "dev_mac m this = bytes_at m (this + 34) 6"

definition init_done :: "mem \<Rightarrow> u32 \<Rightarrow> bool" where
  "init_done m this = (rd8 m (this + 40) \<noteq> 0)"

definition rx_descr :: "u32 \<Rightarrow> u32 \<Rightarrow> u32" where
  "rx_descr this i = this + 48 + 16 * i"

definition tx_descr :: "u32 \<Rightarrow> u32 \<Rightarrow> u32" where
  "tx_descr this i = this + 176 + 16 * i"

definition rx_buffer :: "u32 \<Rightarrow> u32" where
  "rx_buffer this = this + 304"

definition tx_buffer :: "u32 \<Rightarrow> u32" where
  "tx_buffer this = this + 12592"

definition init_block :: "u32 \<Rightarrow> u32" where
  "init_block this = this + 24880"

definition rx_n :: "mem \<Rightarrow> u32 \<Rightarrow> u32" where
  "rx_n m this = rd32 m (this + 24908)"

definition tx_n :: "mem \<Rightarrow> u32 \<Rightarrow> u32" where
  "tx_n m this = rd32 m (this + 24912)"

section \<open>Fields of a descriptor\<close>

text \<open>
  Receive and transmit descriptors agree in what the driver uses: the buffer address in
  bytes 0 to 3, \<open>bcnt\<close> (12 bits) and \<open>ones\<close> (4 bits) in bytes 4 and 5, the flags
  \<open>enp\<close>, \<open>stp\<close> and \<open>own\<close> as the bits 0, 1 and 7 of byte 7.
\<close>

definition descr_buffer :: "mem \<Rightarrow> u32 \<Rightarrow> u32" where
  "descr_buffer m d = rd32 m d"

definition set_descr_buffer :: "u32 \<Rightarrow> u32 \<Rightarrow> mem \<Rightarrow> mem" where
  "set_descr_buffer d v m = wr32 d v m"

definition descr_bcnt :: "mem \<Rightarrow> u32 \<Rightarrow> u16" where
  "descr_bcnt m d = rd16 m (d + 4) AND 0xfff"

definition set_bcnt :: "u32 \<Rightarrow> u32 \<Rightarrow> mem \<Rightarrow> mem" where
  "set_bcnt d v m = wr16 (d + 4) (rd16 m (d + 4) AND 0xf000 OR ucast v AND 0xfff) m"

definition set_ones :: "u32 \<Rightarrow> u16 \<Rightarrow> mem \<Rightarrow> mem" where
  "set_ones d v m = wr16 (d + 4) (rd16 m (d + 4) AND 0xfff OR push_bit 12 v) m"

definition descr_flag :: "nat \<Rightarrow> mem \<Rightarrow> u32 \<Rightarrow> bool" where
  "descr_flag k m d = bit (rd8 m (d + 7)) k"

definition raise_flag :: "nat \<Rightarrow> u32 \<Rightarrow> mem \<Rightarrow> mem" where
  "raise_flag k d m = wr8 (d + 7) (rd8 m (d + 7) OR push_bit k 1) m"

abbreviation (input) ENP :: nat where "ENP \<equiv> 0"
abbreviation (input) STP :: nat where "STP \<equiv> 1"
abbreviation (input) OWN :: nat where "OWN \<equiv> 7"

section \<open>Register access\<close>

text \<open>Port numbers are computed in \<open>int\<close> and truncated to 16 bits.\<close>

definition write_rap16 :: "u32 \<Rightarrow> u16 \<Rightarrow> 'a machine_scheme \<Rightarrow> 'a machine_scheme" where
  "write_rap16 this v s = write16 (dev_io_base (mem s) this + PCNET_16_RAP) v s"

definition write_rap32 :: "u32 \<Rightarrow> u32 \<Rightarrow> 'a machine_scheme \<Rightarrow> 'a machine_scheme" where
  "write_rap32 this v s = write32 (dev_io_base (mem s) this + PCNET_32_RAP) v s"

definition read_csr16 :: "u32 \<Rightarrow> u32 \<Rightarrow> 'a machine_scheme \<Rightarrow> u16 \<times> 'a machine_scheme" where
  "read_csr16 this port s =
     (let s = write_rap16 this (ucast port) s in read16 (dev_io_base (mem s) this + PCNET_16_RDP) s)"

definition read_csr32 :: "u32 \<Rightarrow> u32 \<Rightarrow> 'a machine_scheme \<Rightarrow> u32 \<times> 'a machine_scheme" where
  "read_csr32 this port s =
     (let s = write_rap32 this port s in read32 (dev_io_base (mem s) this + PCNET_32_RDP) s)"

definition write_csr16 :: "u32 \<Rightarrow> u32 \<Rightarrow> u16 \<Rightarrow> 'a machine_scheme \<Rightarrow> 'a machine_scheme" where
  "write_csr16 this port v s =
     (let s = write_rap16 this (ucast port) s in write16 (dev_io_base (mem s) this + PCNET_16_RDP) v s)"

definition write_csr32 :: "u32 \<Rightarrow> u32 \<Rightarrow> u32 \<Rightarrow> 'a machine_scheme \<Rightarrow> 'a machine_scheme" where
  "write_csr32 this port v s =
     (let s = write_rap32 this port s in write32 (dev_io_base (mem s) this + PCNET_32_RDP) v s)"

definition read_bcr16 :: "u32 \<Rightarrow> u32 \<Rightarrow> 'a machine_scheme \<Rightarrow> u16 \<times> 'a machine_scheme" where
  "read_bcr16 this port s =
     (let s = write_rap16 this (ucast port) s in read16 (dev_io_base (mem s) this + PCNET_16_BDP) s)"

definition read_bcr32 :: "u32 \<Rightarrow> u32 \<Rightarrow> 'a machine_scheme \<Rightarrow> u32 \<times> 'a machine_scheme" where
  "read_bcr32 this port s =
     (let s = write_rap32 this port s in read32 (dev_io_base (mem s) this + PCNET_32_BDP) s)"

definition write_bcr16 :: "u32 \<Rightarrow> u32 \<Rightarrow> u16 \<Rightarrow> 'a machine_scheme \<Rightarrow> 'a machine_scheme" where
  "write_bcr16 this port v s =
     (let s = write_rap16 this (ucast port) s in write16 (dev_io_base (mem s) this + PCNET_16_BDP) v s)"

definition write_bcr32 :: "u32 \<Rightarrow> u32 \<Rightarrow> u32 \<Rightarrow> 'a machine_scheme \<Rightarrow> 'a machine_scheme" where
  "write_bcr32 this port v s =
     (let s = write_rap32 this port s in write32 (dev_io_base (mem s) this + PCNET_32_BDP) v s)"

section \<open>Construction and transmission\<close>

text \<open>The constructor with the default initialisers of the class.\<close>

definition new_PCNET :: "device_info \<Rightarrow> u32 \<Rightarrow> 'a devices_scheme \<Rightarrow> 'a devices_scheme" where
  "new_PCNET info this s =
     (let m = new_PCINetworkDevice info this (mem s);
          m = wr8 (this + 40) 0 m;
          m = wr32 (this + 24908) 0 m;
          m = wr32 (this + 24912) 0 m
      in s\<lparr>mem := m, dynamic_class := (dynamic_class s)(this := Some Class_PCNET)\<rparr>)"

text \<open>\<open>send_packet\<close> only touches memory: the descriptor \<open>tx_n\<close> selects and the buffer it
  names. \<open>tx_n\<close> is used as an index of the eight descriptors; another value has no
  result.\<close>

definition pcnet_send_packet :: "u32 \<Rightarrow> u32 \<Rightarrow> u32 \<Rightarrow> 'a machine_scheme \<Rightarrow> 'a machine_scheme option" where
  "pcnet_send_packet this buffer sz s =
     (let n = tx_n (mem s) this; d = tx_descr this n
      in if 8 \<le> n then None
         else if descr_flag OWN (mem s) d then Some s
         else
           let bcnt = - sz;
               bcnt = bcnt AND 0xfff;
               bcnt = bcnt OR 0xf000;
               m = set_bcnt d bcnt (mem s);
               m = memcpy (descr_buffer m d) buffer sz m;
               m = raise_flag STP d m;
               m = raise_flag ENP d m;
               m = raise_flag OWN d m
           in Some (s\<lparr>mem := m\<rparr>))"

end
