(* ===== verification/Packets.thy ===== *)
theory Packets
  imports Inet
begin

text \<open>
  The packed structures of the protocol headers under \<open>incl/net\<close> and their bytes in
  memory, lowest address first. Numbers are stored as i386 stores them, low byte first;
  where the protocol asks for the network order the code converts the value before it
  stores it. A header on the stack of a function is a record, copied out as its bytes.
\<close>

section \<open>Numbers and arrays as bytes\<close>

definition le16 :: "u16 \<Rightarrow> u8 list" where
  "le16 v = [ucast v, ucast (drop_bit 8 v)]"

definition le32 :: "u32 \<Rightarrow> u8 list" where
  "le32 v = [ucast v, ucast (drop_bit 8 v), ucast (drop_bit 16 v), ucast (drop_bit 24 v)]"

definition of_le16 :: "u8 list \<Rightarrow> u16" where
  "of_le16 bs = ucast (bs ! 0) OR push_bit 8 (ucast (bs ! 1))"

definition of_le32 :: "u8 list \<Rightarrow> u32" where
  "of_le32 bs = ucast (bs ! 0) OR push_bit 8 (ucast (bs ! 1)) OR push_bit 16 (ucast (bs ! 2))
     OR push_bit 24 (ucast (bs ! 3))"

primrec write_bytes :: "u32 \<Rightarrow> u8 list \<Rightarrow> mem \<Rightarrow> mem" where
  "write_bytes a [] m = m"
| "write_bytes a (b # bs) m = write_bytes (a + 1) bs (m(a := b))"

section \<open>The headers\<close>

record ethernet_header =
  eth_dst_mac :: "u8 list"
  eth_src_mac :: "u8 list"
  ether_type :: u16

definition ethernet_bytes :: "ethernet_header \<Rightarrow> u8 list" where
  "ethernet_bytes h = eth_dst_mac h @ eth_src_mac h @ le16 (ether_type h)"

record arp_packet =
  arp_hw_type :: u16
  arp_protocol_type :: u16
  arp_hw_addr_len :: u8
  arp_pr_addr_len :: u8
  arp_opcode :: u16
  arp_src_mac :: "u8 list"
  arp_src_ip :: "u8 list"
  arp_dst_mac :: "u8 list"
  arp_dst_ip :: "u8 list"

definition arp_bytes :: "arp_packet \<Rightarrow> u8 list" where
  "arp_bytes p = le16 (arp_hw_type p) @ le16 (arp_protocol_type p)
     @ [arp_hw_addr_len p, arp_pr_addr_len p] @ le16 (arp_opcode p)
     @ arp_src_mac p @ arp_src_ip p @ arp_dst_mac p @ arp_dst_ip p"

text \<open>\<open>header_size\<close> and \<open>version\<close>, \<open>diff_serv\<close> and \<open>ecn\<close> share a byte, the first of each
  pair in the low bits.\<close>

record ipv4_header =
  ip_header_size :: u8
  ip_version :: u8
  ip_diff_serv :: u8
  ip_ecn :: u8
  ip_total_length :: u16
  ip_id :: u16
  ip_fragment_flags :: u16
  ip_ttl :: u8
  ip_protocol :: u8
  ip_header_checksum :: u16
  ip_src_ip :: "u8 list"
  ip_dst_ip :: "u8 list"

definition ipv4_bytes :: "ipv4_header \<Rightarrow> u8 list" where
  "ipv4_bytes h =
     [ip_header_size h AND 0xf OR push_bit 4 (ip_version h),
      ip_diff_serv h AND 0x3f OR push_bit 6 (ip_ecn h)]
     @ le16 (ip_total_length h) @ le16 (ip_id h) @ le16 (ip_fragment_flags h)
     @ [ip_ttl h, ip_protocol h] @ le16 (ip_header_checksum h) @ ip_src_ip h @ ip_dst_ip h"

record udp_header =
  udp_src_port :: u16
  udp_dst_port :: u16
  udp_size :: u16
  udp_checksum :: u16

definition udp_bytes :: "udp_header \<Rightarrow> u8 list" where
  "udp_bytes h = le16 (udp_src_port h) @ le16 (udp_dst_port h) @ le16 (udp_size h) @ le16 (udp_checksum h)"

record udp_pseudoheader =
  ps_src_ip :: "u8 list"
  ps_dst_ip :: "u8 list"
  ps_zeros :: u8
  ps_protocol :: u8
  ps_length :: u16

definition pseudo_bytes :: "udp_pseudoheader \<Rightarrow> u8 list" where
  "pseudo_bytes h = ps_src_ip h @ ps_dst_ip h @ [ps_zeros h, ps_protocol h] @ le16 (ps_length h)"

section \<open>Reading them back\<close>

definition ethernet_of :: "u8 list \<Rightarrow> ethernet_header" where
  "ethernet_of bs = \<lparr>eth_dst_mac = take 6 bs, eth_src_mac = take 6 (drop 6 bs),
     ether_type = of_le16 (drop 12 bs)\<rparr>"

definition arp_of :: "u8 list \<Rightarrow> arp_packet" where
  "arp_of bs = \<lparr>arp_hw_type = of_le16 bs, arp_protocol_type = of_le16 (drop 2 bs),
     arp_hw_addr_len = bs ! 4, arp_pr_addr_len = bs ! 5, arp_opcode = of_le16 (drop 6 bs),
     arp_src_mac = take 6 (drop 8 bs), arp_src_ip = take 4 (drop 14 bs),
     arp_dst_mac = take 6 (drop 18 bs), arp_dst_ip = take 4 (drop 24 bs)\<rparr>"

definition ipv4_of :: "u8 list \<Rightarrow> ipv4_header" where
  "ipv4_of bs = \<lparr>ip_header_size = bs ! 0 AND 0xf, ip_version = drop_bit 4 (bs ! 0),
     ip_diff_serv = bs ! 1 AND 0x3f, ip_ecn = drop_bit 6 (bs ! 1),
     ip_total_length = of_le16 (drop 2 bs), ip_id = of_le16 (drop 4 bs),
     ip_fragment_flags = of_le16 (drop 6 bs), ip_ttl = bs ! 8, ip_protocol = bs ! 9,
     ip_header_checksum = of_le16 (drop 10 bs), ip_src_ip = take 4 (drop 12 bs),
     ip_dst_ip = take 4 (drop 16 bs)\<rparr>"

definition udp_of :: "u8 list \<Rightarrow> udp_header" where
  "udp_of bs = \<lparr>udp_src_port = of_le16 bs, udp_dst_port = of_le16 (drop 2 bs),
     udp_size = of_le16 (drop 4 bs), udp_checksum = of_le16 (drop 6 bs)\<rparr>"

section \<open>The codec contract\<close>

text \<open>
  A header type with its size, its bytes and its decoder: a well-formed header has
  exactly that many bytes, decoding gives it back, and decoding depends on no byte
  beyond. A header put in memory reads back, whatever follows it.
\<close>

locale codec =
  fixes wf :: "'h \<Rightarrow> bool"
    and width :: nat
    and enc :: "'h \<Rightarrow> u8 list"
    and dec :: "u8 list \<Rightarrow> 'h"
  assumes enc_length: "wf h \<Longrightarrow> length (enc h) = width"
    and dec_enc: "wf h \<Longrightarrow> dec (enc h) = h"
    and dec_prefix: "length bs = width \<Longrightarrow> dec (bs @ rest) = dec bs"
    and width_small: "width \<le> 256"
begin

lemma dec_enc_append: "wf h \<Longrightarrow> dec (enc h @ rest) = h"
  using dec_prefix [OF enc_length] dec_enc by simp

lemma enc_inject: "wf h \<Longrightarrow> wf k \<Longrightarrow> enc h = enc k \<longleftrightarrow> h = k"
  by (metis dec_enc)

lemma enc_append_inject: "wf h \<Longrightarrow> wf k \<Longrightarrow> enc h @ xs = enc k @ ys \<longleftrightarrow> h = k \<and> xs = ys"
  using enc_length by (auto simp: enc_inject)

end

lemma length_le [simp]: "length (le16 v) = 2" "length (le32 w) = 4"
  by (simp_all add: le16_def le32_def)

lemma of_le16_le16 [simp]: "of_le16 (le16 v @ rest) = v"
  unfolding of_le16_def le16_def
  by (rule bit_word_eqI) (auto simp: bit_or_iff bit_push_bit_iff bit_ucast_iff bit_drop_bit_eq)

lemma of_le16_le16_nil [simp]: "of_le16 (le16 v) = v"
  using of_le16_le16 [of v "[]"] by simp

lemma of_le32_le32 [simp]: "of_le32 (le32 v @ rest) = v"
  using bytes_of_u32 [of v] by (simp add: of_le32_def le32_def)

lemma of_le16_append: "2 \<le> length bs \<Longrightarrow> of_le16 (bs @ rest) = of_le16 bs"
  by (cases bs; cases "tl bs") (auto simp: of_le16_def)

definition ethernet_wf :: "ethernet_header \<Rightarrow> bool" where
  "ethernet_wf h \<longleftrightarrow> length (eth_dst_mac h) = 6 \<and> length (eth_src_mac h) = 6"

definition arp_wf :: "arp_packet \<Rightarrow> bool" where
  "arp_wf p \<longleftrightarrow> length (arp_src_mac p) = 6 \<and> length (arp_src_ip p) = 4 \<and>
     length (arp_dst_mac p) = 6 \<and> length (arp_dst_ip p) = 4"

definition ipv4_wf :: "ipv4_header \<Rightarrow> bool" where
  "ipv4_wf h \<longleftrightarrow> unat (ip_header_size h) < 16 \<and> unat (ip_version h) < 16 \<and>
     unat (ip_diff_serv h) < 64 \<and> unat (ip_ecn h) < 4 \<and>
     length (ip_src_ip h) = 4 \<and> length (ip_dst_ip h) = 4"

interpretation ethernet_codec: codec ethernet_wf 14 ethernet_bytes ethernet_of
  by unfold_locales (auto simp: ethernet_wf_def ethernet_bytes_def ethernet_of_def of_le16_append)

interpretation arp_codec: codec arp_wf 28 arp_bytes arp_of
  by unfold_locales (auto simp: arp_wf_def arp_bytes_def arp_of_def of_le16_append nth_append)

interpretation udp_codec: codec "\<lambda>h. True" 8 udp_bytes udp_of
  by unfold_locales (auto simp: udp_bytes_def udp_of_def of_le16_append)

text \<open>Two bit fields in one byte.\<close>

lemma small_take_bit: "unat (x :: u8) < 2 ^ k \<Longrightarrow> take_bit k x = x"
  by (simp add: word_unat_eq_iff unsigned_take_bit_eq take_bit_nat_eq_self)

lemma byte_fields:
  fixes lo hi :: u8
  shows "unat lo < 2 ^ k \<Longrightarrow> (lo AND mask k OR push_bit k hi) AND mask k = lo"
    and "unat hi < 2 ^ (8 - k) \<Longrightarrow> k < 8 \<Longrightarrow> drop_bit k (push_bit k hi) = hi"
proof -
  assume "unat lo < 2 ^ k"
  then have lo: "bit lo n \<Longrightarrow> n < k" for n
    using small_take_bit by (metis bit_take_bit_iff)
  show "(lo AND mask k OR push_bit k hi) AND mask k = lo"
    by (rule bit_word_eqI) (auto simp: bit_and_iff bit_or_iff bit_push_bit_iff bit_mask_iff dest: lo)
next
  assume "unat hi < 2 ^ (8 - k)" "k < 8"
  then have hi: "bit hi n \<Longrightarrow> n < 8 - k" for n
    using small_take_bit by (metis bit_take_bit_iff)
  show "drop_bit k (push_bit k hi) = hi"
    by (rule bit_word_eqI) (use hi in \<open>fastforce simp: bit_push_bit_iff bit_drop_bit_eq\<close>)
qed

lemma packed_fields:
  fixes lo hi :: u8
  shows "unat lo < 16 \<Longrightarrow> (lo AND 0xf OR push_bit 4 hi) AND 0xf = lo"
    and "unat hi < 16 \<Longrightarrow> drop_bit 4 (push_bit 4 hi) = hi"
    and "unat lo < 64 \<Longrightarrow> (lo AND 0x3f OR push_bit 6 hi) AND 0x3f = lo"
    and "unat hi < 4 \<Longrightarrow> drop_bit 6 (push_bit 6 hi) = hi"
proof -
  have m: "(0xf :: u8) = mask 4" "(0x3f :: u8) = mask 6" by (simp_all add: mask_eq_exp_minus_1)
  show "unat lo < 16 \<Longrightarrow> (lo AND 0xf OR push_bit 4 hi) AND 0xf = lo"
    "unat lo < 64 \<Longrightarrow> (lo AND 0x3f OR push_bit 6 hi) AND 0x3f = lo"
    unfolding m by (intro byte_fields(1); simp)+
  show "unat hi < 16 \<Longrightarrow> drop_bit 4 (push_bit 4 hi) = hi" "unat hi < 4 \<Longrightarrow> drop_bit 6 (push_bit 6 hi) = hi"
    using byte_fields(2) [of hi 4] byte_fields(2) [of hi 6] by simp_all
qed

interpretation ipv4_codec: codec ipv4_wf 20 ipv4_bytes ipv4_of
proof (unfold_locales, goal_cases)
  case (1 h)
  then show ?case by (simp add: ipv4_wf_def ipv4_bytes_def)
next
  case (2 h)
  then show ?case
    by (simp add: ipv4_wf_def ipv4_bytes_def ipv4_of_def packed_fields)
      (simp add: le16_def)
next
  case (3 bs rest)
  then show ?case by (simp add: ipv4_of_def of_le16_append nth_append)
qed simp

text \<open>
  The protocol headers are laid out without loss: each of the four headers the stack
  sends has its fixed size, and decoding its bytes, whatever payload follows them, gives
  the header back.
\<close>

theorem headers_roundtrip:
  assumes "ethernet_wf e" "arp_wf a" "ipv4_wf i"
  shows "length (ethernet_bytes e) = 14 \<and> ethernet_of (ethernet_bytes e @ rest) = e \<and>
    length (arp_bytes a) = 28 \<and> arp_of (arp_bytes a @ rest) = a \<and>
    length (ipv4_bytes i) = 20 \<and> ipv4_of (ipv4_bytes i @ rest) = i \<and>
    length (udp_bytes u) = 8 \<and> udp_of (udp_bytes u @ rest) = u"
  using ethernet_codec.enc_length [OF assms(1)] ethernet_codec.dec_enc_append [OF assms(1)]
    arp_codec.enc_length [OF assms(2)] arp_codec.dec_enc_append [OF assms(2)]
    ipv4_codec.enc_length [OF assms(3)] ipv4_codec.dec_enc_append [OF assms(3)]
    udp_codec.enc_length udp_codec.dec_enc_append
  by simp

theorem headers_roundtrip_witness:
  "arp_of (arp_bytes \<lparr>arp_hw_type = 0x100, arp_protocol_type = 8, arp_hw_addr_len = 6,
     arp_pr_addr_len = 4, arp_opcode = 0x200, arp_src_mac = replicate 6 1, arp_src_ip = [10, 0, 2, 15],
     arp_dst_mac = replicate 6 2, arp_dst_ip = [10, 0, 2, 2]\<rparr> @ [0]) =
   \<lparr>arp_hw_type = 0x100, arp_protocol_type = 8, arp_hw_addr_len = 6,
     arp_pr_addr_len = 4, arp_opcode = 0x200, arp_src_mac = replicate 6 1, arp_src_ip = [10, 0, 2, 15],
     arp_dst_mac = replicate 6 2, arp_dst_ip = [10, 0, 2, 2]\<rparr>"
proof -
  let ?a = "\<lparr>arp_hw_type = 0x100, arp_protocol_type = 8, arp_hw_addr_len = 6,
     arp_pr_addr_len = 4, arp_opcode = 0x200, arp_src_mac = replicate 6 1, arp_src_ip = [10, 0, 2, 15],
     arp_dst_mac = replicate 6 2, arp_dst_ip = [10, 0, 2, 2]\<rparr>"
  let ?i = "\<lparr>ip_header_size = 5, ip_version = 4, ip_diff_serv = 0, ip_ecn = 0, ip_total_length = 0,
     ip_id = 0, ip_fragment_flags = 0, ip_ttl = 128, ip_protocol = 17, ip_header_checksum = 0,
     ip_src_ip = [0, 0, 0, 0], ip_dst_ip = [255, 255, 255, 255]\<rparr>"
  let ?e = "\<lparr>eth_dst_mac = replicate 6 255, eth_src_mac = replicate 6 0, ether_type = 8\<rparr>"
  have "ethernet_wf ?e" "arp_wf ?a" "ipv4_wf ?i"
    by (simp_all add: ethernet_wf_def arp_wf_def ipv4_wf_def)
  then show ?thesis using headers_roundtrip [of ?e ?a ?i "[0]"] by blast
qed

section \<open>Headers in memory\<close>

lemma write_bytes_other [frame_simps]:
  "x \<notin> region a (length bs) \<Longrightarrow> length bs \<le> 4294967296 \<Longrightarrow> write_bytes a bs m x = m x"
  by (induction bs arbitrary: a m) (auto simp: region_Suc)

lemma write_bytes_append:
  "write_bytes a (xs @ ys) m = write_bytes (a + of_nat (length xs)) ys (write_bytes a xs m)"
  by (induction xs arbitrary: a m) (simp_all add: add.assoc)

lemma bytes_at_write_bytes:
  "length bs \<le> 4294967295 \<Longrightarrow> bytes_at (write_bytes a bs m) a (length bs) = bs"
proof (induction bs arbitrary: a m)
  case Nil
  then show ?case by simp
next
  case (Cons b bs)
  have "a \<notin> region (a + 1) (length bs)"
    using Cons.prems by (simp add: region_def unat_minus_1_32)
  then show ?case using Cons by (simp add: bytes_at_Suc write_bytes_other)
qed

end
