(* ===== verification/Ethernet.thy ===== *)
theory Ethernet
  imports Pcnet Packets
begin

text \<open>
  The link layer, \<open>src/kernel/net/ethernet.cpp\<close>: the adapter is the first network device
  of the registry, every frame goes to \<open>router_mac\<close>, the broadcast address the code never
  changes. (The receive side is in \<open>Receive\<close>.)
\<close>

record ethernet = interrupts +
  router_mac :: "u8 list"
  client_mac :: "u8 list"

definition ETH_PROTO_IP :: u16 where "ETH_PROTO_IP = 0x0800"
definition ETH_PROTO_ARP :: u16 where "ETH_PROTO_ARP = 0x0806"

text \<open>The initial values of the two globals.\<close>

definition ethernet_globals :: "'a ethernet_scheme \<Rightarrow> bool" where
  "ethernet_globals s \<longleftrightarrow> router_mac s = [0xff, 0xff, 0xff, 0xff, 0xff, 0xff] \<and>
     client_mac s = [0, 0, 0, 0, 0, 0]"

definition net_init :: "'a ethernet_scheme \<Rightarrow> 'a ethernet_scheme" where
  "net_init s =
     (let adapter = find_device_by_class DEVICE_NETWORK s
      in if adapter = 0 then s else s\<lparr>client_mac := dev_mac (mem s) adapter\<rparr>)"

text \<open>The virtual call \<open>adapter->send_packet\<close>. Only \<open>PCNET\<close> has the method; a call through
  another object has no result.\<close>

definition adapter_send_packet :: "u32 \<Rightarrow> u32 \<Rightarrow> u32 \<Rightarrow> 'a devices_scheme \<Rightarrow> 'a devices_scheme option" where
  "adapter_send_packet adapter buffer sz s =
     (if dynamic_class s adapter = Some Class_PCNET then pcnet_send_packet adapter buffer sz s else None)"

text \<open>\<open>send\<close>: the addresses the caller left in the header are overwritten.\<close>

definition net_send :: "ethernet_header \<Rightarrow> u32 \<Rightarrow> u32 \<Rightarrow> 'a ethernet_scheme \<Rightarrow> 'a ethernet_scheme option" where
  "net_send header payload sz s =
     (let adapter = find_device_by_class DEVICE_NETWORK s
      in if adapter = 0 then Some s
         else do {
           (frame, s) \<leftarrow> operator_new_array (sz + 14) s;
           let header = header\<lparr>eth_src_mac := dev_mac (mem s) adapter\<rparr>;
           let header = header\<lparr>eth_dst_mac := router_mac s\<rparr>;
           let s = s\<lparr>mem := write_bytes frame (ethernet_bytes header) (mem s)\<rparr>;
           let s = s\<lparr>mem := memcpy (frame + 14) payload sz (mem s)\<rparr>;
           s \<leftarrow> adapter_send_packet adapter frame (sz + 14) s;
           Some (operator_delete_array frame s)
         })"

definition get_mac :: "'a ethernet_scheme \<Rightarrow> u8 list" where
  "get_mac s = client_mac s"

end
