(* ===== verification/Arp.thy ===== *)
theory Arp
  imports Ethernet
begin

text \<open>
  Address resolution, \<open>src/kernel/net/arp.cpp\<close>. The cache is a singly linked list of
  heap objects of 16 bytes: \<open>ip\<close> at 0, \<open>mac\<close> at 4, \<open>next\<close> at 12.
\<close>

record arp = ethernet +
  cache :: u32
  last_entry :: u32

definition entry_ip :: "mem \<Rightarrow> u32 \<Rightarrow> u8 list" where
  "entry_ip m e = bytes_at m e 4"

definition entry_mac :: "mem \<Rightarrow> u32 \<Rightarrow> u8 list" where
  "entry_mac m e = bytes_at m (e + 4) 6"

definition entry_next :: "mem \<Rightarrow> u32 \<Rightarrow> u32" where
  "entry_next m e = rd32 m (e + 12)"

definition arp_init :: "'a arp_scheme \<Rightarrow> 'a arp_scheme" where
  "arp_init s = s\<lparr>cache := 0, last_entry := 0\<rparr>"

text \<open>The lookups compare byte by byte with \<open>memcmp\<close>; on a cyclic list they may not end.
  The address looked for is in memory.\<close>

partial_function (option) find_by_ip :: "mem \<Rightarrow> u32 \<Rightarrow> u32 \<Rightarrow> u32 option" where
  "find_by_ip m ip entry =
     (if entry = 0 then Some 0
      else if memcmp m entry ip 4 = 0 then Some entry
      else find_by_ip m ip (entry_next m entry))"

definition get_by_ip :: "u32 \<Rightarrow> 'a arp_scheme \<Rightarrow> u32 option" where
  "get_by_ip ip s = find_by_ip (mem s) ip (cache s)"

partial_function (option) find_by_mac :: "mem \<Rightarrow> u32 \<Rightarrow> u32 \<Rightarrow> u32 option" where
  "find_by_mac m mac entry =
     (if entry = 0 then Some 0
      else if memcmp m (entry + 4) mac 6 = 0 then Some entry
      else find_by_mac m mac (entry_next m entry))"

definition get_by_mac :: "u32 \<Rightarrow> 'a arp_scheme \<Rightarrow> u32 option" where
  "get_by_mac mac s = find_by_mac (mem s) mac (cache s)"

text \<open>The arguments are global arrays, four and six bytes.\<close>

definition add_cache_entry :: "u8 list \<Rightarrow> u8 list \<Rightarrow> 'a arp_scheme \<Rightarrow> 'a arp_scheme option" where
  "add_cache_entry ip mac s =
     do {
       (entry, s) \<leftarrow> operator_new 16 s;
       let s = s\<lparr>mem := wr32 (entry + 12) 0 (mem s)\<rparr>;
       let s = s\<lparr>mem := write_bytes entry (take 4 ip) (mem s)\<rparr>;
       let s = s\<lparr>mem := write_bytes (entry + 4) (take 6 mac) (mem s)\<rparr>;
       if cache s = 0 then Some (s\<lparr>cache := entry, last_entry := entry\<rparr>)
       else Some (s\<lparr>mem := wr32 (last_entry s + 12) entry (mem s), last_entry := entry\<rparr>)
     }"

text \<open>
  A packet for an address in the cache is answered, whatever its opcode. The response is
  built on the stack and sent from there: \<open>response_at\<close> is its address, a parameter.
\<close>

definition arp_response :: "u32 \<Rightarrow> u32 \<Rightarrow> 'a arp_scheme \<Rightarrow> arp_packet" where
  "arp_response entry packet s =
     \<lparr>arp_hw_type = htons 1, arp_protocol_type = htons 0x0800, arp_hw_addr_len = 6,
      arp_pr_addr_len = 4, arp_opcode = htons 2, arp_src_mac = get_mac s,
      arp_src_ip = entry_ip (mem s) entry, arp_dst_mac = bytes_at (mem s) (packet + 8) 6,
      arp_dst_ip = bytes_at (mem s) (packet + 14) 4\<rparr>"

definition arp_handle_packet :: "u32 \<Rightarrow> u32 \<Rightarrow> 'a arp_scheme \<Rightarrow> 'a arp_scheme option" where
  "arp_handle_packet response_at packet s =
     do {
       entry \<leftarrow> get_by_ip (packet + 24) s;
       if entry = 0 then Some s
       else do {
         let response = arp_response entry packet s;
         let eth_header = \<lparr>eth_dst_mac = [], eth_src_mac = [], ether_type = htons 0x0806\<rparr>;
         let s = s\<lparr>mem := write_bytes response_at (arp_bytes response) (mem s)\<rparr>;
         net_send eth_header response_at 28 s
       }
     }"

end
