(* ===== verification/Ip.thy ===== *)
theory Ip
  imports Arp
begin

text \<open>
  IPv4, \<open>src/kernel/net/ip.cpp\<close>: sending with the header checksum. (The receive side is in
  \<open>Receive\<close>.)
\<close>

record ip = arp +
  ip_addr :: "u8 list"

definition IP_PROTO_UDP :: u8 where "IP_PROTO_UDP = 0x11"

section \<open>The header checksum\<close>

text \<open>\<open>header_words[i]\<close> reads the bytes of the argument in memory order.\<close>

primrec sum_words :: "nat \<Rightarrow> u8 list \<Rightarrow> u32 \<Rightarrow> u32" where
  "sum_words 0 bs sm = sm"
| "sum_words (Suc n) bs sm = sum_words n (drop 2 bs) (sm + ucast (htons (of_le16 bs)))"

text \<open>The folding loop: as long as there is a carry above bit 15.\<close>

function fold_carry :: "u32 \<Rightarrow> u32" where
  "fold_carry sm = (if drop_bit 16 sm \<noteq> 0 then fold_carry ((sm AND 0xffff) + drop_bit 16 sm) else sm)"
  by pat_completeness auto

lemma fold_carry_step:
  assumes "drop_bit 16 sm \<noteq> (0 :: u32)"
  shows "unat ((sm AND 0xffff) + drop_bit 16 sm) = unat sm mod 65536 + unat sm div 65536"
    and "unat ((sm AND 0xffff) + drop_bit 16 sm) < unat sm"
proof -
  have m: "(0xffff :: u32) = mask 16" by (simp add: mask_eq_exp_minus_1)
  have lo: "unat (sm AND 0xffff) = unat sm mod 65536"
    unfolding m by (simp flip: take_bit_eq_mask add: take_bit_eq_mod unat_mod)
  have hi: "unat (drop_bit 16 sm) = unat sm div 65536"
    by (simp add: drop_bit_eq_div unat_div)
  have "unat sm div 65536 < 65536" using unat_lt32 [of sm] by (simp add: div_less_iff_less_mult)
  then show eq: "unat ((sm AND 0xffff) + drop_bit 16 sm) = unat sm mod 65536 + unat sm div 65536"
    using lo hi mod_less_divisor [of 65536 "unat sm"] by (subst unat_add_nowrap) simp_all
  have "0 < unat sm div 65536" using assms hi by (metis gr0I unsigned_eq_0_iff)
  moreover have "unat sm = 65536 * (unat sm div 65536) + unat sm mod 65536" by simp
  ultimately show "unat ((sm AND 0xffff) + drop_bit 16 sm) < unat sm"
    unfolding eq by linarith
qed

termination fold_carry
  by (relation "measure unat") (use fold_carry_step(2) in auto)

declare fold_carry.simps [simp del]

definition ip_compute_checksum :: "ipv4_header \<Rightarrow> u16" where
  "ip_compute_checksum header =
     (let sm = sum_words 10 (ipv4_bytes header) 0; sm = fold_carry sm in NOT (ucast sm))"

section \<open>Sending\<close>

definition get_ip :: "'a ip_scheme \<Rightarrow> u8 list" where
  "get_ip s = ip_addr s"

definition set_ip :: "u8 list \<Rightarrow> 'a ip_scheme \<Rightarrow> 'a ip_scheme" where
  "set_ip new_ip s = s\<lparr>ip_addr := take 4 new_ip\<rparr>"

definition ip_complete_header :: "ipv4_header \<Rightarrow> u32 \<Rightarrow> 'a ip_scheme \<Rightarrow> ipv4_header" where
  "ip_complete_header header sz s =
     (let header = header\<lparr>ip_src_ip := ip_addr s\<rparr>;
          header = header\<lparr>ip_id := 0x2626\<rparr>;
          header = header\<lparr>ip_header_size := 0x5\<rparr>;
          header = header\<lparr>ip_fragment_flags := htons 0x4000\<rparr>;
          header = header\<lparr>ip_version := 4\<rparr>;
          header = header\<lparr>ip_ttl := 128\<rparr>;
          header = header\<lparr>ip_total_length := htons (ucast (20 + sz))\<rparr>
      in header\<lparr>ip_header_checksum := htons (ip_compute_checksum header)\<rparr>)"

definition ip_send_packet :: "ipv4_header \<Rightarrow> u32 \<Rightarrow> u32 \<Rightarrow> 'a ip_scheme \<Rightarrow> 'a ip_scheme option" where
  "ip_send_packet header payload sz s =
     do {
       let eth_header = \<lparr>eth_dst_mac = [], eth_src_mac = [], ether_type = htons 0x0800\<rparr>;
       let header = ip_complete_header header sz s;
       (packet, s) \<leftarrow> operator_new_array (sz + 20) s;
       let s = s\<lparr>mem := write_bytes packet (ipv4_bytes header) (mem s)\<rparr>;
       let s = s\<lparr>mem := memcpy (packet + 20) payload sz (mem s)\<rparr>;
       s \<leftarrow> net_send eth_header packet (sz + 20) s;
       Some (operator_delete_array packet s)
     }"

end
