(* ===== verification/Polling.thy ===== *)
theory Polling
  imports Prelude
begin

text \<open>
  Loops that wait for a flag another context sets: look at the flag, let something happen,
  look again. \<open>rounds idle n s\<close> is the state after \<open>n\<close> times \<open>idle\<close>. The locale states what
  such a loop is (its unfolding, and that it has no result but those the unfolding
  gives), and when it ends. \<open>poll_step\<close> is the same loop instruction by instruction, with
  interrupts at the points \<open>W\<close>; the locale relates it to the loop.
\<close>

primrec rounds :: "('s \<Rightarrow> 's option) \<Rightarrow> nat \<Rightarrow> 's \<Rightarrow> 's option" where
  "rounds idle 0 s = Some s"
| "rounds idle (Suc n) s = (case idle s of None \<Rightarrow> None | Some t \<Rightarrow> rounds idle n t)"

definition first_ready :: "('s \<Rightarrow> bool) \<Rightarrow> ('s \<Rightarrow> 's option) \<Rightarrow> nat \<Rightarrow> 's \<Rightarrow> bool" where
  "first_ready ready idle n s \<longleftrightarrow> (\<exists>t. rounds idle n s = Some t \<and> ready t) \<and>
     (\<forall>k<n. \<exists>t. rounds idle k s = Some t \<and> \<not> ready t)"

lemma rounds_Suc: "rounds idle (Suc n) s = (case rounds idle n s of None \<Rightarrow> None | Some t \<Rightarrow> idle t)"
proof (induction n arbitrary: s)
  case (Suc n)
  show ?case
  proof (cases "idle s")
    case None
    then show ?thesis by simp
  next
    case (Some t)
    then have "rounds idle (Suc (Suc n)) s = rounds idle (Suc n) t" "rounds idle (Suc n) s = rounds idle n t"
      by (simp_all only: rounds.simps(2) option.case)
    then show ?thesis using Suc [of t] by simp
  qed
qed (simp split: option.split)

section \<open>The loop by instructions\<close>

text \<open>
  The processor looks at the flag and leaves or goes on to \<open>hlt\<close>, which stops it until the next
  interrupt; after that it looks again. At the points in \<open>W\<close> an interrupt may come and go.
\<close>

datatype poll_point = Looking | Before_hlt | Halted | Left

inductive poll_step :: "poll_point set \<Rightarrow> ('s \<Rightarrow> bool) \<Rightarrow> ('s \<Rightarrow> 's option) \<Rightarrow>
    poll_point \<times> 's \<Rightarrow> poll_point \<times> 's \<Rightarrow> bool" for W ready idle where
  leave: "ready s \<Longrightarrow> poll_step W ready idle (Looking, s) (Left, s)"
| go_on: "\<not> ready s \<Longrightarrow> poll_step W ready idle (Looking, s) (Before_hlt, s)"
| hlt: "poll_step W ready idle (Before_hlt, s) (Halted, s)"
| wake: "idle s = Some t \<Longrightarrow> poll_step W ready idle (Halted, s) (Looking, t)"
| interrupt: "p \<in> W \<Longrightarrow> p \<in> {Looking, Before_hlt} \<Longrightarrow> idle s = Some t \<Longrightarrow>
    poll_step W ready idle (p, s) (p, t)"

inductive_simps halted_step: "poll_step W ready idle (Halted, s) c"

lemmas poll_rtranclp_induct =
  rtranclp_induct [of r "(p, s)" "(q, t)", split_format (complete), consumes 1, case_names refl step] for r p s q t

lemmas poll_converse_induct =
  converse_rtranclp_induct [of r "(p, s)" "(q, t)", split_format (complete), consumes 1, case_names refl step] for r p s q t

text \<open>The states on the way are those after some number of interrupts; where the processor is past
  the look, the flag was down after an earlier number.\<close>

lemma poll_run_rounds:
  "(poll_step W ready idle)\<^sup>*\<^sup>* (Looking, s) (p, u) \<Longrightarrow>
   (\<exists>n. rounds idle n s = Some u \<and> (p = Left \<longrightarrow> ready u) \<and>
     (p \<in> {Before_hlt, Halted} \<longrightarrow> (\<exists>k\<le>n. \<exists>t. rounds idle k s = Some t \<and> \<not> ready t) \<and> (Before_hlt \<notin> W \<longrightarrow> \<not> ready u)))"
proof (induction rule: poll_rtranclp_induct)
  case refl
  show ?case by (intro exI [of _ 0]) simp
next
  case (step p u q v)
  then obtain n where n: "rounds idle n s = Some u" "p = Left \<longrightarrow> ready u"
    "p \<in> {Before_hlt, Halted} \<longrightarrow> (\<exists>k\<le>n. \<exists>t. rounds idle k s = Some t \<and> \<not> ready t) \<and> (Before_hlt \<notin> W \<longrightarrow> \<not> ready u)"
    by blast
  from step(2) show ?case
  proof cases
    case leave
    then show ?thesis using n by blast
  next
    case go_on
    then show ?thesis using n by blast
  next
    case hlt
    then show ?thesis using n by blast
  next
    case wake
    then show ?thesis using n by (intro exI [of _ "Suc n"]) (simp add: rounds_Suc del: rounds.simps)
  next
    case interrupt
    then have "rounds idle (Suc n) s = Some v" using n(1) by (simp add: rounds_Suc del: rounds.simps)
    then show ?thesis using interrupt n by (intro exI [of _ "Suc n"]) (auto intro: le_SucI)
  qed
qed

lemma poll_interrupts:
  assumes "p \<in> W" "p \<in> {Looking, Before_hlt}"
  shows "rounds idle n s = Some u \<Longrightarrow> (poll_step W ready idle)\<^sup>*\<^sup>* (p, s) (p, u)"
proof (induction n arbitrary: s)
  case (Suc n)
  then obtain t where t: "idle s = Some t" "rounds idle n t = Some u" by (auto split: option.splits)
  show ?case
    using interrupt [where idle = idle, OF assms t(1)] Suc.IH [OF t(2)] by (rule converse_rtranclp_into_rtranclp)
qed simp

lemma rounds_split:
  "k \<le> n \<Longrightarrow> rounds idle k s = Some t \<Longrightarrow> rounds idle n s = rounds idle (n - k) t"
proof (induction k arbitrary: n s)
  case (Suc k)
  then obtain m where "n = Suc m" "k \<le> m" by (cases n) auto
  then show ?case using Suc.IH [of m] Suc.prems(2) by (auto split: option.splits)
qed simp

lemma poll_leaves_iff:
  assumes "Looking \<in> W"
  shows "(poll_step W ready idle)\<^sup>*\<^sup>* (Looking, s) (Left, u) \<longleftrightarrow> (\<exists>n. rounds idle n s = Some u) \<and> ready u"
proof
  show "(\<exists>n. rounds idle n s = Some u) \<and> ready u" if "(poll_step W ready idle)\<^sup>*\<^sup>* (Looking, s) (Left, u)"
    using poll_run_rounds [OF that] by blast
  show "(poll_step W ready idle)\<^sup>*\<^sup>* (Looking, s) (Left, u)" if "(\<exists>n. rounds idle n s = Some u) \<and> ready u"
    using that poll_interrupts [OF assms] leave [of ready u W idle] by (meson insertI1 rtranclp.rtrancl_into_rtrancl)
qed

lemma poll_halts:
  assumes "(poll_step W ready idle)\<^sup>*\<^sup>* (Looking, s) (Looking, t)" "\<not> ready t"
    "(poll_step W ready idle)\<^sup>*\<^sup>* (Before_hlt, t) (Before_hlt, u)"
  shows "(poll_step W ready idle)\<^sup>*\<^sup>* (Looking, s) (Halted, u)"
proof -
  note assms(1)
  also have "poll_step W ready idle (Looking, t) (Before_hlt, t)" by (rule go_on [where ready = ready, OF assms(2)])
  also (rtranclp.rtrancl_into_rtrancl) note assms(3)
  also (rtranclp_trans) have "poll_step W ready idle (Before_hlt, u) (Halted, u)" by (rule hlt)
  finally (rtranclp.rtrancl_into_rtrancl) show ?thesis .
qed

lemma poll_halts_iff:
  "(poll_step {Looking, Before_hlt} ready idle)\<^sup>*\<^sup>* (Looking, s) (Halted, u) \<longleftrightarrow>
    (\<exists>k n t. k \<le> n \<and> rounds idle k s = Some t \<and> \<not> ready t \<and> rounds idle n s = Some u)"
proof
  assume "(poll_step {Looking, Before_hlt} ready idle)\<^sup>*\<^sup>* (Looking, s) (Halted, u)"
  from poll_run_rounds [OF this]
  show "\<exists>k n t. k \<le> n \<and> rounds idle k s = Some t \<and> \<not> ready t \<and> rounds idle n s = Some u" by blast
next
  assume "\<exists>k n t. k \<le> n \<and> rounds idle k s = Some t \<and> \<not> ready t \<and> rounds idle n s = Some u"
  then obtain k n t where "rounds idle k s = Some t" "\<not> ready t" "rounds idle (n - k) t = Some u"
    using rounds_split by metis
  then show "(poll_step {Looking, Before_hlt} ready idle)\<^sup>*\<^sup>* (Looking, s) (Halted, u)"
    by (intro poll_halts poll_interrupts) auto
qed

lemma poll_guarded_halts_iff:
  "(poll_step {Looking} ready idle)\<^sup>*\<^sup>* (Looking, s) (Halted, u) \<longleftrightarrow> (\<exists>n. rounds idle n s = Some u) \<and> \<not> ready u"
proof
  assume "(poll_step {Looking} ready idle)\<^sup>*\<^sup>* (Looking, s) (Halted, u)"
  from poll_run_rounds [OF this] show "(\<exists>n. rounds idle n s = Some u) \<and> \<not> ready u" by auto
next
  assume "(\<exists>n. rounds idle n s = Some u) \<and> \<not> ready u"
  then show "(poll_step {Looking} ready idle)\<^sup>*\<^sup>* (Looking, s) (Halted, u)"
    using poll_interrupts [of Looking "{Looking}" idle _ s u ready]
      poll_halts [where W = "{Looking}" and ready = ready and idle = idle and s = s and t = u and u = u] by auto
qed

section \<open>The loop as a function\<close>

locale polling =
  fixes wait :: "'s \<Rightarrow> 's option"
    and ready :: "'s \<Rightarrow> bool"
    and idle :: "'s \<Rightarrow> 's option"
  assumes unfold: "wait s = (if \<not> ready s then case idle s of None \<Rightarrow> None | Some t \<Rightarrow> wait t else Some s)"
    and least: "(\<And>s. ready s \<Longrightarrow> P s s) \<Longrightarrow>
      (\<And>s t s'. \<not> ready s \<Longrightarrow> idle s = Some t \<Longrightarrow> P t s' \<Longrightarrow> P s s') \<Longrightarrow> wait s = Some s' \<Longrightarrow> P s s'"
begin

lemma wait_rounds:
  assumes "rounds idle n s = Some s'" "\<And>k t. k < n \<Longrightarrow> rounds idle k s = Some t \<Longrightarrow> \<not> ready t"
  shows "wait s = wait s'"
  using assms
proof (induction n arbitrary: s)
  case 0
  then show ?case by simp
next
  case (Suc n)
  then obtain t where t: "idle s = Some t" "rounds idle n t = Some s'" by (auto split: option.splits)
  have "\<not> ready s" using Suc.prems(2) [of 0 s] by simp
  moreover have "wait t = wait s'"
  proof (rule Suc.IH [OF t(2)])
    show "\<not> ready u" if "k < n" "rounds idle k t = Some u" for k u
      using Suc.prems(2) [of "Suc k" u] that t(1) by simp
  qed
  ultimately show ?case using t(1) by (subst unfold) simp
qed

text \<open>The loop ends exactly when some number of rounds raises the flag, after the first such
  number, and nowhere else.\<close>

lemma ends_iff:
  "wait s = Some s' \<longleftrightarrow> (\<exists>n. first_ready ready idle n s \<and> rounds idle n s = Some s')"
proof
  assume "wait s = Some s'"
  then show "\<exists>n. first_ready ready idle n s \<and> rounds idle n s = Some s'"
  proof (rule least [where P = "\<lambda>s s'. \<exists>n. first_ready ready idle n s \<and> rounds idle n s = Some s'", rotated 2])
    fix s assume "ready s"
    then show "\<exists>n. first_ready ready idle n s \<and> rounds idle n s = Some s"
      by (intro exI [of _ 0]) (simp add: first_ready_def)
  next
    fix s t s'
    assume s: "\<not> ready s" "idle s = Some t"
      and "\<exists>n. first_ready ready idle n t \<and> rounds idle n t = Some s'"
    then obtain n where n: "first_ready ready idle n t" "rounds idle n t = Some s'" by blast
    have "\<exists>u. rounds idle k s = Some u \<and> \<not> ready u" if "k < Suc n" for k
      using that s n(1) by (cases k) (auto simp: first_ready_def)
    then show "\<exists>n. first_ready ready idle n s \<and> rounds idle n s = Some s'"
      using s n by (intro exI [of _ "Suc n"]) (auto simp: first_ready_def)
  qed
next
  assume "\<exists>n. first_ready ready idle n s \<and> rounds idle n s = Some s'"
  then obtain n where n: "first_ready ready idle n s" "rounds idle n s = Some s'" by blast
  then have "wait s = wait s'" by (intro wait_rounds) (auto simp: first_ready_def)
  also have "\<dots> = Some s'" using n by (subst unfold) (auto simp: first_ready_def)
  finally show "wait s = Some s'" .
qed

text \<open>What every round keeps, the loop keeps.\<close>

lemma keeps:
  assumes "\<And>s. R s s" "\<And>s t u. R s t \<Longrightarrow> R t u \<Longrightarrow> R s u" "\<And>s t. idle s = Some t \<Longrightarrow> R s t"
    and "wait s = Some s'"
  shows "R s s'"
  by (rule least [where P = R, OF assms(1) _ assms(4)]) (blast intro: assms(2,3))

text \<open>With interrupts in \<open>hlt\<close> only, the instructions compute the loop: \<open>idle\<close> is one \<open>hlt\<close> with
  the interrupt that ends it.\<close>

lemma by_instructions:
  "wait s = Some u \<longleftrightarrow> (poll_step {} ready idle)\<^sup>*\<^sup>* (Looking, s) (Left, u)"
proof
  assume "wait s = Some u"
  then show "(poll_step {} ready idle)\<^sup>*\<^sup>* (Looking, s) (Left, u)"
  proof (rule least [where P = "\<lambda>s u. (poll_step {} ready idle)\<^sup>*\<^sup>* (Looking, s) (Left, u)", rotated 2])
    show "(poll_step {} ready idle)\<^sup>*\<^sup>* (Looking, s) (Left, s)" if "ready s" for s
      using leave [of ready s "{}" idle] that by blast
    show "(poll_step {} ready idle)\<^sup>*\<^sup>* (Looking, s) (Left, u)"
      if "\<not> ready s" "idle s = Some t" "(poll_step {} ready idle)\<^sup>*\<^sup>* (Looking, t) (Left, u)" for s t u
    proof -
      have "(poll_step {} ready idle)\<^sup>*\<^sup>* (Looking, s) (Halted, s)"
        by (rule poll_halts [where ready = ready, OF _ that(1)]) simp_all
      also have "poll_step {} ready idle (Halted, s) (Looking, t)" by (rule wake [where idle = idle, OF that(2)])
      also (rtranclp.rtrancl_into_rtrancl) note that(3)
      finally (rtranclp_trans) show ?thesis .
    qed
  qed
next
  let ?resume = "\<lambda>p s. case p of Looking \<Rightarrow> wait s | Left \<Rightarrow> Some s | _ \<Rightarrow> (case idle s of None \<Rightarrow> None | Some t \<Rightarrow> wait t)"
  have "?resume p s = Some u" if "(poll_step {} ready idle)\<^sup>*\<^sup>* (p, s) (Left, u)" for p s
    using that
  proof (induction rule: poll_converse_induct)
    case refl
    show ?case by simp
  next
    case (step p s q t)
    from step(1) show ?case
    proof cases
      case leave
      then show ?thesis using unfold [of s] step(3) by simp
    next
      case go_on
      then show ?thesis using step(3) by (simp add: unfold [of s])
    qed (use step(3) in simp_all)
  qed
  from this [of Looking s] show "wait s = Some u" if "(poll_step {} ready idle)\<^sup>*\<^sup>* (Looking, s) (Left, u)"
    using that by simp
qed

end

end
