(* ===== verification/Udp.thy ===== *)
theory Udp
  imports Ip Polling
begin

text \<open>
  UDP, \<open>src/kernel/net/udp.cpp\<close>. A socket is an object of 16 bytes: \<open>ip\<close> at 0, \<open>port\<close> at
  4, \<open>recv_buffer\<close> at 8, \<open>got_packet\<close> at 12; \<open>sockets\<close> is the table by port. The \<open>hlt\<close>
  in \<open>recv\<close> lets interrupts in: what happens there is a parameter.
\<close>

record udp = ip +
  sockets :: "u16 \<Rightarrow> u32"

section \<open>Socket objects\<close>

definition sock_port :: "mem \<Rightarrow> u32 \<Rightarrow> u16" where
  "sock_port m this = rd16 m (this + 4)"

definition recv_buffer :: "mem \<Rightarrow> u32 \<Rightarrow> u32" where
  "recv_buffer m this = rd32 m (this + 8)"

definition got_packet :: "mem \<Rightarrow> u32 \<Rightarrow> bool" where
  "got_packet m this = (rd8 m (this + 12) \<noteq> 0)"

definition store_got_packet :: "u32 \<Rightarrow> bool \<Rightarrow> mem \<Rightarrow> mem" where
  "store_got_packet this b m = wr8 (this + 12) (if b then 1 else 0) m"

definition udp_init :: "'a udp_scheme \<Rightarrow> 'a udp_scheme" where
  "udp_init s = s\<lparr>sockets := (\<lambda>_. 0)\<rparr>"

definition new_UDPSocket :: "u16 \<Rightarrow> u32 \<Rightarrow> 'a udp_scheme \<Rightarrow> 'a udp_scheme" where
  "new_UDPSocket port this s =
     (let s = s\<lparr>mem := wr16 (this + 4) port (mem s)\<rparr>;
          s = s\<lparr>mem := write_bytes this (take 4 (get_ip s)) (mem s)\<rparr>;
          s = s\<lparr>sockets := (sockets s)(port := this)\<rparr>
      in s\<lparr>mem := store_got_packet this False (mem s)\<rparr>)"

definition delete_UDPSocket :: "u32 \<Rightarrow> 'a udp_scheme \<Rightarrow> 'a udp_scheme" where
  "delete_UDPSocket this s = s\<lparr>sockets := (sockets s)(sock_port (mem s) this := 0)\<rparr>"

section \<open>The checksum\<close>

definition csum_add :: "u32 \<Rightarrow> u32 \<Rightarrow> u32" where
  "csum_add checksum w =
     (let checksum = checksum + w
      in if checksum AND 0x10000 \<noteq> 0 then (checksum AND 0xffff) + 1 else checksum)"

text \<open>The loops over the pseudo header and the header, \<open>n\<close> words of their bytes.\<close>

primrec csum_words :: "nat \<Rightarrow> u8 list \<Rightarrow> u32 \<Rightarrow> u32" where
  "csum_words 0 bs checksum = checksum"
| "csum_words (Suc n) bs checksum = csum_words n (drop 2 bs) (csum_add checksum (ucast (of_le16 bs)))"

text \<open>The loop over the buffer and the odd byte after it.\<close>

function csum_buffer :: "mem \<Rightarrow> u32 \<Rightarrow> u32 \<Rightarrow> u32 \<Rightarrow> u32" where
  "csum_buffer m ptr len checksum =
     (if 1 < len then csum_buffer m (ptr + 2) (len - 2) (csum_add checksum (ucast (rd16 m ptr)))
      else if len = 1 then csum_add checksum (push_bit 8 (ucast (rd8 m ptr)))
      else checksum)"
  by pat_completeness auto
termination
proof (relation "measure (\<lambda>(m, ptr, len, checksum). unat len)", goal_cases)
  case 1
  show ?case by simp
next
  case (2 m ptr len checksum)
  then have "2 \<le> unat len" by (simp add: word_less_nat_alt)
  then show ?case by (simp add: unat_sub32)
qed

declare csum_buffer.simps [simp del]

definition udp_compute_checksum :: "mem \<Rightarrow> udp_pseudoheader \<Rightarrow> udp_header \<Rightarrow> u32 \<Rightarrow> u32 \<Rightarrow> u16" where
  "udp_compute_checksum m pseudoheader header buffer len =
     (let checksum = 0;
          checksum = csum_words 6 (pseudo_bytes pseudoheader) checksum;
          checksum = csum_words 4 (udp_bytes header) checksum;
          checksum = csum_buffer m buffer len checksum
      in NOT (ucast checksum))"

section \<open>Sending and receiving\<close>

definition udp_send :: "u8 list \<Rightarrow> udp_header \<Rightarrow> u32 \<Rightarrow> u32 \<Rightarrow> 'a udp_scheme \<Rightarrow> 'a udp_scheme option" where
  "udp_send ip header buffer sz s =
     do {
       let ip_header = \<lparr>ip_header_size = 0, ip_version = 0, ip_diff_serv = 0, ip_ecn = 0,
         ip_total_length = 0, ip_id = 0, ip_fragment_flags = 0, ip_ttl = 0, ip_protocol = 0,
         ip_header_checksum = 0, ip_src_ip = [0, 0, 0, 0], ip_dst_ip = [0, 0, 0, 0]\<rparr>;
       let ip_header = ip_header\<lparr>ip_dst_ip := take 4 ip\<rparr>;
       let ip_header = ip_header\<lparr>ip_protocol := 0x11\<rparr>;
       (packet, s) \<leftarrow> operator_new_array (sz + 8) s;
       let pseudoheader = \<lparr>ps_src_ip = get_ip s, ps_dst_ip = take 4 ip, ps_zeros = 0,
         ps_protocol = 0x11, ps_length = htons (ucast (sz + 8))\<rparr>;
       let checksum = udp_compute_checksum (mem s) pseudoheader header buffer sz;
       let header = header\<lparr>udp_checksum := checksum\<rparr>;
       let s = s\<lparr>mem := write_bytes packet (udp_bytes header) (mem s)\<rparr>;
       let s = s\<lparr>mem := memcpy (packet + 8) buffer sz (mem s)\<rparr>;
       s \<leftarrow> ip_send_packet ip_header packet (sz + 8) s;
       Some (operator_delete_array packet s)
     }"

definition udp_sendto :: "u32 \<Rightarrow> u8 list \<Rightarrow> u16 \<Rightarrow> u32 \<Rightarrow> u32 \<Rightarrow> 'a udp_scheme \<Rightarrow> 'a udp_scheme option" where
  "udp_sendto this ip port buffer sz s =
     (let header = \<lparr>udp_src_port = htons (sock_port (mem s) this), udp_dst_port = htons port,
        udp_size = htons (ucast (sz + 8)), udp_checksum = 0\<rparr>
      in udp_send ip header buffer sz s)"

type_synonym 'a hlt = "'a udp_scheme \<Rightarrow> 'a udp_scheme option"

partial_function (option) recv_wait :: "'a hlt \<Rightarrow> u32 \<Rightarrow> 'a udp_scheme \<Rightarrow> 'a udp_scheme option" where
  "recv_wait hlt this s =
     (if \<not> got_packet (mem s) this
      then case hlt s of None \<Rightarrow> None | Some s' \<Rightarrow> recv_wait hlt this s'
      else Some s)"

interpretation recv_poll: polling "recv_wait hlt this" "\<lambda>s. got_packet (mem s) this" hlt for hlt this
proof
  show "recv_wait hlt this s = (if \<not> got_packet (mem s) this
      then case hlt s of None \<Rightarrow> None | Some t \<Rightarrow> recv_wait hlt this t else Some s)" for s
    by (rule recv_wait.simps)
  fix P s s'
  assume P: "\<And>s. got_packet (mem s) this \<Longrightarrow> P s s"
      "\<And>s t s'. \<not> got_packet (mem s) this \<Longrightarrow> hlt s = Some t \<Longrightarrow> P t s' \<Longrightarrow> P s s'"
    and run: "recv_wait hlt this s = Some s'"
  have "hlt = hlt \<and> this = this \<longrightarrow> P s s'"
    using run
    by (rule recv_wait.raw_induct [where P = "\<lambda>h d s s'. h = hlt \<and> d = this \<longrightarrow> P s s'", rotated])
      (auto split: if_splits option.splits intro: P)
  then show "P s s'" by simp
qed

text \<open>The one-byte object \<open>got_packet\<close> is passed to \<open>printf\<close> in a stack word whose other
  bytes are unspecified, \<open>junk\<close>.\<close>

definition recv :: "'a hlt \<Rightarrow> u32 \<Rightarrow> u32 \<Rightarrow> 'a udp_scheme \<Rightarrow> (u32 \<times> 'a udp_scheme) option" where
  "recv hlt junk this s =
     do {
       s \<leftarrow> printf (lit (line ''%x'')) [junk AND 0xffffff00 OR ucast (rd8 (mem s) (this + 12))] s;
       s \<leftarrow> recv_wait hlt this s;
       let s = s\<lparr>mem := store_got_packet this False (mem s)\<rparr>;
       let s = s\<lparr>mem := store_got_packet this False (mem s)\<rparr>;
       Some (recv_buffer (mem s) this, s)
     }"

definition udp_handle_packet :: "u32 \<Rightarrow> 'a udp_scheme \<Rightarrow> 'a udp_scheme" where
  "udp_handle_packet buffer s =
     (let socket = sockets s (ntohs (rd16 (mem s) (buffer + 2)))
      in if socket = 0 then s
         else
           let s = s\<lparr>mem := store_got_packet socket True (mem s)\<rparr>;
               socket = sockets s (ntohs (rd16 (mem s) (buffer + 2)))
           in s\<lparr>mem := wr32 (socket + 8) (buffer + 8) (mem s)\<rparr>)"

end
