(* ===== verification/Example_Machine.thy ===== *)
theory Example_Machine
  imports Udp
begin

text \<open>
  A concrete kernel state for the witnesses: memory, hardware and the registered network
  adapters are arguments, the heap starts at 1 MiB, the rest is as the loader leaves it.
\<close>

definition booted :: "mem \<Rightarrow> (io_event list \<Rightarrow> u16 \<Rightarrow> u32) \<Rightarrow> u32 list \<Rightarrow> udp" where
  "booted m hw ds =
     \<lparr>mem = m, port_log = [], hw8 = (\<lambda>_ _. 0), hw16 = (\<lambda>_ _. 0), hw32 = hw,
      bitmap = (\<lambda>_. 0), heap_top = 0x100000, current_page_dir = 0x1000, cr3 = 0x1000,
      invalidated = [], display_font = (\<lambda>_. 0), vga_mem = VGA_FRAMEBUFFER_BASE,
      cursor = \<lparr>cur_x = 0, cur_y = 0\<rparr>, scr_w = 640, scr_h = 480, scr_bpp = 32, scr_pitch = 2560,
      driver_registry = (\<lambda>i. if i < length ds then ds ! i else 0), total_drivers = int (length ds),
      dynamic_class = (\<lambda>d. if d \<in> set ds then Some Class_PCNET else None),
      idt = (\<lambda>_. \<lparr>offset_lo = 0, segment = 0, gate = 0, zero_bit = False, dpl = 0,
                  gate_present = False, offset_hi = 0\<rparr>),
      idtr_size = 0, idtr_linear_addr = 0, idt_loaded = None, interrupts_on = False,
      router_mac = [0xff, 0xff, 0xff, 0xff, 0xff, 0xff], client_mac = [0, 0, 0, 0, 0, 0],
      cache = 0, last_entry = 0, ip_addr = [0, 0, 0, 0], sockets = (\<lambda>_. 0)\<rparr>"

lemma registry_booted: "length ds \<le> 1024 \<Longrightarrow> registry_is (booted m hw ds) ds"
  by (simp add: registry_is_def booted_def)

end
