(* ===== verification/Checksums.thy ===== *)
theory Checksums
  imports Example_Machine
begin

text \<open>
  The Internet checksum (RFC 1071) and the two routines that compute it,
  \<open>compute_checksum\<close> of \<open>src/kernel/net/ip.cpp\<close> and of \<open>src/kernel/net/udp.cpp\<close>.
  \<open>inet_sum\<close> is what a receiver computes over the bytes it gets: it accepts them if
  the result is 65535.
\<close>

section \<open>One's complement sums\<close>

definition oc :: "nat \<Rightarrow> nat" where
  "oc n = (if n = 0 then 0 else (n - 1) mod 65535 + 1)"

fun be_words :: "u8 list \<Rightarrow> nat list" where
  "be_words (a # b # bs) = (256 * unat a + unat b) # be_words bs"
| "be_words [a] = [256 * unat a]"
| "be_words [] = []"

definition inet_sum :: "u8 list \<Rightarrow> nat" where
  "inet_sum bs = oc (sum_list (be_words bs))"

lemma oc_small: "n \<le> 65535 \<Longrightarrow> oc n = n"
  by (simp add: oc_def)

lemma oc_le: "oc n \<le> 65535"
  using mod_less_divisor [of 65535 "n - 1"] by (auto simp: oc_def)

lemma oc_cong: "oc n mod 65535 = n mod 65535"
  by (cases n) (simp_all add: oc_def mod_Suc)

lemma oc_eq_iff: "0 < n \<Longrightarrow> 0 < k \<Longrightarrow> oc n = oc k \<longleftrightarrow> n mod 65535 = k mod 65535"
  by (cases n; cases k) (auto simp: oc_def mod_Suc split: if_splits)

lemma oc_full: "oc n = 65535 \<longleftrightarrow> 0 < n \<and> n mod 65535 = 0"
  using oc_eq_iff [of n 65535] by (cases "n = 0") (simp_all add: oc_small oc_def)

lemma oc_zero [simp]: "oc n = 0 \<longleftrightarrow> n = 0"
  by (simp add: oc_def)

lemma oc_add: "oc (oc a + b) = oc (a + b)"
proof (cases "a = 0")
  case False
  then have "0 < oc a" by (simp add: oc_def)
  with False show ?thesis
    by (subst oc_eq_iff) (auto intro: mod_add_cong simp: oc_cong)
qed (simp add: oc_def)

section \<open>The IP header\<close>

lemma unat_drop16: "unat (drop_bit 16 (sm :: u32)) = unat sm div 65536"
  by (simp add: drop_bit_eq_div unat_div)

lemma fold_carry_oc: "unat (fold_carry sm) = oc (unat sm)"
proof (induction sm rule: fold_carry.induct)
  case (1 sm)
  define n where "n = unat sm"
  show ?case
  proof (cases "drop_bit 16 sm = 0")
    case True
    then have "n div 65536 = 0" unfolding n_def unat_drop16 [symmetric] by simp
    then have "n \<le> 65535" by (simp add: div_eq_0_iff)
    then show ?thesis using True by (subst fold_carry.simps) (simp add: oc_small n_def)
  next
    case False
    have pos: "0 < n div 65536"
      using False unfolding n_def unat_drop16 [symmetric] by (simp add: unat_gt_0)
    have "n = n div 65536 * 65535 + (n mod 65536 + n div 65536)"
      using div_mult_mod_eq [of n 65536] by linarith
    then have "(n mod 65536 + n div 65536) mod 65535 = n mod 65535"
      by (metis mod_mult_self3)
    then have "oc (n mod 65536 + n div 65536) = oc n"
      using pos by (subst oc_eq_iff) (auto intro: gr0I)
    then show ?thesis
      using False 1 fold_carry_step(1) [OF False] by (subst fold_carry.simps) (simp add: n_def)
  qed
qed

lemma length_2: "2 \<le> length bs \<Longrightarrow> \<exists>a b rest. bs = a # b # rest"
  by (cases bs; cases "tl bs") auto

lemma unat_ucast8: "unat (ucast (x :: u8) :: u16) = unat x" "unat (ucast x :: u32) = unat x"
  using unat_lt8 [of x] by (simp_all add: unsigned_ucast_eq take_bit_eq_mod)

lemma unat_ucast16: "unat (ucast (x :: u16) :: u32) = unat x"
  using unat_lt16 [of x] by (simp add: unsigned_ucast_eq take_bit_eq_mod)

lemma unat_of_le16: "unat (of_le16 (a # b # rest)) = unat a + 256 * unat b"
proof -
  have "of_le16 (a # b # rest) = ucast a + push_bit 8 (ucast b)"
    unfolding of_le16_def
    by (simp, rule disjunctive_add_eq_or [symmetric], rule bit_word_eqI)
      (auto simp: bit_and_iff bit_ucast_iff bit_push_bit_iff dest: bit_imp_le_length)
  moreover have "unat (push_bit 8 (ucast b) :: u16) = 256 * unat b"
    using unat_lt8 [of b] by (simp add: push_bit_eq_mult unat_word_ariths unat_ucast8)
  ultimately show ?thesis
    using unat_lt8 [of a] unat_lt8 [of b] by (simp add: unat_word_ariths unat_ucast8)
qed

lemma be_word_eq: "unat (htons (of_le16 (a # b # rest))) = 256 * unat a + unat b"
  using unat_lt8 [of a] by (simp add: unat_htons unat_of_le16)

lemma be_words_append: "even (length xs) \<Longrightarrow> be_words (xs @ ys) = be_words xs @ be_words ys"
  by (induction xs rule: be_words.induct) auto

lemma sum_words_be:
  assumes "2 * n \<le> length bs" "unat sm + n * 65535 < 2 ^ 32"
  shows "unat (sum_words n bs sm) = unat sm + sum_list (be_words (take (2 * n) bs))"
  using assms
proof (induction n arbitrary: bs sm)
  case 0
  then show ?case by simp
next
  case (Suc n)
  then obtain a b rest where bs: "bs = a # b # rest" using length_2 [of bs] by auto
  have le: "256 * unat a + unat b \<le> 65535" using unat_lt8 [of a] unat_lt8 [of b] by simp
  have "unat (sm + ucast (htons (of_le16 bs))) = unat sm + (256 * unat a + unat b)"
    using Suc.prems(2) le unfolding bs
    by (subst unat_add_nowrap) (simp_all add: be_word_eq unat_ucast16)
  then show ?case using Suc.IH [of rest "sm + ucast (htons (of_le16 bs))"] Suc.prems le by (simp add: bs)
qed

lemma unat_not16: "unat (NOT (x :: u16)) = 65535 - unat x"
proof -
  have "NOT x = - 1 - x" by (simp add: not_eq_complement)
  moreover have "unat (- 1 :: u16) = 65535" by (simp add: unsigned_minus_1_eq_mask mask_eq_exp_minus_1)
  ultimately show ?thesis
    using unat_lt16 [of x] by (simp add: unat_sub_if_size word_le_nat_alt)
qed

lemma ip_compute_checksum_oc:
  assumes "length (ipv4_bytes h) = 20"
  shows "unat (ip_compute_checksum h) = 65535 - inet_sum (ipv4_bytes h)"
proof -
  have "unat (sum_words 10 (ipv4_bytes h) 0) = sum_list (be_words (ipv4_bytes h))"
    using assms by (subst sum_words_be) simp_all
  then have f: "unat (fold_carry (sum_words 10 (ipv4_bytes h) 0)) = inet_sum (ipv4_bytes h)"
    by (simp add: fold_carry_oc inet_sum_def)
  have "inet_sum (ipv4_bytes h) < 65536" using oc_le [of "sum_list (be_words (ipv4_bytes h))"] by (simp add: inet_sum_def)
  then have "unat (ucast (fold_carry (sum_words 10 (ipv4_bytes h) 0)) :: u16) = inet_sum (ipv4_bytes h)"
    using f by (simp add: unsigned_ucast_eq take_bit_eq_mod)
  then show ?thesis by (simp add: ip_compute_checksum_def Let_def unat_not16)
qed

lemma be_words_le16: "be_words (le16 v) = [unat (htons v)]"
  using be_word_eq [of "ucast v" "ucast (drop_bit 8 v)" "[]"] of_le16_le16_nil [of v]
  by (simp add: le16_def)

text \<open>Filling a checksum field that was zero completes the sum to 65535.\<close>

lemma completed_sum:
  assumes "0 < n"
  shows "oc (n + (65535 - oc n)) = 65535"
proof -
  have "(n + (65535 - oc n)) mod 65535 = (oc n + (65535 - oc n)) mod 65535"
    by (rule mod_add_cong) (simp_all add: oc_cong)
  then show ?thesis using assms oc_le [of n] by (simp add: oc_full)
qed

lemma completed_header_sum:
  assumes "length (ip_addr s) = 4" "length (ip_dst_ip header) = 4" "ip_header_checksum header = 0"
  shows "inet_sum (ipv4_bytes (ip_complete_header header sz s)) = 65535"
proof -
  define h where "h = (ip_complete_header header sz s)\<lparr>ip_header_checksum := 0\<rparr>"
  have fin: "ip_complete_header header sz s = h\<lparr>ip_header_checksum := htons (ip_compute_checksum h)\<rparr>"
    using assms(3) by (cases header) (simp add: h_def ip_complete_header_def Let_def)
  define pre post where "pre = take 10 (ipv4_bytes h)" and "post = drop 12 (ipv4_bytes h)"
  have bytes: "ipv4_bytes (h\<lparr>ip_header_checksum := v\<rparr>) = pre @ le16 v @ post" for v
    by (simp add: pre_def post_def ipv4_bytes_def le16_def)
  have len: "length pre = 10" "length post = 8"
    using assms(1,2) by (simp_all add: pre_def post_def ipv4_bytes_def h_def ip_complete_header_def Let_def)
  let ?n = "sum_list (be_words (pre @ post))"
  have sums: "sum_list (be_words (pre @ le16 v @ post)) = ?n + unat (htons v)" for v
    using len by (simp add: be_words_append be_words_le16)
  have h0: "ipv4_bytes h = pre @ le16 0 @ post" using bytes [of 0] by (simp add: h_def)
  have "0 < ?n"
    by (simp add: pre_def ipv4_bytes_def h_def ip_complete_header_def Let_def)
  moreover have "unat (ip_compute_checksum h) = 65535 - oc ?n"
    using ip_compute_checksum_oc [of h] sums [of 0] len unfolding h0
    by (simp add: inet_sum_def htons_def)
  ultimately show ?thesis
    unfolding fin bytes inet_sum_def sums by (simp add: completed_sum)
qed


text \<open>The header of a broadcast of 100 bytes from a machine without an address.\<close>

definition broadcast_header :: ipv4_header where
  "broadcast_header = \<lparr>ip_header_size = 0, ip_version = 0, ip_diff_serv = 0, ip_ecn = 0,
     ip_total_length = 0, ip_id = 0, ip_fragment_flags = 0, ip_ttl = 0, ip_protocol = 0x11,
     ip_header_checksum = 0, ip_src_ip = [0, 0, 0, 0], ip_dst_ip = [0xff, 0xff, 0xff, 0xff]\<rparr>"


section \<open>UDP\<close>

text \<open>The code adds the words as the processor loads them, low byte first. Modulo 65535 that
  is 256 times the sum in network order.\<close>

fun le_words :: "u8 list \<Rightarrow> nat list" where
  "le_words (a # b # bs) = (unat a + 256 * unat b) # le_words bs"
| "le_words [a] = [unat a]"
| "le_words [] = []"

lemma le_words_append: "even (length xs) \<Longrightarrow> le_words (xs @ ys) = le_words xs @ le_words ys"
  by (induction xs rule: le_words.induct) auto

lemma le_be_words: "sum_list (be_words bs) mod 65535 = 256 * sum_list (le_words bs) mod 65535"
proof (induction bs rule: be_words.induct)
  case (1 a b bs)
  have "256 * (unat a + 256 * unat b) = (256 * unat a + unat b) + unat b * 65535" by simp
  then have "(256 * unat a + unat b) mod 65535 = (256 * (unat a + 256 * unat b)) mod 65535"
    by (simp only: mod_mult_self1)
  from mod_add_cong [OF this 1] show ?case by (simp add: algebra_simps)
qed simp_all

lemma le_be_zero: "sum_list (be_words bs) = 0 \<longleftrightarrow> sum_list (le_words bs) = 0"
  by (induction bs rule: be_words.induct) auto

lemma csum_add_oc:
  assumes "unat c \<le> 65535" "unat w \<le> 65535"
  shows "unat (csum_add c w) = oc (unat c + unat w)"
proof -
  define n where "n = unat c + unat w"
  have n: "n \<le> 131070" using assms by (simp add: n_def)
  have sum: "unat (c + w) = n" using assms unfolding n_def by (subst unat_add_nowrap) simp_all
  have m: "(0xffff :: u32) = mask 16" "(0x10000 :: u32) = 2 ^ 16"
    by (simp_all add: mask_eq_exp_minus_1)
  have lo: "unat ((c + w) AND 0xffff) = n mod 65536"
    unfolding m by (simp flip: take_bit_eq_mask add: take_bit_eq_mod unat_mod sum)
  have "(c + w) AND 0x10000 \<noteq> 0 \<longleftrightarrow> bit (c + w) 16"
    unfolding m by (simp add: and_exp_eq_0_iff_not_bit del: power_numeral)
  also have "\<dots> \<longleftrightarrow> odd (n div 65536)"
  proof -
    have "bit (unat (c + w)) 16 \<longleftrightarrow> bit (c + w) 16" by (simp only: bit_unsigned_iff possible_bit_def) simp
    then show ?thesis unfolding sum by (simp only: bit_iff_odd) simp
  qed
  also have "\<dots> \<longleftrightarrow> 65536 \<le> n"
  proof (cases "65536 \<le> n")
    case True
    then have "n div 65536 = 1" using n by (intro div_nat_eqI) simp_all
    then show ?thesis using True by simp
  qed simp
  finally have carry: "(c + w) AND 0x10000 \<noteq> 0 \<longleftrightarrow> 65536 \<le> n" .
  show ?thesis
  proof (cases "65536 \<le> n")
    case True
    then have "n mod 65536 = n - 65536" using n by (simp add: le_mod_geq)
    moreover have "unat (((c + w) AND 0xffff) + 1) = n mod 65536 + 1"
      using lo by (subst unat_add_nowrap) simp_all
    moreover have "oc n = n - 65535"
      using True n by (simp add: oc_def le_mod_geq)
    ultimately show ?thesis
      using True carry unfolding csum_add_def n_def [symmetric] by simp
  next
    case False
    then show ?thesis
      using carry sum unfolding csum_add_def n_def [symmetric] by (simp add: oc_small)
  qed
qed

lemma unat_word16: "unat (ucast (of_le16 (a # b # rest)) :: u32) = unat a + 256 * unat b"
  by (simp add: unat_ucast16 unat_of_le16)

lemma le_word_bound: "unat (a :: u8) + 256 * unat (b :: u8) \<le> 65535"
  using unat_lt8 [of a] unat_lt8 [of b] by simp

lemma csum_words_oc:
  assumes "2 * n \<le> length bs" "unat c \<le> 65535"
  shows "unat (csum_words n bs c) = oc (unat c + sum_list (le_words (take (2 * n) bs)))"
  using assms
proof (induction n arbitrary: bs c)
  case 0
  then show ?case by (simp add: oc_small)
next
  case (Suc n)
  then obtain a b rest where bs: "bs = a # b # rest" using length_2 [of bs] by auto
  have add: "unat (csum_add c (ucast (of_le16 bs))) = oc (unat c + (unat a + 256 * unat b))"
    unfolding bs using Suc.prems(2) le_word_bound [of a b]
    by (subst csum_add_oc) (simp_all add: unat_word16)
  show ?case
    using Suc.IH [of rest "csum_add c (ucast (of_le16 bs))"] Suc.prems(1) oc_le
    by (simp add: bs add [unfolded bs] oc_add add.assoc)
qed

text \<open>What the loop over the buffer adds up: an odd last byte counts 256 times.\<close>

fun code_words :: "u8 list \<Rightarrow> nat list" where
  "code_words (a # b # bs) = (unat a + 256 * unat b) # code_words bs"
| "code_words [a] = [256 * unat a]"
| "code_words [] = []"

lemma rd16_of_le16: "rd16 m a = of_le16 (bytes_at m a (2 + k))"
  by (simp add: rd16_def of_le16_def rd8_def nth_bytes_at numeral_2_eq_2 bytes_at_Suc)

lemma csum_buffer_oc:
  assumes "unat c \<le> 65535"
  shows "unat (csum_buffer m ptr len c) = oc (unat c + sum_list (code_words (bytes_at m ptr (unat len))))"
  using assms
proof (induction m ptr len c rule: csum_buffer.induct)
  case (1 m ptr len c)
  show ?case
  proof (cases "1 < len")
    case True
    then have l: "2 \<le> unat len" by (simp add: word_less_nat_alt)
    then have len: "unat len = 2 + unat (len - 2)" by (simp add: unat_sub32)
    have bs: "bytes_at m ptr (unat len) = m ptr # m (ptr + 1) # bytes_at m (ptr + 2) (unat (len - 2))"
      unfolding len by (simp add: bytes_at_Suc numeral_2_eq_2 add.assoc)
    have w: "unat (ucast (rd16 m ptr) :: u32) = unat (m ptr) + 256 * unat (m (ptr + 1))"
      by (simp add: rd16_of_le16 [of m ptr 0] bytes_at_Suc numeral_2_eq_2 unat_word16)
    have add: "unat (csum_add c (ucast (rd16 m ptr))) = oc (unat c + (unat (m ptr) + 256 * unat (m (ptr + 1))))"
      using 1(2) le_word_bound by (subst csum_add_oc) (simp_all add: w)
    show ?thesis
      using True 1(1) [OF True] oc_le
      by (subst csum_buffer.simps) (simp add: bs add oc_add add.assoc)
  next
    case False
    show ?thesis
    proof (cases "len = 1")
      case True
      have w: "unat (push_bit 8 (ucast (rd8 m ptr)) :: u32) = 256 * unat (m ptr)"
        using unat_lt8 [of "m ptr"] by (simp add: rd8_def push_bit_eq_mult unat_word_ariths unat_ucast8)
      show ?thesis
        using True 1(2) unat_lt8 [of "m ptr"]
        by (subst csum_buffer.simps) (simp add: csum_add_oc w bytes_at_Suc)
    next
      case no: False
      then have "len = 0" using False by (simp add: word_less_nat_alt word_unat_eq_iff)
      then show ?thesis using 1(2) by (subst csum_buffer.simps) (simp add: oc_small)
    qed
  qed
qed

lemma code_le_words:
  "sum_list (code_words bs) = sum_list (le_words bs) + (if odd (length bs) then 255 * unat (last bs) else 0)"
  by (induction bs rule: code_words.induct) auto

lemma udp_compute_checksum_oc:
  assumes "length (ps_src_ip ph) = 4" "length (ps_dst_ip ph) = 4"
  shows "unat (udp_compute_checksum m ph h buffer len) = 65535 -
    oc (sum_list (le_words (pseudo_bytes ph)) + sum_list (le_words (udp_bytes h))
        + sum_list (code_words (bytes_at m buffer (unat len))))"
proof -
  define c1 where "c1 = csum_words 6 (pseudo_bytes ph) 0"
  define c2 where "c2 = csum_words 4 (udp_bytes h) c1"
  define c3 where "c3 = csum_buffer m buffer len c2"
  have len: "length (pseudo_bytes ph) = 12" "length (udp_bytes h) = 8"
    using assms by (simp_all add: pseudo_bytes_def udp_bytes_def)
  have c1: "unat c1 = oc (sum_list (le_words (pseudo_bytes ph)))"
    unfolding c1_def using len by (subst csum_words_oc) simp_all
  have c2: "unat c2 = oc (unat c1 + sum_list (le_words (udp_bytes h)))"
    unfolding c2_def using len c1 oc_le by (subst csum_words_oc) simp_all
  have c3: "unat c3 = oc (unat c2 + sum_list (code_words (bytes_at m buffer (unat len))))"
    unfolding c3_def using c2 oc_le by (subst csum_buffer_oc) simp_all
  have "unat c3 < 65536" using c3 oc_le [of "unat c2 + sum_list (code_words (bytes_at m buffer (unat len)))"] by simp
  then have "unat (ucast c3 :: u16) = unat c3" by (simp add: unsigned_ucast_eq take_bit_eq_mod)
  then show ?thesis
    using c1 c2 c3 unfolding udp_compute_checksum_def Let_def c1_def [symmetric] c2_def [symmetric] c3_def [symmetric]
    by (simp add: unat_not16 oc_add add.assoc)
qed

lemma le_words_le16: "le_words (le16 v) = [unat v]"
  using unat_of_le16 [of "ucast v" "ucast (drop_bit 8 v)" "[]"] of_le16_le16_nil [of v]
  by (simp add: le16_def)

text \<open>A receiver may add in either byte order.\<close>

lemma inet_sum_le: "inet_sum bs = 65535 \<longleftrightarrow> 0 < sum_list (le_words bs) \<and> 65535 dvd sum_list (le_words bs)"
proof -
  have "coprime (65535 :: nat) (2 ^ 8)" by (subst coprime_power_right_iff) simp
  then have "coprime (65535 :: nat) 256" by simp
  then have "65535 dvd 256 * sum_list (le_words bs) \<longleftrightarrow> 65535 dvd sum_list (le_words bs)"
    by (simp add: coprime_dvd_mult_right_iff)
  moreover have "0 < sum_list (be_words bs) \<longleftrightarrow> 0 < sum_list (le_words bs)"
    using le_be_zero [of bs] by linarith
  ultimately show ?thesis
    unfolding inet_sum_def oc_full using le_be_words [of bs] by (simp add: dvd_eq_mod_eq_0)
qed

lemma completed_dvd:
  fixes L d :: nat
  shows "65535 dvd (L + (65535 - oc (L + d))) \<longleftrightarrow> 65535 dvd d"
proof -
  define T where "T = L + (65535 - oc (L + d))"
  have "T + oc (L + d) = L + 65535" using oc_le [of "L + d"] by (simp add: T_def)
  then have "(T + (L + d)) mod 65535 = L mod 65535"
    by (metis mod_add_right_eq mod_add_self2 oc_cong)
  then have "65535 dvd (T + (L + d) - L)" by (subst mod_eq_dvd_iff_nat [symmetric]) simp_all
  then have "65535 dvd (T + d)" by simp
  then have "65535 dvd T \<longleftrightarrow> 65535 dvd d"
    by (metis dvd_add_right_iff dvd_add_left_iff)
  then show ?thesis by (simp add: T_def)
qed

text \<open>
  C36. The UDP checksum is right exactly for data of even length, and for data of odd length
  that ends in a zero byte: there the sum over pseudo header, header and data, with the
  checksum filled in, is 65535. For every other datagram of odd length a receiver's sum is
  different, since the code adds the last byte to the wrong half of the word.
\<close>

theorem udp_checksum_verifies_iff:
  assumes "length (ps_src_ip ph) = 4" "length (ps_dst_ip ph) = 4" "ps_protocol ph = 0x11" "udp_checksum h = 0"
  shows "inet_sum (pseudo_bytes ph
      @ udp_bytes (h\<lparr>udp_checksum := udp_compute_checksum m ph h buffer len\<rparr>)
      @ bytes_at m buffer (unat len)) = 65535
    \<longleftrightarrow> even (unat len) \<or> rd8 m (buffer + (len - 1)) = 0"
proof -
  let ?data = "bytes_at m buffer (unat len)"
  define L where "L = sum_list (le_words (pseudo_bytes ph)) + sum_list (le_words (udp_bytes h)) + sum_list (le_words ?data)"
  define d where "d = (if odd (unat len) then 255 * unat (last ?data) else 0)"
  have len: "length (pseudo_bytes ph) = 12" "length (udp_bytes k) = 8" for k
    using assms(1,2) by (simp_all add: pseudo_bytes_def udp_bytes_def)
  have head: "udp_bytes (h\<lparr>udp_checksum := v\<rparr>) = take 6 (udp_bytes h) @ le16 v" for v
    by (simp add: udp_bytes_def le16_def)
  have "udp_bytes h = take 6 (udp_bytes h) @ le16 0"
    using head [of 0] assms(4) by (cases h) simp
  then have "sum_list (le_words (udp_bytes h)) = sum_list (le_words (take 6 (udp_bytes h) @ le16 0))"
    by (rule arg_cong)
  then have u: "sum_list (le_words (udp_bytes h)) = sum_list (le_words (take 6 (udp_bytes h)))"
    using len(2) [of h] by (simp add: le_words_append le_words_le16)
  define c where "c = udp_compute_checksum m ph h buffer len"
  have c: "unat c = 65535 - oc (L + d)"
    unfolding c_def udp_compute_checksum_oc [OF assms(1,2)] code_le_words L_def d_def by (simp add: add.assoc)
  have total: "sum_list (le_words (pseudo_bytes ph @ udp_bytes (h\<lparr>udp_checksum := c\<rparr>) @ ?data)) = L + unat c"
    using len u by (simp add: le_words_append head le_words_le16 L_def)
  have "0 < sum_list (le_words (pseudo_bytes ph))"
    using assms(1-3) by (auto simp: pseudo_bytes_def le_words_append)
  then have "0 < L" by (simp add: L_def)
  then have "inet_sum (pseudo_bytes ph @ udp_bytes (h\<lparr>udp_checksum := c\<rparr>) @ ?data) = 65535 \<longleftrightarrow> 65535 dvd d"
    unfolding inet_sum_le total c by (simp add: completed_dvd)
  also have "\<dots> \<longleftrightarrow> even (unat len) \<or> rd8 m (buffer + (len - 1)) = 0"
  proof (cases "odd (unat len)")
    case True
    then have "0 < unat len" by (intro gr0I) simp
    then have "last ?data = m (buffer + of_nat (unat len - 1))"
      by (subst last_conv_nth) (auto simp: bytes_at_def)
    moreover have "(of_nat (unat len - 1) :: u32) = len - 1"
      using \<open>0 < unat len\<close> by (simp add: of_nat_diff)
    ultimately have l: "last ?data = rd8 m (buffer + (len - 1))" by (simp add: rd8_def)
    define b where "b = unat (last ?data)"
    have "b < 256" unfolding b_def by (rule unat_lt8)
    then have "65535 dvd 255 * b \<longleftrightarrow> b = 0" by (auto dest!: dvd_imp_le)
    then show ?thesis
      using True l by (simp add: d_def b_def unat_eq_0)
  qed (simp add: d_def)
  finally show ?thesis unfolding c_def .
qed

definition sample_pseudo :: udp_pseudoheader where
  "sample_pseudo = \<lparr>ps_src_ip = [10, 0, 2, 15], ps_dst_ip = [10, 0, 2, 2], ps_zeros = 0,
     ps_protocol = 0x11, ps_length = htons 9\<rparr>"

definition sample_header :: udp_header where
  "sample_header = \<lparr>udp_src_port = htons 68, udp_dst_port = htons 67, udp_size = htons 9, udp_checksum = 0\<rparr>"

text \<open>One byte of data, 1: the checksum is wrong; two bytes: it is right.\<close>

theorem udp_checksum_verifies_iff_witness:
  "inet_sum (pseudo_bytes sample_pseudo
      @ udp_bytes (sample_header\<lparr>udp_checksum := udp_compute_checksum (\<lambda>_. 1) sample_pseudo sample_header 0 1\<rparr>)
      @ bytes_at (\<lambda>_. 1) 0 1) \<noteq> 65535
   \<and> inet_sum (pseudo_bytes sample_pseudo
      @ udp_bytes (sample_header\<lparr>udp_checksum := udp_compute_checksum (\<lambda>_. 1) sample_pseudo sample_header 0 2\<rparr>)
      @ bytes_at (\<lambda>_. 1) 0 2) = 65535"
  using udp_checksum_verifies_iff [of sample_pseudo sample_header "\<lambda>_. 1" 0 1]
    udp_checksum_verifies_iff [of sample_pseudo sample_header "\<lambda>_. 1" 0 2]
  by (simp add: sample_pseudo_def sample_header_def rd8_def)

end
