(* ===== verification/Receive.thy ===== *)
theory Receive
  imports Udp
begin

text \<open>
  The receive side of the stack: \<open>handle_packet\<close> of \<open>src/kernel/net/ip.cpp\<close> and
  \<open>src/kernel/net/ethernet.cpp\<close>, which pass a frame in memory up by its type fields.
\<close>

definition ip_handle_packet :: "u32 \<Rightarrow> 'a udp_scheme \<Rightarrow> 'a udp_scheme" where
  "ip_handle_packet buffer s =
     (if rd8 (mem s) (buffer + 9) = IP_PROTO_UDP then udp_handle_packet (buffer + 20) s else s)"

definition net_handle_packet :: "u32 \<Rightarrow> u32 \<Rightarrow> 'a udp_scheme \<Rightarrow> 'a udp_scheme option" where
  "net_handle_packet response_at buffer s =
     (let ether_type = ntohs (rd16 (mem s) (buffer + 12))
      in if ether_type = ETH_PROTO_IP then Some (ip_handle_packet (buffer + 14) s)
         else if ether_type = ETH_PROTO_ARP then arp_handle_packet response_at (buffer + 14) s
         else Some s)"

end
