(* ===== verification/Pcnet_Driver.thy ===== *)
theory Pcnet_Driver
  imports Receive
begin

text \<open>
  The interrupt handler and \<open>init\<close> of the PCnet driver,
  \<open>src/kernel/drivers/net/pcnet.cpp\<close>, with the receive side of the network stack they
  call. \<open>init\<close> waits for the flag the interrupt handler sets: what interrupts do between
  two looks at the flag is a parameter.
\<close>

definition set_init_done :: "u32 \<Rightarrow> bool \<Rightarrow> mem \<Rightarrow> mem" where
  "set_init_done this b m = wr8 (this + 40) (if b then 1 else 0) m"

definition set_rx_n :: "u32 \<Rightarrow> u32 \<Rightarrow> mem \<Rightarrow> mem" where
  "set_rx_n this n m = wr32 (this + 24908) n m"

definition set_tx_n :: "u32 \<Rightarrow> u32 \<Rightarrow> mem \<Rightarrow> mem" where
  "set_tx_n this n m = wr32 (this + 24912) n m"

section \<open>The interrupt handler\<close>

text \<open>\<open>n++; if (n > 7) n = 0;\<close> on an \<open>int\<close>.\<close>

definition next_slot :: "u32 \<Rightarrow> u32" where
  "next_slot n = (let n = n + 1 in if 7 <s n then 0 else n)"

lemma next_slot_mod:
  assumes "unat n < 8"
  shows "unat (next_slot n) = (unat n + 1) mod 8"
proof -
  define k where "k = unat n"
  have k: "k < 8" using assms by (simp add: k_def)
  have n1: "unat (n + 1) = k + 1" using assms by (subst unat_add_nowrap) (simp_all add: k_def)
  have "7 <s n + 1 \<longleftrightarrow> k = 7"
    unfolding word_sless_alt sint32 n1 using k by auto
  then show ?thesis using k n1 by (auto simp: next_slot_def Let_def simp flip: k_def)
qed

text \<open>A frame was received. \<open>rx_n\<close> is used as an index of the eight descriptors; another
  value has no result.\<close>

definition pcnet_receive :: "u32 \<Rightarrow> u32 \<Rightarrow> 'a udp_scheme \<Rightarrow> 'a udp_scheme option" where
  "pcnet_receive response_at this s =
     do {
       s \<leftarrow> net_handle_packet response_at (rx_buffer this + 1520 * rx_n (mem s) this) s;
       let n = rx_n (mem s) this;
       if 8 \<le> n then None
       else do {
         let s = s\<lparr>mem := raise_flag OWN (rx_descr this n) (mem s)\<rparr>;
         Some (s\<lparr>mem := set_rx_n this (next_slot (rx_n (mem s) this)) (mem s)\<rparr>)
       }
     }"

definition pcnet_irq :: "u32 \<Rightarrow> u32 \<Rightarrow> 'a udp_scheme \<Rightarrow> 'a udp_scheme option" where
  "pcnet_irq response_at this s =
     do {
       let (status, s) = read_csr32 this 0 s;
       let s = (if status AND 0x100 \<noteq> 0 then s\<lparr>mem := set_init_done this True (mem s)\<rparr> else s);
       s \<leftarrow> (if status AND 0x400 \<noteq> 0 then pcnet_receive response_at this s else Some s);
       let s = (if status AND 0x200 \<noteq> 0
                then s\<lparr>mem := set_tx_n this (next_slot (tx_n (mem s) this)) (mem s)\<rparr> else s);
       s \<leftarrow> (if status AND 0x8000 \<noteq> 0 then printf (lit (line ''PCNET Error!!!'')) [] s else Some s);
       Some (write_csr32 this 0 (status OR 0x400) s)
     }"

section \<open>Initialisation\<close>

text \<open>The loop that reads the address, for \<open>n\<close> more bytes from byte \<open>i\<close>.\<close>

primrec read_mac_loop :: "nat \<Rightarrow> u32 \<Rightarrow> u32 \<Rightarrow> 'a machine_scheme \<Rightarrow> 'a machine_scheme" where
  "read_mac_loop 0 this i s = s"
| "read_mac_loop (Suc n) this i s =
     (let (v, s) = read32 (dev_io_base (mem s) this + ucast i) s
      in read_mac_loop n this (i + 1) (s\<lparr>mem := wr8 (this + 34 + i) (ucast (v AND 0xff)) (mem s)\<rparr>))"

text \<open>The loop that fills the descriptors, for \<open>n\<close> more of them from \<open>i\<close>.\<close>

primrec descr_loop :: "nat \<Rightarrow> u32 \<Rightarrow> u32 \<Rightarrow> 'a paging_scheme \<Rightarrow> 'a paging_scheme" where
  "descr_loop 0 this i s = s"
| "descr_loop (Suc n) this i s =
     (let s = s\<lparr>mem := set_descr_buffer (rx_descr this i)
                  (vaddr_to_paddr (rx_buffer this) s + 1520 * i) (mem s)\<rparr>;
          s = s\<lparr>mem := set_descr_buffer (tx_descr this i)
                  (vaddr_to_paddr (tx_buffer this) s + 1520 * i) (mem s)\<rparr>;
          s = s\<lparr>mem := set_bcnt (rx_descr this i) 0xa10 (mem s)\<rparr>;
          s = s\<lparr>mem := set_ones (rx_descr this i) 0xf (mem s)\<rparr>;
          s = s\<lparr>mem := set_bcnt (tx_descr this i) 0xa10 (mem s)\<rparr>;
          s = s\<lparr>mem := set_ones (tx_descr this i) 0xf (mem s)\<rparr>;
          s = s\<lparr>mem := raise_flag OWN (rx_descr this i) (mem s)\<rparr>
      in descr_loop n this (i + 1) s)"

text \<open>The initialisation block: \<open>rlen\<close> and \<open>tlen\<close> are the upper halves of its bytes 2 and
  3, \<open>mac\<close> is at 4, \<open>rdra\<close> at 20 and \<open>tdra\<close> at 24.\<close>

definition set_len_field :: "u32 \<Rightarrow> u8 \<Rightarrow> mem \<Rightarrow> mem" where
  "set_len_field a v m = wr8 a (rd8 m a AND 0x0f OR push_bit 4 v) m"

definition fill_init_block :: "u32 \<Rightarrow> 'a paging_scheme \<Rightarrow> 'a paging_scheme" where
  "fill_init_block this s =
     (let s = s\<lparr>mem := set_len_field (init_block this + 2) 3 (mem s)\<rparr>;
          s = s\<lparr>mem := set_len_field (init_block this + 3) 3 (mem s)\<rparr>;
          s = s\<lparr>mem := wr32 (init_block this + 20) (vaddr_to_paddr (rx_descr this 0) s) (mem s)\<rparr>;
          s = s\<lparr>mem := wr32 (init_block this + 24) (vaddr_to_paddr (tx_descr this 0) s) (mem s)\<rparr>
      in s\<lparr>mem := memcpy (init_block this + 4) (this + 34) 6 (mem s)\<rparr>)"

partial_function (option) wait_init_done :: "'a hlt \<Rightarrow> u32 \<Rightarrow> 'a udp_scheme \<Rightarrow> 'a udp_scheme option" where
  "wait_init_done idle this s =
     (if \<not> init_done (mem s) this
      then case idle s of None \<Rightarrow> None | Some s' \<Rightarrow> wait_init_done idle this s'
      else Some s)"

interpretation init_poll: polling "wait_init_done idle this" "\<lambda>s. init_done (mem s) this" idle for idle this
proof
  show "wait_init_done idle this s = (if \<not> init_done (mem s) this
      then case idle s of None \<Rightarrow> None | Some t \<Rightarrow> wait_init_done idle this t else Some s)" for s
    by (rule wait_init_done.simps)
  fix P s s'
  assume P: "\<And>s. init_done (mem s) this \<Longrightarrow> P s s"
      "\<And>s t s'. \<not> init_done (mem s) this \<Longrightarrow> idle s = Some t \<Longrightarrow> P t s' \<Longrightarrow> P s s'"
    and run: "wait_init_done idle this s = Some s'"
  have "idle = idle \<and> this = this \<longrightarrow> P s s'"
    using run
    by (rule wait_init_done.raw_induct [where P = "\<lambda>h d s s'. h = idle \<and> d = this \<longrightarrow> P s s'", rotated])
      (auto split: if_splits option.splits intro: P)
  then show "P s s'" by simp
qed

text \<open>\<open>&= -0x700\<close> and \<open>&= -(0b101)\<close> are arithmetic negations, as in the code.\<close>

definition pcnet_init :: "'a hlt \<Rightarrow> u32 \<Rightarrow> 'a udp_scheme \<Rightarrow> 'a udp_scheme option" where
  "pcnet_init idle this s =
     do {
       let s = s\<lparr>mem := wr16 (this + 28) 0x1022 (mem s)\<rparr>;
       let s = s\<lparr>mem := wr16 (this + 30) 0x2000 (mem s)\<rparr>;
       let (header, s) = get_device_header (dev_info (mem s) this) s;
       let s = s\<lparr>mem := set_dev_irq_n this (irq_line header) (mem s)\<rparr>;
       s \<leftarrow> unmask_irq (uint (irq_line header)) s;
       s \<leftarrow> printf (lit (line ''AMD PCnet-PCI II detected'')) [] s;
       let (config, s) = config_read (dev_info (mem s) this) 0x04 s;
       let config = config OR 0x05;
       let s = config_write (dev_info (mem s) this) 0x04 config s;
       let io_base = bar0 header AND 0xfffffffc;
       s \<leftarrow> printf (lit (line ''PCNET I/O base: 0x%x'')) [io_base] s;
       s \<leftarrow> printf (lit (line ''PCNET IRQ: 0x%x'')) [ucast (irq_line header)] s;
       let s = s\<lparr>mem := set_dev_io_base this (ucast io_base) (mem s)\<rparr>;
       let (_, s) = read16 (dev_io_base (mem s) this + PCNET_16_RESET) s;
       let (_, s) = read32 (dev_io_base (mem s) this + PCNET_32_RESET) s;
       let s = write32 (dev_io_base (mem s) this + PCNET_32_RDP) 0 s;
       let s = read_mac_loop 6 this 0 s;
       s \<leftarrow> printf (lit (line ''MAC: %2x:%2x:%2x:%2x:%2x:%2x'')) (map ucast (dev_mac (mem s) this)) s;
       let (csr58, s) = read_csr32 this 58 s;
       let csr58 = csr58 AND 0xff00 OR 2;
       let s = write_csr32 this 58 csr58 s;
       let (bcr2, s) = read_bcr32 this 2 s;
       let bcr2 = bcr2 OR 2;
       let s = write_bcr32 this 2 bcr2 s;
       let s = s\<lparr>mem := memset (rx_descr this 0) 0 128 (mem s)\<rparr>;
       let s = s\<lparr>mem := memset (tx_descr this 0) 0 128 (mem s)\<rparr>;
       let s = s\<lparr>mem := memset (init_block this) 0 28 (mem s)\<rparr>;
       let s = descr_loop 8 this 0 s;
       let s = fill_init_block this s;
       let init_block_paddr = vaddr_to_paddr (init_block this) s;
       let s = write_csr32 this 1 (init_block_paddr AND 0xffff) s;
       let s = write_csr32 this 2 (drop_bit 16 init_block_paddr) s;
       let (csr0, s) = read_csr32 this 0 s;
       let csr0 = csr0 OR (1 OR push_bit 6 1);
       let s = write_csr32 this 0 csr0 s;
       let (csr3, s) = read_csr32 this 3 s;
       let csr3 = csr3 AND - 0x700;
       let s = write_csr32 this 3 csr3 s;
       s \<leftarrow> wait_init_done idle this s;
       let (csr0, s) = read_csr32 this 0 s;
       let csr0 = csr0 AND - 5;
       let csr0 = csr0 OR 2;
       Some (write_csr32 this 0 csr0 s)
     }"

end
