(* ===== verification/Effects.thy ===== *)
theory Effects
  imports Receive
begin

text \<open>
  What an operation can change. Console output, port accesses and the heap touch three
  parts of the state only: the memory, the port log and the cursor. \<open>io_only\<close> relates two
  states that differ in no other field, of whatever component; the collection \<open>effects\<close>
  holds the fact for every operation interrupt handlers use.
\<close>

named_theorems effects \<open>operations that change memory, port log and cursor only\<close>

definition io_only :: "'a video_scheme \<Rightarrow> 'a video_scheme \<Rightarrow> bool" where
  "io_only s s' \<longleftrightarrow> s' = s\<lparr>mem := mem s', port_log := port_log s', cursor := cursor s'\<rparr>"

lemma io_onlyI: "s' = s\<lparr>mem := m, port_log := l, cursor := c\<rparr> \<Longrightarrow> io_only s s'"
  by (simp add: io_only_def)

lemma io_only_refl [simp, effects]: "io_only s s"
  by (simp add: io_only_def)

lemma io_only_trans [trans]:
  assumes "io_only s t" "io_only t u"
  shows "io_only s u"
proof -
  obtain m l c m' l' c' where t: "t = s\<lparr>mem := m, port_log := l, cursor := c\<rparr>"
    and u: "u = t\<lparr>mem := m', port_log := l', cursor := c'\<rparr>"
    using assms unfolding io_only_def by blast
  show ?thesis
    by (rule io_onlyI [where m = m' and l = l' and c = c']) (simp add: t u)
qed

lemma io_only_mem [effects]: "io_only s t \<Longrightarrow> io_only s (t\<lparr>mem := m\<rparr>)"
  by (erule io_only_trans) (simp add: io_only_def)

lemma io_only_ports [effects]:
  "io_only s t \<Longrightarrow> io_only s (write8 p a t)"
  "io_only s t \<Longrightarrow> io_only s (write16 p b t)"
  "io_only s t \<Longrightarrow> io_only s (write32 p c t)"
  "io_only s t \<Longrightarrow> io_only s (snd (read8 p t))"
  "io_only s t \<Longrightarrow> io_only s (snd (read16 p t))"
  "io_only s t \<Longrightarrow> io_only s (snd (read32 p t))"
  by (erule io_only_trans, simp add: io_only_def port_defs Let_def)+

section \<open>Sequences of operations\<close>

text \<open>
  \<open>harmless s x\<close>: if the computation \<open>x\<close> has a result, it differs from \<open>s\<close> in these
  parts only. One rule for each construct the operations are written with.
\<close>

definition harmless :: "'a video_scheme \<Rightarrow> 'a video_scheme option \<Rightarrow> bool" where
  "harmless s x \<longleftrightarrow> (\<forall>s'. x = Some s' \<longrightarrow> io_only s s')"

lemma harmlessD: "harmless s x \<Longrightarrow> x = Some s' \<Longrightarrow> io_only s s'"
  by (simp add: harmless_def)

lemma harmless_Some: "io_only s t \<Longrightarrow> harmless s (Some t)"
  by (simp add: harmless_def)

lemma harmless_None: "harmless s None"
  by (simp add: harmless_def)

lemma harmless_bind:
  "harmless s x \<Longrightarrow> (\<And>t. io_only s t \<Longrightarrow> harmless s (f t)) \<Longrightarrow> harmless s (x \<bind> f)"
  by (auto simp: harmless_def bind_eq_Some_conv)

lemma harmless_let_state:
  "io_only s e \<Longrightarrow> (\<And>t. io_only s t \<Longrightarrow> harmless s (f t)) \<Longrightarrow> harmless s (let t = e in f t)"
  by (simp add: Let_def)

lemma harmless_let_pair:
  "io_only s (snd e) \<Longrightarrow> (\<And>v t. io_only s t \<Longrightarrow> harmless s (f v t)) \<Longrightarrow> harmless s (let (v, t) = e in f v t)"
  by (simp add: Let_def case_prod_unfold)

lemma harmless_let: "(\<And>v. harmless s (f v)) \<Longrightarrow> harmless s (let v = e in f v)"
  by simp

lemma harmless_if: "harmless s x \<Longrightarrow> harmless s y \<Longrightarrow> harmless s (if b then x else y)"
  by simp

lemma harmless_call:
  "(\<And>s'. f t = Some s' \<Longrightarrow> io_only t s') \<Longrightarrow> io_only s t \<Longrightarrow> harmless s (f t)"
  by (auto simp: harmless_def intro: io_only_trans)

lemma harmless_alloc:
  "(\<And>p t'. f t = Some (p, t') \<Longrightarrow> io_only t t') \<Longrightarrow> io_only s t
   \<Longrightarrow> (\<And>p t'. io_only s t' \<Longrightarrow> harmless s (g (p, t'))) \<Longrightarrow> harmless s (f t \<bind> g)"
  by (auto simp: harmless_def bind_eq_Some_conv) (metis io_only_trans)

lemma io_only_if [effects]: "io_only s t \<Longrightarrow> io_only s u \<Longrightarrow> io_only s (if b then t else u)"
  by simp

lemma io_only_after: "(\<And>t. io_only t (f t)) \<Longrightarrow> io_only s t \<Longrightarrow> io_only s (f t)"
  by (blast intro: io_only_trans)

lemma io_only_result_let:
  "io_only s (snd e) \<Longrightarrow> (\<And>v t. io_only s t \<Longrightarrow> io_only s (snd (f v t)))
   \<Longrightarrow> io_only s (snd (let (v, t) = e in f v t))"
  by (simp add: Let_def case_prod_unfold)

lemma io_only_result_let_state:
  "io_only s e \<Longrightarrow> (\<And>t. io_only s t \<Longrightarrow> io_only s (snd (f t))) \<Longrightarrow> io_only s (snd (let t = e in f t))"
  by (simp add: Let_def)

lemma io_only_result_let_value:
  "(\<And>v. io_only s (snd (f v))) \<Longrightarrow> io_only s (snd (let v = e in f v))"
  by simp

lemma io_only_result: "io_only s t \<Longrightarrow> io_only s (snd (v, t))"
  by simp

lemmas result_rules = io_only_result_let_state io_only_result_let io_only_result_let_value io_only_result

lemmas harmless_rules = harmless_let_state harmless_let_pair harmless_let harmless_if harmless_Some
  harmless_None

section \<open>Console output\<close>

lemma io_only_put_pixel: "io_only s (put_pixel x y c s)"
  by (simp add: io_only_def put_pixel_def Let_def)

lemma io_only_putc_row: "io_only s (putc_row n bits px py s)"
proof (induction n arbitrary: s)
  case 0
  then show ?case by simp
next
  case (Suc n)
  then show ?case by (simp add: Let_def) (blast intro: io_only_trans io_only_put_pixel)
qed

lemma io_only_putc_rows: "putc_rows n glyph px py s = Some s' \<Longrightarrow> io_only s s'"
proof (induction n arbitrary: s)
  case 0
  then show ?case by simp
next
  case (Suc n)
  from Suc.prems show ?case
    by (auto simp: Let_def split: option.splits)
      (blast intro: io_only_trans io_only_putc_row Suc.IH)
qed

lemma io_only_putc:
  assumes "putc c s = Some s'"
  shows "io_only s s'"
proof -
  obtain pos t where t: "putc_type c s = Some (pos, t)" and s': "s' = putc_finish pos t"
    using assms by (auto simp: putc_eq split: option.splits)
  have "io_only s t"
    using t by (auto simp: putc_type_def Let_def bind_eq_Some_conv split: if_splits dest: io_only_putc_rows)
  moreover have "io_only t s'"
    by (simp add: s' putc_finish_def Let_def set_cursor_pos_def scroll_def io_only_def)
  ultimately show ?thesis by (rule io_only_trans)
qed

lemma io_only_puts: "puts cs s = Some s' \<Longrightarrow> io_only s s'"
proof (induction cs arbitrary: s)
  case Nil
  then show ?case by simp
next
  case (Cons c cs)
  from Cons.prems show ?case
    by (auto split: option.splits) (blast intro: io_only_trans io_only_putc Cons.IH)
qed

lemma io_only_printf: "printf fmt va_args s = Some s' \<Longrightarrow> io_only s s'"
  unfolding printf_def numeral_2_eq_2 printf_depth_format
  by (auto split: option.splits dest: io_only_puts)

lemma harmless_printf: "io_only s t \<Longrightarrow> harmless s (printf fmt va_args t)"
  by (rule harmless_call [OF io_only_printf])

section \<open>The heap\<close>

lemma io_only_operator_new_array: "operator_new_array sz s = Some (p, s') \<Longrightarrow> io_only s s'"
  by (auto simp: operator_new_array_def kmalloc_def Let_def split: option.splits if_splits intro: effects)

lemma io_only_operator_delete_array: "io_only s (operator_delete_array p s)"
  by (simp add: operator_delete_array_def kfree_def Let_def case_prod_unfold effects)

end
