(* ===== verification/Drivers.thy ===== *)
theory Drivers
  imports Pcnet_Driver Effects
begin

text \<open>
  The driver classes beside \<open>PCNET\<close> (\<open>src/kernel/drivers/block.cpp\<close>,
  \<open>src/kernel/drivers/block/ahci.cpp\<close>, \<open>src/kernel/drivers/net/rtl8139.cpp\<close>), the
  virtual calls by dynamic class, and the bus scan \<open>init\<close> of
  \<open>src/kernel/drivers/pci.cpp\<close> that creates and starts the drivers.
\<close>

section \<open>Block devices\<close>

definition new_BlockDevice :: "u32 \<Rightarrow> mem \<Rightarrow> mem" where
  "new_BlockDevice this m = set_dev_class this DEVICE_BLOCK (new_Device this m)"

definition BlockDevice_read :: "u32 \<Rightarrow> u32 \<Rightarrow> u32" where
  "BlockDevice_read lba len = 0"

definition BlockDevice_write :: "u32 \<Rightarrow> u32 \<Rightarrow> u32 \<Rightarrow> 'a machine_scheme \<Rightarrow> 'a machine_scheme" where
  "BlockDevice_write lba buffer len s = s"

text \<open>The object has two subobjects of class \<open>Device\<close>: that of \<open>PCIDevice\<close> at 0 and that of
  \<open>BlockDevice\<close> at 36. Only the second one gets a \<open>dev_class\<close>.\<close>

definition new_PCIBlockDevice :: "device_info \<Rightarrow> u32 \<Rightarrow> mem \<Rightarrow> mem" where
  "new_PCIBlockDevice info this m = new_BlockDevice (this + 36) (new_PCIDevice info this m)"

definition sizeof_AHCI :: u32 where "sizeof_AHCI = 568"

definition new_AHCI :: "device_info \<Rightarrow> u32 \<Rightarrow> 'a devices_scheme \<Rightarrow> 'a devices_scheme" where
  "new_AHCI info this s =
     s\<lparr>mem := new_PCIBlockDevice info this (mem s),
       dynamic_class := (dynamic_class s)(this := Some Class_AHCI)\<rparr>"

text \<open>\<open>mmio_base\<close> is at 564.\<close>

definition ahci_init :: "u32 \<Rightarrow> 'a video_scheme \<Rightarrow> 'a video_scheme option" where
  "ahci_init this s =
     do {
       let (header, s) = get_device_header (dev_info (mem s) this) s;
       let s = s\<lparr>mem := wr32 (this + 564) (bar5 header AND 0xfffffffc) (mem s)\<rparr>;
       printf (lit (line ''AHCI MMIO base: %x'')) [rd32 (mem s) (this + 564)] s
     }"

definition ahci_irq :: "u32 \<Rightarrow> 'a machine_scheme \<Rightarrow> 'a machine_scheme" where
  "ahci_irq this s = s"

section \<open>RTL8139\<close>

definition new_RTL8139 :: "device_info \<Rightarrow> u32 \<Rightarrow> 'a devices_scheme \<Rightarrow> 'a devices_scheme option" where
  "new_RTL8139 info this s =
     printf (lit (line ''RTL8139 is trying to initialize, but driver is not implemented lol'')) []
       (s\<lparr>mem := new_PCIDevice info this (mem s),
          dynamic_class := (dynamic_class s)(this := Some Class_RTL8139)\<rparr>)"

definition rtl8139_init :: "u32 \<Rightarrow> 'a machine_scheme \<Rightarrow> 'a machine_scheme" where
  "rtl8139_init this s = s"

definition rtl8139_irq :: "u32 \<Rightarrow> 'a machine_scheme \<Rightarrow> 'a machine_scheme" where
  "rtl8139_irq this s = s"

section \<open>Virtual calls\<close>

text \<open>A call through a pointer that is null or to no object has no result. Whether there is an
  object is known from \<open>dynamic_class\<close>, which the constructors set: where \<open>kmalloc\<close> has no
  memory and answers its error value, the code builds the object there and goes on, and so does the
  model.\<close>

definition dev_irq :: "u32 \<Rightarrow> u32 \<Rightarrow> 'a udp_scheme \<Rightarrow> 'a udp_scheme option" where
  "dev_irq response_at this s =
     (if this = 0 then None
      else case dynamic_class s this of
          None \<Rightarrow> None
        | Some Class_PCNET \<Rightarrow> pcnet_irq response_at this s
        | Some Class_AHCI \<Rightarrow> Some (ahci_irq this s)
        | Some Class_RTL8139 \<Rightarrow> Some (rtl8139_irq this s))"

definition dev_init :: "'a hlt \<Rightarrow> u32 \<Rightarrow> 'a udp_scheme \<Rightarrow> 'a udp_scheme option" where
  "dev_init idle this s =
     (if this = 0 then None
      else case dynamic_class s this of
          None \<Rightarrow> None
        | Some Class_PCNET \<Rightarrow> pcnet_init idle this s
        | Some Class_AHCI \<Rightarrow> ahci_init this s
        | Some Class_RTL8139 \<Rightarrow> Some (rtl8139_init this s))"

section \<open>The bus scan\<close>

text \<open>One function of one device: what the two \<open>switch\<close> statements do.\<close>

definition probe :: "'a hlt \<Rightarrow> device_info \<Rightarrow> 'a udp_scheme \<Rightarrow> 'a udp_scheme option" where
  "probe idle info s =
     do {
       let (header, s) = get_device_header info s;
       s \<leftarrow> (if vendor_id header = 0x1022 \<and> device_id header = 0x2000 then do {
               (driver, s) \<leftarrow> operator_new sizeof_PCNET s;
               let s = new_PCNET info driver s;
               s \<leftarrow> register_driver driver s;
               dev_init idle driver s
             } else Some s);
       if class_code header = 0x01 \<and> sub_class header = 0x06 \<and> prog_if header = 0x01 then do {
         (driver, s) \<leftarrow> operator_new sizeof_AHCI s;
         let s = new_AHCI info driver s;
         s \<leftarrow> register_driver driver s;
         dev_init idle driver s
       } else Some s
     }"

definition at_bdf :: "u16 \<Rightarrow> u16 \<Rightarrow> u16 \<Rightarrow> device_info" where
  "at_bdf bus device function = \<lparr>info_bus = ucast bus, info_device = ucast device,
     info_function = ucast function, info_vendor_id = 0, info_device_id = 0\<rparr>"

definition function_count :: "u16 \<Rightarrow> u16 \<Rightarrow> 'a machine_scheme \<Rightarrow> nat \<times> 'a machine_scheme" where
  "function_count bus device s =
     (let (v, s) = config_read16 (at_bdf bus device 0) 0x0e s
      in (if v AND push_bit 7 1 \<noteq> 0 then 8 else 1, s))"

text \<open>The three loops, each for \<open>n\<close> more rounds from its counter.\<close>

primrec function_loop :: "nat \<Rightarrow> 'a hlt \<Rightarrow> u16 \<Rightarrow> u16 \<Rightarrow> u16 \<Rightarrow> 'a udp_scheme \<Rightarrow> 'a udp_scheme option" where
  "function_loop 0 idle bus device function s = Some s"
| "function_loop (Suc n) idle bus device function s =
     (case probe idle (at_bdf bus device function) s of
        None \<Rightarrow> None | Some s' \<Rightarrow> function_loop n idle bus device (function + 1) s')"

primrec device_loop :: "nat \<Rightarrow> 'a hlt \<Rightarrow> u16 \<Rightarrow> u16 \<Rightarrow> 'a udp_scheme \<Rightarrow> 'a udp_scheme option" where
  "device_loop 0 idle bus device s = Some s"
| "device_loop (Suc n) idle bus device s =
     (let (func, s) = function_count bus device s
      in case function_loop func idle bus device 0 s of
           None \<Rightarrow> None | Some s' \<Rightarrow> device_loop n idle bus (device + 1) s')"

primrec bus_loop :: "nat \<Rightarrow> 'a hlt \<Rightarrow> u16 \<Rightarrow> 'a udp_scheme \<Rightarrow> 'a udp_scheme option" where
  "bus_loop 0 idle bus s = Some s"
| "bus_loop (Suc n) idle bus s =
     (case device_loop 32 idle bus 0 s of
        None \<Rightarrow> None | Some s' \<Rightarrow> bus_loop n idle (bus + 1) s')"

definition pci_init :: "'a hlt \<Rightarrow> 'a udp_scheme \<Rightarrow> 'a udp_scheme option" where
  "pci_init idle s = bus_loop 8 idle 0 s"

end
