(* ===== verification/Pcnet_Ring.thy ===== *)
theory Pcnet_Ring
  imports Drivers Example_Machine
begin

text \<open>
  The transmit ring of the PCnet driver: what \<open>send_packet\<close> hands to the adapter, what
  happens to the packet after it, and how the interrupt handler moves the ring counters.
\<close>

section \<open>Descriptors\<close>

lemma raise_flag_other: "x \<noteq> d + 7 \<Longrightarrow> raise_flag k d m x = m x"
  by (simp add: raise_flag_def wr8_def)

lemma descr_flag_raise:
  "j < 8 \<Longrightarrow> descr_flag k (raise_flag j d m) d \<longleftrightarrow> descr_flag k m d \<or> k = j"
  by (auto simp: descr_flag_def raise_flag_def rd8_wr8_same bit_or_iff bit_exp_iff)

lemma set_bcnt_other: "x \<notin> region (d + 4) 2 \<Longrightarrow> set_bcnt d v m x = m x"
  by (simp add: set_bcnt_def wr16_other)

lemma descr_bcnt_set:
  "descr_bcnt (set_bcnt d v m) d = ucast v AND 0xfff"
proof -
  have m: "(0xfff :: u16) = mask 12" "(0xf000 :: u16) = NOT (mask 12)"
    by (simp_all add: mask_eq_exp_minus_1)
  show ?thesis
    unfolding descr_bcnt_def set_bcnt_def rd16_wr16_same m
    by (rule bit_word_eqI) (auto simp only: bit_and_iff bit_or_iff bit_not_iff)
qed

text \<open>The length field as the adapter reads it: minus the length, in twelve bits.\<close>

lemma unat_uminus_mod: "unat (- sz :: u32) mod 4096 = (4096 - unat sz mod 4096) mod 4096"
proof -
  define n where "n = unat sz"
  define q r where "q = n div 4096" and "r = n mod 4096"
  have n: "n = 4096 * q + r" "r < 4096" by (simp_all add: q_def r_def)
  show ?thesis
  proof (cases "n = 0")
    case True
    then show ?thesis by (simp add: n_def unat_eq_0)
  next
    case False
    have "n < 4294967296" unfolding n_def by (rule unat_lt32)
    then have "q \<le> 1048575" using n by linarith
    have "unat (- sz) = 4294967296 - n"
      using False unat_sub32 [of 0 sz] by (simp add: n_def)
    also have "\<dots> = (4096 - r) + 4096 * (1048575 - q)" using n \<open>q \<le> 1048575\<close> by simp
    finally have "unat (- sz) mod 4096 = (4096 - r) mod 4096" by (simp only: mod_mult_self2)
    then show ?thesis by (simp add: r_def n_def)
  qed
qed

lemma unat_bcnt:
  "unat (ucast (- sz AND 0xfff OR 0xf000 :: u32) AND 0xfff :: u16) = (4096 - unat sz mod 4096) mod 4096"
proof -
  have m: "(0xfff :: u16) = mask 12" "(0xfff :: u32) = mask 12" by (simp_all add: mask_eq_exp_minus_1)
  have h: "bit (0xf000 :: u32) k \<Longrightarrow> 12 \<le> k" for k
  proof -
    have "(0xf000 :: u32) = push_bit 12 0xf" by (simp add: push_bit_eq_mult)
    then show "bit (0xf000 :: u32) k \<Longrightarrow> 12 \<le> k" by (simp only: bit_push_bit_iff)
  qed
  have "ucast (- sz AND 0xfff OR 0xf000 :: u32) AND (0xfff :: u16) = ucast (take_bit 12 (- sz))"
    unfolding m
    by (rule bit_word_eqI)
      (auto simp only: bit_and_iff bit_or_iff bit_ucast_iff bit_mask_iff bit_take_bit_iff possible_bit_word dest: h, simp_all)
  moreover have "unat (ucast (take_bit 12 (- sz)) :: u16) = unat (- sz) mod 4096"
  proof -
    have "unat (- sz) mod 4096 < 65536" by (rule order_less_trans [of _ 4096]) simp_all
    then show ?thesis by (simp add: unsigned_ucast_eq take_bit_eq_mod unat_mod)
  qed
  ultimately show ?thesis by (simp add: unat_uminus_mod)
qed

section \<open>Sending\<close>

text \<open>What a call writes, followed byte by byte.\<close>

lemma send_packet_run:
  assumes n: "unat (tx_n (mem s) this) < 8"
    and d: "d = tx_descr this (tx_n (mem s) this)" "\<not> descr_flag OWN (mem s) d"
    and b: "b = descr_buffer (mem s) d" "apart b (unat sz) d 16"
    and frame: "apart buffer (unat sz) b (unat sz)" "apart buffer (unat sz) d 16"
    and counter: "tx_n_at = this + 24912" "apart b (unat sz) tx_n_at 4" "apart d 16 tx_n_at 4"
  shows "\<exists>s'. pcnet_send_packet this buffer sz s = Some s' \<and> s' = s\<lparr>mem := mem s'\<rparr> \<and>
    bytes_at (mem s') b (unat sz) = bytes_at (mem s) buffer (unat sz) \<and>
    descr_buffer (mem s') d = b \<and>
    unat (descr_bcnt (mem s') d) = (4096 - unat sz mod 4096) mod 4096 \<and>
    (\<forall>k. descr_flag k (mem s') d \<longleftrightarrow> k \<in> {STP, ENP, OWN} \<or> descr_flag k (mem s) d) \<and>
    (\<forall>x. x \<notin> region b (unat sz) \<longrightarrow> x \<notin> region d 8 \<longrightarrow> mem s' x = mem s x) \<and>
    pcnet_send_packet this other_buffer other_sz s' = Some s'"
proof -
  define m1 where "m1 = set_bcnt d (- sz AND 0xfff OR 0xf000) (mem s)"
  define m2 where "m2 = memcpy b buffer sz m1"
  define m3 where "m3 = raise_flag OWN d (raise_flag ENP d (raise_flag STP d m2))"
  let ?s' = "s\<lparr>mem := m3\<rparr>"
  note region = region_def [of d]
  have off: "x \<in> region (d + 4) 2 \<longleftrightarrow> 4 \<le> unat (x - d) \<and> unat (x - d) < 6"
    "x = d + 7 \<longleftrightarrow> unat (x - d) = 7" for x
    using in_region_offset [of 4 2 x d] in_region_offset [of 7 1 x d]
    by (auto simp: region_def unat_eq_0)
  have out: "x \<in> region b (unat sz) \<Longrightarrow> 16 \<le> unat (x - d)"
    "x \<in> region buffer (unat sz) \<Longrightarrow> 16 \<le> unat (x - d)"
    "x \<in> region tx_n_at 4 \<Longrightarrow> 16 \<le> unat (x - d)"
    "x \<in> region tx_n_at 4 \<Longrightarrow> x \<notin> region b (unat sz)" for x
    using apart_disjoint [OF b(2)] apart_disjoint [OF frame(2)] apart_disjoint [OF counter(2)]
      apart_disjoint [OF counter(3)] unfolding region disjoint_iff mem_Collect_eq by (meson not_less)+
  have m3: "m3 x = m2 x" if "unat (x - d) \<noteq> 7" for x
    using that off(2) by (simp add: m3_def raise_flag_other)
  have m2: "m2 x = m1 x" if "x \<notin> region b (unat sz)" for x
    using that by (simp add: m2_def memcpy_other)
  have m1: "m1 x = mem s x" if "unat (x - d) < 4 \<or> 6 \<le> unat (x - d)" for x
    using that off(1) by (auto simp: m1_def set_bcnt_other)
  have keep: "m3 x = mem s x" if "x \<notin> region b (unat sz)" "unat (x - d) < 4 \<or> 8 \<le> unat (x - d)" for x
    using that by (subst m3) (auto simp: m2 m1)
  have "bytes_at m3 b (unat sz) = bytes_at m2 b (unat sz)"
    using out(1) unat_lt32 [of sz] by (intro bytes_at_cong m3) fastforce+
  also have "\<dots> = bytes_at m1 buffer (unat sz)"
    unfolding m2_def by (rule bytes_at_memcpy [OF frame(1)])
  also have "\<dots> = bytes_at (mem s) buffer (unat sz)"
    using out(2) unat_lt32 [of sz] by (intro bytes_at_cong m1) fastforce+
  finally have bytes: "bytes_at m3 b (unat sz) = bytes_at (mem s) buffer (unat sz)" .
  have low: "x \<notin> region b (unat sz)" if "unat (x - d) < 16" for x using that out(1) [of x] by fastforce
  have addr: "descr_buffer m3 d = b"
    unfolding b(1) descr_buffer_def by (rule rd32_cong) (rule keep, auto simp: region low)
  have bcnt: "descr_bcnt m3 d = descr_bcnt m1 d"
    unfolding descr_bcnt_def by (rule arg_cong [where f = "\<lambda>w. w AND 0xfff"], rule rd16_cong)
      (subst m3, auto simp: off(1) m2 low)
  have "descr_flag k m2 d = descr_flag k (mem s) d" for k
    using off(2) [of "d + 7"] by (simp add: descr_flag_def rd8_def m2 m1 low)
  then have flags: "descr_flag k m3 d \<longleftrightarrow> k \<in> {STP, ENP, OWN} \<or> descr_flag k (mem s) d" for k
    by (auto simp: m3_def descr_flag_raise)
  have "tx_n m3 this = tx_n (mem s) this"
    unfolding tx_n_def counter(1) [symmetric] by (rule rd32_cong) (rule keep, erule out(4), drule out(3), linarith)
  moreover have small: "\<not> 8 \<le> tx_n (mem s) this" using n by (simp add: word_le_nat_alt)
  moreover have "descr_buffer m1 d = b"
    unfolding b(1) descr_buffer_def by (rule rd32_cong) (rule m1, auto simp: region)
  ultimately have run: "pcnet_send_packet this buffer sz s = Some ?s'"
    "pcnet_send_packet this other_buffer other_sz ?s' = Some ?s'"
    using d flags [of OWN]
    by (simp_all add: pcnet_send_packet_def Let_def m1_def m2_def m3_def)
  have "\<forall>x. x \<notin> region b (unat sz) \<longrightarrow> x \<notin> region d 8 \<longrightarrow> m3 x = mem s x"
    using keep by (auto simp: region)
  moreover have "unat (descr_bcnt m3 d) = (4096 - unat sz mod 4096) mod 4096"
    unfolding bcnt m1_def descr_bcnt_set by (rule unat_bcnt)
  ultimately show ?thesis
    using run bytes addr flags by (intro exI [of _ ?s']) simp
qed

text \<open>
  C7. \<open>send_packet\<close> hands the frame to the adapter: if the descriptor \<open>tx_n\<close> selects is the
  driver's, the frame is in the buffer of that descriptor afterwards, its length field is
  minus the length in twelve bits, start, end and ownership flags are raised, its address
  and the other flags are as before, and nothing beyond the buffer and the eight bytes of
  the descriptor is written. The next call before the ring counter moves has no effect:
  that packet is lost, although the other seven descriptors are free.
\<close>

theorem send_packet_hands_over:
  assumes n: "unat (tx_n (mem s) this) < 8"
    and d: "d = tx_descr this (tx_n (mem s) this)" "\<not> descr_flag OWN (mem s) d"
    and b: "b = descr_buffer (mem s) d" "apart b (unat sz) d 16"
    and frame: "apart buffer (unat sz) b (unat sz)" "apart buffer (unat sz) d 16"
    and counter: "tx_n_at = this + 24912" "apart b (unat sz) tx_n_at 4" "apart d 16 tx_n_at 4"
  shows "\<exists>s'. pcnet_send_packet this buffer sz s = Some s' \<and> s' = s\<lparr>mem := mem s'\<rparr> \<and>
    bytes_at (mem s') b (unat sz) = bytes_at (mem s) buffer (unat sz) \<and>
    descr_buffer (mem s') d = b \<and>
    unat (descr_bcnt (mem s') d) = (4096 - unat sz mod 4096) mod 4096 \<and>
    (\<forall>k. descr_flag k (mem s') d \<longleftrightarrow> k \<in> {STP, ENP, OWN} \<or> descr_flag k (mem s) d) \<and>
    (\<forall>x. x \<notin> region b (unat sz) \<longrightarrow> x \<notin> region d 8 \<longrightarrow> mem s' x = mem s x) \<and>
    pcnet_send_packet this other_buffer other_sz s' = Some s'"
  by (rule send_packet_run [OF assms])

text \<open>An adapter object at 2 MiB with a free first descriptor, and a frame of 60 bytes at 3 MiB.\<close>

definition tx_machine :: udp where
  "tx_machine = booted (wr32 0x2000b0 0x203130 (\<lambda>x. if x < 0x300000 then 0 else 0xab)) (\<lambda>_ _. 0) [0x200000]"

theorem send_packet_hands_over_witness:
  "\<exists>s'. pcnet_send_packet 0x200000 0x300000 60 tx_machine = Some s' \<and> descr_flag OWN (mem s') 0x2000b0 \<and>
     pcnet_send_packet 0x200000 0x310000 60 s' = Some s'"
proof -
  have "tx_n (mem tx_machine) 0x200000 = 0" "descr_buffer (mem tx_machine) 0x2000b0 = 0x203130"
    "\<not> descr_flag OWN (mem tx_machine) 0x2000b0"
    by (simp_all add: tx_machine_def booted_def tx_n_def descr_buffer_def rd32_wr32_same)
      (simp_all add: rd32_def wr32_def descr_flag_def rd8_def)
  then show ?thesis
    using send_packet_hands_over [where s = tx_machine and this = "0x200000" and d = "0x2000b0"
        and b = "0x203130" and sz = 60 and buffer = "0x300000" and tx_n_at = "0x206150"
        and other_buffer = "0x310000" and other_sz = 60]
    by (auto simp: apart_def tx_descr_def)
qed

end
