(* ===== verification/Delivery.thy ===== *)
theory Delivery
  imports Effects Example_Machine
begin

text \<open>
  Reception: which socket a received frame reaches, and when \<open>recv\<close> comes back with it.
\<close>

section \<open>From the frame to the socket\<close>

text \<open>The three headers of a frame at \<open>f\<close>, as the code looks at them: one behind the other,
  twenty bytes for the second.\<close>

definition frame_ethernet :: "mem \<Rightarrow> u32 \<Rightarrow> ethernet_header" where
  "frame_ethernet m f = ethernet_of (bytes_at m f 14)"

definition frame_ip :: "mem \<Rightarrow> u32 \<Rightarrow> ipv4_header" where
  "frame_ip m f = ipv4_of (bytes_at m (f + 14) 20)"

definition frame_udp :: "mem \<Rightarrow> u32 \<Rightarrow> udp_header" where
  "frame_udp m f = udp_of (bytes_at m (f + 34) 8)"

lemma rd16_bytes: "rd16 m a = of_le16 (bytes_at m a 2)"
  by (simp add: rd16_def of_le16_def rd8_def bytes_at_Suc numeral_2_eq_2)

lemma drop_bytes_at: "k \<le> n \<Longrightarrow> drop k (bytes_at m a n) = bytes_at m (a + of_nat k) (n - k)"
  using bytes_at_add [of m a k "n - k"] by simp

lemma of_le16_bytes_at:
  assumes "2 \<le> n"
  shows "of_le16 (bytes_at m a n) = rd16 m a"
proof -
  obtain k where "n = 2 + k" using assms by (metis le_Suc_ex)
  then show ?thesis using of_le16_append [of "bytes_at m a 2"] bytes_at_add [of m a 2 k] by (simp add: rd16_bytes)
qed

lemma frame_fields:
  "ether_type (frame_ethernet m f) = rd16 m (f + 12)"
  "ip_protocol (frame_ip m f) = rd8 m (f + 23)"
  "udp_dst_port (frame_udp m f) = rd16 m (f + 36)"
  by (simp_all add: frame_ethernet_def ethernet_of_def frame_ip_def ipv4_of_def frame_udp_def udp_of_def
      drop_bytes_at of_le16_bytes_at rd8_def add.assoc)

lemma udp_frame_run:
  fixes s :: "'a udp_scheme" and f :: u32
  defines "sock \<equiv> sockets s (ntohs (udp_dst_port (frame_udp (mem s) f)))"
  assumes "ntohs (ether_type (frame_ethernet (mem s) f)) \<noteq> ETH_PROTO_ARP"
    and "apart f 42 (sock + 8) 5"
  shows "if ntohs (ether_type (frame_ethernet (mem s) f)) = ETH_PROTO_IP
       \<and> ip_protocol (frame_ip (mem s) f) = IP_PROTO_UDP \<and> sock \<noteq> 0
    then \<exists>s'. net_handle_packet response_at f s = Some s' \<and> s' = s\<lparr>mem := mem s'\<rparr> \<and>
       got_packet (mem s') sock \<and> recv_buffer (mem s') sock = f + 42 \<and>
       (\<forall>x. x \<notin> region (sock + 8) 5 \<longrightarrow> mem s' x = mem s x)
    else net_handle_packet response_at f s = Some s"
proof -
  let ?m = "wr32 (sock + 8) (f + 42) (wr8 (sock + 12) 1 (mem s))"
  have port: "f + 34 + 2 = f + 36" by simp
  have flag: "x \<notin> region (sock + 8) 5 \<Longrightarrow> x \<notin> region (sock + 12) 1"
    "x \<notin> region (sock + 8) 5 \<Longrightarrow> x \<notin> region (sock + 8) 4" for x
    using region_offset [of 4 1 5 "sock + 8"] region_offset [of 0 4 5 "sock + 8"] by (auto simp: add.assoc)
  have "rd16 (wr8 (sock + 12) 1 (mem s)) (f + 36) = rd16 (mem s) (f + 36)"
  proof (rule rd16_cong)
    fix x assume "x \<in> region (f + 36) 2"
    then have "x \<in> region f 42" using region_offset [of 36 2 42 f] by auto
    then have "x \<notin> region (sock + 8) 5" using apart_disjoint [OF assms(3)] by auto
    then show "wr8 (sock + 12) 1 (mem s) x = mem s x" using flag by (simp add: wr8_other)
  qed
  then have udp: "udp_handle_packet (f + 34) s = (if sock = 0 then s else s\<lparr>mem := ?m\<rparr>)"
    by (simp add: udp_handle_packet_def Let_def store_got_packet_def sock_def frame_fields add.assoc)
  have run: "net_handle_packet response_at f s =
      (if ntohs (ether_type (frame_ethernet (mem s) f)) = ETH_PROTO_IP
         \<and> ip_protocol (frame_ip (mem s) f) = IP_PROTO_UDP \<and> sock \<noteq> 0
       then Some (s\<lparr>mem := ?m\<rparr>) else Some s)"
    using assms(2) udp
    by (auto simp: net_handle_packet_def ip_handle_packet_def Let_def frame_fields add.assoc)
  have "apart (sock + 8) 4 (sock + 12) 1"
    by (simp add: apart_def)
  then have "got_packet ?m sock"
    by (simp add: got_packet_def rd8_wr32_apart rd8_wr8_same)
  moreover have "recv_buffer ?m sock = f + 42" by (simp add: recv_buffer_def rd32_wr32_same)
  moreover have "\<forall>x. x \<notin> region (sock + 8) 5 \<longrightarrow> ?m x = mem s x"
    using flag by (simp add: wr32_other wr8_other)
  ultimately show ?thesis unfolding run by auto
qed

text \<open>
  C10. A received frame reaches a socket exactly if it carries IP and in it UDP and a socket
  is open for its destination port: then the socket's flag is raised and its buffer points
  behind the headers, at byte 42 of the frame, and nothing but these two fields (and what
  lies between them and the flag) changes. Every other frame that does not carry ARP
  changes nothing. Lengths, checksums and addresses are not looked at.
\<close>

theorem udp_frame_delivered:
  fixes s :: "'a udp_scheme" and f :: u32
  defines "sock \<equiv> sockets s (ntohs (udp_dst_port (frame_udp (mem s) f)))"
  assumes "ntohs (ether_type (frame_ethernet (mem s) f)) \<noteq> ETH_PROTO_ARP"
    and "apart f 42 (sock + 8) 5"
  shows "if ntohs (ether_type (frame_ethernet (mem s) f)) = ETH_PROTO_IP
       \<and> ip_protocol (frame_ip (mem s) f) = IP_PROTO_UDP \<and> sock \<noteq> 0
    then \<exists>s'. net_handle_packet response_at f s = Some s' \<and> s' = s\<lparr>mem := mem s'\<rparr> \<and>
       got_packet (mem s') sock \<and> recv_buffer (mem s') sock = f + 42 \<and>
       (\<forall>x. x \<notin> region (sock + 8) 5 \<longrightarrow> mem s' x = mem s x)
    else net_handle_packet response_at f s = Some s"
  unfolding sock_def by (rule udp_frame_run [OF assms(2,3) [unfolded sock_def]])

text \<open>A datagram for port 68 at \<open>0x5000\<close>, and a socket for that port at \<open>0x6000\<close>.\<close>

definition datagram_machine :: udp where
  "datagram_machine = (booted (write_bytes 0x500c [0x08, 0x00]
       (write_bytes 0x5017 [0x11] (write_bytes 0x5024 [0x00, 0x44] (\<lambda>_. 0)))) (\<lambda>_ _. 0) [])
     \<lparr>sockets := (\<lambda>_. 0)(68 := 0x6000)\<rparr>"

lemma datagram_machine_fields:
  "ntohs (ether_type (frame_ethernet (mem datagram_machine) 0x5000)) = ETH_PROTO_IP"
  "ip_protocol (frame_ip (mem datagram_machine) 0x5000) = IP_PROTO_UDP"
  "ntohs (udp_dst_port (frame_udp (mem datagram_machine) 0x5000)) = 68"
  by (simp_all add: frame_fields datagram_machine_def booted_def rd16_def rd8_def ETH_PROTO_IP_def
      IP_PROTO_UDP_def ntohs_def htons_def)

theorem udp_frame_delivered_witness:
  "\<exists>s'. net_handle_packet 0 0x5000 datagram_machine = Some s' \<and> got_packet (mem s') 0x6000
     \<and> recv_buffer (mem s') 0x6000 = 0x502a"
proof -
  have sock: "sockets datagram_machine 68 = 0x6000" by (simp add: datagram_machine_def)
  from udp_frame_delivered [where s = datagram_machine and f = "0x5000" and response_at = 0,
      unfolded datagram_machine_fields sock]
  show ?thesis by (auto simp: ETH_PROTO_IP_def ETH_PROTO_ARP_def apart_def)
qed

section \<open>Waiting for a packet\<close>

text \<open>Printing characters below 128 always succeeds.\<close>

lemma putc_rows_total:
  assumes "unat glyph + 16 \<le> 4096" "n \<le> 16"
  shows "putc_rows n glyph px py s \<noteq> None"
  using assms(2)
proof (induction n arbitrary: s)
  case 0
  then show ?case by simp
next
  case (Suc n)
  have "unat (glyph + of_nat (16 - Suc n)) < 4096"
    using assms(1) by (subst unat_add_of_nat) simp_all
  then show ?case using Suc by (simp add: Let_def font_byte_def)
qed

lemma putc_total:
  assumes "unat c < 128"
  shows "putc c s \<noteq> None"
proof -
  have "unat (scast c * VGA_CHAR_HEIGHT :: u32) = unat c * 16"
    using assms by (simp add: VGA_CHAR_HEIGHT_def unat_word_ariths unat_scast8)
  then have "putc_rows 16 (scast c * VGA_CHAR_HEIGHT) (cur_x (cursor s) * 8)
      (cur_y (cursor s) * VGA_CHAR_HEIGHT) s \<noteq> None"
    using assms by (intro putc_rows_total) simp_all
  then show ?thesis by (auto simp: putc_eq putc_type_def Let_def split: option.splits bind_splits)
qed

lemma puts_total: "\<forall>c\<in>set cs. unat c < 128 \<Longrightarrow> puts cs s \<noteq> None"
  using putc_total by (induction cs arbitrary: s) (auto split: option.split)

lemma recv_print_total: "\<exists>t. printf (lit (line ''%x'')) [v] s = Some t \<and> io_only s t"
proof -
  have "unat c < 128" if "c \<in> set (hex_string v 0)" for c
    using string_chars [of c v 0] that by auto
  then obtain t where t: "puts (hex_string v 0 @ [10]) s = Some t"
    using puts_total [of "hex_string v 0 @ [10]" s] by auto
  have "format (lit (line ''%x'')) [v] = Some (hex_string v 0 @ [10])"
    by (simp add: lit_def line_def byte_of_char_def width_value_simps decimal_digit_def)
  then have "printf (lit (line ''%x'')) [v] s = Some t"
    unfolding printf_def numeral_2_eq_2 printf_depth_format using t by simp
  then show ?thesis using io_only_printf by blast
qed

text \<open>
  C33. \<open>recv\<close> comes back exactly if a round of waiting raises the flag: then it stops at the
  first such round, returns the buffer of the socket and lowers the flag. If no round raises
  it, \<open>recv\<close> has no result. Before it waits it only prints.
\<close>

theorem recv_returns_iff:
  "\<exists>t. io_only s t \<and>
    (\<forall>r s'. recv hlt junk sock s = Some (r, s') \<longleftrightarrow>
      (\<exists>n u. first_ready (\<lambda>s. got_packet (mem s) sock) hlt n t \<and> rounds hlt n t = Some u \<and>
        r = recv_buffer (mem u) sock \<and> s' = u\<lparr>mem := (mem u)(sock + 12 := 0)\<rparr>))"
proof -
  obtain t where t: "printf (lit (line ''%x'')) [junk AND 0xffffff00 OR ucast (rd8 (mem s) (sock + 12))] s = Some t"
    "io_only s t" using recv_print_total by blast
  have "apart (sock + 12) 1 (sock + 8) 4" by (simp add: apart_def)
  then have "recv_buffer (store_got_packet sock False m) sock = recv_buffer m sock" for m
    by (simp add: recv_buffer_def store_got_packet_def rd32_wr8_apart)
  then have "recv hlt junk sock s = (case recv_wait hlt sock t of None \<Rightarrow> None
      | Some u \<Rightarrow> Some (recv_buffer (mem u) sock, u\<lparr>mem := (mem u)(sock + 12 := 0)\<rparr>))"
    by (simp add: recv_def t(1) Let_def) (simp add: store_got_packet_def wr8_def split: option.split bind_split)
  then have "recv hlt junk sock s = Some (r, s') \<longleftrightarrow> (\<exists>u. recv_wait hlt sock t = Some u \<and>
      r = recv_buffer (mem u) sock \<and> s' = u\<lparr>mem := (mem u)(sock + 12 := 0)\<rparr>)" for r s'
    by (auto split: option.splits)
  then show ?thesis
    using t(2) unfolding recv_poll.ends_iff by (intro exI [of _ t]) blast
qed

section \<open>Waiting, instruction by instruction\<close>

text \<open>
  C34. The loop of \<open>recv\<close> and interrupts, instruction by instruction. If interrupts came in
  \<open>hlt\<close> only, its runs would be those of \<open>recv_wait\<close>. They may come at every point, since they are
  enabled: then \<open>recv\<close> can leave the loop after \<open>n\<close> interrupts exactly if these have raised the
  flag, at the first such \<open>n\<close> or later, and it can be halted after \<open>n\<close> interrupts exactly if the
  flag was down after some number up to \<open>n\<close>, whether or not it is up now. So a packet that comes
  between the look at the flag and \<open>hlt\<close> does not wake \<open>recv\<close>: only another interrupt does. If
  no interrupt could come at that one point, \<open>recv\<close> would be halted only with its flag down.
\<close>

theorem recv_interleavings:
  "(recv_wait irq sock s = Some u \<longleftrightarrow>
      (poll_step {} (\<lambda>s. got_packet (mem s) sock) irq)\<^sup>*\<^sup>* (Looking, s) (Left, u)) \<and>
   ((poll_step {Looking, Before_hlt} (\<lambda>s. got_packet (mem s) sock) irq)\<^sup>*\<^sup>* (Looking, s) (Left, u) \<longleftrightarrow>
      (\<exists>n. rounds irq n s = Some u) \<and> got_packet (mem u) sock) \<and>
   ((poll_step {Looking, Before_hlt} (\<lambda>s. got_packet (mem s) sock) irq)\<^sup>*\<^sup>* (Looking, s) (Halted, u) \<longleftrightarrow>
      (\<exists>k n t. k \<le> n \<and> rounds irq k s = Some t \<and> \<not> got_packet (mem t) sock \<and> rounds irq n s = Some u)) \<and>
   (poll_step {Looking, Before_hlt} (\<lambda>s. got_packet (mem s) sock) irq (Halted, u) c \<longleftrightarrow>
      (\<exists>v. irq u = Some v \<and> c = (Looking, v))) \<and>
   ((poll_step {Looking} (\<lambda>s. got_packet (mem s) sock) irq)\<^sup>*\<^sup>* (Looking, s) (Halted, u) \<longleftrightarrow>
      (\<exists>n. rounds irq n s = Some u) \<and> \<not> got_packet (mem u) sock)"
  using recv_poll.by_instructions [of irq sock s u]
  by (simp add: poll_halts_iff poll_guarded_halts_iff poll_leaves_iff halted_step) blast

text \<open>The datagram of before arrives with the only interrupt there is. As a round of waiting, it lets
  \<open>recv\<close> return; between the look and \<open>hlt\<close>, it leaves \<open>recv\<close> halted with the flag raised for ever.\<close>

definition only_interrupt :: "udp \<Rightarrow> udp option" where
  "only_interrupt s = (if got_packet (mem s) 0x6000 then None else net_handle_packet 0 0x5000 s)"

theorem recv_interleavings_witness:
  "\<exists>t. recv_wait only_interrupt 0x6000 datagram_machine = Some t \<and> got_packet (mem t) 0x6000 \<and>
     (poll_step {Looking, Before_hlt} (\<lambda>s. got_packet (mem s) 0x6000) only_interrupt)\<^sup>*\<^sup>* (Looking, datagram_machine) (Halted, t) \<and>
     (\<nexists>c. poll_step {Looking, Before_hlt} (\<lambda>s. got_packet (mem s) 0x6000) only_interrupt (Halted, t) c)"
proof -
  let ?irq = only_interrupt
  define t where "t = udp_handle_packet 0x5022 datagram_machine"
  have port: "ntohs (rd16 (mem datagram_machine) 0x5024) = 68"
    using datagram_machine_fields(3) by (simp add: frame_fields)
  have no: "\<not> got_packet (mem datagram_machine) 0x6000"
    by (simp add: got_packet_def datagram_machine_def booted_def rd8_def)
  then have step: "?irq datagram_machine = Some t"
    using datagram_machine_fields(1,2)
    by (simp add: only_interrupt_def t_def net_handle_packet_def ip_handle_packet_def frame_fields ETH_PROTO_IP_def IP_PROTO_UDP_def)
  have yes: "got_packet (mem t) 0x6000"
    using port by (simp add: t_def udp_handle_packet_def Let_def got_packet_def datagram_machine_def booted_def
        store_got_packet_def rd8_def rd16_def wr8_def wr32_def ntohs_def htons_def)
  have "recv_wait ?irq 0x6000 datagram_machine = Some t"
    using no step yes by (simp add: recv_wait.simps)
  moreover have "\<exists>k n u. k \<le> n \<and> rounds ?irq k datagram_machine = Some u \<and> \<not> got_packet (mem u) 0x6000 \<and>
      rounds ?irq n datagram_machine = Some t"
    using no step by (intro exI [of _ 0] exI [of _ 1] exI [of _ datagram_machine]) simp
  moreover have "?irq t = None" using yes by (simp add: only_interrupt_def)
  ultimately show ?thesis
    using yes recv_interleavings [of ?irq "0x6000" datagram_machine t] recv_interleavings [of ?irq "0x6000" _ t]
    by (intro exI [of _ t]) auto
qed

end
