(* ===== verification/Heap_Objects.thy ===== *)
theory Heap_Objects
  imports Heap_Contract
begin

text \<open>
  The heap as its clients see it: objects, each a pointer with a number of bytes at it.
  New objects are apart from all others, allocation keeps the bytes of every object, and
  writing inside an object harms neither the heap nor the others. The clients here are the
  ARP cache and the ring of tasks; both link nodes of sixteen bytes through a word at 12.
\<close>

definition heap_ready :: "'a heap_scheme \<Rightarrow> bool" where
  "heap_ready s \<longleftrightarrow> (\<exists>bs e. heap_inv s bs e \<and> e \<le> 0xffffffff)"

definition object :: "'a heap_scheme \<Rightarrow> u32 \<Rightarrow> nat \<Rightarrow> bool" where
  "object s a n \<longleftrightarrow> 0 < n \<and> (\<exists>bs e b. heap_inv s bs e \<and> e \<le> 0xffffffff \<and> b \<in> used_blocks bs \<and>
     a = b_addr b + 16 \<and> n \<le> unat (b_size b))"

lemma object_iff:
  assumes "heap_inv s bs e" "e \<le> 0xffffffff"
  shows "object s a n \<longleftrightarrow> 0 < n \<and> (\<exists>b\<in>used_blocks bs. a = b_addr b + 16 \<and> n \<le> unat (b_size b))"
proof -
  have "bs' = bs" if "heap_inv s bs' e'" for bs' e'
    using heap_inv_unique [OF that assms(1)] by simp
  then show ?thesis using assms unfolding object_def by blast
qed

lemma object_payload:
  assumes "heap_inv s bs e" "e \<le> 0xffffffff" "b \<in> used_blocks bs" "0 < n" "n \<le> unat (b_size b)"
  shows "region (b_addr b + 16) n \<subseteq> payload b" "unat (b_addr b + 16) = unat (b_addr b) + 16"
    "unat (b_addr b) + 16 + unat (b_size b) \<le> 0xffffffff"
proof -
  note D = heap_invD [OF assms(1)]
  have b: "b \<in> set bs" using assms(3) by (simp add: used_blocks_def)
  have "0 < b_size b" using assms(4,5) by (auto simp: word_less_nat_alt)
  then show u: "unat (b_addr b + 16) = unat (b_addr b) + 16" by (rule payload_pointer(1) [OF D(2) assms(2) b])
  show bound: "unat (b_addr b) + 16 + unat (b_size b) \<le> 0xffffffff"
    using laid_bounds [OF D(2) b] assms(2) by simp
  show "region (b_addr b + 16) n \<subseteq> payload b"
    using bound u assms(5) by (auto simp: in_region_nat payload_def)
qed

lemma object_bounds:
  assumes "object s a n"
  shows "a \<noteq> 0" "0 < n" "unat a + n \<le> 0xffffffff"
proof -
  obtain bs e b where b: "heap_inv s bs e" "e \<le> 0xffffffff" "b \<in> used_blocks bs" "a = b_addr b + 16"
    "n \<le> unat (b_size b)" and n: "0 < n" using assms unfolding object_def by blast
  note P = object_payload [OF b(1-3) n b(5)]
  show "0 < n" "unat a + n \<le> 0xffffffff" using n b(4,5) P by simp_all
  have "0 < unat a" using b(4) P(2) by simp
  then show "a \<noteq> 0" by auto
qed

lemma object_apart:
  assumes "object s a n" "object s c k" "a \<noteq> c"
  shows "apart a n c k"
proof -
  obtain bs e b where b: "heap_inv s bs e" "e \<le> 0xffffffff" "b \<in> used_blocks bs" "a = b_addr b + 16"
    "n \<le> unat (b_size b)" and n: "0 < n" using assms(1) unfolding object_def by blast
  obtain d where d: "d \<in> used_blocks bs" "c = b_addr d + 16" "k \<le> unat (b_size d)" and k: "0 < k"
    using assms(2) object_iff [OF b(1,2)] by blast
  note P = object_payload [OF b(1-3) n b(5)] and Q = object_payload [OF b(1,2) d(1) k d(3)]
  have "b \<noteq> d" using assms(3) b(4) d(2) by auto
  then have "payload b \<inter> payload d = {}"
    using payload_disjoint [OF heap_invD(2) [OF b(1)]] b(3) d(1) by (simp add: used_blocks_def)
  moreover have "a \<in> payload b" "c \<in> payload d" using P(1) Q(1) n k b(4) d(2) by auto
  ultimately have "a \<notin> payload d" "c \<notin> payload b" by auto
  then consider "unat a + n \<le> unat c" | "unat c + k \<le> unat a"
    using b(4,5) d(2,3) P(2) Q(2) by (fastforce simp: payload_def)
  then show ?thesis
    using n k b(4,5) d(2,3) P(2,3) Q(2,3) by cases (auto intro: apartI apartI2)
qed

text \<open>Bytes beyond the headers do not matter for the heap.\<close>

lemma heap_inv_write:
  assumes "heap_inv s bs e" "\<And>x. x \<in> header_bytes bs \<Longrightarrow> m x = mem s x"
  shows "heap_inv (s\<lparr>mem := m\<rparr>) bs e"
proof -
  have "read_header m (b_addr b) = read_header (mem s) (b_addr b)" if "b \<in> set bs" for b
  proof -
    have "m x = mem s x" if "x \<in> region (b_addr b) 16" for x
      using assms(2) in_header_bytesI [OF \<open>b \<in> set bs\<close> that] .
    moreover have "region (b_addr b + of_nat j) 4 \<subseteq> region (b_addr b) 16" if "j \<le> 12" for j
      using that by (intro region_offset) simp_all
    ultimately have "rd32 m (b_addr b + of_nat j) = rd32 (mem s) (b_addr b + of_nat j)" if "j \<le> 12" for j
      using that by (intro rd32_cong) blast
    from this [of 4] this [of 8] this [of 12] show ?thesis
      using \<open>\<And>x. x \<in> region (b_addr b) 16 \<Longrightarrow> m x = mem s x\<close> [of "b_addr b"]
      by (simp add: read_header_def rd8_def)
  qed
  then have "chain m 0 bs 0 = chain (mem s) 0 bs 0" by (rule chain_cong)
  then show ?thesis using assms(1) unfolding heap_inv_def by auto
qed

text \<open>Memory the heap does not use: neither headers nor objects are there.\<close>

definition spare :: "'a heap_scheme \<Rightarrow> u32 set \<Rightarrow> bool" where
  "spare s X \<longleftrightarrow> (\<forall>bs e. heap_inv s bs e \<longrightarrow>
     X \<inter> header_bytes bs = {} \<and> (\<forall>b\<in>used_blocks bs. X \<inter> payload b = {}))"

lemma spare_iff:
  assumes "heap_inv s bs e"
  shows "spare s X \<longleftrightarrow> X \<inter> header_bytes bs = {} \<and> (\<forall>b\<in>used_blocks bs. X \<inter> payload b = {})"
proof -
  have "bs' = bs" if "heap_inv s bs' e'" for bs' e'
    using heap_inv_unique [OF that assms] by simp
  then show ?thesis using assms unfolding spare_def by blast
qed

lemma heap_write:
  assumes "object s a n" "\<And>x. x \<notin> region a n \<Longrightarrow> m x = mem s x"
  shows "heap_ready (s\<lparr>mem := m\<rparr>)" "object (s\<lparr>mem := m\<rparr>) c k = object s c k"
    "spare (s\<lparr>mem := m\<rparr>) X = spare s X" "heap_inv s ds k' \<Longrightarrow> heap_inv (s\<lparr>mem := m\<rparr>) ds k'"
proof -
  obtain bs e b where b: "heap_inv s bs e" "e \<le> 0xffffffff" "b \<in> used_blocks bs" "a = b_addr b + 16"
    "n \<le> unat (b_size b)" "0 < n" using assms(1) unfolding object_def by blast
  have "payload b \<inter> header_bytes bs = {}"
    using payload_not_header [OF heap_invD(2) [OF b(1)]] b(3) by (simp add: used_blocks_def)
  then have "m x = mem s x" if "x \<in> header_bytes bs" for x
    using object_payload(1) [OF b(1-3,6,5)] that b(4) assms(2) by blast
  then have inv: "heap_inv (s\<lparr>mem := m\<rparr>) bs e" by (rule heap_inv_write [OF b(1)])
  then show "heap_ready (s\<lparr>mem := m\<rparr>)" using b(2) by (auto simp: heap_ready_def)
  show "object (s\<lparr>mem := m\<rparr>) c k = object s c k"
    using object_iff [OF inv b(2)] object_iff [OF b(1,2)] by simp
  show "spare (s\<lparr>mem := m\<rparr>) X = spare s X"
    using spare_iff [OF inv] spare_iff [OF b(1)] by simp
  show "heap_inv (s\<lparr>mem := m\<rparr>) ds k'" if "heap_inv s ds k'"
    using heap_inv_unique [OF that b(1)] inv by simp
qed

lemma spare_write:
  assumes "heap_ready s" "spare s X" "\<And>x. x \<notin> X \<Longrightarrow> m x = mem s x"
  shows "heap_ready (s\<lparr>mem := m\<rparr>)" "object (s\<lparr>mem := m\<rparr>) c k = object s c k"
    "object s a n \<Longrightarrow> X \<inter> region a n = {}"
proof -
  obtain bs e where inv: "heap_inv s bs e" "e \<le> 0xffffffff" using assms(1) by (auto simp: heap_ready_def)
  then have out: "X \<inter> header_bytes bs = {}" "b \<in> used_blocks bs \<Longrightarrow> X \<inter> payload b = {}" for b
    using assms(2) unfolding spare_def by blast+
  then have "m x = mem s x" if "x \<in> header_bytes bs" for x using that assms(3) by blast
  then have inv': "heap_inv (s\<lparr>mem := m\<rparr>) bs e" by (rule heap_inv_write [OF inv(1)])
  then show "heap_ready (s\<lparr>mem := m\<rparr>)" using inv(2) by (auto simp: heap_ready_def)
  show "object (s\<lparr>mem := m\<rparr>) c k = object s c k"
    using object_iff [OF inv' inv(2)] object_iff [OF inv] by simp
  show "X \<inter> region a n = {}" if ob: "object s a n"
  proof -
    obtain b where b: "b \<in> used_blocks bs" "a = b_addr b + 16" "n \<le> unat (b_size b)" "0 < n"
      using ob [unfolded object_iff [OF inv]] by blast
    then show ?thesis using object_payload(1) [OF inv b(1,4,3)] out(2) [OF b(1)] by blast
  qed
qed

text \<open>Allocation, for requests of at least one byte.\<close>

lemma heap_new:
  assumes "heap_ready s" "0 < unat sz"
  shows "kmalloc sz s = Some (-1, s) \<or>
    (\<exists>p m. kmalloc sz s = Some (p, s\<lparr>mem := m\<rparr>) \<and> heap_ready (s\<lparr>mem := m\<rparr>) \<and>
      object (s\<lparr>mem := m\<rparr>) p (unat sz) \<and>
      (\<forall>a n. object s a n \<longrightarrow> object (s\<lparr>mem := m\<rparr>) a n \<and> a \<noteq> p \<and> (\<forall>x\<in>region a n. m x = mem s x)))"
proof -
  obtain bs e where inv: "heap_inv s bs e" "e \<le> 0xffffffff" using assms(1) by (auto simp: heap_ready_def)
  note R = kmalloc_refines [OF inv(1) fitsD [OF fits_below [OF heap_invD(2) [OF inv(1)] inv(2)]], of sz]
  show ?thesis
  proof (cases "abs_malloc sz bs")
    case None
    then show ?thesis using R by simp
  next
    case (Some r)
    then obtain p bs' where r: "abs_malloc sz bs = Some (p, bs')" by (cases r) auto
    obtain m where m: "kmalloc sz s = Some (p, s\<lparr>mem := m\<rparr>)" "heap_inv (s\<lparr>mem := m\<rparr>) bs' e"
      "\<And>x. x \<notin> header_bytes bs' \<Longrightarrow> m x = mem s x" using R r by auto
    obtain c where c: "b_addr c + 16 = p" "sz \<le> b_size c" "\<And>b. b \<in> used_blocks bs \<Longrightarrow> b_addr b \<noteq> b_addr c"
      "used_blocks bs' = insert c (used_blocks bs)"
      using abs_malloc_used [OF r heap_invD(2) [OF inv(1)]] by blast
    have "object (s\<lparr>mem := m\<rparr>) p (unat sz)"
      unfolding object_iff [OF m(2) inv(2)]
      using assms(2) c(1,2,4) by (intro conjI bexI [of _ c]) (simp_all add: word_le_nat_alt)
    moreover have "object (s\<lparr>mem := m\<rparr>) a n \<and> a \<noteq> p \<and> (\<forall>x\<in>region a n. m x = mem s x)" if ob: "object s a n" for a n
    proof -
      obtain b where b: "b \<in> used_blocks bs" "a = b_addr b + 16" "n \<le> unat (b_size b)" "0 < n"
        using ob [unfolded object_iff [OF inv]] by blast
      have b': "b \<in> used_blocks bs'" using b(1) c(4) by simp
      have "payload b \<inter> header_bytes bs' = {}"
        using payload_not_header [OF heap_invD(2) [OF m(2)]] b' by (simp add: used_blocks_def)
      then have "\<forall>x\<in>region a n. m x = mem s x"
        using object_payload(1) [OF m(2) inv(2) b' b(4,3)] b(2) m(3) by blast
      moreover have "a \<noteq> p" using c(1) c(3) [OF b(1)] b(2) by auto
      ultimately show ?thesis unfolding object_iff [OF m(2) inv(2)] using b b' by blast
    qed
    moreover have "heap_ready (s\<lparr>mem := m\<rparr>)" using m(2) inv(2) by (auto simp: heap_ready_def)
    ultimately show ?thesis using m(1) by blast
  qed
qed

lemma heap_new':
  assumes "heap_ready s" "0 < unat sz" "kmalloc sz s = Some (p, t)" "p \<noteq> -1"
  obtains m where "t = s\<lparr>mem := m\<rparr>" "heap_ready t" "object t p (unat sz)"
    "\<And>a n. object s a n \<Longrightarrow> object t a n" "\<And>a n. object s a n \<Longrightarrow> a \<noteq> p"
    "\<And>a n x. object s a n \<Longrightarrow> x \<in> region a n \<Longrightarrow> m x = mem s x"
  using heap_new [OF assms(1,2)] assms(3,4) by auto

text \<open>Everything below the heap is spare.\<close>

lemma spare_below:
  assumes "\<And>x. x \<in> X \<Longrightarrow> unat x < unat (heap_top s)"
  shows "spare s X"
  unfolding spare_def
proof (intro allI impI)
  fix bs e assume "heap_inv s bs e"
  note D = heap_invD(2) [OF this]
  have "unat (heap_top s) \<le> unat x" if h: "x \<in> header_bytes bs \<or> (\<exists>b\<in>used_blocks bs. x \<in> payload b)" for x
  proof -
    obtain b where "b \<in> set bs" "unat (b_addr b) \<le> unat x"
      using h by (auto simp: in_header_bytes [OF D] used_blocks_def payload_def)
    then show ?thesis using laid_bounds [OF D] by fastforce
  qed
  then show "X \<inter> header_bytes bs = {} \<and> (\<forall>b\<in>used_blocks bs. X \<inter> payload b = {})"
    using assms by force
qed

text \<open>A run of \<open>kmalloc\<close> followed on the list of blocks.\<close>

lemma kmalloc_run:
  assumes "heap_inv s bs e" "e \<le> 0xffffffff" "abs_malloc sz bs = Some (p, bs')"
  obtains m where "kmalloc sz s = Some (p, s\<lparr>mem := m\<rparr>)" "heap_inv (s\<lparr>mem := m\<rparr>) bs' e"
  using kmalloc_refines [OF assms(1) fitsD [OF fits_below [OF heap_invD(2) [OF assms(1)] assms(2)]], of sz] assms(3)
  by auto

text \<open>A heap just set up, with one free block: its first object is behind the header.\<close>

lemma fresh_heap:
  assumes "mem s = (\<lambda>_. 0)" "0 < unat base" "unat base + 16 + unat sz \<le> 0xffffffff"
  shows "heap_ready (heap_allocator_init base sz s)"
    and "req < sz \<Longrightarrow> \<exists>m. kmalloc req (heap_allocator_init base sz s) =
      Some (base + 16, (heap_allocator_init base sz s)\<lparr>mem := m\<rparr>)"
proof -
  have inv: "heap_inv (heap_allocator_init base sz s) [Block base sz False] (unat base + 16 + unat sz)"
    using assms by (intro heap_init_inv) (simp_all add: rd32_def)
  then show "heap_ready (heap_allocator_init base sz s)" using assms(3) unfolding heap_ready_def by blast
  assume "req < sz"
  then have "abs_malloc req [Block base sz False] = Some (base + 16, carve req (Block base sz False))"
    by (simp add: suitable_def)
  then show "\<exists>m. kmalloc req (heap_allocator_init base sz s) =
      Some (base + 16, (heap_allocator_init base sz s)\<lparr>mem := m\<rparr>)"
    using kmalloc_refines [OF inv fitsD [OF fits_below [OF heap_invD(2) [OF inv] assms(3)]], of req] by auto
qed

section \<open>The contract of the clients\<close>

text \<open>
  What a client needs to know of its objects, as predicates of the memory: they are apart,
  and a write inside one of them leaves the others, as objects and in their bytes.
\<close>

locale object_store =
  fixes object :: "mem \<Rightarrow> u32 \<Rightarrow> nat \<Rightarrow> bool"
  assumes object_valid: "object m a n \<Longrightarrow> a \<noteq> 0 \<and> 0 < n \<and> unat a + n \<le> 0xffffffff"
    and objects_apart: "object m a n \<Longrightarrow> object m c k \<Longrightarrow> a \<noteq> c \<Longrightarrow> apart a n c k"
    and object_write: "object m a n \<Longrightarrow> (\<And>x. x \<notin> region a n \<Longrightarrow> m' x = m x) \<Longrightarrow> object m' c k = object m c k"
begin

lemma other_bytes:
  assumes "object m a n" "object m c k" "a \<noteq> c" "\<And>x. x \<notin> region a n \<Longrightarrow> m' x = m x" "x \<in> region c k"
  shows "m' x = m x"
  using apart_disjoint [OF objects_apart [OF assms(1-3)]] assms(4,5) by auto

lemma part_of_object: "object m c k \<Longrightarrow> i + j \<le> k \<Longrightarrow> region (c + of_nat i) j \<subseteq> region c k"
  using object_valid [of m c k] by (intro region_offset) auto

lemma other_word:
  assumes "object m a n" "object m c k" "a \<noteq> c" "\<And>x. x \<notin> region a n \<Longrightarrow> m' x = m x" "i + 4 \<le> k"
  shows "rd32 m' (c + of_nat i) = rd32 m (c + of_nat i)"
  using part_of_object [OF assms(2,5)] other_bytes [OF assms(1-4)] by (intro rd32_cong) blast

lemma other_list:
  assumes "object m a n" "object m c k" "a \<noteq> c" "\<And>x. x \<notin> region a n \<Longrightarrow> m' x = m x" "i + j \<le> k"
  shows "bytes_at m' (c + of_nat i) j = bytes_at m (c + of_nat i) j"
proof (rule bytes_at_cong)
  show "m' x = m x" if "x \<in> region (c + of_nat i) j" for x
    using part_of_object [OF assms(2,5)] other_bytes [OF assms(1-4)] that by blast
  show "j \<le> 4294967296" using object_valid [OF assms(2)] assms(5) by simp
qed

end

lemma object_state: "object (s\<lparr>mem := mem s\<rparr>) = object s"
  by simp

interpretation kernel_objects: object_store "\<lambda>m. object (s\<lparr>mem := m\<rparr>)" for s :: "'a heap_scheme"
proof
  fix m m' a n c k
  show "a \<noteq> 0 \<and> 0 < n \<and> unat a + n \<le> 0xffffffff" if "object (s\<lparr>mem := m\<rparr>) a n"
    using object_bounds [OF that] by simp
  show "apart a n c k" if "object (s\<lparr>mem := m\<rparr>) a n" "object (s\<lparr>mem := m\<rparr>) c k" "a \<noteq> c"
    by (rule object_apart [OF that])
  show "object (s\<lparr>mem := m'\<rparr>) c k = object (s\<lparr>mem := m\<rparr>) c k"
    if "object (s\<lparr>mem := m\<rparr>) a n" "\<And>x. x \<notin> region a n \<Longrightarrow> m' x = m x"
    using heap_write(2) [OF that(1), of m'] that(2) by simp
qed

section \<open>Linked nodes\<close>

text \<open>Each node's word at 12 is the next node, the last one's is \<open>q\<close>.\<close>

fun links :: "mem \<Rightarrow> u32 list \<Rightarrow> u32 \<Rightarrow> bool" where
  "links m [] q \<longleftrightarrow> True"
| "links m (e # es) q \<longleftrightarrow> rd32 m (e + 12) = (case es of [] \<Rightarrow> q | f # _ \<Rightarrow> f) \<and> links m es q"

lemma links_snoc: "links m (es @ [p]) q \<longleftrightarrow> links m es p \<and> rd32 m (p + 12) = q"
  by (induction es) (auto split: list.split)

lemma links_cong:
  "(\<And>e. e \<in> set es \<Longrightarrow> rd32 m' (e + 12) = rd32 m (e + 12)) \<Longrightarrow> links m' es q = links m es q"
  by (induction es) auto

lemma links_relink:
  assumes "links m es q" "es \<noteq> []" "distinct es" "rd32 m' (last es + 12) = p"
    and "\<And>e. e \<in> set es \<Longrightarrow> e \<noteq> last es \<Longrightarrow> rd32 m' (e + 12) = rd32 m (e + 12)"
  shows "links m' es p"
proof -
  obtain xs l where es: "es = xs @ [l]" using assms(2) by (metis rev_exhaust)
  have "links m' xs l = links m xs l"
    using assms(3,5) by (intro links_cong) (auto simp: es)
  then show ?thesis using assms(1,4) by (simp add: es links_snoc)
qed

lemma links_nth:
  "links m es q \<Longrightarrow> i < length es \<Longrightarrow> rd32 m (es ! i + 12) = (if Suc i < length es then es ! Suc i else q)"
proof (induction es arbitrary: i)
  case Nil
  then show ?case by simp
next
  case (Cons e es)
  then show ?case by (cases i) (auto split: list.splits)
qed

lemma node_field: "region (e + 12) 4 \<subseteq> region e 16"
  using region_offset [of 12 4 16 e] by simp

text \<open>The last node of a list made to point to \<open>p\<close>.\<close>

lemma links_last:
  assumes "\<And>e. e \<in> set es \<Longrightarrow> object s e 16" "distinct es" "es \<noteq> []" "links (mem s) es q"
    and m: "m = wr32 (last es + 12) p (mem s)"
  shows "links m es p" "heap_ready (s\<lparr>mem := m\<rparr>)" "object (s\<lparr>mem := m\<rparr>) a n = object s a n"
    "\<And>x. x \<notin> region (last es + 12) 4 \<Longrightarrow> m x = mem s x"
    "\<And>x. object s a n \<Longrightarrow> a \<noteq> last es \<Longrightarrow> x \<in> region a n \<Longrightarrow> m x = mem s x"
proof -
  have l: "last es \<in> set es" using assms(3) by simp
  show out: "\<And>x. x \<notin> region (last es + 12) 4 \<Longrightarrow> m x = mem s x" by (simp add: m wr32_other)
  then have o: "x \<notin> region (last es) 16 \<Longrightarrow> m x = mem s x" for x using node_field by blast
  show "heap_ready (s\<lparr>mem := m\<rparr>)" "object (s\<lparr>mem := m\<rparr>) a n = object s a n"
    using heap_write [OF assms(1) [OF l], of m] o by simp_all
  show same: "m x = mem s x" if "object s a n" "a \<noteq> last es" "x \<in> region a n" for a n x
    using kernel_objects.other_bytes [where s = s and m = "mem s" and a = "last es" and n = 16 and c = a and k = n and m' = m and x = x] assms(1) [OF l] that o by simp
  show "links m es p"
  proof (rule links_relink [OF assms(4,3,2)])
    show "rd32 m (last es + 12) = p" by (simp add: m mem_simps)
    fix e assume e: "e \<in> set es" "e \<noteq> last es"
    then show "rd32 m (e + 12) = rd32 (mem s) (e + 12)"
      using same [OF assms(1) [OF e(1)] e(2)] node_field by (intro rd32_cong) blast
  qed
qed

end
