(* ===== verification/Heap_Buffers.thy ===== *)
theory Heap_Buffers
  imports Heap_Objects
begin

text \<open>
  Temporary buffers: what a function that allocates a buffer, fills it, uses it and frees it
  again leaves of the heap. All such a function writes lies in the part of the heap that no
  block in use occupies, and nested buffers take ever smaller parts of it.
\<close>

definition same_outside :: "u32 set \<Rightarrow> mem \<Rightarrow> mem \<Rightarrow> bool" where
  "same_outside X m m' \<longleftrightarrow> (\<forall>x. x \<notin> X \<longrightarrow> m' x = m x)"

lemma same_outsideD: "same_outside X m m' \<Longrightarrow> x \<notin> X \<Longrightarrow> m' x = m x"
  by (simp add: same_outside_def)

lemma same_outside_trans: "same_outside X m m' \<Longrightarrow> same_outside X m' m'' \<Longrightarrow> same_outside X m m''"
  by (simp add: same_outside_def)

lemma same_outside_mono: "same_outside X m m' \<Longrightarrow> X \<subseteq> Y \<Longrightarrow> same_outside Y m m'"
  by (auto simp: same_outside_def)

lemma same_outside_bytes: "same_outside X m m' \<Longrightarrow> region a n \<inter> X = {} \<Longrightarrow> n \<le> 4294967296 \<Longrightarrow> bytes_at m' a n = bytes_at m a n"
  by (rule bytes_at_cong) (auto simp: same_outside_def)

definition free_area :: "block list \<Rightarrow> nat \<Rightarrow> u32 set" where
  "free_area bs e = {x. unat (b_addr (hd bs)) \<le> unat x \<and> unat x < e} - (\<Union>b\<in>used_blocks bs. payload b)"

lemma header_bytes_free:
  assumes "heap_inv s bs e"
  shows "header_bytes bs \<subseteq> free_area bs e"
proof
  fix x assume x: "x \<in> header_bytes bs"
  note D = heap_invD [OF assms]
  obtain b where b: "b \<in> set bs" "unat (b_addr b) \<le> unat x" "unat x < unat (b_addr b) + 16"
    using x in_header_bytes [OF D(2)] by blast
  have "unat (heap_top s) \<le> unat (b_addr b)" "unat (b_addr b) + 16 + unat (b_size b) \<le> e"
    using laid_bounds [OF D(2) b(1)] by auto
  moreover have "b_addr (hd bs) = heap_top s" using assms by (simp add: heap_inv_def)
  moreover have "x \<notin> payload c" if "c \<in> used_blocks bs" for c
    using payload_not_header [OF D(2), of c] that x by (auto simp: used_blocks_def)
  ultimately show "x \<in> free_area bs e" using b by (auto simp: free_area_def)
qed

lemma malloc_area:
  assumes inv: "heap_inv s bs e" "heap_inv s' bs' e" "heap_top s' = heap_top s" and e: "e \<le> 0xffffffff"
    and r: "abs_malloc sz bs = Some (p, bs')" "0 < unat sz"
  shows "free_area bs' e \<subseteq> free_area bs e" "region p (unat sz) \<subseteq> free_area bs e"
    "region p (unat sz) \<inter> free_area bs' e = {}" "unat p + unat sz \<le> 0xffffffff" "0 < unat p"
proof -
  note D = heap_invD [OF inv(1)] and D' = heap_invD [OF inv(2)]
  have top: "b_addr (hd bs') = b_addr (hd bs)" using inv by (simp add: heap_inv_def)
  obtain c where c: "b_addr c + 16 = p" "sz \<le> b_size c" "c \<notin> used_blocks bs" "used_blocks bs' = insert c (used_blocks bs)"
    using abs_malloc_used [OF r(1) D(2)] by blast
  show sub: "free_area bs' e \<subseteq> free_area bs e" using top c(4) by (auto simp: free_area_def)
  have used: "c \<in> used_blocks bs'" and size: "unat sz \<le> unat (b_size c)"
    using c(2,4) by (simp_all add: word_le_nat_alt)
  note P = object_payload [OF inv(2) e used r(2) size]
  have reg: "region p (unat sz) \<subseteq> payload c" using P(1) c(1) by simp
  show "region p (unat sz) \<inter> free_area bs' e = {}" using reg used by (auto simp: free_area_def)
  have "payload c \<inter> payload b = {}" if "b \<in> used_blocks bs" for b
    using payload_disjoint [OF D'(2)] used c(3,4) that by (auto simp: used_blocks_def)
  moreover have "unat (heap_top s) \<le> unat x \<and> unat x < e" if "x \<in> payload c" for x
    using laid_bounds [OF D'(2), of c] used that inv(3) by (auto simp: payload_def used_blocks_def)
  moreover have "b_addr (hd bs) = heap_top s" using inv(1) by (simp add: heap_inv_def)
  ultimately show "region p (unat sz) \<subseteq> free_area bs e" using reg by (auto simp: free_area_def)
  show "unat p + unat sz \<le> 0xffffffff" "0 < unat p" using P(2,3) size c(1) by auto
qed

text \<open>One buffer: the allocation, and what freeing it brings back whatever has happened in
  between, as long as the blocks are then as they were after the allocation.\<close>

lemma buffer_alloc:
  fixes s :: "'a heap_scheme"
  assumes inv: "heap_inv s bs e" and e: "e \<le> 0xffffffff" and co: "coalesced bs"
    and r: "abs_malloc sz bs = Some (p, bs')" "0 < unat sz"
  obtains m where "operator_new_array sz s = Some (p, s\<lparr>mem := m\<rparr>)" "heap_inv (s\<lparr>mem := m\<rparr>) bs' e" "coalesced bs'"
    "same_outside (free_area bs e) (mem s) m"
    "free_area bs' e \<subseteq> free_area bs e" "region p (unat sz) \<subseteq> free_area bs e"
    "region p (unat sz) \<inter> free_area bs' e = {}" "unat p + unat sz \<le> 0xffffffff"
    "\<And>t :: 'a heap_scheme. heap_inv t bs' e \<Longrightarrow> \<exists>m'. operator_delete_array p t = t\<lparr>mem := m'\<rparr> \<and> heap_inv (t\<lparr>mem := m'\<rparr>) bs e \<and>
       same_outside (free_area bs e) (mem t) m'"
proof -
  note D = heap_invD [OF inv]
  obtain m where m: "kmalloc sz s = Some (p, s\<lparr>mem := m\<rparr>)" "heap_inv (s\<lparr>mem := m\<rparr>) bs' e"
    "\<And>x. x \<notin> header_bytes bs' \<Longrightarrow> m x = mem s x"
    using kmalloc_refines [OF inv fitsD [OF fits_below [OF D(2) e]], of sz] r(1) by auto
  note A = malloc_area [OF inv m(2) _ e r]
  have area: "free_area bs' e \<subseteq> free_area bs e" by (rule A(1)) simp
  have "\<exists>m'. operator_delete_array p t = t\<lparr>mem := m'\<rparr> \<and> heap_inv (t\<lparr>mem := m'\<rparr>) bs e \<and>
       same_outside (free_area bs e) (mem t) m'" if t: "heap_inv t bs' e" for t :: "'a heap_scheme"
  proof -
    obtain c where c: "b_addr c + 16 = p" "used_blocks bs' = insert c (used_blocks bs)"
      using abs_malloc_used [OF r(1) D(2)] by blast
    then have "c \<in> set bs'" by (auto simp: used_blocks_def)
    then obtain m' where m': "kfree p t = t\<lparr>mem := m'\<rparr>" "heap_inv (t\<lparr>mem := m'\<rparr>) (abs_free p bs') e"
      "\<And>x. x \<notin> header_bytes bs' \<Longrightarrow> m' x = mem t x"
      using kfree_refines [OF t, of c] c(1) by auto
    moreover have "abs_free p bs' = bs" by (rule abs_free_malloc [OF co D(2) r(1)])
    ultimately show ?thesis
      using header_bytes_free [OF t] area by (intro exI [of _ m']) (auto simp: operator_delete_array_def same_outside_def)
  qed
  moreover have "m x = mem s x" if "x \<notin> free_area bs e" for x
    using m(3) header_bytes_free [OF m(2)] area that by blast
  ultimately show ?thesis
    using m(1,2) coalesced_malloc [OF co r(1)] area A(2-4)
    by (intro that [of m]) (simp_all add: operator_new_array_def same_outside_def)
qed

text \<open>Writes beyond the headers keep the blocks.\<close>

lemma heap_inv_outside:
  "heap_inv s bs e \<Longrightarrow> (\<And>x. x \<in> free_area bs e \<Longrightarrow> m x = mem s x) \<Longrightarrow> heap_inv (s\<lparr>mem := m\<rparr>) bs e"
  by (rule heap_inv_write) (use header_bytes_free in blast)+

text \<open>Enough room for buffers allocated one after the other.\<close>

fun room_for :: "u32 list \<Rightarrow> block list \<Rightarrow> bool" where
  "room_for [] bs \<longleftrightarrow> True"
| "room_for (n # ns) bs \<longleftrightarrow> (case abs_malloc n bs of None \<Rightarrow> False | Some (p, bs') \<Rightarrow> room_for ns bs')"

end
