(* ===== verification/Transmit.thy ===== *)
theory Transmit
  imports Delivery Pcnet_Ring Heap_Buffers Checksums
begin

text \<open>
  The way of a datagram down the stack: UDP, IPv4 and Ethernet each put their header in front
  of the data, in a buffer of their own, until the adapter gets the frame. All of it happens
  in free memory of the heap, which is as before afterwards.
\<close>

section \<open>Memory apart\<close>

lemma apart_disjointI: "0 < n \<Longrightarrow> 0 < k \<Longrightarrow> region a n \<inter> region b k = {} \<Longrightarrow> apart a n b k"
proof -
  assume h: "0 < n" "0 < k" "region a n \<inter> region b k = {}"
  then have "a \<in> region a n" "b \<in> region b k" by simp_all
  then have "a \<notin> region b k" "b \<notin> region a n" using h(3) by blast+
  then show ?thesis by (simp add: region_def apart_def)
qed

lemma bytes_at_memcpy_disjoint:
  assumes "region src (unat sz) \<inter> region dst (unat sz) = {}"
  shows "bytes_at (memcpy dst src sz m) dst (unat sz) = bytes_at m src (unat sz)"
proof (cases "unat sz = 0")
  case False
  then have "apart src (unat sz) dst (unat sz)" using assms by (intro apart_disjointI) simp_all
  then show ?thesis by (rule bytes_at_memcpy)
qed simp

lemma region_split:
  assumes "i + n \<le> 4294967295"
  shows "region a (i + n) = region a i \<union> region (a + of_nat i) n" "region a i \<inter> region (a + of_nat i) n = {}"
  using assms by (auto simp: in_region_offset) (auto simp: region_def)

lemma packet_bytes:
  assumes "length hdr + unat sz \<le> 4294967295" "region src (unat sz) \<inter> region p (length hdr + unat sz) = {}"
  shows "bytes_at (memcpy (p + of_nat (length hdr)) src sz (write_bytes p hdr m)) p (length hdr + unat sz) =
    hdr @ bytes_at m src (unat sz)"
    "x \<notin> region p (length hdr + unat sz) \<Longrightarrow> memcpy (p + of_nat (length hdr)) src sz (write_bytes p hdr m) x = m x"
proof -
  note S = region_split [OF assms(1), of p]
  let ?m = "write_bytes p hdr m"
  let ?m' = "memcpy (p + of_nat (length hdr)) src sz ?m"
  have hdr: "length hdr \<le> 4294967295" using assms(1) by simp
  have "bytes_at ?m' p (length hdr) = bytes_at ?m p (length hdr)"
    using S(2) hdr by (intro bytes_at_cong memcpy_other) auto
  also have "\<dots> = hdr" by (rule bytes_at_write_bytes [OF hdr])
  finally have head: "bytes_at ?m' p (length hdr) = hdr" .
  have "bytes_at ?m' (p + of_nat (length hdr)) (unat sz) = bytes_at ?m src (unat sz)"
    using S(1) assms(2) by (intro bytes_at_memcpy_disjoint) auto
  also have "\<dots> = bytes_at m src (unat sz)"
    using S(1) assms(2) unat_lt32 [of sz] hdr by (intro bytes_at_cong write_bytes_other) auto
  finally show "bytes_at ?m' p (length hdr + unat sz) = hdr @ bytes_at m src (unat sz)"
    using head by (simp add: bytes_at_add)
  assume "x \<notin> region p (length hdr + unat sz)"
  then show "?m' x = m x" using S(1) hdr by (simp add: memcpy_other write_bytes_other)
qed

section \<open>A frame given to the adapter\<close>

definition tx_slot :: "'a machine_scheme \<Rightarrow> u32 \<Rightarrow> u32" where
  "tx_slot s a = tx_descr a (tx_n (mem s) a)"

definition tx_target :: "'a machine_scheme \<Rightarrow> u32 \<Rightarrow> u32" where
  "tx_target s a = descr_buffer (mem s) (tx_slot s a)"

text \<open>The memory that says which adapter it is and what state it is in.\<close>

definition adapter_bytes :: "'a machine_scheme \<Rightarrow> u32 \<Rightarrow> u32 list \<Rightarrow> u32 set" where
  "adapter_bytes s a ds = (\<Union>d\<in>set ds. region (d + 8) 4) \<union> region (a + 34) 6 \<union> region (a + 24912) 4 \<union>
     region (tx_slot s a) 16"

text \<open>The first network device of the registry is a PCnet adapter whose current descriptor is
  the driver's, and a frame of \<open>len\<close> bytes fits where the adapter expects it; all of that is
  apart from \<open>X\<close>.\<close>

definition adapter_ready :: "u32 \<Rightarrow> u32 list \<Rightarrow> nat \<Rightarrow> u32 set \<Rightarrow> 'a devices_scheme \<Rightarrow> bool" where
  "adapter_ready a ds len X s \<longleftrightarrow> registry_is s ds \<and> find_device_by_class DEVICE_NETWORK s = a \<and> a \<noteq> 0 \<and>
     dynamic_class s a = Some Class_PCNET \<and> unat (tx_n (mem s) a) < 8 \<and> \<not> descr_flag OWN (mem s) (tx_slot s a) \<and>
     apart (tx_target s a) len (tx_slot s a) 16 \<and> apart (tx_target s a) len (a + 24912) 4 \<and>
     (adapter_bytes s a ds \<union> region (tx_target s a) len) \<inter> X = {}"

text \<open>The frame \<open>bs\<close> is in the buffer of the descriptor and the adapter owns it; no memory has
  changed but this and \<open>X\<close>.\<close>

definition transmitted :: "u32 \<Rightarrow> u8 list \<Rightarrow> u32 set \<Rightarrow> 'a machine_scheme \<Rightarrow> 'a machine_scheme \<Rightarrow> bool" where
  "transmitted a bs X s s' \<longleftrightarrow> s' = s\<lparr>mem := mem s'\<rparr> \<and> tx_target s' a = tx_target s a \<and> tx_slot s' a = tx_slot s a \<and>
     bytes_at (mem s') (tx_target s a) (length bs) = bs \<and>
     unat (descr_bcnt (mem s') (tx_slot s a)) = (4096 - length bs mod 4096) mod 4096 \<and>
     (\<forall>k. descr_flag k (mem s') (tx_slot s a) \<longleftrightarrow> k \<in> {STP, ENP, OWN} \<or> descr_flag k (mem s) (tx_slot s a)) \<and>
     same_outside (region (tx_target s a) (length bs) \<union> region (tx_slot s a) 8 \<union> X) (mem s) (mem s')"

lemma adapter_state_cong:
  assumes "\<forall>x\<in>adapter_bytes s a ds. mem t x = mem s x"
  shows "tx_slot t a = tx_slot s a" "tx_n (mem t) a = tx_n (mem s) a" "tx_target t a = tx_target s a"
    "descr_flag k (mem t) (tx_slot s a) = descr_flag k (mem s) (tx_slot s a)"
    "descr_bcnt (mem t) (tx_slot s a) = descr_bcnt (mem s) (tx_slot s a)"
    "dev_mac (mem t) a = dev_mac (mem s) a" "\<forall>d\<in>set ds. dev_class (mem t) d = dev_class (mem s) d"
proof -
  show n: "tx_n (mem t) a = tx_n (mem s) a"
    unfolding tx_n_def using assms by (intro rd32_cong) (simp add: adapter_bytes_def)
  then show slot: "tx_slot t a = tx_slot s a" by (simp add: tx_slot_def)
  have d: "mem t x = mem s x" if "x \<in> region (tx_slot s a + of_nat i) k" "i + k \<le> 16" for x i k
    using region_offset [OF that(2), of "tx_slot s a"] that(1) assms by (auto simp: adapter_bytes_def)
  show "tx_target t a = tx_target s a"
    unfolding tx_target_def slot descr_buffer_def using d [where i = 0 and k = 4] by (intro rd32_cong) simp
  show "descr_flag k (mem t) (tx_slot s a) = descr_flag k (mem s) (tx_slot s a)"
    using d [where i = 7 and k = 1] by (simp add: descr_flag_def rd8_def)
  show "descr_bcnt (mem t) (tx_slot s a) = descr_bcnt (mem s) (tx_slot s a)"
    unfolding descr_bcnt_def using d [where i = 4 and k = 2] by (intro arg_cong [where f = "\<lambda>w. w AND 0xfff"] rd16_cong) simp
  show "dev_mac (mem t) a = dev_mac (mem s) a"
    unfolding dev_mac_def using assms by (intro bytes_at_cong) (simp_all add: adapter_bytes_def)
  show "\<forall>d\<in>set ds. dev_class (mem t) d = dev_class (mem s) d"
    unfolding dev_class_def using assms by (intro ballI rd32_cong) (auto simp: adapter_bytes_def)
qed

lemma find_adapter_cong:
  assumes "registry_is s ds" "t = s\<lparr>mem := mem t\<rparr>" "\<forall>d\<in>set ds. dev_class (mem t) d = dev_class (mem s) d"
  shows "registry_is t ds" "find_device_by_class c t = find_device_by_class c s"
proof -
  have "registry_is (s\<lparr>mem := m\<rparr>) ds" for m using assms(1) by (simp add: registry_is_def)
  then show t: "registry_is t ds" using assms(2) by metis
  show "find_device_by_class c t = find_device_by_class c s"
    unfolding find_device_registry [OF t] find_device_registry [OF assms(1)]
    using assms(3) by (auto cong: find_cong)
qed

lemma adapter_ready_cong:
  assumes ready: "adapter_ready a ds len X s" and t: "t = s\<lparr>mem := mem t\<rparr>" "same_outside X (mem s) (mem t)"
    and sub: "Y \<subseteq> X"
  shows "adapter_ready a ds len Y t" "tx_slot t a = tx_slot s a" "tx_target t a = tx_target s a" "dev_mac (mem t) a = dev_mac (mem s) a"
proof -
  have "\<forall>x\<in>adapter_bytes s a ds. mem t x = mem s x"
    using ready t(2) by (auto simp: adapter_ready_def same_outside_def)
  note C = adapter_state_cong [OF this]
  show "tx_slot t a = tx_slot s a" "tx_target t a = tx_target s a" "dev_mac (mem t) a = dev_mac (mem s) a"
    using C(1,3,6) by blast+
  have "registry_is s ds" using ready by (simp add: adapter_ready_def)
  note F = find_adapter_cong [OF this t(1) C(7)]
  have "dynamic_class t a = dynamic_class s a" using arg_cong [OF t(1), of "\<lambda>u. dynamic_class u a"] by simp
  then show "adapter_ready a ds len Y t"
    using ready sub F by (auto simp: adapter_ready_def adapter_bytes_def C)
qed

text \<open>The send method of the adapter.\<close>

lemma adapter_send_run:
  fixes s :: "'a devices_scheme"
  assumes ready: "adapter_ready a ds (length bs) X s" and frame: "bs \<noteq> []" "bytes_at (mem s) p (length bs) = bs" "length bs = unat sz"
    "region p (length bs) \<subseteq> X"
  shows "\<exists>s'. adapter_send_packet a p sz s = Some s' \<and> transmitted a bs Y s s'"
proof -
  let ?d = "tx_slot s a" and ?b = "tx_target s a" and ?c = "a + 24912"
  have r: "unat (tx_n (mem s) a) < 8" "\<not> descr_flag OWN (mem s) ?d" "apart ?b (unat sz) ?d 16" "apart ?b (unat sz) ?c 4"
    "dynamic_class s a = Some Class_PCNET" "region ?b (unat sz) \<inter> X = {}" "region ?d 16 \<inter> X = {}"
    using ready frame(3) by (auto simp: adapter_ready_def adapter_bytes_def)
  define k where "k = unat (tx_n (mem s) a)"
  have counter: "apart ?d 16 ?c 4"
  proof -
    have "unat (24736 - 16 * tx_n (mem s) a) = 24736 - 16 * k" "unat (16 * tx_n (mem s) a - 24736) = 4294967296 - (24736 - 16 * k)"
      using r(1) by (simp_all add: k_def unat_sub32 unat_word_ariths)
    moreover have e: "?c - ?d = 24736 - 16 * tx_n (mem s) a" "?d - ?c = 16 * tx_n (mem s) a - 24736"
      by (simp_all add: tx_slot_def tx_descr_def)
    ultimately show ?thesis unfolding apart_def e using r(1) by (simp add: k_def)
  qed
  have "region p (unat sz) \<inter> region ?b (unat sz) = {}" "region p (unat sz) \<inter> region ?d 16 = {}" "0 < unat sz"
    using frame r(6,7) by auto
  then have apart: "apart p (unat sz) ?b (unat sz)" "apart p (unat sz) ?d 16" by (intro apart_disjointI; simp)+
  obtain s' where s': "pcnet_send_packet a p sz s = Some s'" "s' = s\<lparr>mem := mem s'\<rparr>"
    "bytes_at (mem s') ?b (unat sz) = bytes_at (mem s) p (unat sz)" "descr_buffer (mem s') ?d = ?b"
    "unat (descr_bcnt (mem s') ?d) = (4096 - unat sz mod 4096) mod 4096"
    "\<forall>k. descr_flag k (mem s') ?d \<longleftrightarrow> k \<in> {STP, ENP, OWN} \<or> descr_flag k (mem s) ?d"
    "\<forall>x. x \<notin> region ?b (unat sz) \<longrightarrow> x \<notin> region ?d 8 \<longrightarrow> mem s' x = mem s x"
    using send_packet_run [OF r(1) tx_slot_def r(2) tx_target_def r(3) apart refl r(4) counter] by blast
  have "mem s' x = mem s x" if "x \<in> region ?c 4" for x
  proof -
    have "region ?d 8 \<subseteq> region ?d 16" using region_offset [of 0 8 16 ?d] by simp
    then show ?thesis using s'(7) that apart_notin [OF r(4)] apart_notin [OF counter] by blast
  qed
  then have "tx_n (mem s') a = tx_n (mem s) a" unfolding tx_n_def by (rule rd32_cong)
  then have "tx_slot s' a = ?d" "tx_target s' a = ?b" using s'(4) by (simp_all add: tx_slot_def tx_target_def)
  then show ?thesis
    using s' r(5) frame(2,3) by (auto simp: transmitted_def adapter_send_packet_def same_outside_def)
qed

text \<open>Steps before and after that stay in \<open>X\<close> do not matter.\<close>

lemma transmitted_frame:
  fixes s :: "'a devices_scheme"
  assumes ready: "adapter_ready a ds (length bs) X s" and sent: "transmitted a bs Y t t'" "Y \<subseteq> X"
    and t: "t = s\<lparr>mem := mem t\<rparr>" "same_outside X (mem s) (mem t)"
    and len: "length bs \<le> 4294967296" and s': "s' = t'\<lparr>mem := mem s'\<rparr>" "same_outside X (mem t') (mem s')"
  shows "transmitted a bs X s s'"
proof -
  note C = adapter_ready_cong [OF ready t order_refl]
  have X: "adapter_bytes s a ds \<inter> X = {}" "region (tx_target s a) (length bs) \<inter> X = {}"
    using ready by (auto simp: adapter_ready_def)
  note A = sent(1) [unfolded transmitted_def C(2,3)]
  have ts: "\<forall>x\<in>adapter_bytes s a ds. mem t x = mem s x" using X(1) t(2) by (auto simp: same_outside_def)
  have "tx_slot t' a = tx_slot s a" using A by simp
  then have "adapter_bytes t' a ds = adapter_bytes s a ds" by (simp add: adapter_bytes_def)
  then have "\<forall>x\<in>adapter_bytes t' a ds. mem s' x = mem t' x" using X(1) s'(2) by (auto simp: same_outside_def)
  note B = adapter_state_cong [OF this]
  have t': "t' = t\<lparr>mem := mem t'\<rparr>" using A by simp
  have "s' = s\<lparr>mem := mem s'\<rparr>"
    by (subst s'(1), subst t', subst t(1)) simp
  moreover have "bytes_at (mem s') (tx_target s a) (length bs) = bytes_at (mem t') (tx_target s a) (length bs)"
    by (rule same_outside_bytes [OF s'(2) X(2) len])
  moreover have "same_outside (region (tx_target s a) (length bs) \<union> region (tx_slot s a) 8 \<union> X) (mem s) (mem s')"
    using A t(2) s'(2) sent(2) by (auto simp: same_outside_def)
  ultimately show ?thesis
    using A B adapter_state_cong(4) [OF ts] unfolding transmitted_def by simp
qed

section \<open>A header in front of the data\<close>

text \<open>What the three layers do in the same way: a buffer with room for header and data, the
  header, behind it the data, and the buffer freed at the end.\<close>

lemma build_packet:
  fixes s :: "'a heap_scheme"
  assumes inv: "heap_inv s bs e" and e: "e \<le> 0xffffffff" and co: "coalesced bs"
    and r: "abs_malloc (sz + of_nat k) bs = Some (p, bs')" and k: "0 < k" "unat sz + k \<le> 0xffff"
    and src: "region src (unat sz) \<inter> free_area bs e = {}"
  obtains m where "operator_new_array (sz + of_nat k) s = Some (p, s\<lparr>mem := m\<rparr>)" "same_outside (free_area bs e) (mem s) m"
    "coalesced bs'" "free_area bs' e \<subseteq> free_area bs e" "region p (k + unat sz) \<subseteq> free_area bs e"
    "region p (k + unat sz) \<inter> free_area bs' e = {}"
    "\<And>hdr t. length hdr = k \<Longrightarrow> t = s\<lparr>mem := memcpy (p + of_nat k) src sz (write_bytes p hdr m)\<rparr> \<Longrightarrow>
       heap_inv t bs' e \<and> same_outside (free_area bs e) (mem s) (mem t) \<and>
       bytes_at (mem t) p (k + unat sz) = hdr @ bytes_at (mem s) src (unat sz)"
    "\<And>t :: 'a heap_scheme. heap_inv t bs' e \<Longrightarrow> \<exists>m'. operator_delete_array p t = t\<lparr>mem := m'\<rparr> \<and> heap_inv (t\<lparr>mem := m'\<rparr>) bs e \<and>
       same_outside (free_area bs e) (mem t) m'"
proof -
  have n: "unat (sz + of_nat k) = k + unat sz" using k(2) by (simp add: unat_word_ariths unsigned_of_nat take_bit_eq_mod)
  then have pos: "0 < unat (sz + of_nat k)" using k(1) by simp
  obtain m where m: "operator_new_array (sz + of_nat k) s = Some (p, s\<lparr>mem := m\<rparr>)" "heap_inv (s\<lparr>mem := m\<rparr>) bs' e" "coalesced bs'"
    "same_outside (free_area bs e) (mem s) m"
    and area: "free_area bs' e \<subseteq> free_area bs e" "region p (unat (sz + of_nat k)) \<subseteq> free_area bs e"
      "region p (unat (sz + of_nat k)) \<inter> free_area bs' e = {}"
    and delete: "\<And>t :: 'a heap_scheme. heap_inv t bs' e \<Longrightarrow> \<exists>m'. operator_delete_array p t = t\<lparr>mem := m'\<rparr> \<and>
      heap_inv (t\<lparr>mem := m'\<rparr>) bs e \<and> same_outside (free_area bs e) (mem t) m'"
    by (rule buffer_alloc [OF inv e co r pos]) (rule that, assumption+)
  have "heap_inv t bs' e \<and> same_outside (free_area bs e) (mem s) (mem t) \<and>
       bytes_at (mem t) p (k + unat sz) = hdr @ bytes_at (mem s) src (unat sz)"
    if h: "length hdr = k" "t = s\<lparr>mem := memcpy (p + of_nat k) src sz (write_bytes p hdr m)\<rparr>" for hdr t
  proof -
    have "region src (unat sz) \<inter> region p (k + unat sz) = {}" using src area(2) n by auto
    note P = packet_bytes [where hdr = hdr and sz = sz and src = src and p = p and m = m, unfolded h(1), OF _ this]
    have small: "k + unat sz \<le> 4294967295" using k(2) by simp
    have "bytes_at m src (unat sz) = bytes_at (mem s) src (unat sz)"
      using unat_lt32 [of sz] by (intro same_outside_bytes [OF m(4) src]) simp
    moreover have out: "mem t x = m x" if "x \<notin> region p (k + unat sz)" for x
      using P(2) [OF small that] by (simp add: h(2))
    then have "heap_inv ((s\<lparr>mem := m\<rparr>)\<lparr>mem := mem t\<rparr>) bs' e"
      using area(3) n by (intro heap_inv_outside [OF m(2)]) auto
    then have "heap_inv t bs' e" by (simp add: h(2))
    moreover have "same_outside (free_area bs e) (mem s) (mem t)"
      using same_outsideD [OF m(4)] area(2) unfolding n same_outside_def by (metis out subsetD)
    ultimately show ?thesis using P(1) [OF small] by (simp add: h(2))
  qed
  then show ?thesis using m area delete unfolding n by (intro that [of m]) simp_all
qed

section \<open>Ethernet\<close>

lemma net_send_run:
  fixes s :: "'a ethernet_scheme" and payload :: u32
  assumes inv: "heap_inv s bs e" and e: "e \<le> 0xffffffff" and co: "coalesced bs" and room: "room_for [sz + 14] bs"
    and ready: "adapter_ready a ds (14 + unat sz) (free_area bs e) s" and sz: "unat sz + 14 \<le> 0xffff"
    and src: "region payload (unat sz) \<inter> free_area bs e = {}" and mac: "length (router_mac s) = 6"
  shows "\<exists>s'. net_send h payload sz s = Some s' \<and> heap_inv s' bs e \<and>
    transmitted a (ethernet_bytes (h\<lparr>eth_src_mac := dev_mac (mem s) a, eth_dst_mac := router_mac s\<rparr>) @
      bytes_at (mem s) payload (unat sz)) (free_area bs e) s s'"
proof -
  let ?h = "h\<lparr>eth_src_mac := dev_mac (mem s) a, eth_dst_mac := router_mac s\<rparr>"
  obtain p bs' where r: "abs_malloc (sz + of_nat 14) bs = Some (p, bs')" using room by (auto split: option.splits)
  obtain m where m: "operator_new_array (sz + of_nat 14) s = Some (p, s\<lparr>mem := m\<rparr>)" "same_outside (free_area bs e) (mem s) m"
    "coalesced bs'" and area: "free_area bs' e \<subseteq> free_area bs e" "region p (14 + unat sz) \<subseteq> free_area bs e"
    "region p (14 + unat sz) \<inter> free_area bs' e = {}"
    and build: "\<And>hdr t. length hdr = 14 \<Longrightarrow> t = s\<lparr>mem := memcpy (p + of_nat 14) payload sz (write_bytes p hdr m)\<rparr> \<Longrightarrow>
       heap_inv t bs' e \<and> same_outside (free_area bs e) (mem s) (mem t) \<and>
       bytes_at (mem t) p (14 + unat sz) = hdr @ bytes_at (mem s) payload (unat sz)"
    and delete: "\<And>t :: 'a ethernet_scheme. heap_inv t bs' e \<Longrightarrow> \<exists>m'. operator_delete_array p t = t\<lparr>mem := m'\<rparr> \<and>
      heap_inv (t\<lparr>mem := m'\<rparr>) bs e \<and> same_outside (free_area bs e) (mem t) m'"
    by (rule build_packet [OF inv e co r _ sz src]) (simp, rule that, assumption+)
  have found: "find_device_by_class DEVICE_NETWORK s = a" "a \<noteq> 0" using ready by (simp_all add: adapter_ready_def)
  have mac': "dev_mac m a = dev_mac (mem s) a"
    using adapter_ready_cong(4) [OF ready _ _ order_refl, of "s\<lparr>mem := m\<rparr>"] m(2) by simp
  have len: "length (ethernet_bytes ?h) = 14" using mac by (simp add: ethernet_bytes_def dev_mac_def)
  define t where "t = s\<lparr>mem := memcpy (p + of_nat 14) payload sz (write_bytes p (ethernet_bytes ?h) m)\<rparr>"
  let ?frame = "ethernet_bytes ?h @ bytes_at (mem s) payload (unat sz)"
  note T = build [OF len t_def]
  have lf: "length ?frame = 14 + unat sz" using len by simp
  have st: "t = s\<lparr>mem := mem t\<rparr>" by (simp add: t_def)
  have ready': "adapter_ready a ds (length ?frame) (free_area bs e) t"
    unfolding lf using adapter_ready_cong(1) [OF ready st] T by blast
  have u: "unat (sz + 14) = 14 + unat sz" using sz by (simp add: unat_word_ariths)
  obtain u where u: "adapter_send_packet a p (sz + 14) t = Some u" "transmitted a ?frame {} t u"
    using adapter_send_run [OF ready' _ _ _ _, of p "sz + 14" "{}"] T area(2) len unfolding lf u by fastforce
  have ut: "u = t\<lparr>mem := mem u\<rparr>" using u(2) by (simp add: transmitted_def)
  have "heap_inv (t\<lparr>mem := mem u\<rparr>) bs' e"
  proof (rule heap_inv_outside)
    fix x assume "x \<in> free_area bs' e"
    then have x: "x \<in> free_area bs e" using area(1) by blast
    have "region (tx_target t a) (length ?frame) \<inter> free_area bs e = {}" "region (tx_slot t a) 16 \<inter> free_area bs e = {}"
      using ready' by (auto simp: adapter_ready_def adapter_bytes_def)
    moreover have "region (tx_slot t a) 8 \<subseteq> region (tx_slot t a) 16" using region_offset [of 0 8 16 "tx_slot t a"] by simp
    ultimately have "x \<notin> region (tx_target t a) (length ?frame) \<union> region (tx_slot t a) 8 \<union> {}" using x by blast
    moreover have "same_outside (region (tx_target t a) (length ?frame) \<union> region (tx_slot t a) 8 \<union> {}) (mem t) (mem u)"
      using u(2) by (simp only: transmitted_def)
    ultimately show "mem u x = mem t x" by (rule same_outsideD [rotated])
  qed (use T in blast)
  then have "heap_inv u bs' e" using ut by simp
  then obtain m' where m': "operator_delete_array p u = u\<lparr>mem := m'\<rparr>" "heap_inv (u\<lparr>mem := m'\<rparr>) bs e"
    "same_outside (free_area bs e) (mem u) m'" using delete by blast
  have "net_send h payload sz s = Some (u\<lparr>mem := m'\<rparr>)"
    using m(1) u(1) m'(1) by (simp add: net_send_def found Let_def mac' t_def)
  moreover have "transmitted a ?frame (free_area bs e) s (u\<lparr>mem := m'\<rparr>)"
    by (rule transmitted_frame [OF _ u(2) _ st]) (use ready lf T m'(3) sz in simp_all)
  ultimately show ?thesis using m'(2) by blast
qed

section \<open>IPv4\<close>

text \<open>The frame around a packet: the type of the payload is all the layers above say.\<close>

definition frame_around :: "'a ethernet_scheme \<Rightarrow> u32 \<Rightarrow> u16 \<Rightarrow> u8 list \<Rightarrow> u8 list" where
  "frame_around s a ty pl = ethernet_bytes \<lparr>eth_dst_mac = router_mac s, eth_src_mac = dev_mac (mem s) a, ether_type = ty\<rparr> @ pl"

lemma length_frame_around: "length (router_mac s) = 6 \<Longrightarrow> length (frame_around s a ty pl) = 14 + length pl"
  by (simp add: frame_around_def ethernet_bytes_def dev_mac_def)

lemma net_send_frame:
  fixes s :: "'a ethernet_scheme" and payload :: u32
  assumes "heap_inv s bs e" "e \<le> 0xffffffff" "coalesced bs" "room_for [sz + 14] bs"
    "adapter_ready a ds (14 + unat sz) (free_area bs e) s" "unat sz + 14 \<le> 0xffff"
    "region payload (unat sz) \<inter> free_area bs e = {}" "length (router_mac s) = 6"
  shows "\<exists>s'. net_send h payload sz s = Some s' \<and> heap_inv s' bs e \<and>
    transmitted a (frame_around s a (ether_type h) (bytes_at (mem s) payload (unat sz))) (free_area bs e) s s'"
  using net_send_run [OF assms, of h] by (simp add: frame_around_def ethernet_bytes_def)

lemma ip_send_run:
  fixes s :: "'a ip_scheme" and payload :: u32
  assumes inv: "heap_inv s bs e" and e: "e \<le> 0xffffffff" and co: "coalesced bs" and room: "room_for [sz + 20, sz + 20 + 14] bs"
    and ready: "adapter_ready a ds (34 + unat sz) (free_area bs e) s" and sz: "unat sz + 34 \<le> 0xffff"
    and src: "region payload (unat sz) \<inter> free_area bs e = {}" and mac: "length (router_mac s) = 6"
    and ips: "length (ip_addr s) = 4" "length (ip_dst_ip h) = 4"
  shows "\<exists>s'. ip_send_packet h payload sz s = Some s' \<and> heap_inv s' bs e \<and>
    transmitted a (frame_around s a (htons 0x0800) (ipv4_bytes (ip_complete_header h sz s) @
      bytes_at (mem s) payload (unat sz))) (free_area bs e) s s'"
proof -
  let ?h = "ip_complete_header h sz s" and ?eth = "\<lparr>eth_dst_mac = [], eth_src_mac = [], ether_type = htons 0x0800\<rparr>"
  obtain p bs' where r: "abs_malloc (sz + of_nat 20) bs = Some (p, bs')" and room': "room_for [sz + 20 + 14] bs'"
    using room by (auto split: option.splits)
  obtain m where m: "operator_new_array (sz + of_nat 20) s = Some (p, s\<lparr>mem := m\<rparr>)"
    "coalesced bs'" and area: "free_area bs' e \<subseteq> free_area bs e" "region p (20 + unat sz) \<inter> free_area bs' e = {}"
    and build: "\<And>hdr t. length hdr = 20 \<Longrightarrow> t = s\<lparr>mem := memcpy (p + of_nat 20) payload sz (write_bytes p hdr m)\<rparr> \<Longrightarrow>
       heap_inv t bs' e \<and> same_outside (free_area bs e) (mem s) (mem t) \<and>
       bytes_at (mem t) p (20 + unat sz) = hdr @ bytes_at (mem s) payload (unat sz)"
    and delete: "\<And>t :: 'a ip_scheme. heap_inv t bs' e \<Longrightarrow> \<exists>m'. operator_delete_array p t = t\<lparr>mem := m'\<rparr> \<and>
      heap_inv (t\<lparr>mem := m'\<rparr>) bs e \<and> same_outside (free_area bs e) (mem t) m'"
    using sz by (rule_tac build_packet [OF inv e co r _ _ src]) (simp, simp, rule that, assumption+)
  have len: "length (ipv4_bytes ?h) = 20" using ips by (simp add: ipv4_bytes_def ip_complete_header_def Let_def)
  define t where "t = s\<lparr>mem := memcpy (p + of_nat 20) payload sz (write_bytes p (ipv4_bytes ?h) m)\<rparr>"
  note T = build [OF len t_def]
  have st: "t = s\<lparr>mem := mem t\<rparr>" and same: "same_outside (free_area bs e) (mem s) (mem t)" using T by (simp_all add: t_def)
  have u: "unat (sz + 20) = 20 + unat sz" using sz by (simp add: unat_word_ariths)
  note R = adapter_ready_cong [OF ready st same area(1)]
  obtain u where u: "net_send ?eth p (sz + 20) t = Some u" "heap_inv u bs' e"
    "transmitted a (frame_around t a (htons 0x0800) (bytes_at (mem t) p (20 + unat sz))) (free_area bs' e) t u"
    using net_send_frame [OF _ e m(2) room', of t a ds p ?eth] R(1) T area(2) sz mac u by (auto simp: t_def)
  have frame: "frame_around t a (htons 0x0800) (bytes_at (mem t) p (20 + unat sz)) =
      frame_around s a (htons 0x0800) (ipv4_bytes ?h @ bytes_at (mem s) payload (unat sz))"
    using R(4) T by (simp add: frame_around_def t_def)
  have lf: "length (frame_around s a (htons 0x0800) (ipv4_bytes ?h @ bytes_at (mem s) payload (unat sz))) = 34 + unat sz"
    using len mac by (simp add: length_frame_around)
  obtain m' where m': "operator_delete_array p u = u\<lparr>mem := m'\<rparr>" "heap_inv (u\<lparr>mem := m'\<rparr>) bs e"
    "same_outside (free_area bs e) (mem u) m'" using delete [OF u(2)] by blast
  have "ip_send_packet h payload sz s = Some (u\<lparr>mem := m'\<rparr>)"
    using m(1) u(1) m'(1) by (simp add: ip_send_packet_def Let_def t_def)
  moreover have "transmitted a (frame_around s a (htons 0x0800) (ipv4_bytes ?h @ bytes_at (mem s) payload (unat sz)))
      (free_area bs e) s (u\<lparr>mem := m'\<rparr>)"
    by (rule transmitted_frame [OF _ u(3) [unfolded frame] area(1) st same]) (use ready lf m'(3) sz in simp_all)
  ultimately show ?thesis using m'(2) by blast
qed

section \<open>UDP\<close>

text \<open>The header of a datagram and the one of the packet around it.\<close>

definition datagram_header :: "'a udp_scheme \<Rightarrow> u8 list \<Rightarrow> u16 \<Rightarrow> u16 \<Rightarrow> u32 \<Rightarrow> u32 \<Rightarrow> udp_header" where
  "datagram_header s ip src_port dst_port buffer sz =
     (let h = \<lparr>udp_src_port = htons src_port, udp_dst_port = htons dst_port, udp_size = htons (ucast (sz + 8)), udp_checksum = 0\<rparr>;
          ps = \<lparr>ps_src_ip = ip_addr s, ps_dst_ip = take 4 ip, ps_zeros = 0, ps_protocol = 0x11, ps_length = htons (ucast (sz + 8))\<rparr>
      in h\<lparr>udp_checksum := udp_compute_checksum (mem s) ps h buffer sz\<rparr>)"

definition packet_header :: "'a ip_scheme \<Rightarrow> u8 list \<Rightarrow> u32 \<Rightarrow> ipv4_header" where
  "packet_header s ip sz = ip_complete_header \<lparr>ip_header_size = 0, ip_version = 0, ip_diff_serv = 0, ip_ecn = 0,
     ip_total_length = 0, ip_id = 0, ip_fragment_flags = 0, ip_ttl = 0, ip_protocol = 0x11, ip_header_checksum = 0,
     ip_src_ip = [0, 0, 0, 0], ip_dst_ip = take 4 ip\<rparr> (sz + 8) s"

lemma csum_buffer_cong:
  "(\<And>x. x \<in> region ptr (unat len) \<Longrightarrow> m x = m' x) \<Longrightarrow> csum_buffer m ptr len c = csum_buffer m' ptr len c"
proof (induction m ptr len c rule: csum_buffer.induct)
  case (1 m ptr len c)
  show ?case
  proof (cases "1 < len")
    case True
    then have l: "2 \<le> unat len" "unat (len - 2) = unat len - 2" by (simp_all add: word_less_nat_alt unat_sub32)
    have rd: "rd16 m ptr = rd16 m' ptr"
      using l 1(2) region_offset [of 0 2 "unat len" ptr] unat_lt32 [of len] by (intro rd16_cong) auto
    have "2 + (unat len - 2) \<le> unat len" "unat len \<le> 4294967296" using l unat_lt32 [of len] by simp_all
    then have "region (ptr + 2) (unat len - 2) \<subseteq> region ptr (unat len)" using region_offset [of 2 "unat len - 2" "unat len" ptr] by simp
    then have "csum_buffer m (ptr + 2) (len - 2) c' = csum_buffer m' (ptr + 2) (len - 2) c'"
      if "c' = csum_add c (ucast (rd16 m ptr))" for c'
      using l(2) that by (intro 1(1) [OF True, folded that] 1(2)) auto
    with rd show ?thesis using True by (simp add: csum_buffer.simps [of _ ptr len])
  next
    case False
    have "rd8 m ptr = rd8 m' ptr" if "len = 1" using 1(2) that by (simp add: rd8_def)
    then show ?thesis using False by (simp add: csum_buffer.simps [of _ ptr len])
  qed
qed

lemma udp_sendto_run:
  fixes s :: "'a udp_scheme"
  assumes inv: "heap_inv s bs e" and e: "e \<le> 0xffffffff" and co: "coalesced bs"
    and room: "room_for [sz + 8, sz + 8 + 20, sz + 8 + 20 + 14] bs"
    and ready: "adapter_ready a ds (42 + unat sz) (free_area bs e) s" and sz: "unat sz + 42 \<le> 0xffff"
    and src: "region buffer (unat sz) \<inter> free_area bs e = {}" and mac: "length (router_mac s) = 6"
    and ips: "length (ip_addr s) = 4" "4 \<le> length ip"
  shows "\<exists>s'. udp_sendto this ip port buffer sz s = Some s' \<and> heap_inv s' bs e \<and>
    transmitted a (frame_around s a (htons 0x0800) (ipv4_bytes (packet_header s ip sz) @
      udp_bytes (datagram_header s ip (sock_port (mem s) this) port buffer sz) @ bytes_at (mem s) buffer (unat sz)))
      (free_area bs e) s s'"
proof -
  let ?h = "datagram_header s ip (sock_port (mem s) this) port buffer sz"
  let ?ih = "\<lparr>ip_header_size = 0, ip_version = 0, ip_diff_serv = 0, ip_ecn = 0,
     ip_total_length = 0, ip_id = 0, ip_fragment_flags = 0, ip_ttl = 0, ip_protocol = 0x11, ip_header_checksum = 0,
     ip_src_ip = [0, 0, 0, 0], ip_dst_ip = take 4 ip\<rparr>"
  obtain p bs' where r: "abs_malloc (sz + of_nat 8) bs = Some (p, bs')" and room': "room_for [sz + 8 + 20, sz + 8 + 20 + 14] bs'"
    using room by (auto split: option.splits)
  obtain m where m: "operator_new_array (sz + of_nat 8) s = Some (p, s\<lparr>mem := m\<rparr>)" "same_outside (free_area bs e) (mem s) m"
    "coalesced bs'" and area: "free_area bs' e \<subseteq> free_area bs e" "region p (8 + unat sz) \<inter> free_area bs' e = {}"
    and build: "\<And>hdr t. length hdr = 8 \<Longrightarrow> t = s\<lparr>mem := memcpy (p + of_nat 8) buffer sz (write_bytes p hdr m)\<rparr> \<Longrightarrow>
       heap_inv t bs' e \<and> same_outside (free_area bs e) (mem s) (mem t) \<and>
       bytes_at (mem t) p (8 + unat sz) = hdr @ bytes_at (mem s) buffer (unat sz)"
    and delete: "\<And>t :: 'a udp_scheme. heap_inv t bs' e \<Longrightarrow> \<exists>m'. operator_delete_array p t = t\<lparr>mem := m'\<rparr> \<and>
      heap_inv (t\<lparr>mem := m'\<rparr>) bs e \<and> same_outside (free_area bs e) (mem t) m'"
    using sz by (rule_tac build_packet [OF inv e co r _ _ src]) (simp, simp, rule that, assumption+)
  have "csum_buffer m buffer sz c = csum_buffer (mem s) buffer sz c" for c
    using src by (intro csum_buffer_cong same_outsideD [OF m(2)]) auto
  then have csum: "udp_compute_checksum m ps h buffer sz = udp_compute_checksum (mem s) ps h buffer sz" for ps h
    by (simp add: udp_compute_checksum_def)
  have len: "length (udp_bytes ?h) = 8" by (simp add: udp_bytes_def)
  define t where "t = s\<lparr>mem := memcpy (p + of_nat 8) buffer sz (write_bytes p (udp_bytes ?h) m)\<rparr>"
  note T = build [OF len t_def]
  have st: "t = s\<lparr>mem := mem t\<rparr>" and same: "same_outside (free_area bs e) (mem s) (mem t)" using T by (simp_all add: t_def)
  have u: "unat (sz + 8) = 8 + unat sz" using sz by (simp add: unat_word_ariths)
  note R = adapter_ready_cong [OF ready st same area(1)]
  have ht: "ip_complete_header ?ih (sz + 8) t = packet_header s ip sz"
    by (simp add: packet_header_def ip_complete_header_def Let_def t_def)
  obtain u where u: "ip_send_packet ?ih p (sz + 8) t = Some u" "heap_inv u bs' e"
    "transmitted a (frame_around t a (htons 0x0800) (ipv4_bytes (packet_header s ip sz) @ bytes_at (mem t) p (8 + unat sz)))
      (free_area bs' e) t u"
    using ip_send_run [OF _ e m(3) room', of t a ds p ?ih] R(1) T area(2) sz mac u ips unfolding ht by (auto simp: t_def)
  have frame: "frame_around t a (htons 0x0800) (ipv4_bytes (packet_header s ip sz) @ bytes_at (mem t) p (8 + unat sz)) =
      frame_around s a (htons 0x0800) (ipv4_bytes (packet_header s ip sz) @ udp_bytes ?h @ bytes_at (mem s) buffer (unat sz))"
    using R(4) T by (simp add: frame_around_def t_def)
  have "length (ipv4_bytes (packet_header s ip sz)) = 20"
    using ips by (simp add: ipv4_bytes_def packet_header_def ip_complete_header_def Let_def)
  then have lf: "length (frame_around s a (htons 0x0800) (ipv4_bytes (packet_header s ip sz) @ udp_bytes ?h @
      bytes_at (mem s) buffer (unat sz))) = 42 + unat sz"
    using len mac by (simp add: length_frame_around)
  obtain m' where m': "operator_delete_array p u = u\<lparr>mem := m'\<rparr>" "heap_inv (u\<lparr>mem := m'\<rparr>) bs e"
    "same_outside (free_area bs e) (mem u) m'" using delete [OF u(2)] by blast
  have "udp_sendto this ip port buffer sz s = Some (u\<lparr>mem := m'\<rparr>)"
    using m(1) u(1) m'(1) by (simp add: udp_sendto_def udp_send_def Let_def t_def csum datagram_header_def get_ip_def)
  moreover have "transmitted a (frame_around s a (htons 0x0800) (ipv4_bytes (packet_header s ip sz) @ udp_bytes ?h @
      bytes_at (mem s) buffer (unat sz))) (free_area bs e) s (u\<lparr>mem := m'\<rparr>)"
    by (rule transmitted_frame [OF _ u(3) [unfolded frame] area(1) st same]) (use ready lf m'(3) sz in simp_all)
  ultimately show ?thesis using m'(2) by blast
qed

end
