(* ===== verification/Arp_Cache.thy ===== *)
theory Arp_Cache
  imports Arp Heap_Objects Example_Machine
begin

text \<open>
  The cache of \<open>Arp\<close> as what it stands for: an association list from protocol to hardware
  addresses, kept in heap objects that are linked in the order of insertion.
\<close>

definition cache_nodes :: "'a arp_scheme \<Rightarrow> u32 list \<Rightarrow> bool" where
  "cache_nodes s es \<longleftrightarrow> heap_ready s \<and> distinct es \<and> (\<forall>e\<in>set es. object s e 16) \<and>
     links (mem s) es 0 \<and> cache s = (case es of [] \<Rightarrow> 0 | e # _ \<Rightarrow> e) \<and>
     (es = [] \<or> last_entry s = last es)"

definition node_entry :: "mem \<Rightarrow> u32 \<Rightarrow> u8 list \<times> u8 list" where
  "node_entry m e = (entry_ip m e, entry_mac m e)"

definition cached :: "'a arp_scheme \<Rightarrow> (u8 list \<times> u8 list) list \<Rightarrow> bool" where
  "cached s kvs \<longleftrightarrow> (\<exists>es. cache_nodes s es \<and> kvs = map (node_entry (mem s)) es)"

lemma cache_nodes_update [simp]:
  "heap_ready (s\<lparr>cache := c\<rparr>) = heap_ready s"
  "object (s\<lparr>cache := c\<rparr>) = object s"
  "heap_ready (s\<lparr>last_entry := l\<rparr>) = heap_ready s"
  "object (s\<lparr>last_entry := l\<rparr>) = object s"
  by (simp_all add: heap_ready_def object_def heap_inv_def fun_eq_iff)

section \<open>Looking up\<close>

lemma find_by_ip_links:
  "links m es 0 \<Longrightarrow> 0 \<notin> set es \<Longrightarrow>
   find_by_ip m ip (case es of [] \<Rightarrow> 0 | e # _ \<Rightarrow> e) =
     Some (case find (\<lambda>e. entry_ip m e = bytes_at m ip 4) es of None \<Rightarrow> 0 | Some e \<Rightarrow> e)"
proof (induction es)
  case Nil
  then show ?case by (simp add: find_by_ip.simps)
next
  case (Cons e es)
  then show ?case
    by (subst find_by_ip.simps) (auto simp: memcmp_eq_0 entry_ip_def entry_next_def)
qed

lemma find_by_mac_links:
  "links m es 0 \<Longrightarrow> 0 \<notin> set es \<Longrightarrow>
   find_by_mac m a (case es of [] \<Rightarrow> 0 | e # _ \<Rightarrow> e) =
     Some (case find (\<lambda>e. entry_mac m e = bytes_at m a 6) es of None \<Rightarrow> 0 | Some e \<Rightarrow> e)"
proof (induction es)
  case Nil
  then show ?case by (simp add: find_by_mac.simps)
next
  case (Cons e es)
  then show ?case
    by (subst find_by_mac.simps) (auto simp: memcmp_eq_0 entry_mac_def entry_next_def)
qed

lemma cache_nodes_not_0: "cache_nodes s es \<Longrightarrow> 0 \<notin> set es"
  using object_bounds(1) by (auto simp: cache_nodes_def)

definition entry_or_null :: "mem \<Rightarrow> u32 \<Rightarrow> (u8 list \<times> u8 list) option \<Rightarrow> bool" where
  "entry_or_null m e r = (case r of None \<Rightarrow> e = 0 | Some kv \<Rightarrow> e \<noteq> 0 \<and> node_entry m e = kv)"

lemma entry_or_null_find:
  assumes "0 \<notin> set es"
  shows "entry_or_null m (case find (P \<circ> node_entry m) es of None \<Rightarrow> 0 | Some e \<Rightarrow> e)
    (find P (map (node_entry m) es))"
proof (cases "find (P \<circ> node_entry m) es")
  case None
  then show ?thesis by (simp add: entry_or_null_def find_map)
next
  case (Some e)
  then have "e \<in> set es" by (auto simp: find_Some_iff)
  then show ?thesis using Some assms by (auto simp: entry_or_null_def find_map)
qed

lemma get_by_ip_cached:
  assumes "cached s kvs"
  shows "\<exists>e. get_by_ip ip s = Some e \<and>
    entry_or_null (mem s) e (find (\<lambda>kv. fst kv = bytes_at (mem s) ip 4) kvs)"
proof -
  obtain es where es: "cache_nodes s es" "kvs = map (node_entry (mem s)) es"
    using assms by (auto simp: cached_def)
  note not_0 = cache_nodes_not_0 [OF es(1)]
  have "get_by_ip ip s = Some (case find (\<lambda>e. entry_ip (mem s) e = bytes_at (mem s) ip 4) es of
      None \<Rightarrow> 0 | Some e \<Rightarrow> e)"
    using es(1) find_by_ip_links [OF _ not_0] by (simp add: get_by_ip_def cache_nodes_def)
  then show ?thesis
    using entry_or_null_find [OF not_0, of "mem s" "\<lambda>kv. fst kv = bytes_at (mem s) ip 4"]
    by (simp add: es(2) node_entry_def comp_def)
qed

lemma get_by_mac_cached:
  assumes "cached s kvs"
  shows "\<exists>e. get_by_mac mac s = Some e \<and>
    entry_or_null (mem s) e (find (\<lambda>kv. snd kv = bytes_at (mem s) mac 6) kvs)"
proof -
  obtain es where es: "cache_nodes s es" "kvs = map (node_entry (mem s)) es"
    using assms by (auto simp: cached_def)
  note not_0 = cache_nodes_not_0 [OF es(1)]
  have "get_by_mac mac s = Some (case find (\<lambda>e. entry_mac (mem s) e = bytes_at (mem s) mac 6) es of
      None \<Rightarrow> 0 | Some e \<Rightarrow> e)"
    using es(1) find_by_mac_links [OF _ not_0] by (simp add: get_by_mac_def cache_nodes_def)
  then show ?thesis
    using entry_or_null_find [OF not_0, of "mem s" "\<lambda>kv. snd kv = bytes_at (mem s) mac 6"]
    by (simp add: es(2) node_entry_def comp_def)
qed

section \<open>Adding\<close>

text \<open>The memory after the entry is written: its three fields, and nothing outside it.\<close>

lemma new_entry:
  assumes "object s p 16" "length ip = 4" "length mac = 6"
    and m': "m' = write_bytes (p + 4) mac (write_bytes p ip (wr32 (p + 12) 0 m))"
  shows "entry_ip m' p = ip" "entry_mac m' p = mac" "entry_next m' p = 0"
    "x \<notin> region p 16 \<Longrightarrow> m' x = m x"
proof -
  let ?m1 = "wr32 (p + 12) 0 m" and ?m2 = "write_bytes p ip (wr32 (p + 12) 0 m)"
  have a: "apart (p + 4) 6 p 4" "apart (p + 4) 6 (p + 12) 4" "apart p 4 (p + 12) 4"
    by (simp_all add: apart_def)
  have o: "x \<notin> region (p + 4) 6 \<Longrightarrow> m' x = ?m2 x" "x \<notin> region p 4 \<Longrightarrow> ?m2 x = ?m1 x" for x
    using assms(2,3) write_bytes_other [of x "p + 4" mac ?m2] write_bytes_other [of x p ip ?m1]
    by (simp_all add: m')
  have "bytes_at m' p 4 = bytes_at ?m2 p 4"
    using apart_notin [OF a(1)] o(1) by (intro bytes_at_cong) auto
  then show "entry_ip m' p = ip"
    using bytes_at_write_bytes [of ip p ?m1] assms(2) by (simp add: entry_ip_def)
  show "entry_mac m' p = mac"
    using bytes_at_write_bytes [of mac "p + 4" ?m2] assms(3) by (simp add: entry_mac_def m')
  have "rd32 m' (p + 12) = rd32 ?m1 (p + 12)"
    using apart_notin [OF a(2)] apart_notin [OF a(3)] o by (intro rd32_cong) auto
  then show "entry_next m' p = 0" by (simp add: entry_next_def mem_simps)
  have sub: "region (p + 4) 6 \<subseteq> region p 16" "region p 4 \<subseteq> region p 16" "region (p + 12) 4 \<subseteq> region p 16"
    using region_offset [of 4 6 16 p] region_offset [of 12 4 16 p] region_mono [of 4 16 p] by simp_all
  show "m' x = m x" if "x \<notin> region p 16"
  proof -
    have "x \<notin> region (p + 4) 6" "x \<notin> region p 4" "x \<notin> region (p + 12) 4" using that sub by blast+
    then show ?thesis using o [of x] wr32_other [of x "p + 12" 0 m] by simp
  qed
qed

lemma node_entry_cong:
  "(\<And>x. x \<in> region e 10 \<Longrightarrow> m' x = m x) \<Longrightarrow> node_entry m' e = node_entry m e"
  using region_offset [of 4 6 10 e] region_mono [of 4 10 e]
  by (auto simp: node_entry_def entry_ip_def entry_mac_def intro!: bytes_at_cong)

text \<open>The new node linked behind the last one.\<close>

lemma cache_nodes_link:
  assumes nodes: "cache_nodes s es" "es \<noteq> []" and p: "object s p 16" "p \<notin> set es" "rd32 (mem s) (p + 12) = 0"
    and m: "m = wr32 (last es + 12) p (mem s)"
  shows "cache_nodes (s\<lparr>mem := m, last_entry := p\<rparr>) (es @ [p])"
    "e \<in> set (es @ [p]) \<Longrightarrow> node_entry m e = node_entry (mem s) e"
proof -
  have N: "distinct es" "\<And>e. e \<in> set es \<Longrightarrow> object s e 16" "links (mem s) es 0"
    using nodes(1) by (auto simp: cache_nodes_def)
  note L = links_last [OF N(2,1) nodes(2) N(3) m]
  have "last es \<noteq> p" using p(2) nodes(2) by auto
  then have "rd32 m (p + 12) = 0"
    using p(3) L(5) [OF _ p(1)] node_field by (subst rd32_cong [of _ _ "mem s"]) blast+
  then have links: "links m (es @ [p]) 0" using L(1) by (simp add: links_snoc)
  show "cache_nodes (s\<lparr>mem := m, last_entry := p\<rparr>) (es @ [p])"
    unfolding cache_nodes_def
  proof (intro conjI ballI)
    show "object (s\<lparr>mem := m, last_entry := p\<rparr>) e 16" if "e \<in> set (es @ [p])" for e
      using that N(2) p(1) L(3) by auto
    show "cache (s\<lparr>mem := m, last_entry := p\<rparr>) = (case es @ [p] of [] \<Rightarrow> 0 | e # _ \<Rightarrow> e)"
      using nodes by (cases es) (simp_all add: cache_nodes_def)
  qed (use N(1) p(2) L(2) links in simp_all)
  assume e: "e \<in> set (es @ [p])"
  then have ob: "object s e 16" using N(2) p(1) by auto
  show "node_entry m e = node_entry (mem s) e"
  proof (rule node_entry_cong)
    fix x assume x: "x \<in> region e 10"
    have "region e 10 \<subseteq> region e 16" by (rule region_mono) simp
    moreover have "apart (last es + 12) 4 (last es) 10" by (simp add: apart_def)
    ultimately show "m x = mem s x"
      using L(4) L(5) [OF _ ob] x apart_notin by (cases "e = last es") blast+
  qed
qed

text \<open>The new node allocated and filled in.\<close>

lemma cache_nodes_new:
  assumes nodes: "cache_nodes s es" and new: "kmalloc 16 s = Some (p, s\<lparr>mem := m\<rparr>)" "p \<noteq> -1"
    and len: "length ip = 4" "length mac = 6"
    and m1: "m1 = write_bytes (p + 4) mac (write_bytes p ip (wr32 (p + 12) 0 m))"
  shows "cache_nodes (s\<lparr>mem := m1\<rparr>) es" "p \<notin> set es" "object (s\<lparr>mem := m1\<rparr>) p 16"
    "map (node_entry m1) es = map (node_entry (mem s)) es"
proof -
  have N: "heap_ready s" "\<And>e. e \<in> set es \<Longrightarrow> object s e 16" "links (mem s) es 0"
    using nodes by (auto simp: cache_nodes_def)
  obtain m2 where t: "s\<lparr>mem := m\<rparr> = s\<lparr>mem := m2\<rparr>" "heap_ready (s\<lparr>mem := m\<rparr>)" "object (s\<lparr>mem := m\<rparr>) p (unat (16 :: u32))"
    and old: "\<And>a n. object s a n \<Longrightarrow> object (s\<lparr>mem := m\<rparr>) a n" "\<And>a n. object s a n \<Longrightarrow> a \<noteq> p"
      "\<And>a n x. object s a n \<Longrightarrow> x \<in> region a n \<Longrightarrow> m2 x = mem s x"
    by (rule heap_new' [OF N(1) _ new]) auto
  have "m2 = m" using arg_cong [OF t(1), of mem] by simp
  note old = old [unfolded this]
  have ob: "object (s\<lparr>mem := m\<rparr>) p 16" using t(3) by simp
  note E = new_entry(4) [OF ob len m1]
  have w: "heap_ready (s\<lparr>mem := m1\<rparr>)" "object (s\<lparr>mem := m1\<rparr>) a n = object (s\<lparr>mem := m\<rparr>) a n" for a n
    using heap_write [OF ob, of m1] E by simp_all
  then show "object (s\<lparr>mem := m1\<rparr>) p 16" using ob by simp
  have same: "m1 x = mem s x" if "e \<in> set es" "x \<in> region e 16" for e x
    using kernel_objects.other_bytes [OF ob, of e 16 m1 x] old(1,2) [OF N(2) [OF that(1)]]
      old(3) [OF N(2) [OF that(1)]] E that(2) by auto
  then have "rd32 m1 (e + 12) = rd32 (mem s) (e + 12)" if "e \<in> set es" for e
    using node_field that by (intro rd32_cong) blast
  then have "links m1 es 0" using N(3) links_cong [of es m1 "mem s"] by simp
  then show "cache_nodes (s\<lparr>mem := m1\<rparr>) es"
    using nodes w old(1) N(2) by (simp add: cache_nodes_def)
  show "p \<notin> set es" using old(2) [OF N(2)] by blast
  have "region e 10 \<subseteq> region e 16" for e by (rule region_mono) simp
  then show "map (node_entry m1) es = map (node_entry (mem s)) es"
    using same by (auto intro!: node_entry_cong)
qed

lemma add_cache_entry_cached:
  assumes nodes: "cache_nodes s es" and new: "kmalloc 16 s = Some (p, t)" "p \<noteq> -1"
    and len: "length ip = 4" "length mac = 6"
  obtains s' where "add_cache_entry ip mac s = Some s'" "cache_nodes s' (es @ [p])"
    "map (node_entry (mem s')) (es @ [p]) = map (node_entry (mem s)) es @ [(ip, mac)]"
proof -
  obtain m where t: "t = s\<lparr>mem := m\<rparr>"
    using heap_new [of s 16] nodes new by (auto simp: cache_nodes_def)
  define m1 where "m1 = write_bytes (p + 4) mac (write_bytes p ip (wr32 (p + 12) 0 m))"
  note C = cache_nodes_new [OF nodes new(1) [unfolded t] new(2) len m1_def]
  have new1: "node_entry m1 p = (ip, mac)" "rd32 m1 (p + 12) = 0"
    using new_entry(1-3) [OF C(3) len m1_def] by (simp_all add: node_entry_def entry_next_def)
  have run: "add_cache_entry ip mac s =
      (if cache s = 0 then Some (s\<lparr>mem := m1, cache := p, last_entry := p\<rparr>)
       else Some (s\<lparr>mem := wr32 (last_entry s + 12) p m1, last_entry := p\<rparr>))"
    by (simp add: add_cache_entry_def operator_new_def new(1) t m1_def len Let_def)
  show ?thesis
  proof (cases "es = []")
    case True
    then have "cache s = 0" using nodes by (simp add: cache_nodes_def)
    then show ?thesis
      using that run True C(1,3) new1 by (simp add: cache_nodes_def)
  next
    case False
    then have l: "last_entry s = last es" "cache s \<noteq> 0"
      using nodes cache_nodes_not_0 [OF nodes] by (auto simp: cache_nodes_def split: list.splits)
    define m2 where "m2 = wr32 (last es + 12) p m1"
    have "cache_nodes (s\<lparr>mem := m2, last_entry := p\<rparr>) (es @ [p])"
      "map (node_entry m2) (es @ [p]) = map (node_entry m1) (es @ [p])"
      using cache_nodes_link [OF C(1) False C(3,2), of m2] new1(2) by (simp_all add: m2_def)
    then show ?thesis using that run l new1(1) C(4) by (simp add: m2_def)
  qed
qed

section \<open>The cache as an association list\<close>

text \<open>
  \<open>get_by_ip\<close> and \<open>get_by_mac\<close> return, for every state of the cache: the entry that was
  added first among those with the address, or the null pointer if there is none.
\<close>

theorem arp_lookups:
  assumes "cached s kvs"
  shows "(\<exists>e. get_by_ip a s = Some e \<and>
      entry_or_null (mem s) e (find (\<lambda>kv. fst kv = bytes_at (mem s) a 4) kvs)) \<and>
    (\<exists>e. get_by_mac a s = Some e \<and>
      entry_or_null (mem s) e (find (\<lambda>kv. snd kv = bytes_at (mem s) a 6) kvs))"
  using get_by_ip_cached [OF assms] get_by_mac_cached [OF assms] by blast

text \<open>
  C31. When the heap has room, \<open>add_cache_entry\<close> appends the pair to the cache and leaves the
  entries before it as they are, so the cache holds what was added in the order it was added.
\<close>

theorem add_cache_entry_refines:
  assumes "cached s kvs" "kmalloc 16 s = Some (p, t)" "p \<noteq> -1" "length ip = 4" "length mac = 6"
  shows "\<exists>s'. add_cache_entry ip mac s = Some s' \<and> cached s' (kvs @ [(ip, mac)])"
proof -
  obtain es where es: "cache_nodes s es" "kvs = map (node_entry (mem s)) es"
    using assms(1) by (auto simp: cached_def)
  show ?thesis
    by (rule add_cache_entry_cached [OF es(1) assms(2-5)]) (auto simp: cached_def es(2))
qed

text \<open>An empty cache on a heap of 4 KiB.\<close>

definition cache_machine :: udp where
  "cache_machine = heap_allocator_init 0x100000 0x1000 (booted (\<lambda>_. 0) (\<lambda>_ _. 0) [])"

lemma cache_machine_empty: "cached cache_machine []"
proof -
  have "heap_ready cache_machine"
    unfolding cache_machine_def by (rule fresh_heap) (simp_all add: booted_def)
  moreover have "cache cache_machine = 0"
    by (simp add: cache_machine_def heap_allocator_init_def booted_def)
  ultimately show ?thesis by (simp add: cached_def cache_nodes_def)
qed

theorem arp_lookups_witness:
  "get_by_ip 0x2000 cache_machine = Some 0 \<and> get_by_mac 0x2000 cache_machine = Some 0"
  using arp_lookups [OF cache_machine_empty, of "0x2000"] by (simp add: entry_or_null_def)

theorem add_cache_entry_refines_witness:
  "\<exists>s. add_cache_entry [10, 0, 2, 15] [0x52, 0x54, 0, 0x12, 0x34, 0x56] cache_machine = Some s
     \<and> cached s [([10, 0, 2, 15], [0x52, 0x54, 0, 0x12, 0x34, 0x56])]"
proof -
  have "\<exists>m. kmalloc 16 cache_machine = Some (0x100000 + 16, cache_machine\<lparr>mem := m\<rparr>)"
    unfolding cache_machine_def by (rule fresh_heap(2)) (simp_all add: booted_def)
  then show ?thesis
    using add_cache_entry_refines [OF cache_machine_empty, where p = "0x100010" and ip = "[10, 0, 2, 15]"
        and mac = "[0x52, 0x54, 0, 0x12, 0x34, 0x56]"] by auto
qed

end
