(* ===== verification/Datagrams.thy ===== *)
theory Datagrams
  imports Transmit Arp_Cache
begin

text \<open>
  What a datagram is on the wire, and that a kernel of this kind at the other end delivers it;
  and how the kernel answers address requests.
\<close>

section \<open>The frame, field by field\<close>

lemma frame_decodes:
  assumes m: "bytes_at m f (length fr) = fr" and fr: "fr = ethernet_bytes eh @ ipv4_bytes ih @ udp_bytes uh @ data"
    and wf: "ethernet_wf eh" "ipv4_wf ih"
  shows "frame_ethernet m f = eh" "frame_ip m f = ih" "frame_udp m f = uh" "bytes_at m (f + 42) (length data) = data"
    "bytes_at m (f + 14) 20 = ipv4_bytes ih"
proof -
  note L = ethernet_codec.enc_length [OF wf(1)] ipv4_codec.enc_length [OF wf(2)] udp_codec.enc_length [OF TrueI, of uh]
  have n: "length fr = 14 + (20 + (8 + length data))" by (simp add: fr L)
  have "bytes_at m f (14 + (20 + (8 + length data))) = fr" using m unfolding n .
  then have split: "bytes_at m f 14 @ bytes_at m (f + 14) 20 @ bytes_at m (f + 34) 8 @ bytes_at m (f + 42) (length data) =
      ethernet_bytes eh @ ipv4_bytes ih @ udp_bytes uh @ data"
    unfolding fr bytes_at_add by (simp add: add.assoc)
  then show "bytes_at m (f + 14) 20 = ipv4_bytes ih" "bytes_at m (f + 42) (length data) = data"
    and "frame_ethernet m f = eh" "frame_ip m f = ih" "frame_udp m f = uh"
    using L ethernet_codec.dec_enc [OF wf(1)] ipv4_codec.dec_enc [OF wf(2)] udp_codec.dec_enc [OF TrueI, of uh]
    by (simp_all add: frame_ethernet_def frame_ip_def frame_udp_def append_eq_append_conv)
qed

lemma packet_header_fields:
  "ip_version (packet_header s ip sz) = 4" "ip_header_size (packet_header s ip sz) = 5"
  "ip_protocol (packet_header s ip sz) = IP_PROTO_UDP" "ip_src_ip (packet_header s ip sz) = ip_addr s"
  "ip_dst_ip (packet_header s ip sz) = take 4 ip"
  "ip_total_length (packet_header s ip sz) = htons (ucast (20 + (sz + 8)))"
  "ip_diff_serv (packet_header s ip sz) = 0" "ip_ecn (packet_header s ip sz) = 0"
  by (simp_all add: packet_header_def ip_complete_header_def Let_def IP_PROTO_UDP_def)

lemma datagram_header_fields:
  "udp_src_port (datagram_header s ip p q b sz) = htons p" "udp_dst_port (datagram_header s ip p q b sz) = htons q"
  "udp_size (datagram_header s ip p q b sz) = htons (ucast (sz + 8))"
  by (simp_all add: datagram_header_def Let_def)

text \<open>A machine that can send \<open>sz\<close> bytes from \<open>buffer\<close>.\<close>

definition can_send :: "u32 \<Rightarrow> u32 list \<Rightarrow> block list \<Rightarrow> nat \<Rightarrow> u32 \<Rightarrow> u32 \<Rightarrow> 'a udp_scheme \<Rightarrow> bool" where
  "can_send a ds bs e buffer sz s \<longleftrightarrow> heap_inv s bs e \<and> e \<le> 0xffffffff \<and> coalesced bs \<and>
     room_for [sz + 8, sz + 8 + 20, sz + 8 + 20 + 14] bs \<and> adapter_ready a ds (42 + unat sz) (free_area bs e) s \<and>
     unat sz + 42 < 4096 \<and> region buffer (unat sz) \<inter> free_area bs e = {} \<and>
     length (router_mac s) = 6 \<and> length (ip_addr s) = 4"

lemma sendto_frame:
  fixes s :: "'a udp_scheme"
  assumes "can_send a ds bs e buffer sz s" "4 \<le> length ip"
  obtains s' uh where "udp_sendto this ip port buffer sz s = Some s'" "heap_inv s' bs e"
    "transmitted a (ethernet_bytes \<lparr>eth_dst_mac = router_mac s, eth_src_mac = dev_mac (mem s) a, ether_type = htons 0x0800\<rparr> @
      ipv4_bytes (packet_header s ip sz) @ udp_bytes uh @ bytes_at (mem s) buffer (unat sz)) (free_area bs e) s s'"
    "uh = datagram_header s ip (sock_port (mem s) this) port buffer sz"
    "ethernet_wf \<lparr>eth_dst_mac = router_mac s, eth_src_mac = dev_mac (mem s) a, ether_type = htons 0x0800\<rparr>"
    "ipv4_wf (packet_header s ip sz)"
proof -
  note C = assms(1) [unfolded can_send_def]
  have "unat sz + 42 \<le> 0xffff" using C by simp
  then obtain s' where s': "udp_sendto this ip port buffer sz s = Some s'" "heap_inv s' bs e"
    "transmitted a (frame_around s a (htons 0x0800) (ipv4_bytes (packet_header s ip sz) @
      udp_bytes (datagram_header s ip (sock_port (mem s) this) port buffer sz) @ bytes_at (mem s) buffer (unat sz)))
      (free_area bs e) s s'"
    using udp_sendto_run [of s bs e sz a ds buffer ip this port] C assms(2) by blast
  moreover have "ethernet_wf \<lparr>eth_dst_mac = router_mac s, eth_src_mac = dev_mac (mem s) a, ether_type = htons 0x0800\<rparr>"
    using C by (simp add: ethernet_wf_def dev_mac_def)
  moreover have "ipv4_wf (packet_header s ip sz)"
    using C assms(2) by (simp add: ipv4_wf_def packet_header_fields)
  ultimately show ?thesis using that unfolding frame_around_def by blast
qed

lemma transmitted_bytes:
  "transmitted a fr X s s' \<Longrightarrow> bytes_at (mem s') (tx_target s a) (length fr) = fr"
  by (simp add: transmitted_def)

section \<open>Properties\<close>

text \<open>
  C9. \<open>sendto\<close> puts the datagram on the wire: if the heap has room for the three buffers, the
  adapter's current descriptor is free and the data lie outside the free memory, the frame
  in the adapter's buffer goes from its address to the router's, carries an IPv4 packet of
  28 bytes more than the data, with the machine's address and the given one, whose header
  sums to 65535, and in it a datagram from the socket's port to the given one with exactly
  the data. The descriptor is handed over with the length of the frame; the heap has the
  same blocks as before, and no other memory has changed.
\<close>

theorem udp_sendto_transmits:
  fixes s :: "'a udp_scheme"
  assumes ready: "can_send a ds bs e buffer sz s" and ip: "length ip = 4"
  shows "\<exists>s' f m. udp_sendto this ip port buffer sz s = Some s' \<and> f = tx_target s a \<and> m = mem s' \<and>
    eth_dst_mac (frame_ethernet m f) = router_mac s \<and> eth_src_mac (frame_ethernet m f) = dev_mac (mem s) a \<and>
    ntohs (ether_type (frame_ethernet m f)) = ETH_PROTO_IP \<and>
    ip_version (frame_ip m f) = 4 \<and> ip_header_size (frame_ip m f) = 5 \<and> ip_protocol (frame_ip m f) = IP_PROTO_UDP \<and>
    unat (ntohs (ip_total_length (frame_ip m f))) = 28 + unat sz \<and> ip_src_ip (frame_ip m f) = ip_addr s \<and>
    ip_dst_ip (frame_ip m f) = ip \<and> inet_sum (bytes_at m (f + 14) 20) = 65535 \<and>
    ntohs (udp_src_port (frame_udp m f)) = sock_port (mem s) this \<and> ntohs (udp_dst_port (frame_udp m f)) = port \<and>
    unat (ntohs (udp_size (frame_udp m f))) = 8 + unat sz \<and>
    bytes_at m (f + 42) (unat sz) = bytes_at (mem s) buffer (unat sz) \<and>
    descr_flag OWN m (tx_slot s a) \<and> unat (descr_bcnt m (tx_slot s a)) = 4096 - (42 + unat sz) \<and>
    s' = s\<lparr>mem := m\<rparr> \<and> heap_inv s' bs e \<and>
    same_outside (region f (42 + unat sz) \<union> region (tx_slot s a) 8 \<union> free_area bs e) (mem s) m"
proof -
  let ?eh = "\<lparr>eth_dst_mac = router_mac s, eth_src_mac = dev_mac (mem s) a, ether_type = htons 0x0800\<rparr>"
  let ?ih = "packet_header s ip sz" and ?data = "bytes_at (mem s) buffer (unat sz)" and ?f = "tx_target s a"
  obtain s' uh where run: "udp_sendto this ip port buffer sz s = Some s'" "heap_inv s' bs e"
    and sent: "transmitted a (ethernet_bytes ?eh @ ipv4_bytes ?ih @ udp_bytes uh @ ?data) (free_area bs e) s s'"
    and uh: "uh = datagram_header s ip (sock_port (mem s) this) port buffer sz" and wf: "ethernet_wf ?eh" "ipv4_wf ?ih"
    by (rule sendto_frame [OF ready, of ip this port]) (use ip in simp, rule that, assumption+)
  note F = frame_decodes [OF transmitted_bytes [OF sent] refl wf]
  have sz: "unat sz + 42 < 4096" and ipl: "length (ip_addr s) = 4" using ready by (simp_all add: can_send_def)
  have lens: "unat (ucast (20 + (sz + 8)) :: u16) = 28 + unat sz" "unat (ucast (sz + 8) :: u16) = 8 + unat sz"
    using sz by (simp_all add: unsigned_ucast_eq take_bit_eq_mod unat_word_ariths)
  have "inet_sum (ipv4_bytes ?ih) = 65535"
    unfolding packet_header_def using ip ipl by (intro completed_header_sum) simp_all
  moreover have n: "length (ethernet_bytes ?eh @ ipv4_bytes ?ih @ udp_bytes uh @ ?data) = 42 + unat sz"
    using ethernet_codec.enc_length [OF wf(1)] ipv4_codec.enc_length [OF wf(2)] udp_codec.enc_length [OF TrueI, of uh] by simp
  moreover note sent [unfolded transmitted_def n]
  ultimately show ?thesis
    using run(1,2) F(1,2,3,4,5) lens sz ip uh
    by (intro exI [of _ s'] exI [of _ ?f] exI [of _ "mem s'"])
      (simp only: packet_header_fields datagram_header_fields ETH_PROTO_IP_def ntohs_htons ethernet_header.simps, simp)
qed

text \<open>
  C8. What \<open>sendto\<close> sends, \<open>recv\<close> gets: when the frame that a machine of this kind has handed to
  its adapter arrives in the memory of another, and a socket is open there for the
  destination port, then the reception of the frame raises the flag of this socket, points
  its buffer at the data, and the data there are the bytes that were sent. Nothing else
  changes in the receiver.
\<close>

theorem datagram_roundtrip:
  fixes s :: "'a udp_scheme" and r :: "'b udp_scheme"
  assumes ready: "can_send a ds bs e buffer sz s" and ip: "length ip = 4"
    and open_port: "sockets r port = k" "k \<noteq> 0" and apart: "apart f (42 + unat sz) (k + 8) 5"
  shows "\<exists>s'. udp_sendto this ip port buffer sz s = Some s' \<and>
    (bytes_at (mem r) f (42 + unat sz) = bytes_at (mem s') (tx_target s a) (42 + unat sz) \<longrightarrow>
      (\<exists>r'. net_handle_packet response_at f r = Some r' \<and> r' = r\<lparr>mem := mem r'\<rparr> \<and> got_packet (mem r') k \<and>
        bytes_at (mem r') (recv_buffer (mem r') k) (unat sz) = bytes_at (mem s) buffer (unat sz) \<and>
        same_outside (region (k + 8) 5) (mem r) (mem r')))"
proof -
  let ?eh = "\<lparr>eth_dst_mac = router_mac s, eth_src_mac = dev_mac (mem s) a, ether_type = htons 0x0800\<rparr>"
  let ?ih = "packet_header s ip sz" and ?data = "bytes_at (mem s) buffer (unat sz)"
  obtain s' uh where run: "udp_sendto this ip port buffer sz s = Some s'"
    and sent: "transmitted a (ethernet_bytes ?eh @ ipv4_bytes ?ih @ udp_bytes uh @ ?data) (free_area bs e) s s'"
    and uh: "uh = datagram_header s ip (sock_port (mem s) this) port buffer sz" and wf: "ethernet_wf ?eh" "ipv4_wf ?ih"
    by (rule sendto_frame [OF ready, of ip this port]) (use ip in simp, rule that, assumption+)
  have n: "length (ethernet_bytes ?eh @ ipv4_bytes ?ih @ udp_bytes uh @ ?data) = 42 + unat sz"
    using ethernet_codec.enc_length [OF wf(1)] ipv4_codec.enc_length [OF wf(2)] udp_codec.enc_length [OF TrueI, of uh] by simp
  have "\<exists>r'. net_handle_packet response_at f r = Some r' \<and> r' = r\<lparr>mem := mem r'\<rparr> \<and> got_packet (mem r') k \<and>
      bytes_at (mem r') (recv_buffer (mem r') k) (unat sz) = ?data \<and> same_outside (region (k + 8) 5) (mem r) (mem r')"
    if wire: "bytes_at (mem r) f (42 + unat sz) = bytes_at (mem s') (tx_target s a) (42 + unat sz)"
  proof -
    have "bytes_at (mem r) f (42 + unat sz) = ethernet_bytes ?eh @ ipv4_bytes ?ih @ udp_bytes uh @ ?data"
      using wire transmitted_bytes [OF sent] unfolding n by simp
    note F = frame_decodes [OF this [folded n] refl wf]
    have port: "ntohs (udp_dst_port (frame_udp (mem r) f)) = port"
      "ntohs (ether_type (frame_ethernet (mem r) f)) = ETH_PROTO_IP" "ip_protocol (frame_ip (mem r) f) = IP_PROTO_UDP"
      by (simp_all add: F uh datagram_header_fields packet_header_fields ETH_PROTO_IP_def)
    have "apart f 42 (k + 8) 5" using apart by (rule apart_mono) simp_all
    then obtain r' where r': "net_handle_packet response_at f r = Some r'" "r' = r\<lparr>mem := mem r'\<rparr>" "got_packet (mem r') k"
      "recv_buffer (mem r') k = f + 42" "\<forall>x. x \<notin> region (k + 8) 5 \<longrightarrow> mem r' x = mem r x"
      using udp_frame_run [where s = r and f = f and response_at = response_at, unfolded port open_port(1)] open_port(2)
      by (auto simp: ETH_PROTO_IP_def ETH_PROTO_ARP_def)
    have same: "same_outside (region (k + 8) 5) (mem r) (mem r')" using r'(5) by (simp add: same_outside_def)
    have "region (f + 42) (unat sz) \<subseteq> region f (42 + unat sz)"
      using region_split(1) [of 42 "unat sz" f] ready by (auto simp: can_send_def)
    then have "region (f + 42) (unat sz) \<inter> region (k + 8) 5 = {}" using apart_disjoint [OF apart] by blast
    then have "bytes_at (mem r') (f + 42) (unat sz) = ?data"
      using same_outside_bytes [OF same] F(4) ready by (simp add: can_send_def)
    with r' same show ?thesis by auto
  qed
  with run show ?thesis by blast
qed

section \<open>Answering address requests\<close>

definition frame_arp :: "mem \<Rightarrow> u32 \<Rightarrow> arp_packet" where
  "frame_arp m f = arp_of (bytes_at m (f + 14) 28)"

lemma frame_arp_fields:
  "arp_src_mac (frame_arp m f) = bytes_at m (f + 14 + 8) 6" "arp_src_ip (frame_arp m f) = bytes_at m (f + 14 + 14) 4"
  "arp_dst_ip (frame_arp m f) = bytes_at m (f + 14 + 24) 4"
  using drop_bytes_at [of 8 28 m "f + 14"] drop_bytes_at [of 14 28 m "f + 14"] drop_bytes_at [of 24 28 m "f + 14"]
    bytes_at_add [of m "f + 22" 6 14] bytes_at_add [of m "f + 28" 4 10]
  by (simp_all add: frame_arp_def arp_of_def add.assoc)

text \<open>A machine that can answer, with the response at \<open>response_at\<close> on the stack.\<close>

definition can_answer :: "u32 \<Rightarrow> u32 list \<Rightarrow> block list \<Rightarrow> nat \<Rightarrow> u32 \<Rightarrow> 'a ethernet_scheme \<Rightarrow> bool" where
  "can_answer a ds bs e response_at s \<longleftrightarrow> heap_inv s bs e \<and> e \<le> 0xffffffff \<and> coalesced bs \<and> room_for [42] bs \<and>
     adapter_ready a ds 42 (free_area bs e \<union> region response_at 28) s \<and> region response_at 28 \<inter> free_area bs e = {} \<and>
     length (router_mac s) = 6 \<and> length (client_mac s) = 6"

lemma arp_answer_run:
  fixes s :: "'a arp_scheme"
  assumes ready: "can_answer a ds bs e response_at s" and found: "get_by_ip (packet + 24) s = Some n" "n \<noteq> 0"
  shows "\<exists>s'. arp_handle_packet response_at packet s = Some s' \<and> heap_inv s' bs e \<and>
    transmitted a (frame_around s a (htons 0x0806) (arp_bytes (arp_response n packet s)))
      (free_area bs e \<union> region response_at 28) s s'"
proof -
  note C = ready [unfolded can_answer_def]
  let ?X = "free_area bs e \<union> region response_at 28" and ?r = "arp_bytes (arp_response n packet s)"
  let ?h = "\<lparr>eth_dst_mac = [], eth_src_mac = [], ether_type = htons 0x0806\<rparr>"
  define t where "t = s\<lparr>mem := write_bytes response_at ?r (mem s)\<rparr>"
  have len: "length ?r = 28" using C by (simp add: arp_bytes_def arp_response_def get_mac_def entry_ip_def)
  have st: "t = s\<lparr>mem := mem t\<rparr>" by (simp add: t_def)
  have other: "mem t x = mem s x" if "x \<notin> region response_at 28" for x
    using that len by (simp add: t_def write_bytes_other)
  then have same: "same_outside ?X (mem s) (mem t)" by (simp add: same_outside_def)
  have content: "bytes_at (mem t) response_at (unat (28 :: u32)) = ?r"
    using bytes_at_write_bytes [of ?r response_at "mem s"] len by (simp add: t_def)
  have "adapter_ready a ds 42 ?X s" using C by simp
  note R = adapter_ready_cong [OF this st same, of "free_area bs e"]
  have frame: "frame_around t a ty pl = frame_around s a ty pl" for ty pl
    using R(4) by (simp add: frame_around_def t_def)
  have "heap_inv (s\<lparr>mem := mem t\<rparr>) bs e"
    using C other by (intro heap_inv_outside) blast+
  then have inv: "heap_inv t bs e" using st by simp
  have mac: "length (router_mac t) = 6" using C by (simp add: t_def)
  have "\<exists>s'. net_send ?h response_at 28 t = Some s' \<and> heap_inv s' bs e \<and>
      transmitted a (frame_around t a (ether_type ?h) (bytes_at (mem t) response_at (unat (28 :: u32)))) (free_area bs e) t s'"
    by (rule net_send_frame [OF inv _ _ _ _ _ _ mac]) (use C R(1) in simp_all)
  then obtain s' where s': "net_send ?h response_at 28 t = Some s'" "heap_inv s' bs e"
    "transmitted a (frame_around s a (htons 0x0806) ?r) (free_area bs e) t s'"
    unfolding frame content ethernet_header.simps by blast
  have lf: "length (frame_around s a (htons 0x0806) ?r) = 42" using C len by (simp add: length_frame_around)
  have "transmitted a (frame_around s a (htons 0x0806) ?r) ?X s s'"
    by (rule transmitted_frame [where ds = ds, OF _ s'(3) _ st same]) (use C lf in \<open>simp_all add: same_outside_def\<close>)
  moreover have "arp_handle_packet response_at packet s = Some s'"
    using found s'(1) by (simp add: arp_handle_packet_def t_def Let_def)
  ultimately show ?thesis using s'(2) by blast
qed

lemma arp_frame_decodes:
  assumes m: "bytes_at m f 42 = ethernet_bytes eh @ arp_bytes q" and wf: "ethernet_wf eh" "arp_wf q"
  shows "frame_ethernet m f = eh" "frame_arp m f = q"
proof -
  have "bytes_at m f 14 @ bytes_at m (f + 14) 28 = ethernet_bytes eh @ arp_bytes q"
    using m bytes_at_add [of m f 14 28] by simp
  then show "frame_ethernet m f = eh" "frame_arp m f = q"
    using ethernet_codec.enc_length [OF wf(1)] arp_codec.enc_length [OF wf(2)]
      ethernet_codec.dec_enc [OF wf(1)] arp_codec.dec_enc [OF wf(2)]
    by (simp_all add: frame_ethernet_def frame_arp_def append_eq_append_conv)
qed

text \<open>
  C18. Address requests are answered from the cache: a received ARP frame that asks for an
  address of the cache (the first entry counts) makes the kernel send one frame, a reply
  (opcode 2) for Ethernet and IPv4 to the one who asked, which gives the machine's own
  hardware address for the address asked for. A frame that asks for an unknown address
  changes nothing. The answer leaves the heap with the same blocks.
\<close>

theorem arp_request_answered:
  fixes s :: "'a udp_scheme" and f :: u32
  assumes ready: "can_answer a ds bs e response_at s" and known: "cached s kvs"
    and arp: "ntohs (ether_type (frame_ethernet (mem s) f)) = ETH_PROTO_ARP"
  shows "case find (\<lambda>kv. fst kv = arp_dst_ip (frame_arp (mem s) f)) kvs of
      None \<Rightarrow> net_handle_packet response_at f s = Some s
    | Some kv \<Rightarrow> \<exists>s' g. net_handle_packet response_at f s = Some s' \<and> g = tx_target s a \<and>
        frame_ethernet (mem s') g =
          \<lparr>eth_dst_mac = router_mac s, eth_src_mac = dev_mac (mem s) a, ether_type = htons ETH_PROTO_ARP\<rparr> \<and>
        frame_arp (mem s') g =
          \<lparr>arp_hw_type = htons 1, arp_protocol_type = htons ETH_PROTO_IP, arp_hw_addr_len = 6, arp_pr_addr_len = 4,
           arp_opcode = htons 2, arp_src_mac = client_mac s, arp_src_ip = arp_dst_ip (frame_arp (mem s) f),
           arp_dst_mac = arp_src_mac (frame_arp (mem s) f), arp_dst_ip = arp_src_ip (frame_arp (mem s) f)\<rparr> \<and>
        descr_flag OWN (mem s') (tx_slot s a) \<and> unat (descr_bcnt (mem s') (tx_slot s a)) = 4096 - 42 \<and>
        s' = s\<lparr>mem := mem s'\<rparr> \<and> heap_inv s' bs e \<and>
        same_outside (region g 42 \<union> region (tx_slot s a) 8 \<union> (free_area bs e \<union> region response_at 28)) (mem s) (mem s')"
proof -
  let ?P = "\<lambda>kv. fst kv = arp_dst_ip (frame_arp (mem s) f)"
  have P: "?P = (\<lambda>kv. fst kv = bytes_at (mem s) (f + 14 + 24) 4)" by (simp only: frame_arp_fields)
  obtain n where n: "get_by_ip (f + 14 + 24) s = Some n" "entry_or_null (mem s) n (find ?P kvs)"
    using get_by_ip_cached [OF known, of "f + 14 + 24"] unfolding P by blast
  have run: "net_handle_packet response_at f s = arp_handle_packet response_at (f + 14) s"
    using arp by (simp add: net_handle_packet_def frame_fields ETH_PROTO_ARP_def ETH_PROTO_IP_def)
  show ?thesis
  proof (cases "find ?P kvs")
    case None
    then show ?thesis using n run by (simp add: entry_or_null_def arp_handle_packet_def)
  next
    case (Some kv)
    then have "?P kv" by (auto simp: find_Some_iff)
    moreover have "n \<noteq> 0 \<and> (entry_ip (mem s) n, entry_mac (mem s) n) = kv"
      using n(2) Some by (simp add: entry_or_null_def node_entry_def)
    ultimately have n': "n \<noteq> 0" "entry_ip (mem s) n = arp_dst_ip (frame_arp (mem s) f)" by auto
    let ?eh = "\<lparr>eth_dst_mac = router_mac s, eth_src_mac = dev_mac (mem s) a, ether_type = htons ETH_PROTO_ARP\<rparr>"
    let ?q = "arp_response n (f + 14) s"
    have q: "?q = \<lparr>arp_hw_type = htons 1, arp_protocol_type = htons ETH_PROTO_IP, arp_hw_addr_len = 6, arp_pr_addr_len = 4,
           arp_opcode = htons 2, arp_src_mac = client_mac s, arp_src_ip = arp_dst_ip (frame_arp (mem s) f),
           arp_dst_mac = arp_src_mac (frame_arp (mem s) f), arp_dst_ip = arp_src_ip (frame_arp (mem s) f)\<rparr>"
      using n'(2) by (simp add: arp_response_def get_mac_def frame_arp_fields ETH_PROTO_IP_def)
    have wf: "ethernet_wf ?eh" "arp_wf ?q"
      using ready by (simp_all add: can_answer_def ethernet_wf_def arp_wf_def arp_response_def get_mac_def
          entry_ip_def dev_mac_def)
    obtain s' where s': "arp_handle_packet response_at (f + 14) s = Some s'" "heap_inv s' bs e"
      and sent: "transmitted a (ethernet_bytes ?eh @ arp_bytes ?q) (free_area bs e \<union> region response_at 28) s s'"
      using arp_answer_run [OF ready n(1) n'(1)] unfolding frame_around_def ETH_PROTO_ARP_def by blast
    have len: "length (ethernet_bytes ?eh @ arp_bytes ?q) = 42"
      using ethernet_codec.enc_length [OF wf(1)] arp_codec.enc_length [OF wf(2)] by simp
    note T = sent [unfolded transmitted_def len]
    have "bytes_at (mem s') (tx_target s a) 42 = ethernet_bytes ?eh @ arp_bytes ?q" using T by blast
    note F = arp_frame_decodes [OF this wf]
    show ?thesis
      unfolding Some option.case run
      by (intro exI [of _ s'] exI [of _ "tx_target s a"] conjI s' refl F(1) F(2) [unfolded q]) (use T in simp_all)
  qed
qed

section \<open>An example machine\<close>

text \<open>The heap at 1 MiB, an adapter at 2 MiB with a free first descriptor, and \<open>m\<close> below both.\<close>

definition net_memory :: "mem \<Rightarrow> mem" where
  "net_memory m = m(0x200008 := 1, 0x2000b0 := 0x30, 0x2000b1 := 0x31, 0x2000b2 := 0x20)"

definition net_machine :: "mem \<Rightarrow> udp" where
  "net_machine m = heap_allocator_init 0x100000 0x1000 (booted (net_memory m) (\<lambda>_ _. 0) [0x200000])"

definition quiet_above :: "mem \<Rightarrow> bool" where
  "quiet_above m \<longleftrightarrow> (\<forall>x. 0x100000 \<le> unat x \<longrightarrow> m x = 0)"

lemma net_machine_memory:
  assumes "x \<notin> region 0x100000 16"
  shows "mem (net_machine m) x = net_memory m x"
proof -
  have "x \<notin> region 0x100000 1" "x \<notin> region (0x100000 + 4) 4"
    using region_offset [of 0 1 16 "0x100000"] region_offset [of 4 4 16 "0x100000"] assms by auto
  then show ?thesis
    by (simp add: net_machine_def heap_allocator_init_def set_size_def set_allocated_def booted_def
        wr32_other wr8_other)
qed

lemma net_machine_below: "unat x < 0x100000 \<Longrightarrow> mem (net_machine m) x = m x"
  by (subst net_machine_memory) (auto simp: in_region_nat net_memory_def)

lemma net_machine_above:
  assumes "quiet_above m" "0x100010 \<le> unat x"
  shows "mem (net_machine m) x = net_memory (\<lambda>_. 0) x"
  using assms by (subst net_machine_memory) (auto simp: in_region_nat net_memory_def quiet_above_def)

lemma net_machine_heap:
  assumes "quiet_above m"
  shows "heap_inv (net_machine m) [Block 0x100000 0x1000 False] 0x101010"
proof -
  have "rd32 (net_memory m) (0x100000 + 8) = 0" "rd32 (net_memory m) (0x100000 + 12) = 0"
    using assms by (simp_all add: rd32_def net_memory_def quiet_above_def)
  then show ?thesis
    unfolding net_machine_def
    using heap_init_inv [where base = "0x100000" and sz = "0x1000" and s = "booted (net_memory m) (\<lambda>_ _. 0) [0x200000]"]
    by (simp add: booted_def)
qed

lemma net_machine_adapter:
  assumes "quiet_above m"
  shows "tx_slot (net_machine m) 0x200000 = 0x2000b0" "tx_target (net_machine m) 0x200000 = 0x203130"
    "dev_mac (mem (net_machine m)) 0x200000 = [0, 0, 0, 0, 0, 0]"
    "len \<le> 1520 \<Longrightarrow> X \<subseteq> {x. unat x < 0x200000} \<Longrightarrow> adapter_ready 0x200000 [0x200000] len X (net_machine m)"
proof -
  let ?m = "mem (net_machine m)"
  note M = net_machine_above [OF assms]
  have n: "tx_n ?m 0x200000 = 0" by (simp add: tx_n_def rd32_def M net_memory_def)
  then show slot: "tx_slot (net_machine m) 0x200000 = 0x2000b0" by (simp add: tx_slot_def tx_descr_def)
  have "rd32 ?m 0x2000b0 = 0x203130" by (simp add: rd32_def M net_memory_def push_bit_eq_mult)
  then show target: "tx_target (net_machine m) 0x200000 = 0x203130"
    unfolding tx_target_def slot by (simp add: descr_buffer_def)
  show "dev_mac ?m 0x200000 = [0, 0, 0, 0, 0, 0]"
    by (simp add: dev_mac_def bytes_at_def upt_rec M net_memory_def)
  assume len: "len \<le> 1520" and X: "X \<subseteq> {x. unat x < 0x200000}"
  have reg: "registry_is (net_machine m) [0x200000]"
    by (simp add: registry_is_def net_machine_def heap_allocator_init_def booted_def)
  have "dev_class ?m 0x200000 = 1" by (simp add: dev_class_def rd32_def M net_memory_def)
  then have found: "find_device_by_class DEVICE_NETWORK (net_machine m) = 0x200000"
    unfolding find_device_registry [OF reg] by simp
  have "\<not> descr_flag OWN ?m 0x2000b0" by (simp add: descr_flag_def rd8_def M net_memory_def)
  moreover have "dynamic_class (net_machine m) 0x200000 = Some Class_PCNET"
    by (simp add: net_machine_def heap_allocator_init_def booted_def)
  moreover have "apart 0x203130 len 0x2000b0 16" "apart 0x203130 len (0x200000 + 24912) 4"
    using len by (simp_all add: apart_def)
  moreover have "x \<notin> X" if "x \<in> adapter_bytes (net_machine m) 0x200000 [0x200000] \<union> region 0x203130 len" for x
  proof -
    have "0x200000 \<le> unat x" using that len by (auto simp: adapter_bytes_def slot in_region_nat)
    then show ?thesis using X by auto
  qed
  ultimately show "adapter_ready 0x200000 [0x200000] len X (net_machine m)"
    using reg found n by (auto simp: adapter_ready_def slot target)
qed

lemma net_machine_free: "free_area [Block 0x100000 0x1000 False] 0x101010 = {x. 0x100000 \<le> unat x \<and> unat x < 0x101010}"
proof -
  have "used_blocks [Block 0x100000 0x1000 False] = {}" by (auto simp: used_blocks_def)
  then show ?thesis by (simp add: free_area_def)
qed

text \<open>Three bytes to send from a socket with port 68.\<close>

definition sender :: udp where
  "sender = net_machine ((\<lambda>_. 0)(0x3000 := 1, 0x3001 := 2, 0x3002 := 3, 0x2004 := 68))"

lemma sender_quiet: "quiet_above ((\<lambda>_. 0)(0x3000 := 1, 0x3001 := 2, 0x3002 := 3, 0x2004 := 68))"
  by (auto simp: quiet_above_def)

lemma sender_ready: "can_send 0x200000 [0x200000] [Block 0x100000 0x1000 False] 0x101010 0x3000 3 sender"
proof -
  have "heap_inv sender [Block 0x100000 0x1000 False] 0x101010"
    unfolding sender_def by (rule net_machine_heap [OF sender_quiet])
  moreover have "adapter_ready 0x200000 [0x200000] (42 + unat (3 :: u32)) {x. 0x100000 \<le> unat x \<and> unat x < 0x101010} sender"
    unfolding sender_def by (rule net_machine_adapter(4) [OF sender_quiet]) auto
  moreover have "region 0x3000 3 \<inter> {x. 0x100000 \<le> unat x \<and> unat x < 0x101010} = {}" by (auto simp: in_region_nat)
  moreover have "length (router_mac sender) = 6" "length (ip_addr sender) = 4"
    by (simp_all add: sender_def net_machine_def heap_allocator_init_def booted_def)
  ultimately show ?thesis
    by (simp add: can_send_def net_machine_free suitable_def carve_def)
qed

lemma sender_data: "bytes_at (mem sender) 0x3000 3 = [1, 2, 3]" "sock_port (mem sender) 0x2000 = 68"
  by (simp_all add: bytes_at_def upt_rec sock_port_def rd16_def rd8_def sender_def net_machine_below)

lemma sender_target: "tx_target sender 0x200000 = 0x203130"
  unfolding sender_def by (rule net_machine_adapter(2) [OF sender_quiet])

theorem udp_sendto_transmits_witness:
  "\<exists>s'. udp_sendto 0x2000 [10, 0, 2, 2] 69 0x3000 3 sender = Some s' \<and>
     ip_dst_ip (frame_ip (mem s') 0x203130) = [10, 0, 2, 2] \<and> ntohs (udp_src_port (frame_udp (mem s') 0x203130)) = 68 \<and>
     bytes_at (mem s') (0x203130 + 42) 3 = [1, 2, 3]"
  using udp_sendto_transmits [OF sender_ready, of "[10, 0, 2, 2]" "0x2000" 69]
  by (auto simp: sender_data sender_target)

text \<open>The frame arrives at \<open>0x5000\<close> in a machine with a socket for port 69.\<close>

definition receiver :: "u8 list \<Rightarrow> udp" where
  "receiver fr = (booted (write_bytes 0x5000 fr (\<lambda>_. 0)) (\<lambda>_ _. 0) [])\<lparr>sockets := (\<lambda>_. 0)(69 := 0x6000)\<rparr>"

theorem datagram_roundtrip_witness:
  "\<exists>s' r'. udp_sendto 0x2000 [10, 0, 2, 2] 69 0x3000 3 sender = Some s' \<and>
     net_handle_packet 0 0x5000 (receiver (bytes_at (mem s') 0x203130 45)) = Some r' \<and>
     bytes_at (mem r') (recv_buffer (mem r') 0x6000) 3 = [1, 2, 3]"
proof -
  note D = datagram_roundtrip [OF sender_ready, where ip = "[10, 0, 2, 2]" and this = "0x2000" and port = 69
      and f = "0x5000" and k = "0x6000" and response_at = 0, unfolded sender_target sender_data]
  have sock: "sockets (receiver fr) 69 = 0x6000" for fr by (simp add: receiver_def)
  have ap: "apart 0x5000 (42 + unat (3 :: u32)) (0x6000 + 8) 5" by (simp add: apart_def)
  obtain s' where s': "udp_sendto 0x2000 [10, 0, 2, 2] 69 0x3000 3 sender = Some s'"
    using D [OF _ sock _ ap] by auto
  define fr where "fr = bytes_at (mem s') 0x203130 45"
  have "bytes_at (mem (receiver fr)) 0x5000 45 = fr"
    using bytes_at_write_bytes [of fr "0x5000" "\<lambda>_. 0"] by (simp add: receiver_def booted_def fr_def)
  then show ?thesis
    using D [OF _ sock _ ap, of fr] s' by (auto simp: fr_def sender_data)
qed

text \<open>A machine with the cache entry for 10.0.2.15 that \<open>add_cache_entry\<close> makes, and a request for
  it from 10.0.2.2 at \<open>0x5000\<close>.\<close>

definition request :: mem where
  "request = (\<lambda>_. 0)(0x500c := 8, 0x500d := 6, 0x501c := 10, 0x501e := 2, 0x501f := 2, 0x5026 := 10, 0x5028 := 2, 0x5029 := 15)"

lemma request_fields:
  assumes "\<And>x. unat x < 0x100000 \<Longrightarrow> m x = request x"
  shows "ntohs (ether_type (frame_ethernet m 0x5000)) = ETH_PROTO_ARP" "arp_dst_ip (frame_arp m 0x5000) = [10, 0, 2, 15]"
    "arp_src_ip (frame_arp m 0x5000) = [10, 0, 2, 2]" "arp_src_mac (frame_arp m 0x5000) = [0, 0, 0, 0, 0, 0]"
  by (simp_all add: frame_fields frame_arp_fields rd16_def rd8_def bytes_at_def upt_rec assms request_def
      ETH_PROTO_ARP_def ntohs_def htons_def)

definition answerer :: "mem \<Rightarrow> udp" where
  "answerer m = (net_machine request)\<lparr>mem := write_bytes 0x100014 [0x52, 0x54, 0, 0x12, 0x34, 0x56]
     (write_bytes 0x100010 [10, 0, 2, 15] (wr32 0x10001c 0 m)), cache := 0x100010, last_entry := 0x100010\<rparr>"

lemma find_device_cache:
  fixes s :: "'a arp_scheme"
  shows "find_device_loop d i (s\<lparr>cache := c, last_entry := l\<rparr>) = find_device_loop d i s"
proof (induction "1024 - i" arbitrary: i)
  case 0
  then show ?case by (simp add: find_device_loop.simps)
next
  case (Suc n)
  then show ?case
    using Suc(1) [of "i + 1"]
    by (simp add: find_device_loop.simps [of d i])
qed

lemma can_answer_cache:
  fixes s :: "'a arp_scheme"
  shows "can_answer a ds bs e r (s\<lparr>cache := c, last_entry := l\<rparr>) = can_answer a ds bs e r s"
    "tx_target (s\<lparr>cache := c, last_entry := l\<rparr>) a = tx_target s a"
  by (simp_all add: can_answer_def adapter_ready_def heap_inv_def registry_is_def find_device_by_class_def
      adapter_bytes_def tx_slot_def tx_target_def find_device_cache)

lemma answerer_ready:
  "\<exists>m bs. can_answer 0x200000 [0x200000] bs 0x101010 0x4000 (answerer m) \<and>
    cached (answerer m) [([10, 0, 2, 15], [0x52, 0x54, 0, 0x12, 0x34, 0x56])] \<and>
    tx_target (answerer m) 0x200000 = 0x203130 \<and> (\<forall>x. unat x < 0x100000 \<longrightarrow> mem (answerer m) x = request x)"
proof -
  let ?bs = "[Block 0x100000 0x1000 False]" and ?bs' = "[Block 0x100000 16 True, Block 0x100020 0xfe0 False]"
  let ?s = "net_machine request" and ?area = "{x. 0x100000 \<le> unat x \<and> unat x < 0x101010}"
  let ?mac = "[0x52, 0x54, 0, 0x12, 0x34, 0x56] :: u8 list"
  have quiet: "quiet_above request" by (auto simp: quiet_above_def request_def)
  note inv = net_machine_heap [OF quiet]
  have r: "abs_malloc 16 ?bs = Some (0x100010, ?bs')" by (simp add: suitable_def carve_def)
  obtain m where m: "heap_inv (?s\<lparr>mem := m\<rparr>) ?bs' 0x101010" "coalesced ?bs'"
    "same_outside ?area (mem ?s) m" "free_area ?bs' 0x101010 \<subseteq> ?area" "region 0x100010 (unat (16 :: u32)) \<inter> free_area ?bs' 0x101010 = {}"
    by (rule buffer_alloc [OF inv _ _ r, unfolded net_machine_free]) (simp, simp, simp, rule that, assumption+)
  define m' where "m' = mem (answerer m)"
  have small: "(0x101010 :: nat) \<le> 0xffffffff" by simp
  have ob: "object (?s\<lparr>mem := m\<rparr>) 0x100010 16"
    unfolding object_iff [OF m(1) small] by (rule conjI, simp, rule bexI [of _ "Block 0x100000 16 True"]) (simp_all add: used_blocks_def)
  have m': "m' = write_bytes (0x100010 + 4) ?mac (write_bytes 0x100010 [10, 0, 2, 15] (wr32 (0x100010 + 12) 0 m))"
    by (simp add: m'_def answerer_def)
  note E = new_entry [OF ob _ _ m', simplified]
  let ?t = "?s\<lparr>mem := m'\<rparr>"
  have new: "m' x = m x" if "x \<notin> region 0x100010 16" for x using E(4) [OF that] .
  have "heap_inv (?s\<lparr>mem := m, mem := m'\<rparr>) ?bs' 0x101010"
  proof (rule heap_inv_outside [OF m(1)])
    fix x assume "x \<in> free_area ?bs' 0x101010"
    then have "x \<notin> region 0x100010 16" using m(5) by auto
    then show "m' x = mem (?s\<lparr>mem := m\<rparr>) x" using new by simp
  qed
  then have inv': "heap_inv ?t ?bs' 0x101010" by simp
  have same: "same_outside ?area (mem ?s) m'"
    unfolding same_outside_def
  proof (intro allI impI)
    fix x :: u32 assume x: "x \<notin> ?area"
    then have "x \<notin> region 0x100010 16" by (auto simp: in_region_nat)
    then show "m' x = mem ?s x" using new same_outsideD [OF m(3) x] by simp
  qed
  have t: "answerer m = ?t\<lparr>cache := 0x100010, last_entry := 0x100010\<rparr>"
    by (simp add: answerer_def m'_def)
  have "adapter_ready 0x200000 [0x200000] 42 (?area \<union> region 0x4000 28) ?s"
    by (rule net_machine_adapter(4) [OF quiet]) (auto simp: in_region_nat)
  note R = adapter_ready_cong [OF this, of ?t, simplified]
  have sub: "free_area ?bs' 0x101010 \<union> region 0x4000 28 \<subseteq> ?area \<union> region 0x4000 28" using m(4) by blast
  have same': "same_outside (?area \<union> region 0x4000 28) (mem ?s) m'" by (rule same_outside_mono [OF same]) blast
  have ob': "object ?t 0x100010 16"
    unfolding object_iff [OF inv' small] by (rule conjI, simp, rule bexI [of _ "Block 0x100000 16 True"]) (simp_all add: used_blocks_def)
  have "can_answer 0x200000 [0x200000] ?bs' 0x101010 0x4000 ?t"
    using inv' R(1) [OF same' sub] m(2,4)
    by (auto simp: can_answer_def suitable_def carve_def in_region_nat net_machine_def heap_allocator_init_def booted_def)
  moreover have "tx_target ?t 0x200000 = 0x203130"
    using R(3) [OF same' order_refl] net_machine_adapter(2) [OF quiet] by simp
  moreover have "m' x = request x" if "unat x < 0x100000" for x
    using same_outsideD [OF same, of x] net_machine_below [OF that, of request] that by simp
  moreover have "cached (answerer m) [([10, 0, 2, 15], ?mac)]"
  proof -
    have "cache_nodes (answerer m) [0x100010]"
      unfolding t using inv' ob' E(3) small
      by (auto simp: cache_nodes_def heap_ready_def object_def heap_inv_def entry_next_def)
    moreover have "node_entry (mem (answerer m)) 0x100010 = ([10, 0, 2, 15], ?mac)"
      using E(1,2) by (simp add: node_entry_def m'_def)
    ultimately show ?thesis by (auto simp: cached_def)
  qed
  ultimately show ?thesis
    by (intro exI [of _ m] exI [of _ ?bs']) (simp add: t can_answer_cache)
qed

theorem arp_request_answered_witness:
  "\<exists>m s'. net_handle_packet 0x4000 0x5000 (answerer m) = Some s' \<and>
    frame_arp (mem s') 0x203130 = \<lparr>arp_hw_type = htons 1, arp_protocol_type = htons 0x0800, arp_hw_addr_len = 6, arp_pr_addr_len = 4,
      arp_opcode = htons 2, arp_src_mac = [0, 0, 0, 0, 0, 0], arp_src_ip = [10, 0, 2, 15],
      arp_dst_mac = [0, 0, 0, 0, 0, 0], arp_dst_ip = [10, 0, 2, 2]\<rparr>"
proof -
  obtain m bs where m: "can_answer 0x200000 [0x200000] bs 0x101010 0x4000 (answerer m)"
    "cached (answerer m) [([10, 0, 2, 15], [0x52, 0x54, 0, 0x12, 0x34, 0x56])]" "tx_target (answerer m) 0x200000 = 0x203130"
    and req: "\<And>x. unat x < 0x100000 \<Longrightarrow> mem (answerer m) x = request x"
    using answerer_ready by blast
  have mac: "client_mac (answerer m) = [0, 0, 0, 0, 0, 0]"
    by (simp add: answerer_def net_machine_def heap_allocator_init_def booted_def)
  show ?thesis
    using arp_request_answered [OF m(1,2) request_fields(1) [OF req]] m(3)
    by (auto simp: request_fields [OF req] mac ETH_PROTO_IP_def)
qed

end
