(* ===== verification/Dhcp.thy ===== *)
theory Dhcp
  imports Receive
begin

text \<open>
  The DHCP client, \<open>src/kernel/net/dhcp.cpp\<close>. Messages are built and read in memory; a
  \<open>bootp_message\<close> has 236 bytes, with \<open>op\<close> at 0, \<open>xid\<close> at 4, \<open>flags\<close> at 10, \<open>yiaddr\<close> at 16
  and \<open>client_mac\<close> at 28.
\<close>

record dhcp = udp +
  dhcp_socket :: u32
  dhcp_server :: "u8 list"
  subnet_mask :: "u8 list"

definition sizeof_bootp :: u32 where "sizeof_bootp = 236"

definition yiaddr :: "u32 \<Rightarrow> u32" where "yiaddr header = header + 16"

section \<open>Building options\<close>

record dhcp_option_builder =
  b_buffer :: u32
  b_offset :: u32

text \<open>Where the data of an option comes from: an array of the caller, or memory.\<close>

datatype data_source = Literal "u8 list" | At u32

definition copy_from :: "data_source \<Rightarrow> u32 \<Rightarrow> u32 \<Rightarrow> mem \<Rightarrow> mem" where
  "copy_from src dst n m = (case src of
     Literal bs \<Rightarrow> write_bytes dst (take (unat n) bs) m
   | At p \<Rightarrow> memcpy dst p n m)"

definition append_byte :: "u8 \<Rightarrow> dhcp_option_builder \<times> mem \<Rightarrow> dhcp_option_builder \<times> mem" where
  "append_byte v = (\<lambda>(b, m). (b\<lparr>b_offset := b_offset b + 1\<rparr>, wr8 (b_buffer b + b_offset b) v m))"

definition add_cookie :: "dhcp_option_builder \<times> mem \<Rightarrow> dhcp_option_builder \<times> mem" where
  "add_cookie bm =
     (let bm = append_byte 0x63 bm; bm = append_byte 0x82 bm; bm = append_byte 0x53 bm
      in append_byte 0x63 bm)"

definition add_option :: "u8 \<Rightarrow> u8 \<Rightarrow> data_source \<Rightarrow> dhcp_option_builder \<times> mem \<Rightarrow> dhcp_option_builder \<times> mem" where
  "add_option code len data bm =
     (let bm = append_byte code bm;
          bm = append_byte len bm;
          (b, m) = bm;
          m = copy_from data (b_buffer b + b_offset b) (ucast len) m
      in (b\<lparr>b_offset := b_offset b + ucast len\<rparr>, m))"

definition add_client_id :: "u8 \<Rightarrow> data_source \<Rightarrow> dhcp_option_builder \<times> mem \<Rightarrow> dhcp_option_builder \<times> mem" where
  "add_client_id hw_type addr bm =
     (let bm = append_byte 61 bm;
          bm = append_byte 7 bm;
          bm = append_byte hw_type bm;
          (b, m) = bm;
          m = copy_from addr (b_buffer b + b_offset b) 6 m
      in (b\<lparr>b_offset := b_offset b + 6\<rparr>, m))"

definition add_end :: "dhcp_option_builder \<times> mem \<Rightarrow> dhcp_option_builder \<times> mem" where
  "add_end bm = append_byte 0xff bm"

section \<open>Reading options\<close>

text \<open>For the end code the other fields are not set, and not used.\<close>

record dhcp_option =
  opt_code :: u8
  opt_length :: u8
  opt_data :: u32

definition read_option :: "mem \<Rightarrow> u32 \<Rightarrow> u32 \<Rightarrow> dhcp_option" where
  "read_option m buffer offset =
     (let code = rd8 m (buffer + offset); offset = offset + 1
      in if code = 0xff then \<lparr>opt_code = code, opt_length = 0, opt_data = 0\<rparr>
         else let len = rd8 m (buffer + offset); offset = offset + 1
              in \<lparr>opt_code = code, opt_length = len, opt_data = buffer + offset\<rparr>)"

text \<open>
  The loop of \<open>init\<close> over the options of the offer; the result tells whether it went
  through (\<open>True\<close>) or the function returned from inside. It may not end.
\<close>

partial_function (option) read_offer :: "u32 \<Rightarrow> u32 \<Rightarrow> 'a dhcp_scheme \<Rightarrow> (bool \<times> 'a dhcp_scheme) option" where
  "read_offer options offset s =
     (let option = read_option (mem s) options offset
      in if opt_code option = 0xff then Some (True, s)
         else if opt_code option = 53 \<and> rd8 (mem s) (opt_data option) \<noteq> 2 then Some (False, s)
         else read_offer options (offset + ucast (opt_length option) + 2)
           (if opt_code option = 54
            then s\<lparr>dhcp_server := bytes_at (mem s) (opt_data option) 4\<rparr> else s))"

section \<open>The messages\<close>

text \<open>The header both messages share.\<close>

definition bootp_fill :: "u32 \<Rightarrow> 'a dhcp_scheme \<Rightarrow> mem \<Rightarrow> mem" where
  "bootp_fill header s m =
     (let m = wr8 header 1 m;
          m = wr8 (header + 1) 1 m;
          m = wr8 (header + 2) 6 m;
          m = wr8 (header + 3) 0 m;
          m = wr32 (header + 4) 0x26262626 m;
          m = wr16 (header + 8) 0 m;
          m = wr16 (header + 10) (htons 0) m
      in write_bytes (header + 28) (get_mac s) m)"

definition do_discover :: "'a dhcp_scheme \<Rightarrow> 'a dhcp_scheme option" where
  "do_discover s =
     do {
       (buffer, s) \<leftarrow> operator_new_array 256 s;
       let bm = (\<lparr>b_buffer = buffer, b_offset = 0\<rparr>, mem s);
       let bm = add_cookie bm;
       let bm = add_option 53 1 (Literal [0x1]) bm;
       let bm = add_option 55 3 (Literal [1, 3, 6]) bm;
       let bm = add_client_id 1 (Literal (get_mac s)) bm;
       let (builder, m) = add_end bm;
       let s = s\<lparr>mem := m\<rparr>;
       let total_length = sizeof_bootp + b_offset builder;
       (discover_msg, s) \<leftarrow> operator_new_array total_length s;
       let s = s\<lparr>mem := memset discover_msg 0 total_length (mem s)\<rparr>;
       let s = s\<lparr>mem := bootp_fill discover_msg s (mem s)\<rparr>;
       let s = s\<lparr>mem := memcpy (discover_msg + sizeof_bootp) (b_buffer builder) (b_offset builder) (mem s)\<rparr>;
       let s = operator_delete_array (b_buffer builder) s;
       udp_sendto (dhcp_socket s) [0xff, 0xff, 0xff, 0xff] 67 discover_msg total_length s
     }"

definition do_request :: "u32 \<Rightarrow> 'a dhcp_scheme \<Rightarrow> 'a dhcp_scheme option" where
  "do_request ip s =
     do {
       (buffer, s) \<leftarrow> operator_new_array 256 s;
       let bm = (\<lparr>b_buffer = buffer, b_offset = 0\<rparr>, mem s);
       let bm = add_cookie bm;
       let bm = add_option 53 1 (Literal [0x3]) bm;
       let bm = add_option 50 4 (At ip) bm;
       let bm = add_option 55 3 (Literal [1, 3, 6]) bm;
       let bm = add_client_id 1 (Literal (get_mac s)) bm;
       let (builder, m) = add_end bm;
       let s = s\<lparr>mem := m\<rparr>;
       let total_length = sizeof_bootp + b_offset builder;
       (discover_msg, s) \<leftarrow> operator_new_array total_length s;
       let s = s\<lparr>mem := memset discover_msg 0 total_length (mem s)\<rparr>;
       let s = s\<lparr>mem := bootp_fill discover_msg s (mem s)\<rparr>;
       let s = s\<lparr>mem := memcpy (discover_msg + sizeof_bootp) (b_buffer builder) (b_offset builder) (mem s)\<rparr>;
       let s = operator_delete_array (b_buffer builder) s;
       udp_sendto (dhcp_socket s) [0xff, 0xff, 0xff, 0xff] 67 discover_msg total_length s
     }"

section \<open>\<open>init\<close>\<close>

text \<open>\<open>memset(dhcp_server, 4, 0)\<close> sets zero bytes to 4: the arguments are swapped.\<close>

definition array_memset :: "u8 list \<Rightarrow> u8 \<Rightarrow> nat \<Rightarrow> u8 list" where
  "array_memset xs c count = replicate count c @ drop count xs"

definition dhcp_init :: "'a dhcp_ext hlt \<Rightarrow> u32 \<Rightarrow> 'a dhcp_scheme \<Rightarrow> 'a dhcp_scheme option" where
  "dhcp_init hlt junk s =
     do {
       let s = s\<lparr>dhcp_server := array_memset (dhcp_server s) 4 0\<rparr>;
       let s = s\<lparr>subnet_mask := array_memset (subnet_mask s) 4 0\<rparr>;
       (socket, s) \<leftarrow> operator_new 16 s;
       let s = new_UDPSocket 68 socket s;
       let s = s\<lparr>dhcp_socket := socket\<rparr>;
       s \<leftarrow> do_discover s;
       (data, s) \<leftarrow> recv hlt junk (dhcp_socket s) s;
       let header = data;
       let options = data + sizeof_bootp + 4;
       if rd8 (mem s) header \<noteq> 2 then Some s
       else do {
         (done, s) \<leftarrow> read_offer options 0 s;
         if \<not> done then Some s
         else do {
           s \<leftarrow> do_request (yiaddr header) s;
           (data, s) \<leftarrow> recv hlt junk (dhcp_socket s) s;
           let header = data;
           let s = set_ip (bytes_at (mem s) (yiaddr header) 4) s;
           let ip = get_ip s;
           s \<leftarrow> printf (lit (line ''My IP: %d.%d.%d.%d''))
             [ucast (ip ! 0), ucast (ip ! 1), ucast (ip ! 2), ucast (ip ! 3)] s;
           add_cache_entry ip (get_mac s) s
         }
       }
     }"

end
