(* ===== verification/Dhcp_Options.thy ===== *)
theory Dhcp_Options
  imports Dhcp Example_Machine
begin

text \<open>
  The options of DHCP messages: what the builder writes is what the loop over an offer reads.
\<close>

section \<open>Options as a list\<close>

type_synonym option_list = "(u8 \<times> u8 list) list"

definition option_bytes :: "u8 \<times> u8 list \<Rightarrow> u8 list" where
  "option_bytes opt = fst opt # of_nat (length (snd opt)) # snd opt"

definition options_bytes :: "option_list \<Rightarrow> u8 list" where
  "options_bytes opts = concat (map option_bytes opts)"

text \<open>An option fits its length byte, is not the end code, and the two the loop looks into
  have the data it takes from them.\<close>

definition option_ok :: "u8 \<times> u8 list \<Rightarrow> bool" where
  "option_ok opt \<longleftrightarrow> fst opt \<noteq> 0xff \<and> length (snd opt) < 256 \<and>
     (fst opt = 53 \<longrightarrow> snd opt \<noteq> []) \<and> (fst opt = 54 \<longrightarrow> 4 \<le> length (snd opt))"

text \<open>What the client makes of an offer: a message that is not an offer is refused, the last
  server identifier before that counts.\<close>

fun offer :: "option_list \<Rightarrow> u8 list \<Rightarrow> bool \<times> u8 list" where
  "offer [] server = (True, server)"
| "offer ((c, d) # opts) server =
     (if c = 53 \<and> hd d \<noteq> 2 then (False, server)
      else offer opts (if c = 54 then take 4 d else server))"

section \<open>Building\<close>

definition built :: "dhcp_option_builder \<times> mem \<Rightarrow> u32 \<Rightarrow> u8 list \<Rightarrow> bool" where
  "built bm a bs \<longleftrightarrow> b_buffer (fst bm) = a \<and> b_offset (fst bm) = of_nat (length bs) \<and>
     bytes_at (snd bm) a (length bs) = bs"

lemma bytes_at_append_write:
  assumes "length bs + length ds \<le> 4294967295" "bytes_at m a (length bs) = bs"
  shows "bytes_at (write_bytes (a + of_nat (length bs)) ds m) a (length bs + length ds) = bs @ ds"
proof -
  let ?m = "write_bytes (a + of_nat (length bs)) ds m"
  have "bytes_at ?m a (length bs) = bytes_at m a (length bs)"
  proof (rule bytes_at_cong)
    fix x assume x: "x \<in> region a (length bs)"
    have "x \<notin> region (a + of_nat (length bs)) (length ds)"
      using x assms(1) in_region_offset [of "length bs" "length ds" x a] by (simp add: region_def)
    then show "?m x = m x" using assms(1) by (simp add: write_bytes_other)
  qed (use assms(1) in simp)
  then show ?thesis using assms by (simp add: bytes_at_add bytes_at_write_bytes)
qed

lemma built_append_byte:
  assumes "built bm a bs" "length bs < 4294967295"
  shows "built (append_byte v bm) a (bs @ [v])"
  using bytes_at_append_write [of bs "[v]" "snd bm" a] assms
  by (cases bm) (simp add: built_def append_byte_def wr8_def add.commute)

lemma built_add_option:
  assumes "built bm a bs" "length d < 256" "length bs + 2 + length d \<le> 4294967295"
  shows "built (add_option c (of_nat (length d)) (Literal d) bm) a (bs @ option_bytes (c, d))"
proof -
  let ?b2 = "append_byte (of_nat (length d)) (append_byte c bm)"
  have b2: "built ?b2 a (bs @ [c, of_nat (length d)])"
    using built_append_byte [OF built_append_byte [OF assms(1)]] assms(3) by simp
  have n: "unat (of_nat (length d) :: u8) = length d"
    using assms(2) by (simp add: unsigned_of_nat take_bit_eq_mod)
  have "ucast (of_nat (length d) :: u8) = (of_nat (unat (of_nat (length d) :: u8)) :: u32)" by simp
  then have n': "ucast (of_nat (length d) :: u8) = (of_nat (length d) :: u32)" unfolding n .
  have n'': "unat (of_nat (length d) :: u32) = length d"
    using assms(2) by (simp add: unsigned_of_nat take_bit_eq_mod)
  show ?thesis
    using b2 bytes_at_append_write [of "bs @ [c, of_nat (length d)]" d "snd ?b2" a] assms(3)
    by (cases ?b2) (simp add: add_option_def built_def copy_from_def n' n'' option_bytes_def Let_def add.assoc)
qed

definition add_options :: "option_list \<Rightarrow> dhcp_option_builder \<times> mem \<Rightarrow> dhcp_option_builder \<times> mem" where
  "add_options opts bm = fold (\<lambda>(c, d). add_option c (of_nat (length d)) (Literal d)) opts bm"

lemma options_bytes_simps [simp]:
  "options_bytes [] = []" "options_bytes (opt # opts) = option_bytes opt @ options_bytes opts"
  by (simp_all add: options_bytes_def)

lemma length_option_bytes [simp]: "length (option_bytes (c, d)) = length d + 2"
  by (simp add: option_bytes_def)

lemma built_add_options:
  "built bm a bs \<Longrightarrow> \<forall>opt\<in>set opts. option_ok opt \<Longrightarrow>
   length bs + length (options_bytes opts) \<le> 4294967295 \<Longrightarrow>
   built (add_options opts bm) a (bs @ options_bytes opts)"
proof (induction opts arbitrary: bm bs)
  case Nil
  then show ?case by (simp add: add_options_def)
next
  case (Cons opt opts)
  obtain c d where opt: "opt = (c, d)" by (cases opt)
  have "built (add_option c (of_nat (length d)) (Literal d) bm) a (bs @ option_bytes (c, d))"
    using Cons.prems by (intro built_add_option) (auto simp: opt option_ok_def)
  from Cons.IH [OF this] Cons.prems show ?case by (simp add: add_options_def opt)
qed

section \<open>Reading\<close>

text \<open>The bytes of one option in front of others, as the loop reads them.\<close>

lemma option_in_memory:
  assumes "bytes_at m a (length (option_bytes (c, d) @ bs)) = option_bytes (c, d) @ bs" "length d < 256"
  shows "rd8 m a = c" "rd8 m (a + 1) = of_nat (length d)" "bytes_at m (a + 2) (length d) = d"
    "bytes_at m (a + of_nat (length d) + 2) (length bs) = bs"
proof -
  have "length (option_bytes (c, d) @ bs) = Suc (Suc (length d + length bs))" by simp
  then have "m a = c \<and> m (a + 1) = of_nat (length d) \<and>
      bytes_at m (a + 2) (length d) @ bytes_at m (a + 2 + of_nat (length d)) (length bs) = d @ bs"
    using assms(1) by (simp add: bytes_at_Suc bytes_at_add option_bytes_def add.assoc)
  then show "rd8 m a = c" "rd8 m (a + 1) = of_nat (length d)" "bytes_at m (a + 2) (length d) = d"
    "bytes_at m (a + of_nat (length d) + 2) (length bs) = bs"
    by (simp_all add: rd8_def ac_simps)
qed

lemma read_offer_options:
  "bytes_at (mem s) (p + off) (length (options_bytes opts @ [0xff])) = options_bytes opts @ [0xff] \<Longrightarrow>
   \<forall>opt\<in>set opts. option_ok opt \<Longrightarrow>
   read_offer p off s =
     Some (fst (offer opts (dhcp_server s)), s\<lparr>dhcp_server := snd (offer opts (dhcp_server s))\<rparr>)"
proof (induction opts arbitrary: off s)
  case Nil
  then have "rd8 (mem s) (p + off) = 0xff" by (simp add: bytes_at_Suc rd8_def)
  then show ?case by (subst read_offer.simps) (simp add: read_option_def)
next
  case (Cons opt opts)
  obtain c d where opt: "opt = (c, d)" by (cases opt)
  have ok: "c \<noteq> 0xff" "length d < 256" "c = 53 \<Longrightarrow> d \<noteq> []" "c = 54 \<Longrightarrow> 4 \<le> length d"
    using Cons.prems(2) by (auto simp: opt option_ok_def)
  have "bytes_at (mem s) (p + off) (length (option_bytes (c, d) @ options_bytes opts @ [0xff])) =
      option_bytes (c, d) @ options_bytes opts @ [0xff]"
    using Cons.prems(1) by (simp add: opt)
  note M = option_in_memory [OF this ok(2)]
  have "ucast (of_nat (length d) :: u8) = (of_nat (unat (of_nat (length d) :: u8)) :: u32)" by simp
  then have n: "ucast (of_nat (length d) :: u8) = (of_nat (length d) :: u32)"
    using ok(2) by (simp add: unsigned_of_nat take_bit_eq_mod)
  have first: "rd8 (mem s) (p + off + 2) = hd d" if "d \<noteq> []"
    using M(3) that by (cases d) (simp_all add: bytes_at_Suc rd8_def)
  have four: "bytes_at (mem s) (p + off + 2) 4 = take 4 d" if "4 \<le> length d"
    using M(3) bytes_at_add [of "mem s" "p + off + 2" 4 "length d - 4"] that by (metis append_eq_conv_conj le_add_diff_inverse length_bytes_at)
  have r: "read_option (mem s) p off = \<lparr>opt_code = c, opt_length = of_nat (length d), opt_data = p + off + 2\<rparr>"
    using M(1,2) ok(1) by (simp add: read_option_def Let_def add.assoc)
  define t where "t = (if c = 54 then s\<lparr>dhcp_server := take 4 d\<rparr> else s)"
  have "bytes_at (mem t) (p + (off + of_nat (length d) + 2)) (length (options_bytes opts @ [0xff])) =
      options_bytes opts @ [0xff]"
    using M(4) by (simp add: t_def add.assoc)
  then have IH: "read_offer p (off + of_nat (length d) + 2) t =
      Some (fst (offer opts (dhcp_server t)), t\<lparr>dhcp_server := snd (offer opts (dhcp_server t))\<rparr>)"
    by (rule Cons.IH) (use Cons.prems(2) in simp)
  have step: "read_offer p off s =
      (if c = 53 \<and> hd d \<noteq> 2 then Some (False, s) else read_offer p (off + of_nat (length d) + 2) t)"
  proof -
    have "read_offer p off s = (if c = 0xff then Some (True, s)
      else if c = 53 \<and> rd8 (mem s) (p + off + 2) \<noteq> 2 then Some (False, s)
      else read_offer p (off + of_nat (length d) + 2)
        (if c = 54 then s\<lparr>dhcp_server := bytes_at (mem s) (p + off + 2) 4\<rparr> else s))"
      by (subst read_offer.simps) (simp only: r n Let_def dhcp_option.simps)
    moreover have "(c = 53 \<and> rd8 (mem s) (p + off + 2) \<noteq> 2) = (c = 53 \<and> hd d \<noteq> 2)"
      by (rule conj_cong [OF refl]) (simp only: first [OF ok(3)])
    moreover have "(if c = 54 then s\<lparr>dhcp_server := bytes_at (mem s) (p + off + 2) 4\<rparr> else s) = t"
      unfolding t_def by (rule if_cong [OF refl _ refl]) (simp only: four [OF ok(4)])
    ultimately show ?thesis using ok(1) by (simp only: if_False)
  qed
  have "t\<lparr>dhcp_server := x\<rparr> = s\<lparr>dhcp_server := x\<rparr>" "dhcp_server t = (if c = 54 then take 4 d else dhcp_server s)" for x
    by (simp_all add: t_def)
  then show ?case unfolding opt step IH offer.simps by (simp split: if_split)
qed

section \<open>Properties\<close>

text \<open>
  C32. What the option builder writes is what the client reads from an offer: for every list of
  well-formed options, built with \<open>add_option\<close> one after the other and closed with
  \<open>add_end\<close>, the loop of \<open>init\<close> ends, accepts exactly the lists whose message type is
  \<open>offer\<close> wherever it occurs, and keeps the server identifier read last.
\<close>

theorem dhcp_options_roundtrip:
  assumes "\<forall>opt\<in>set opts. option_ok opt" "length (options_bytes opts) < 4294967295"
    and "mem s = snd (add_end (add_options opts (\<lparr>b_buffer = a, b_offset = 0\<rparr>, m)))"
  shows "read_offer a 0 s =
    Some (fst (offer opts (dhcp_server s)), s\<lparr>dhcp_server := snd (offer opts (dhcp_server s))\<rparr>)"
proof -
  have "built (\<lparr>b_buffer = a, b_offset = 0\<rparr>, m) a []" by (simp add: built_def)
  from built_add_options [OF this assms(1)]
  have "built (add_end (add_options opts (\<lparr>b_buffer = a, b_offset = 0\<rparr>, m))) a (options_bytes opts @ [0xff])"
    unfolding add_end_def using assms(2) by (intro built_append_byte) simp_all
  then show ?thesis
    using assms(1,3) by (intro read_offer_options) (simp_all add: built_def)
qed

text \<open>An offer with a server, a lease time and a second server, and a list that is no offer.\<close>

definition option_machine :: "option_list \<Rightarrow> dhcp" where
  "option_machine opts = udp.extend (booted (snd (add_end (add_options opts
     (\<lparr>b_buffer = 0x2000, b_offset = 0\<rparr>, \<lambda>_. 0)))) (\<lambda>_ _. 0) []) (dhcp.fields 0 [] [])"

theorem dhcp_options_roundtrip_witness:
  "map_option (\<lambda>(ok, s). (ok, dhcp_server s)) (read_offer 0x2000 0
      (option_machine [(53, [2]), (54, [10, 0, 2, 2]), (51, [0, 1, 0x51, 0x80]), (54, [10, 0, 2, 3])]))
     = Some (True, [10, 0, 2, 3]) \<and>
   map_option fst (read_offer 0x2000 0 (option_machine [(54, [10, 0, 2, 2]), (53, [5])])) = Some False"
proof -
  have mem: "mem (option_machine opts) = snd (add_end (add_options opts (\<lparr>b_buffer = 0x2000, b_offset = 0\<rparr>, \<lambda>_. 0)))"
    and server: "dhcp_server (option_machine opts) = []" for opts
    by (simp_all add: option_machine_def udp.defs dhcp.defs booted_def)
  show ?thesis
    using dhcp_options_roundtrip [OF _ _ mem, of "[(53, [2]), (54, [10, 0, 2, 2]), (51, [0, 1, 0x51, 0x80]), (54, [10, 0, 2, 3])]"]
      dhcp_options_roundtrip [OF _ _ mem, of "[(54, [10, 0, 2, 2]), (53, [5])]"]
    by (simp add: option_ok_def option_bytes_def server)
qed

end
