(* ===== verification/Discover.thy ===== *)
theory Discover
  imports Datagrams Dhcp_Options
begin

text \<open>
  The messages of the DHCP client on the wire: the options built in a temporary buffer, the
  message in a second one, and the way of the datagram down the stack. The second buffer is
  not freed.
\<close>

section \<open>The options\<close>

definition written :: "u32 \<Rightarrow> u8 list \<Rightarrow> mem \<Rightarrow> dhcp_option_builder \<times> mem" where
  "written a bs m = (\<lparr>b_buffer = a, b_offset = of_nat (length bs)\<rparr>, write_bytes a bs m)"

lemma append_byte_written: "append_byte v (written a bs m) = written a (bs @ [v]) m"
  by (simp add: append_byte_def written_def write_bytes_append wr8_def add.commute)

lemma copy_literal_written:
  assumes "length d < 256"
  shows "(let (b, m) = written a bs m; m = copy_from (Literal d) (b_buffer b + b_offset b) (of_nat (length d)) m
    in (b\<lparr>b_offset := b_offset b + of_nat (length d)\<rparr>, m)) = written a (bs @ d) m"
proof -
  have "unat (of_nat (length d) :: u32) = length d"
    using assms by (simp add: unsigned_of_nat take_bit_eq_mod)
  then show ?thesis by (simp add: written_def copy_from_def write_bytes_append)
qed

lemma ucast_length: "length d < 256 \<Longrightarrow> ucast (of_nat (length d) :: u8) = (of_nat (length d) :: u32)"
  by (simp add: word_unat_eq_iff unsigned_ucast_eq unsigned_of_nat take_bit_eq_mod)

lemma add_option_written:
  "length d < 256 \<Longrightarrow> add_option c (of_nat (length d)) (Literal d) (written a bs m) = written a (bs @ option_bytes (c, d)) m"
  using copy_literal_written [of d a "bs @ [c, of_nat (length d)]" m] ucast_length [of d]
  by (simp add: add_option_def append_byte_written option_bytes_def Let_def)

lemma add_client_id_written:
  "length mac = 6 \<Longrightarrow> add_client_id hw (Literal mac) (written a bs m) = written a (bs @ option_bytes (61, hw # mac)) m"
  using copy_literal_written [of mac a "bs @ [61, 7, hw]" m]
  by (simp add: add_client_id_def append_byte_written option_bytes_def Let_def)

definition magic_cookie :: "u8 list" where
  "magic_cookie = [0x63, 0x82, 0x53, 0x63]"

lemma add_cookie_written: "add_cookie (written a bs m) = written a (bs @ magic_cookie) m"
  by (simp add: add_cookie_def append_byte_written magic_cookie_def Let_def)

text \<open>An option copied from memory.\<close>

lemma memcpy_write_bytes:
  assumes "region src (unat sz) \<inter> region dst (unat sz) = {}"
  shows "memcpy dst src sz m = write_bytes dst (bytes_at m src (unat sz)) m"
proof (rule ext)
  fix x
  let ?bs = "bytes_at m src (unat sz)"
  have len: "length ?bs \<le> 4294967295" using unat_lt32 [of sz] by simp
  show "memcpy dst src sz m x = write_bytes dst ?bs m x"
  proof (cases "x \<in> region dst (unat sz)")
    case True
    then have i: "unat (x - dst) < unat sz" by (simp add: region_def)
    have "bytes_at (memcpy dst src sz m) dst (unat sz) = bytes_at (write_bytes dst ?bs m) dst (unat sz)"
      using bytes_at_memcpy_disjoint [OF assms] bytes_at_write_bytes [OF len, of dst m] by simp
    from arg_cong [OF this, of "\<lambda>xs. xs ! unat (x - dst)"] i show ?thesis by simp
  next
    case False
    then show ?thesis using len by (simp add: memcpy_other write_bytes_other)
  qed
qed

lemma add_option_at_written:
  assumes "region ip 4 \<inter> region a (length bs + 6) = {}" "length bs < 65536"
  shows "add_option c 4 (At ip) (written a bs m) = written a (bs @ option_bytes (c, bytes_at m ip 4)) m"
proof -
  let ?bs = "bs @ [c, 4]"
  have sub: "region a (length ?bs) \<subseteq> region a (length bs + 6)" "region (a + of_nat (length ?bs)) 4 \<subseteq> region a (length bs + 6)"
    using region_mono [of "length ?bs" "length bs + 6" a] region_offset [of "length ?bs" 4 "length bs + 6" a] assms(2) by simp_all
  then have disj: "region ip (unat (4 :: u32)) \<inter> region (a + of_nat (length ?bs)) (unat (4 :: u32)) = {}"
    using assms(1) by auto
  have u4: "unat (4 :: u32) = 4" by simp
  have "bytes_at (write_bytes a ?bs m) ip 4 = bytes_at m ip 4"
    using sub(1) assms by (intro bytes_at_cong write_bytes_other) auto
  then have "memcpy (a + of_nat (length ?bs)) ip 4 (write_bytes a ?bs m) = write_bytes a (?bs @ bytes_at m ip 4) m"
    by (simp only: memcpy_write_bytes [OF disj] write_bytes_append u4)
  moreover have "add_option c 4 (At ip) (written a bs m) =
      (\<lparr>b_buffer = a, b_offset = of_nat (length ?bs) + 4\<rparr>, memcpy (a + of_nat (length ?bs)) ip 4 (write_bytes a ?bs m))"
  proof -
    have "append_byte 4 (append_byte c (written a bs m)) = written a ?bs m" by (simp add: append_byte_written)
    then have "add_option c 4 (At ip) (written a bs m) = (case written a ?bs m of (b, m) \<Rightarrow>
        (b\<lparr>b_offset := b_offset b + ucast (4 :: u8)\<rparr>, copy_from (At ip) (b_buffer b + b_offset b) (ucast (4 :: u8)) m))"
      by (simp only: add_option_def Let_def)
    then show ?thesis by (simp add: written_def copy_from_def)
  qed
  ultimately show ?thesis by (simp only: written_def option_bytes_def) (simp add: add.commute)
qed

section \<open>The message\<close>

definition bootp_bytes :: "u8 list \<Rightarrow> u8 list" where
  "bootp_bytes mac = [1, 1, 6, 0] @ le32 0x26262626 @ [0, 0] @ le16 (htons 0) @ replicate 16 0 @ mac @ replicate 202 0"

lemma length_bootp_bytes [simp]: "length mac = 6 \<Longrightarrow> length (bootp_bytes mac) = 236"
  by (simp add: bootp_bytes_def le32_def le16_def)

lemma bootp_fill_write:
  "bootp_fill p s m = write_bytes (p + 28) (get_mac s)
     (write_bytes p ([1, 1, 6, 0] @ le32 0x26262626 @ [0, 0] @ le16 (htons 0)) m)"
  by (simp add: bootp_fill_def wr8_def wr16_def wr32_def le32_def le16_def htons_def Let_def add.assoc)

lemma bytes_at_zero:
  "(\<And>x. x \<in> region a n \<Longrightarrow> m x = 0) \<Longrightarrow> n \<le> 4294967296 \<Longrightarrow> bytes_at m a n = replicate n 0"
  by (rule nth_equalityI) (simp_all add: of_nat_in_region)

lemma bytes_at_bootp:
  "bytes_at m p 236 = bytes_at m p 12 @ bytes_at m (p + 12) 16 @ bytes_at m (p + 28) 6 @ bytes_at m (p + 34) 202"
  using bytes_at_add [of m p 12 224] bytes_at_add [of m "p + 12" 16 208] bytes_at_add [of m "p + 28" 6 202]
  by (simp add: add.assoc)

lemma bootp_message:
  assumes mac: "length (get_mac s) = 6" and n: "236 \<le> unat tot"
  shows "bytes_at (bootp_fill p s (memset p 0 tot m)) p 236 = bootp_bytes (get_mac s)"
    "x \<notin> region p 236 \<Longrightarrow> bootp_fill p s m' x = m' x"
proof -
  let ?h = "[1, 1, 6, 0] @ le32 0x26262626 @ [0, 0] @ le16 (htons 0) :: u8 list"
  let ?z = "memset p 0 tot m"
  let ?M = "write_bytes (p + 28) (get_mac s) (write_bytes p ?h ?z)"
  have h: "length ?h = 12" by (simp add: le32_def le16_def)
  have a: "apart (p + 28) 6 p 12" "apart p 12 (p + 12) 16" "apart (p + 28) 6 (p + 12) 16" "apart p 12 (p + 34) 202"
    "apart (p + 28) 6 (p + 34) 202" by (simp_all add: apart_def)
  have o: "x \<notin> region p 12 \<Longrightarrow> write_bytes p ?h m'' x = m'' x" "x \<notin> region (p + 28) 6 \<Longrightarrow> write_bytes (p + 28) (get_mac s) m'' x = m'' x"
    for x m'' using write_bytes_other [of x p ?h m''] write_bytes_other [of x "p + 28" "get_mac s" m''] h mac by simp_all
  have zero: "?z x = 0" if "x \<in> region (p + of_nat i) k" "i + k \<le> 236" for x i k
    using region_offset [of i k "unat tot" p] that n unat_lt32 [of tot] by (auto simp: memset_apply)
  have "bytes_at ?M p 12 = bytes_at (write_bytes p ?h ?z) p 12"
    using apart_notin [OF a(1)] o(2) by (intro bytes_at_cong) auto
  also have "\<dots> = ?h" using bytes_at_write_bytes [of ?h p ?z] h by simp
  finally have p1: "bytes_at ?M p 12 = ?h" .
  have p2: "bytes_at ?M (p + 12) 16 = replicate 16 0"
    using apart_notin [OF a(2)] apart_notin [OF a(3)] o zero [of _ 12 16] by (intro bytes_at_zero) auto
  have p3: "bytes_at ?M (p + 28) 6 = get_mac s"
    using bytes_at_write_bytes [of "get_mac s" "p + 28" "write_bytes p ?h ?z"] mac by simp
  have p4: "bytes_at ?M (p + 34) 202 = replicate 202 0"
    using apart_notin [OF a(4)] apart_notin [OF a(5)] o zero [of _ 34 202] by (intro bytes_at_zero) auto
  have "bytes_at ?M p 236 = ?h @ replicate 16 0 @ get_mac s @ replicate 202 0"
    unfolding bytes_at_bootp p1 p2 p3 p4 ..
  then show "bytes_at (bootp_fill p s ?z) p 236 = bootp_bytes (get_mac s)"
    unfolding bootp_fill_write bootp_bytes_def by (simp only: append_assoc)
  assume "x \<notin> region p 236"
  moreover have "region p 12 \<subseteq> region p 236" "region (p + 28) 6 \<subseteq> region p 236"
    using region_mono [of 12 236 p] region_offset [of 28 6 236 p] by simp_all
  ultimately have "x \<notin> region p 12" "x \<notin> region (p + 28) 6" by blast+
  from o(2) [OF this(2), of "write_bytes p ?h m'"] o(1) [OF this(1), of m']
  show "bootp_fill p s m' x = m' x" unfolding bootp_fill_write by (rule trans)
qed

text \<open>The message with its options, from the buffer \<open>b\<close>.\<close>

definition message_memory :: "u32 \<Rightarrow> u32 \<Rightarrow> u32 \<Rightarrow> 'a dhcp_scheme \<Rightarrow> mem \<Rightarrow> mem" where
  "message_memory p b k s m = memcpy (p + 236) b k (bootp_fill p s (memset p 0 (236 + k) m))"

lemma message_written:
  assumes mac: "length (get_mac s) = 6" and k: "unat k = length opts" "length opts \<le> 256"
    and b: "bytes_at m b (length opts) = opts" "region b (length opts) \<inter> region p (236 + length opts) = {}"
  shows "bytes_at (message_memory p b k s m) p (236 + length opts) = bootp_bytes (get_mac s) @ opts"
    "x \<notin> region p (236 + length opts) \<Longrightarrow> message_memory p b k s m x = m x"
proof -
  let ?n = "length opts"
  have tot: "unat (236 + k) = 236 + ?n" using k by (simp add: unat_word_ariths)
  let ?M = "bootp_fill p s (memset p 0 (236 + k) m)"
  have "236 \<le> unat (236 + k)" by (simp add: tot)
  note B = bootp_message [OF mac this, where p = p]
  have sub: "region p 236 \<union> region (p + 236) ?n = region p (236 + ?n)" "region p 236 \<inter> region (p + 236) ?n = {}"
    using region_split [of 236 ?n p] k(2) by simp_all
  have out: "?M x = m x" if "x \<notin> region p (236 + ?n)" for x
  proof -
    have "x \<notin> region p 236" using that sub(1) by blast
    then show ?thesis using B(2) that by (simp add: tot memset_apply)
  qed
  show "message_memory p b k s m x = m x" if x: "x \<notin> region p (236 + ?n)"
  proof -
    have "x \<notin> region (p + 236) (unat k)" using x sub(1) k(1) by auto
    then show ?thesis using out [OF x] by (simp add: message_memory_def memcpy_other)
  qed
  have "bytes_at (message_memory p b k s m) p 236 = bytes_at ?M p 236"
  proof (rule bytes_at_cong)
    fix x assume "x \<in> region p 236"
    then have "x \<notin> region (p + 236) (unat k)" using sub(2) k(1) by auto
    then show "message_memory p b k s m x = ?M x" by (simp add: message_memory_def memcpy_other)
  qed simp
  also have "\<dots> = bootp_bytes (get_mac s)" using B(1) by (simp add: tot)
  finally have head: "bytes_at (message_memory p b k s m) p 236 = bootp_bytes (get_mac s)" .
  have "region b (unat k) \<inter> region (p + 236) (unat k) = {}" using b(2) sub(1) k(1) by auto
  then have "bytes_at (message_memory p b k s m) (p + 236) (unat k) = bytes_at ?M b (unat k)"
    unfolding message_memory_def by (rule bytes_at_memcpy_disjoint)
  also have "\<dots> = bytes_at m b (unat k)"
    using b(2) k out by (intro bytes_at_cong) auto
  finally have "bytes_at (message_memory p b k s m) (p + 236) ?n = opts" using b(1) k(1) by simp
  with head show "bytes_at (message_memory p b k s m) p (236 + ?n) = bootp_bytes (get_mac s) @ opts"
    by (simp add: bytes_at_add)
qed

section \<open>Sending it\<close>

text \<open>What both messages do once their options are built.\<close>

definition send_message :: "dhcp_option_builder \<Rightarrow> 'a dhcp_scheme \<Rightarrow> 'a dhcp_scheme option" where
  "send_message builder s =
     do {
       let tot = 236 + b_offset builder;
       (msg, s) \<leftarrow> operator_new_array tot s;
       let s = s\<lparr>mem := message_memory msg (b_buffer builder) (b_offset builder) s (mem s)\<rparr>;
       let s = operator_delete_array (b_buffer builder) s;
       udp_sendto (dhcp_socket s) [0xff, 0xff, 0xff, 0xff] 67 msg tot s
     }"

text \<open>The free memory after a block has been allocated between two others and the first is freed.\<close>

lemma free_area_subset:
  assumes "heap_inv s bs e" "heap_inv t bs' e" "heap_top t = heap_top s" "used_blocks bs \<subseteq> used_blocks bs'"
  shows "free_area bs' e \<subseteq> free_area bs e"
proof -
  have "b_addr (hd bs') = b_addr (hd bs)" using assms(1-3) by (simp add: heap_inv_def)
  then show ?thesis using assms(4) by (auto simp: free_area_def)
qed

lemma swap_blocks:
  assumes inv: "heap_inv s bs e" and e: "e \<le> 0xffffffff" and inv2: "heap_inv (s\<lparr>mem := m\<rparr>) bs2 e" and co: "coalesced bs2"
    and laid: "laid k1 bs1 e" and r: "abs_malloc x bs = Some (p1, bs1)" "abs_malloc y bs1 = Some (p2, bs2)" "0 < unat y"
  obtains m' where "operator_delete_array p1 (s\<lparr>mem := m\<rparr>) = s\<lparr>mem := m'\<rparr>" "heap_inv (s\<lparr>mem := m'\<rparr>) (abs_free p1 bs2) e"
    "coalesced (abs_free p1 bs2)" "free_area (abs_free p1 bs2) e \<subseteq> free_area bs e"
    "region p2 (unat y) \<inter> free_area (abs_free p1 bs2) e = {}" "same_outside (free_area bs2 e) m m'"
    "\<exists>c. b_addr c + 16 = p2 \<and> c \<notin> used_blocks bs \<and> used_blocks (abs_free p1 bs2) = insert c (used_blocks bs)"
proof -
  note D = heap_invD [OF inv] and D2 = heap_invD [OF inv2]
  obtain c where c: "b_addr c + 16 = p1" "c \<notin> used_blocks bs" "used_blocks bs1 = insert c (used_blocks bs)"
    using abs_malloc_used [OF r(1) D(2)] by blast
  obtain c2 where c2: "b_addr c2 + 16 = p2" "y \<le> b_size c2" "c2 \<notin> used_blocks bs1" "used_blocks bs2 = insert c2 (used_blocks bs1)"
    using abs_malloc_used [OF r(2) laid] by blast
  have used: "c \<in> used_blocks bs2" using c(3) c2(4) by simp
  obtain m' where m': "kfree p1 (s\<lparr>mem := m\<rparr>) = s\<lparr>mem := m'\<rparr>" "heap_inv (s\<lparr>mem := m'\<rparr>) (abs_free p1 bs2) e"
    "\<forall>x. x \<notin> header_bytes bs2 \<longrightarrow> m' x = m x"
    using kfree_refines [OF inv2, of c] used c(1) by (auto simp: used_blocks_def)
  have u3: "used_blocks (abs_free p1 bs2) = insert c2 (used_blocks bs)"
    using abs_free_used [OF D2(2) used] c c2 by auto
  have "payload c2 \<inter> free_area (abs_free p1 bs2) e = {}" unfolding free_area_def u3 by auto
  moreover have "region p2 (unat y) \<subseteq> payload c2"
    using object_payload(1) [OF m'(2) e, of c2 "unat y"] c2(1,2) r(3) u3 by (auto simp: word_le_nat_alt)
  ultimately have "region p2 (unat y) \<inter> free_area (abs_free p1 bs2) e = {}" by blast
  moreover have "free_area (abs_free p1 bs2) e \<subseteq> free_area bs e"
    by (rule free_area_subset [OF inv m'(2)]) (auto simp: u3)
  moreover have "same_outside (free_area bs2 e) m m'"
    using m'(3) header_bytes_free [OF inv2] by (auto simp: same_outside_def)
  moreover have "coalesced (abs_free p1 bs2)" using coalesced_free [OF co D2(2) used] c(1) by simp
  moreover have "c2 \<notin> used_blocks bs" using c2(3) c(3) by blast
  ultimately show ?thesis using that m'(1,2) u3 c2(1) by (auto simp: operator_delete_array_def)
qed

text \<open>The message in its buffer, and the buffer of the options freed.\<close>

lemma message_built:
  fixes s :: "'a dhcp_scheme" and n :: u32
  assumes inv: "heap_inv s bs e" and e: "e \<le> 0xffffffff" and inv1: "heap_inv (s\<lparr>mem := m1\<rparr>) bs1 e" and co: "coalesced bs1"
    and r: "abs_malloc 256 bs = Some (p1, bs1)" "abs_malloc (236 + n) bs1 = Some (p2, bs2)"
    and p1: "free_area bs1 e \<subseteq> free_area bs e" "region p1 256 \<inter> free_area bs1 e = {}"
    and opts: "unat n = length opts" "length opts \<le> 256" "bytes_at m1 p1 (length opts) = opts" and mac: "length (client_mac s) = 6"
  obtains m2 m4 where "operator_new_array (236 + n) (s\<lparr>mem := m1\<rparr>) = Some (p2, s\<lparr>mem := m2\<rparr>)"
    "operator_delete_array p1 (s\<lparr>mem := message_memory p2 p1 n (s\<lparr>mem := m2\<rparr>) m2\<rparr>) = s\<lparr>mem := m4\<rparr>"
    "heap_inv (s\<lparr>mem := m4\<rparr>) (abs_free p1 bs2) e" "coalesced (abs_free p1 bs2)"
    "free_area (abs_free p1 bs2) e \<subseteq> free_area bs e" "region p2 (236 + length opts) \<inter> free_area (abs_free p1 bs2) e = {}"
    "same_outside (free_area bs e) m1 m4" "bytes_at m4 p2 (236 + length opts) = bootp_bytes (client_mac s) @ opts"
    "\<exists>c. b_addr c + 16 = p2 \<and> c \<notin> used_blocks bs \<and> used_blocks (abs_free p1 bs2) = insert c (used_blocks bs)"
proof -
  let ?s1 = "s\<lparr>mem := m1\<rparr>"
  have tot: "unat (236 + n) = 236 + length opts" using opts(1,2) by (simp add: unat_word_ariths)
  obtain m2 where new: "operator_new_array (236 + n) ?s1 = Some (p2, ?s1\<lparr>mem := m2\<rparr>)" "heap_inv (?s1\<lparr>mem := m2\<rparr>) bs2 e"
    "coalesced bs2" "same_outside (free_area bs1 e) (mem ?s1) m2"
    and p2: "free_area bs2 e \<subseteq> free_area bs1 e" "region p2 (unat (236 + n)) \<subseteq> free_area bs1 e"
      "region p2 (unat (236 + n)) \<inter> free_area bs2 e = {}"
    by (rule buffer_alloc [OF inv1 e co r(2)]) (simp add: tot, rule that, assumption+)
  define m3 where "m3 = message_memory p2 p1 n (s\<lparr>mem := m2\<rparr>) m2"
  have reg: "region p1 (length opts) \<subseteq> region p1 256" using opts(2) by (intro region_mono)
  have src: "region p1 (length opts) \<inter> region p2 (236 + length opts) = {}"
    using reg p1(2) p2(2) unfolding tot by blast
  have "bytes_at m2 p1 (length opts) = opts"
    using same_outside_bytes [OF new(4), of p1 "length opts"] opts(2,3) reg p1(2) by auto
  note M = message_written [where s = "s\<lparr>mem := m2\<rparr>", OF _ opts(1,2) this src, folded m3_def]
  have gm: "length (get_mac (s\<lparr>mem := m2\<rparr>)) = 6" "get_mac (s\<lparr>mem := m2\<rparr>) = client_mac s"
    using mac by (simp_all add: get_mac_def)
  have "heap_inv ((?s1\<lparr>mem := m2\<rparr>)\<lparr>mem := m3\<rparr>) bs2 e"
  proof (rule heap_inv_outside [OF new(2)])
    fix x assume "x \<in> free_area bs2 e"
    then have "x \<notin> region p2 (236 + length opts)" using p2(3) unfolding tot by blast
    then show "m3 x = mem (?s1\<lparr>mem := m2\<rparr>) x" using M(2) [OF gm(1)] by simp
  qed
  then have inv3: "heap_inv (s\<lparr>mem := m3\<rparr>) bs2 e" by simp
  have "0 < unat (236 + n)" by (simp add: tot)
  then obtain m4 where m4: "operator_delete_array p1 (s\<lparr>mem := m3\<rparr>) = s\<lparr>mem := m4\<rparr>" "heap_inv (s\<lparr>mem := m4\<rparr>) (abs_free p1 bs2) e"
    "coalesced (abs_free p1 bs2)" "free_area (abs_free p1 bs2) e \<subseteq> free_area bs e"
    "region p2 (unat (236 + n)) \<inter> free_area (abs_free p1 bs2) e = {}" "same_outside (free_area bs2 e) m3 m4"
    "\<exists>c. b_addr c + 16 = p2 \<and> c \<notin> used_blocks bs \<and> used_blocks (abs_free p1 bs2) = insert c (used_blocks bs)"
    by (rule swap_blocks [OF inv e inv3 new(3) heap_invD(2) [OF inv1] r])
  have "bytes_at m4 p2 (236 + length opts) = bytes_at m3 p2 (236 + length opts)"
    using p2(3) opts(2) unfolding tot by (intro same_outside_bytes [OF m4(6)]) simp_all
  also have "\<dots> = bootp_bytes (client_mac s) @ opts" using M(1) [OF gm(1)] by (simp add: gm(2))
  finally have msg: "bytes_at m4 p2 (236 + length opts) = bootp_bytes (client_mac s) @ opts" .
  have "same_outside (free_area bs e) m1 m4"
    unfolding same_outside_def
  proof (intro allI impI)
    fix x assume x: "x \<notin> free_area bs e"
    then have x': "x \<notin> free_area bs1 e" "x \<notin> free_area bs2 e" "x \<notin> region p2 (236 + length opts)"
      using p1(1) p2(1,2) unfolding tot by blast+
    have "m4 x = m3 x" by (rule same_outsideD [OF m4(6) x'(2)])
    also have "\<dots> = m2 x" by (rule M(2) [OF gm(1) x'(3)])
    also have "\<dots> = m1 x" using same_outsideD [OF new(4) x'(1)] by simp
    finally show "m4 x = m1 x" .
  qed
  then show ?thesis
    using that [of m2 m4] new(1) m4 msg by (simp add: m3_def tot)
qed

text \<open>A machine that can send a message with \<open>n\<close> bytes of options; \<open>p1\<close> and \<open>p2\<close> are the addresses of
  its two buffers, \<open>bs'\<close> the blocks it leaves.\<close>

definition can_message :: "u32 \<Rightarrow> u32 list \<Rightarrow> block list \<Rightarrow> nat \<Rightarrow> nat \<Rightarrow> u32 \<Rightarrow> u32 \<Rightarrow> block list \<Rightarrow> 'a dhcp_scheme \<Rightarrow> bool" where
  "can_message a ds bs e n p1 p2 bs' s \<longleftrightarrow> heap_inv s bs e \<and> e \<le> 0xffffffff \<and> coalesced bs \<and> n \<le> 256 \<and>
     (\<exists>bs1 bs2. abs_malloc 256 bs = Some (p1, bs1) \<and> abs_malloc (236 + of_nat n) bs1 = Some (p2, bs2) \<and> bs' = abs_free p1 bs2) \<and>
     room_for [244 + of_nat n, 264 + of_nat n, 278 + of_nat n] bs' \<and>
     adapter_ready a ds (278 + n) (free_area bs e) s \<and> region (dhcp_socket s + 4) 2 \<inter> free_area bs e = {} \<and>
     length (router_mac s) = 6 \<and> length (client_mac s) = 6 \<and> length (ip_addr s) = 4"

text \<open>From the buffer with the options on.\<close>

lemma message_sent_from:
  fixes s :: "'a dhcp_scheme" and opts :: "u8 list"
  defines "n \<equiv> of_nat (length opts) :: u32"
  assumes can: "can_message a ds bs e (length opts) p1 p2 (abs_free p1 bs2) s"
    and inv1: "heap_inv (s\<lparr>mem := m\<rparr>) bs1 e" "coalesced bs1" and r: "abs_malloc 256 bs = Some (p1, bs1)" "abs_malloc (236 + n) bs1 = Some (p2, bs2)"
    and p1: "free_area bs1 e \<subseteq> free_area bs e" "region p1 256 \<inter> free_area bs1 e = {}"
    and m: "bytes_at m p1 (length opts) = opts" "same_outside (free_area bs e) (mem s) m"
  shows "\<exists>s' uh. send_message \<lparr>b_buffer = p1, b_offset = n\<rparr> (s\<lparr>mem := m\<rparr>) = Some s' \<and> heap_inv s' (abs_free p1 bs2) e \<and>
    (\<exists>c. b_addr c + 16 = p2 \<and> c \<notin> used_blocks bs \<and> used_blocks (abs_free p1 bs2) = insert c (used_blocks bs)) \<and>
    uh = \<lparr>udp_src_port = htons (sock_port (mem s) (dhcp_socket s)), udp_dst_port = htons 67,
      udp_size = htons (ucast (244 + n)), udp_checksum = udp_checksum uh\<rparr> \<and>
    transmitted a (frame_around s a (htons 0x0800) (ipv4_bytes (packet_header s [0xff, 0xff, 0xff, 0xff] (236 + n)) @
      udp_bytes uh @ bootp_bytes (client_mac s) @ opts)) (free_area bs e) s s'"
proof -
  let ?ip = "[0xff, 0xff, 0xff, 0xff] :: u8 list" and ?bs' = "abs_free p1 bs2"
  note C = can [unfolded can_message_def]
  have inv: "heap_inv s bs e" and e: "e \<le> 0xffffffff" and len: "length opts \<le> 256" and mac: "length (client_mac s) = 6"
    and room: "room_for [244 + n, 264 + n, 278 + n] ?bs'" using C by (simp_all add: n_def)
  have un: "unat n = length opts" "unat (236 + n) = 236 + length opts"
    using len by (simp_all add: n_def unat_word_ariths unsigned_of_nat take_bit_eq_mod)
  obtain m2 m4 where built: "operator_new_array (236 + n) (s\<lparr>mem := m\<rparr>) = Some (p2, s\<lparr>mem := m2\<rparr>)"
    "operator_delete_array p1 (s\<lparr>mem := message_memory p2 p1 n (s\<lparr>mem := m2\<rparr>) m2\<rparr>) = s\<lparr>mem := m4\<rparr>"
    "heap_inv (s\<lparr>mem := m4\<rparr>) ?bs' e" "coalesced ?bs'" "free_area ?bs' e \<subseteq> free_area bs e"
    "region p2 (236 + length opts) \<inter> free_area ?bs' e = {}" "same_outside (free_area bs e) m m4"
    "bytes_at m4 p2 (236 + length opts) = bootp_bytes (client_mac s) @ opts"
    "\<exists>c. b_addr c + 16 = p2 \<and> c \<notin> used_blocks bs \<and> used_blocks ?bs' = insert c (used_blocks bs)"
    by (rule message_built [OF inv e inv1 r p1 un(1) len m(1) mac]) (rule that, assumption+)
  define t where "t = s\<lparr>mem := m4\<rparr>"
  have st: "t = s\<lparr>mem := mem t\<rparr>" and same: "same_outside (free_area bs e) (mem s) (mem t)"
    using same_outside_trans [OF m(2) built(7)] by (simp_all add: t_def)
  have ready: "adapter_ready a ds (42 + unat (236 + n)) (free_area bs e) s" using C by (simp add: un(2))
  note R = adapter_ready_cong [OF ready st same built(5)]
  have port: "sock_port (mem t) (dhcp_socket t) = sock_port (mem s) (dhcp_socket s)"
  proof -
    have "rd16 (mem t) (dhcp_socket s + 4) = rd16 (mem s) (dhcp_socket s + 4)"
      using C by (intro rd16_cong same_outsideD [OF same]) blast
    then show ?thesis by (simp add: sock_port_def t_def)
  qed
  have head: "packet_header t ?ip k = packet_header s ?ip k" "frame_around t a ty pl = frame_around s a ty pl" for k ty pl
    using R(4) by (simp_all add: packet_header_def ip_complete_header_def frame_around_def t_def)
  have data: "bytes_at (mem t) p2 (unat (236 + n)) = bootp_bytes (client_mac s) @ opts"
    using built(8) by (simp add: un t_def)
  let ?uh = "datagram_header t ?ip (sock_port (mem t) (dhcp_socket t)) 67 p2 (236 + n)"
  let ?fr = "frame_around s a (htons 0x0800) (ipv4_bytes (packet_header s ?ip (236 + n)) @ udp_bytes ?uh @ bootp_bytes (client_mac s) @ opts)"
  have "\<exists>s'. udp_sendto (dhcp_socket t) ?ip 67 p2 (236 + n) t = Some s' \<and> heap_inv s' ?bs' e \<and>
      transmitted a (frame_around t a (htons 0x0800) (ipv4_bytes (packet_header t ?ip (236 + n)) @ udp_bytes ?uh @
        bytes_at (mem t) p2 (unat (236 + n)))) (free_area ?bs' e) t s'"
  proof (rule udp_sendto_run)
    show "heap_inv t ?bs' e" "coalesced ?bs'" using built(3,4) by (simp_all add: t_def)
    show "room_for [236 + n + 8, 236 + n + 8 + 20, 236 + n + 8 + 20 + 14] ?bs'" using room by (simp add: add.commute)
    show "adapter_ready a ds (42 + unat (236 + n)) (free_area ?bs' e) t" by (rule R(1))
    show "unat (236 + n) + 42 \<le> 0xffff" "region p2 (unat (236 + n)) \<inter> free_area ?bs' e = {}"
      using built(6) len by (simp_all add: un(2))
  qed (use C in \<open>simp_all add: t_def\<close>)
  then obtain s' where s': "udp_sendto (dhcp_socket t) ?ip 67 p2 (236 + n) t = Some s'" "heap_inv s' ?bs' e"
    "transmitted a ?fr (free_area ?bs' e) t s'"
    unfolding head data by blast
  have "length (ipv4_bytes (packet_header s ?ip (236 + n))) = 20"
    using C by (simp add: ipv4_bytes_def packet_header_def ip_complete_header_def Let_def)
  then have lf: "length ?fr = 278 + length opts"
    using C by (simp add: length_frame_around udp_bytes_def)
  have "transmitted a ?fr (free_area bs e) s s'"
    by (rule transmitted_frame [where ds = ds, OF _ s'(3) built(5) st same]) (use C lf len in \<open>simp_all add: same_outside_def\<close>)
  moreover have "send_message \<lparr>b_buffer = p1, b_offset = n\<rparr> (s\<lparr>mem := m\<rparr>) = Some s'"
    using s'(1) built(1,2) by (simp add: send_message_def t_def Let_def)
  moreover have "?uh = \<lparr>udp_src_port = htons (sock_port (mem s) (dhcp_socket s)), udp_dst_port = htons 67,
      udp_size = htons (ucast (244 + n)), udp_checksum = udp_checksum ?uh\<rparr>"
    using port by (simp add: datagram_header_def Let_def add.commute)
  ultimately show ?thesis using s'(2) built(9) by blast
qed

section \<open>Discover and request\<close>

definition message_options :: "option_list \<Rightarrow> u8 list \<Rightarrow> u8 list" where
  "message_options opts mac = magic_cookie @ options_bytes (opts @ [(55, [1, 3, 6]), (61, 1 # mac)]) @ [0xff]"

lemma length_message_options:
  "length mac = 6 \<Longrightarrow> length (message_options opts mac) = 19 + length (options_bytes opts)"
  by (simp add: message_options_def magic_cookie_def options_bytes_def)

lemma message_options_written:
  assumes "length mac = 6"
  shows "add_end (add_client_id 1 (Literal mac) (add_option 55 3 (Literal [1, 3, 6]) (written a (magic_cookie @ options_bytes opts) m))) =
    written a (message_options opts mac) m"
  using add_option_written [of "[1, 3, 6]" 55] assms
  by (simp add: add_client_id_written add_end_def append_byte_written message_options_def options_bytes_def)

lemma bootp_fill_mem [simp]: "bootp_fill p (s\<lparr>mem := m\<rparr>) = bootp_fill p s"
  by (simp add: fun_eq_iff bootp_fill_def get_mac_def)

lemma do_discover_options:
  assumes mac: "length (client_mac s) = 6" and new: "operator_new_array 256 s = Some (p, s\<lparr>mem := m\<rparr>)"
  shows "do_discover s = send_message \<lparr>b_buffer = p, b_offset = 22\<rparr>
    (s\<lparr>mem := write_bytes p (message_options [(53, [1])] (client_mac s)) m\<rparr>)"
proof -
  have "add_option 53 1 (Literal [1]) (add_cookie (\<lparr>b_buffer = p, b_offset = 0\<rparr>, m)) =
      written p (magic_cookie @ options_bytes [(53, [1])]) m"
    using add_cookie_written [of p "[]" m] add_option_written [of "[1]" 53 p magic_cookie m]
    by (simp add: written_def)
  then have "add_end (add_client_id 1 (Literal (client_mac s)) (add_option 55 3 (Literal [1, 3, 6])
      (add_option 53 1 (Literal [1]) (add_cookie (\<lparr>b_buffer = p, b_offset = 0\<rparr>, m))))) =
    written p (message_options [(53, [1])] (client_mac s)) m"
    by (simp only: message_options_written [OF mac])
  moreover have "length (message_options [(53, [1])] (client_mac s)) = 22"
    using mac by (simp add: length_message_options)
  ultimately show ?thesis
    by (simp add: do_discover_def new get_mac_def written_def send_message_def sizeof_bootp_def message_memory_def
        case_prod_beta' Let_def)
qed

lemma do_request_options:
  assumes mac: "length (client_mac s) = 6" and new: "operator_new_array 256 s = Some (p, s\<lparr>mem := m\<rparr>)"
    and ip: "region ip 4 \<inter> region p 256 = {}"
  shows "do_request ip s = send_message \<lparr>b_buffer = p, b_offset = 28\<rparr>
    (s\<lparr>mem := write_bytes p (message_options [(53, [3]), (50, bytes_at m ip 4)] (client_mac s)) m\<rparr>)"
proof -
  let ?o = "[(53, [3]), (50, bytes_at m ip 4)]"
  have len: "length (magic_cookie @ options_bytes [(53, [3])]) = 7" by (simp add: magic_cookie_def)
  have "region p (7 + 6) \<subseteq> region p 256" by (rule region_mono) simp
  then have "region ip 4 \<inter> region p (length (magic_cookie @ options_bytes [(53, [3])]) + 6) = {}"
    unfolding len using ip by blast
  note At = add_option_at_written [OF this, of 50 m]
  have "add_option 53 1 (Literal [3]) (add_cookie (\<lparr>b_buffer = p, b_offset = 0\<rparr>, m)) =
      written p (magic_cookie @ options_bytes [(53, [3])]) m"
    using add_cookie_written [of p "[]" m] add_option_written [of "[3]" 53 p magic_cookie m]
    by (simp add: written_def)
  moreover have "add_option 50 4 (At ip) (written p (magic_cookie @ options_bytes [(53, [3])]) m) =
      written p (magic_cookie @ options_bytes ?o) m"
    using At len by simp
  ultimately have "add_end (add_client_id 1 (Literal (client_mac s)) (add_option 55 3 (Literal [1, 3, 6])
      (add_option 50 4 (At ip) (add_option 53 1 (Literal [3]) (add_cookie (\<lparr>b_buffer = p, b_offset = 0\<rparr>, m)))))) =
    written p (message_options ?o (client_mac s)) m"
    by (simp only: message_options_written [OF mac])
  moreover have "length (message_options ?o (client_mac s)) = 28"
    using mac by (simp add: length_message_options)
  ultimately show ?thesis
    by (simp add: do_request_def new get_mac_def written_def send_message_def sizeof_bootp_def message_memory_def
        case_prod_beta' Let_def)
qed

text \<open>What is meant by a message that goes out: one frame with it, to everyone, from the socket's
  port to port 67; the heap then has one more used block, the one at \<open>p2\<close>.\<close>

definition goes_out :: "u32 \<Rightarrow> nat \<Rightarrow> block list \<Rightarrow> block list \<Rightarrow> u32 \<Rightarrow> u8 list \<Rightarrow> 'a dhcp_scheme \<Rightarrow> 'a dhcp_scheme option \<Rightarrow> bool" where
  "goes_out a e bs bs' p2 msg s r \<longleftrightarrow> (\<exists>s' f m. r = Some s' \<and> s' = s\<lparr>mem := m\<rparr> \<and> f = tx_target s a \<and>
     eth_dst_mac (frame_ethernet m f) = router_mac s \<and> ntohs (ether_type (frame_ethernet m f)) = ETH_PROTO_IP \<and>
     ip_protocol (frame_ip m f) = IP_PROTO_UDP \<and> ip_src_ip (frame_ip m f) = ip_addr s \<and>
     ip_dst_ip (frame_ip m f) = [0xff, 0xff, 0xff, 0xff] \<and> inet_sum (bytes_at m (f + 14) 20) = 65535 \<and>
     ntohs (udp_src_port (frame_udp m f)) = sock_port (mem s) (dhcp_socket s) \<and> ntohs (udp_dst_port (frame_udp m f)) = 67 \<and>
     unat (ntohs (udp_size (frame_udp m f))) = 8 + length msg \<and> bytes_at m (f + 42) (length msg) = msg \<and>
     descr_flag OWN m (tx_slot s a) \<and> unat (descr_bcnt m (tx_slot s a)) = 4096 - (42 + length msg) \<and>
     heap_inv s' bs' e \<and> (\<exists>c. b_addr c + 16 = p2 \<and> c \<notin> used_blocks bs \<and> used_blocks bs' = insert c (used_blocks bs)) \<and>
     same_outside (region f (42 + length msg) \<union> region (tx_slot s a) 8 \<union> free_area bs e) (mem s) m)"

lemma sent_goes_out:
  fixes s :: "'a dhcp_scheme" and n :: u32
  assumes sent: "transmitted a (frame_around s a (htons 0x0800) (ipv4_bytes (packet_header s [0xff, 0xff, 0xff, 0xff] n) @
      udp_bytes uh @ msg)) (free_area bs e) s s'"
    and uh: "uh = \<lparr>udp_src_port = htons (sock_port (mem s) (dhcp_socket s)), udp_dst_port = htons 67,
      udp_size = htons (ucast (8 + n)), udp_checksum = udp_checksum uh\<rparr>"
    and n: "unat n = length msg" "length msg + 42 < 4096" and lens: "length (router_mac s) = 6" "length (ip_addr s) = 4"
    and heap: "heap_inv s' bs' e" "\<exists>c. b_addr c + 16 = p2 \<and> c \<notin> used_blocks bs \<and> used_blocks bs' = insert c (used_blocks bs)"
  shows "goes_out a e bs bs' p2 msg s (Some s')"
proof -
  let ?eh = "\<lparr>eth_dst_mac = router_mac s, eth_src_mac = dev_mac (mem s) a, ether_type = htons 0x0800\<rparr>"
  let ?ih = "packet_header s [0xff, 0xff, 0xff, 0xff] n" and ?f = "tx_target s a"
  have sent': "transmitted a (ethernet_bytes ?eh @ ipv4_bytes ?ih @ udp_bytes uh @ msg) (free_area bs e) s s'"
    using sent by (simp add: frame_around_def)
  have wf: "ethernet_wf ?eh" "ipv4_wf ?ih"
    using lens by (simp_all add: ethernet_wf_def dev_mac_def ipv4_wf_def packet_header_fields)
  note F = frame_decodes [OF transmitted_bytes [OF sent'] refl wf]
  have len: "length (ethernet_bytes ?eh @ ipv4_bytes ?ih @ udp_bytes uh @ msg) = 42 + length msg"
    using ethernet_codec.enc_length [OF wf(1)] ipv4_codec.enc_length [OF wf(2)] udp_codec.enc_length [OF TrueI, of uh] by simp
  note T = sent' [unfolded transmitted_def len]
  have sum: "inet_sum (ipv4_bytes ?ih) = 65535"
    unfolding packet_header_def using lens by (intro completed_header_sum) simp_all
  have size: "unat (ucast (8 + n) :: u16) = 8 + length msg"
    using n by (simp add: unsigned_ucast_eq take_bit_eq_mod unat_word_ariths)
  have ports: "udp_src_port uh = htons (sock_port (mem s) (dhcp_socket s))" "udp_dst_port uh = htons 67" "udp_size uh = htons (ucast (8 + n))"
    by (subst uh, simp)+
  show ?thesis
    unfolding goes_out_def
    by (intro exI [of _ s'] exI [of _ ?f] exI [of _ "mem s'"])
      (use T F sum size n(2) heap in \<open>simp add: packet_header_fields ports ETH_PROTO_IP_def\<close>)
qed

lemma message_goes_out:
  assumes can: "can_message a ds bs e (length opts) p1 p2 bs' s"
  obtains m where "operator_new_array 256 s = Some (p1, s\<lparr>mem := m\<rparr>)" "same_outside (free_area bs e) (mem s) m"
    "region p1 256 \<subseteq> free_area bs e"
    "goes_out a e bs bs' p2 (bootp_bytes (client_mac s) @ opts) s
       (send_message \<lparr>b_buffer = p1, b_offset = of_nat (length opts)\<rparr> (s\<lparr>mem := write_bytes p1 opts m\<rparr>))"
proof -
  note C = can [unfolded can_message_def]
  obtain bs1 bs2 where r: "abs_malloc 256 bs = Some (p1, bs1)" "abs_malloc (236 + of_nat (length opts)) bs1 = Some (p2, bs2)"
    "bs' = abs_free p1 bs2" using C by blast
  have inv: "heap_inv s bs e" and e: "e \<le> 0xffffffff" and co: "coalesced bs" and n: "length opts \<le> 256" using C by blast+
  obtain m where m: "operator_new_array 256 s = Some (p1, s\<lparr>mem := m\<rparr>)" "heap_inv (s\<lparr>mem := m\<rparr>) bs1 e" "coalesced bs1"
    "same_outside (free_area bs e) (mem s) m" "free_area bs1 e \<subseteq> free_area bs e" "region p1 (unat (256 :: u32)) \<subseteq> free_area bs e"
    "region p1 (unat (256 :: u32)) \<inter> free_area bs1 e = {}"
    by (rule buffer_alloc [OF inv e co r(1)]) (simp, rule that, assumption+)
  let ?m = "write_bytes p1 opts m"
  have reg: "region p1 256 \<subseteq> free_area bs e" "region p1 256 \<inter> free_area bs1 e = {}" using m(6,7) by simp_all
  have out: "?m x = m x" if "x \<notin> region p1 256" for x
    using that region_mono [OF n, of p1] n by (intro write_bytes_other) auto
  have "heap_inv ((s\<lparr>mem := m\<rparr>)\<lparr>mem := ?m\<rparr>) bs1 e"
  proof (rule heap_inv_outside [OF m(2)])
    fix x assume "x \<in> free_area bs1 e"
    then show "?m x = mem (s\<lparr>mem := m\<rparr>) x" using out reg(2) by auto
  qed
  then have inv1: "heap_inv (s\<lparr>mem := ?m\<rparr>) bs1 e" by simp
  have "same_outside (free_area bs e) m ?m" using out reg(1) by (auto simp: same_outside_def)
  then have same: "same_outside (free_area bs e) (mem s) ?m" using m(4) same_outside_trans by blast
  have bytes: "bytes_at ?m p1 (length opts) = opts" using n by (intro bytes_at_write_bytes) simp
  obtain s' uh where s': "send_message \<lparr>b_buffer = p1, b_offset = of_nat (length opts)\<rparr> (s\<lparr>mem := ?m\<rparr>) = Some s'"
    "heap_inv s' bs' e" "\<exists>c. b_addr c + 16 = p2 \<and> c \<notin> used_blocks bs \<and> used_blocks bs' = insert c (used_blocks bs)"
    "uh = \<lparr>udp_src_port = htons (sock_port (mem s) (dhcp_socket s)), udp_dst_port = htons 67,
      udp_size = htons (ucast (244 + of_nat (length opts) :: u32)), udp_checksum = udp_checksum uh\<rparr>"
    "transmitted a (frame_around s a (htons 0x0800) (ipv4_bytes (packet_header s [0xff, 0xff, 0xff, 0xff] (236 + of_nat (length opts))) @
      udp_bytes uh @ bootp_bytes (client_mac s) @ opts)) (free_area bs e) s s'"
    using message_sent_from [OF can [unfolded r(3)] inv1 m(3) r(1,2) m(5) reg(2) bytes same] unfolding r(3) by blast
  have "goes_out a e bs bs' p2 (bootp_bytes (client_mac s) @ opts) s (Some s')"
    by (rule sent_goes_out [OF s'(5) _ _ _ _ _ s'(2,3)])
      (use C n s'(4) in \<open>simp_all add: unat_word_ariths unsigned_of_nat take_bit_eq_mod\<close>)
  then show ?thesis using that m(1,4) reg(1) s'(1) by simp
qed

section \<open>Properties\<close>

text \<open>
  C11. The messages of the DHCP client go out as they should: \<open>do_discover\<close> and \<open>do_request\<close> put
  one frame on the wire, a datagram for everyone from the client's port to port 67, with the
  BOOTP message (the hardware address of the client in it), the cookie and the options: a
  discover, or a request for the address at \<open>ip\<close>. The buffer of the options is freed; the
  block of the message is not, it is used afterwards and no pointer to it is left.
\<close>

theorem dhcp_messages_go_out:
  fixes s :: "'a dhcp_scheme"
  shows "(can_message a ds bs e 22 p1 p2 bs' s \<longrightarrow>
      goes_out a e bs bs' p2 (bootp_bytes (client_mac s) @ message_options [(53, [1])] (client_mac s)) s (do_discover s)) \<and>
    (can_message a ds bs e 28 p1 p2 bs' s \<longrightarrow> region ip 4 \<inter> free_area bs e = {} \<longrightarrow>
      goes_out a e bs bs' p2 (bootp_bytes (client_mac s) @
        message_options [(53, [3]), (50, bytes_at (mem s) ip 4)] (client_mac s)) s (do_request ip s))"
proof (intro conjI impI)
  let ?o = "message_options [(53, [1])] (client_mac s)"
  assume can: "can_message a ds bs e 22 p1 p2 bs' s"
  then have mac: "length (client_mac s) = 6" by (simp add: can_message_def)
  then have len: "length ?o = 22" by (simp add: length_message_options)
  obtain m where "operator_new_array 256 s = Some (p1, s\<lparr>mem := m\<rparr>)"
    "goes_out a e bs bs' p2 (bootp_bytes (client_mac s) @ ?o) s
       (send_message \<lparr>b_buffer = p1, b_offset = of_nat (length ?o)\<rparr> (s\<lparr>mem := write_bytes p1 ?o m\<rparr>))"
    using message_goes_out [of a ds bs e ?o p1 p2 bs' s] can unfolding len by blast
  then show "goes_out a e bs bs' p2 (bootp_bytes (client_mac s) @ ?o) s (do_discover s)"
    using do_discover_options [OF mac] by (simp add: len)
next
  let ?o = "message_options [(53, [3]), (50, bytes_at (mem s) ip 4)] (client_mac s)"
  assume can: "can_message a ds bs e 28 p1 p2 bs' s" and ip: "region ip 4 \<inter> free_area bs e = {}"
  then have mac: "length (client_mac s) = 6" by (simp add: can_message_def)
  then have len: "length ?o = 28" by (simp add: length_message_options)
  obtain m where m: "operator_new_array 256 s = Some (p1, s\<lparr>mem := m\<rparr>)" "same_outside (free_area bs e) (mem s) m"
    "region p1 256 \<subseteq> free_area bs e"
    "goes_out a e bs bs' p2 (bootp_bytes (client_mac s) @ ?o) s
       (send_message \<lparr>b_buffer = p1, b_offset = of_nat (length ?o)\<rparr> (s\<lparr>mem := write_bytes p1 ?o m\<rparr>))"
    using message_goes_out [of a ds bs e ?o p1 p2 bs' s] can unfolding len by blast
  have "bytes_at m ip 4 = bytes_at (mem s) ip 4" by (rule same_outside_bytes [OF m(2) ip]) simp
  moreover have "region ip 4 \<inter> region p1 256 = {}" using ip m(3) by blast
  ultimately show "goes_out a e bs bs' p2 (bootp_bytes (client_mac s) @ ?o) s (do_request ip s)"
    using m(4) do_request_options [OF mac m(1)] by (simp add: len)
qed

text \<open>The client on the example machine, its socket at \<open>0x2000\<close> with port 68.\<close>

definition client_machine :: dhcp where
  "client_machine = udp.extend (net_machine ((\<lambda>_. 0)(0x2004 := 68))) (dhcp.fields 0x2000 [0, 0, 0, 0] [0, 0, 0, 0])"

lemma adapter_ready_same:
  fixes s :: "'a devices_scheme" and t :: "'b devices_scheme"
  assumes "mem t = mem s" "driver_registry t = driver_registry s" "total_drivers t = total_drivers s"
    "dynamic_class t = dynamic_class s" "adapter_ready a ds len X s"
  shows "adapter_ready a ds len X t"
proof -
  have reg: "registry_is s ds" using assms(5) by (simp add: adapter_ready_def)
  then have reg': "registry_is t ds" using assms by (simp add: registry_is_def)
  have "find_device_by_class c t = find_device_by_class c s" for c
    unfolding find_device_registry [OF reg] find_device_registry [OF reg'] assms(1) ..
  then show ?thesis
    using assms reg' by (simp add: adapter_ready_def adapter_bytes_def tx_slot_def tx_target_def)
qed

lemma client_ready:
  "can_message 0x200000 [0x200000] [Block 0x100000 0x1000 False] 0x101010 22 0x100010 0x100120
     [Block 0x100000 0x100 False, Block 0x100110 0x102 True, Block 0x100222 0xdde False] client_machine"
proof -
  let ?m = "(\<lambda>_. 0)(0x2004 := 68) :: mem"
  have quiet: "quiet_above ?m" by (auto simp: quiet_above_def)
  have fields: "mem client_machine = mem (net_machine ?m)" "heap_top client_machine = heap_top (net_machine ?m)"
    "driver_registry client_machine = driver_registry (net_machine ?m)" "total_drivers client_machine = total_drivers (net_machine ?m)"
    "dynamic_class client_machine = dynamic_class (net_machine ?m)"
    by (simp_all add: client_machine_def udp.defs)
  have "heap_inv client_machine [Block 0x100000 0x1000 False] 0x101010"
    using net_machine_heap [OF quiet] fields by (simp add: heap_inv_def)
  moreover have "adapter_ready 0x200000 [0x200000] (278 + 22) {x. 0x100000 \<le> unat x \<and> unat x < 0x101010} client_machine"
    by (rule adapter_ready_same [OF fields(1,3-5)], rule net_machine_adapter(4) [OF quiet]) auto
  moreover have "region (dhcp_socket client_machine + 4) 2 \<inter> {x. 0x100000 \<le> unat x \<and> unat x < 0x101010} = {}"
    by (auto simp: client_machine_def dhcp.defs udp.defs in_region_nat)
  moreover have "length (router_mac client_machine) = 6" "length (client_mac client_machine) = 6" "length (ip_addr client_machine) = 4"
    by (simp_all add: client_machine_def udp.defs net_machine_def heap_allocator_init_def booted_def)
  ultimately show ?thesis
    by (simp add: can_message_def net_machine_free suitable_def carve_def)
qed

theorem dhcp_messages_go_out_witness:
  "\<exists>s. do_discover client_machine = Some s \<and> ntohs (udp_dst_port (frame_udp (mem s) 0x203130)) = 67 \<and>
     ntohs (udp_src_port (frame_udp (mem s) 0x203130)) = 68 \<and>
     bytes_at (mem s) (0x203130 + 42) 258 = bootp_bytes [0, 0, 0, 0, 0, 0] @ message_options [(53, [1])] [0, 0, 0, 0, 0, 0]"
proof -
  have quiet: "quiet_above ((\<lambda>_. 0)(0x2004 := 68))" by (auto simp: quiet_above_def)
  have "tx_target client_machine 0x200000 = tx_target (net_machine ((\<lambda>_. 0)(0x2004 := 68))) 0x200000"
    by (simp add: tx_target_def tx_slot_def client_machine_def udp.defs)
  then have target: "tx_target client_machine 0x200000 = 0x203130" using net_machine_adapter(2) [OF quiet] by simp
  have "client_mac client_machine = [0, 0, 0, 0, 0, 0]" "sock_port (mem client_machine) (dhcp_socket client_machine) = 68"
    by (simp_all add: client_machine_def dhcp.defs udp.defs sock_port_def rd16_def net_machine_below)
      (simp add: net_machine_def heap_allocator_init_def booted_def)
  moreover have "goes_out 0x200000 0x101010 [Block 0x100000 0x1000 False]
      [Block 0x100000 0x100 False, Block 0x100110 0x102 True, Block 0x100222 0xdde False] 0x100120
      (bootp_bytes (client_mac client_machine) @ message_options [(53, [1])] (client_mac client_machine)) client_machine
      (do_discover client_machine)"
    using dhcp_messages_go_out client_ready by blast
  ultimately show ?thesis by (auto simp: goes_out_def target length_message_options)
qed

end
