(* ===== verification/Tasks.thy ===== *)
theory Tasks
  imports Dhcp
begin

text \<open>
  The task manager, \<open>src/kernel/task/taskmgr.cpp\<close>, with the context switch it calls
  (\<open>src/kernel/cpu/context_switch.asm\<close>). A \<open>task_context\<close> has 16 bytes: \<open>esp\<close> at 0,
  \<open>cr3\<close> at 4, \<open>pid\<close> at 8, \<open>next\<close> at 12. The registers the switch saves and restores are
  fields of the state; \<open>eip\<close> is where execution goes on.
\<close>

record cpu_context =
  eax :: u32
  ebx :: u32
  ecx :: u32
  edx :: u32
  esi :: u32
  edi :: u32
  ebp :: u32

record tasks = dhcp +
  current_task :: u32
  tasks_start :: u32
  tasks_end :: u32
  cpu :: cpu_context
  esp :: u32
  eip :: u32

section \<open>Task contexts\<close>

definition sizeof_task_context :: u32 where "sizeof_task_context = 16"

definition task_esp :: "mem \<Rightarrow> u32 \<Rightarrow> u32" where
  "task_esp m t = rd32 m t"

definition task_next :: "mem \<Rightarrow> u32 \<Rightarrow> u32" where
  "task_next m t = rd32 m (t + 12)"

definition set_task_esp :: "u32 \<Rightarrow> u32 \<Rightarrow> mem \<Rightarrow> mem" where
  "set_task_esp t v m = wr32 t v m"

definition set_task_next :: "u32 \<Rightarrow> u32 \<Rightarrow> mem \<Rightarrow> mem" where
  "set_task_next t v m = wr32 (t + 12) v m"

section \<open>The task manager\<close>

definition tasks_init :: "'a tasks_scheme \<Rightarrow> 'a tasks_scheme option" where
  "tasks_init s =
     do {
       (task, s) \<leftarrow> operator_new sizeof_task_context s;
       let s = s\<lparr>tasks_start := task\<rparr>;
       let s = s\<lparr>tasks_end := task\<rparr>;
       let s = s\<lparr>mem := set_task_next (tasks_start s) task (mem s)\<rparr>;
       let s = s\<lparr>current_task := task\<rparr>;
       Some (s\<lparr>current_task := tasks_start s\<rparr>)
     }"

text \<open>\<open>*sp-- = v\<close> for each of the values, then \<open>*sp = 0\<close>: \<open>sp\<close> and the memory after it.\<close>

primrec push_down :: "u32 list \<Rightarrow> u32 \<Rightarrow> mem \<Rightarrow> u32 \<times> mem" where
  "push_down [] sp m = (sp, wr32 sp 0 m)"
| "push_down (v # vs) sp m = push_down vs (sp - 4) (wr32 sp v m)"

text \<open>\<open>(uint32_t*)stack + 4096\<close> counts words: it is 16384 bytes above \<open>stack\<close>.\<close>

definition tasks_create :: "u32 \<Rightarrow> 'a tasks_scheme \<Rightarrow> 'a tasks_scheme option" where
  "tasks_create entry s =
     do {
       let s = s\<lparr>interrupts_on := False\<rparr>;
       (stack, s) \<leftarrow> kmalloc 4096 s;
       (task, s) \<leftarrow> operator_new sizeof_task_context s;
       let s = s\<lparr>mem := set_task_next (tasks_end s) task (mem s)\<rparr>;
       let s = s\<lparr>tasks_end := task\<rparr>;
       let s = s\<lparr>mem := set_task_next task (tasks_start s) (mem s)\<rparr>;
       let (sp, m) = push_down [0x08, entry, 0, 0, 0, 0, 0, 0] (stack + 4 * 4096) (mem s);
       let s = s\<lparr>mem := m\<rparr>;
       let s = s\<lparr>mem := set_task_esp task sp (mem s)\<rparr>;
       Some (s\<lparr>interrupts_on := True\<rparr>)
     }"

section \<open>The context switch\<close>

definition push32 :: "u32 \<Rightarrow> 'a tasks_scheme \<Rightarrow> 'a tasks_scheme" where
  "push32 v s = s\<lparr>esp := esp s - 4, mem := wr32 (esp s - 4) v (mem s)\<rparr>"

definition pop32 :: "'a tasks_scheme \<Rightarrow> u32 \<times> 'a tasks_scheme" where
  "pop32 s = (rd32 (mem s) (esp s), s\<lparr>esp := esp s + 4\<rparr>)"

text \<open>From the first instruction of \<open>switch_context\<close>, with the return address on the stack,
  to its \<open>ret\<close>.\<close>

definition save_context :: "'a tasks_scheme \<Rightarrow> 'a tasks_scheme" where
  "save_context s =
     (let s = push32 (eax (cpu s)) s; s = push32 (ebx (cpu s)) s; s = push32 (ecx (cpu s)) s;
          s = push32 (edx (cpu s)) s; s = push32 (esi (cpu s)) s; s = push32 (edi (cpu s)) s
      in push32 (ebp (cpu s)) s)"

definition restore_context :: "'a tasks_scheme \<Rightarrow> 'a tasks_scheme" where
  "restore_context s =
     (let (v, s) = pop32 s; s = s\<lparr>cpu := (cpu s)\<lparr>ebp := v\<rparr>\<rparr>;
          (v, s) = pop32 s; s = s\<lparr>cpu := (cpu s)\<lparr>edi := v\<rparr>\<rparr>;
          (v, s) = pop32 s; s = s\<lparr>cpu := (cpu s)\<lparr>esi := v\<rparr>\<rparr>;
          (v, s) = pop32 s; s = s\<lparr>cpu := (cpu s)\<lparr>edx := v\<rparr>\<rparr>;
          (v, s) = pop32 s; s = s\<lparr>cpu := (cpu s)\<lparr>ecx := v\<rparr>\<rparr>;
          (v, s) = pop32 s; s = s\<lparr>cpu := (cpu s)\<lparr>ebx := v\<rparr>\<rparr>;
          (v, s) = pop32 s
      in s\<lparr>cpu := (cpu s)\<lparr>eax := v\<rparr>\<rparr>)"

definition switch_context :: "'a tasks_scheme \<Rightarrow> 'a tasks_scheme" where
  "switch_context s =
     (let s = s\<lparr>interrupts_on := False\<rparr>;
          s = save_context s;
          s = s\<lparr>cpu := (cpu s)\<lparr>esi := current_task s\<rparr>\<rparr>;
          s = s\<lparr>cpu := (cpu s)\<lparr>edi := rd32 (mem s) (esi (cpu s) + 12)\<rparr>\<rparr>;
          s = s\<lparr>cpu := (cpu s)\<lparr>eax := esp s\<rparr>\<rparr>;
          s = s\<lparr>mem := wr32 (esi (cpu s)) (eax (cpu s)) (mem s)\<rparr>;
          s = s\<lparr>cpu := (cpu s)\<lparr>eax := rd32 (mem s) (edi (cpu s))\<rparr>\<rparr>;
          s = s\<lparr>esp := eax (cpu s)\<rparr>;
          s = s\<lparr>current_task := edi (cpu s)\<rparr>;
          s = s\<lparr>cpu := (cpu s)\<lparr>eax := 0x20\<rparr>\<rparr>;
          s = write8 0x20 (ucast (eax (cpu s))) s;
          s = restore_context s;
          s = s\<lparr>interrupts_on := True\<rparr>;
          (v, s) = pop32 s
      in s\<lparr>eip := v\<rparr>)"

text \<open>\<open>switch_task\<close>: the call pushes the address of the code after it, a parameter.\<close>

definition switch_task :: "u32 \<Rightarrow> 'a tasks_scheme \<Rightarrow> 'a tasks_scheme" where
  "switch_task return_addr s =
     (let s = s\<lparr>interrupts_on := False\<rparr>;
          s = switch_context (push32 return_addr s)
      in s\<lparr>interrupts_on := True\<rparr>)"

end
