(* ===== verification/Task_Ring.thy ===== *)
theory Task_Ring
  imports Tasks Heap_Objects Example_Machine
begin

text \<open>
  The tasks as a ring of contexts in the heap: creation extends it, the switch goes round it
  and gives every task back the registers it was interrupted with. The stack of a new task
  is not in the block allocated for it.
\<close>

section \<open>The ring\<close>

definition task_ring :: "'a tasks_scheme \<Rightarrow> u32 list \<Rightarrow> bool" where
  "task_ring s ts \<longleftrightarrow> heap_ready s \<and> ts \<noteq> [] \<and> distinct ts \<and> (\<forall>t\<in>set ts. object s t 16) \<and>
     links (mem s) ts (hd ts) \<and> tasks_start s = hd ts \<and> tasks_end s = last ts \<and>
     current_task s \<in> set ts"

text \<open>Memory that may hold a stack: it is not used by the heap at all, or it is in an object
  that is not a context.\<close>

definition stack_area :: "'a heap_scheme \<Rightarrow> u32 list \<Rightarrow> u32 set \<Rightarrow> bool" where
  "stack_area s ts X \<longleftrightarrow> spare s X \<or> (\<exists>q n. object s q n \<and> X \<subseteq> region q n \<and> q \<notin> set ts)"

lemma stack_area_write:
  assumes "heap_ready s" "stack_area s ts X" "\<And>x. x \<notin> X \<Longrightarrow> m x = mem s x"
  shows "heap_ready (s\<lparr>mem := m\<rparr>)" "object (s\<lparr>mem := m\<rparr>) a n = object s a n"
    "t \<in> set ts \<Longrightarrow> object s t 16 \<Longrightarrow> x \<in> region t 16 \<Longrightarrow> x \<notin> X"
proof -
  consider "spare s X" | q n where "object s q n" "X \<subseteq> region q n" "q \<notin> set ts"
    using assms(2) by (auto simp: stack_area_def)
  then have "heap_ready (s\<lparr>mem := m\<rparr>) \<and> object (s\<lparr>mem := m\<rparr>) a n = object s a n \<and>
    (t \<in> set ts \<longrightarrow> object s t 16 \<longrightarrow> x \<in> region t 16 \<longrightarrow> x \<notin> X)"
  proof cases
    case 1
    have "X \<inter> region t 16 = {}" if "object s t 16"
      using assms(3) that by (rule spare_write(3) [OF assms(1) 1])
    then show ?thesis using spare_write(1,2) [OF assms(1) 1, of m] assms(3) by auto
  next
    case 2
    have "m y = mem s y" if "y \<notin> region q n" for y using assms(3) 2(2) that by auto
    moreover have "x \<notin> X" if "t \<in> set ts" "object s t 16" "x \<in> region t 16"
      using apart_disjoint [OF object_apart [OF 2(1) that(2)]] 2(2,3) that by auto
    ultimately show ?thesis using heap_write [OF 2(1), of m] by auto
  qed
  then show "heap_ready (s\<lparr>mem := m\<rparr>)" "object (s\<lparr>mem := m\<rparr>) a n = object s a n"
    "t \<in> set ts \<Longrightarrow> object s t 16 \<Longrightarrow> x \<in> region t 16 \<Longrightarrow> x \<notin> X" by auto
qed

lemma heap_fields [simp]:
  "heap_ready (s\<lparr>interrupts_on := b\<rparr>) = heap_ready s" "object (s\<lparr>interrupts_on := b\<rparr>) = object s"
  "heap_ready (s\<lparr>tasks_start := x\<rparr>) = heap_ready s" "object (s\<lparr>tasks_start := x\<rparr>) = object s"
  "heap_ready (s\<lparr>tasks_end := x\<rparr>) = heap_ready s" "object (s\<lparr>tasks_end := x\<rparr>) = object s"
  "heap_ready (s\<lparr>port_log := l\<rparr>) = heap_ready s" "object (s\<lparr>port_log := l\<rparr>) = object s"
  "heap_ready (s\<lparr>cpu := c\<rparr>) = heap_ready s" "object (s\<lparr>cpu := c\<rparr>) = object s"
  "heap_ready (s\<lparr>esp := x\<rparr>) = heap_ready s" "object (s\<lparr>esp := x\<rparr>) = object s"
  "heap_ready (s\<lparr>eip := x\<rparr>) = heap_ready s" "object (s\<lparr>eip := x\<rparr>) = object s"
  "heap_ready (s\<lparr>tasks_end := x, mem := m\<rparr>) = heap_ready (s\<lparr>mem := m\<rparr>)"
  "object (s\<lparr>tasks_end := x, mem := m\<rparr>) = object (s\<lparr>mem := m\<rparr>)"
  "heap_ready (s\<lparr>current_task := x\<rparr>) = heap_ready s" "object (s\<lparr>current_task := x\<rparr>) = object s"
  by (simp_all add: heap_ready_def object_def heap_inv_def fun_eq_iff)

lemma kmalloc_interrupts_on:
  "kmalloc sz (s\<lparr>interrupts_on := b\<rparr>) = map_option (\<lambda>(p, t). (p, t\<lparr>interrupts_on := b\<rparr>)) (kmalloc sz s)"
  by (auto simp: kmalloc_def Let_def split: option.split)

text \<open>Nodes may be written without harm to the areas for stacks.\<close>

lemma node_write:
  assumes "object s a 16" "\<And>x. x \<notin> region a 16 \<Longrightarrow> m x = mem s x"
  shows "heap_ready (s\<lparr>mem := m\<rparr>)" "object (s\<lparr>mem := m\<rparr>) c k = object s c k"
    "stack_area (s\<lparr>mem := m\<rparr>) ts X = stack_area s ts X"
  using heap_write [OF assms(1), of m] assms(2) by (simp_all add: stack_area_def)

lemma other_node:
  assumes "object s a 16" "object s e 16" "a \<noteq> e" "\<And>x. x \<notin> region a 16 \<Longrightarrow> m x = mem s x"
  shows "rd32 m (e + 12) = rd32 (mem s) (e + 12)"
proof -
  have "object (s\<lparr>mem := mem s\<rparr>) a 16" "object (s\<lparr>mem := mem s\<rparr>) e 16" using assms(1,2) by simp_all
  from kernel_objects.other_word [OF this assms(3,4), of 12] show ?thesis by simp
qed

section \<open>The initial frame\<close>

text \<open>What the switch takes from the stack: the seven registers and the return address.\<close>

definition frame_at :: "mem \<Rightarrow> u32 \<Rightarrow> cpu_context \<Rightarrow> u32 \<Rightarrow> bool" where
  "frame_at m sp c ret \<longleftrightarrow>
     rd32 m sp = ebp c \<and> rd32 m (sp + 4) = edi c \<and> rd32 m (sp + 8) = esi c \<and>
     rd32 m (sp + 12) = edx c \<and> rd32 m (sp + 16) = ecx c \<and> rd32 m (sp + 20) = ebx c \<and>
     rd32 m (sp + 24) = eax c \<and> rd32 m (sp + 28) = ret"

definition zero_context :: cpu_context where
  "zero_context = \<lparr>eax = 0, ebx = 0, ecx = 0, edx = 0, esi = 0, edi = 0, ebp = 0\<rparr>"

lemma frame_words:
  "i + 4 \<le> n \<Longrightarrow> n \<le> 4294967296 \<Longrightarrow> (\<And>x. x \<in> region sp n \<Longrightarrow> m' x = m x) \<Longrightarrow>
   rd32 m' (sp + of_nat i) = rd32 m (sp + of_nat i)"
  using region_offset [of i 4 n sp] by (intro rd32_cong) blast

lemma frame_at_cong:
  assumes "\<And>x. x \<in> region sp 32 \<Longrightarrow> m' x = m x"
  shows "frame_at m' sp c ret = frame_at m sp c ret"
proof -
  note W = frame_words [of _ 32 sp m' m, OF _ _ assms]
  show ?thesis
    using W [of 0] W [of 4] W [of 8] W [of 12] W [of 16] W [of 20] W [of 24] W [of 28]
    by (simp add: frame_at_def)
qed

lemma push_down_initial:
  "push_down [8, entry, 0, 0, 0, 0, 0, 0] (sp + 32) m = (sp,
     wr32 sp 0 (wr32 (sp + 4) 0 (wr32 (sp + 8) 0 (wr32 (sp + 12) 0 (wr32 (sp + 16) 0
      (wr32 (sp + 20) 0 (wr32 (sp + 24) 0 (wr32 (sp + 28) entry (wr32 (sp + 32) 8 m)))))))))"
  by (simp add: add.commute)

declare push_down.simps [simp del]

lemma initial_frame_cong:
  assumes "\<And>x. x \<in> region sp 36 \<Longrightarrow> m' x = m x"
  shows "frame_at m' sp c ret = frame_at m sp c ret" "rd32 m' (sp + 32) = rd32 m (sp + 32)"
proof -
  have "region sp 32 \<subseteq> region sp 36" by (rule region_mono) simp
  then show "frame_at m' sp c ret = frame_at m sp c ret" using assms by (intro frame_at_cong) blast
  show "rd32 m' (sp + 32) = rd32 m (sp + 32)" using frame_words [of 32 36 sp m' m] assms by simp
qed

lemma initial_frame:
  assumes "push_down [8, entry, 0, 0, 0, 0, 0, 0] (sp + 32) m = (sp', m')"
  shows "sp' = sp" "frame_at m' sp zero_context entry" "rd32 m' (sp + 32) = 8"
    "x \<notin> region sp 36 \<Longrightarrow> m' x = m x"
proof -
  have [simp]: "apart (sp + i) 4 (sp + j) 4 \<longleftrightarrow> apart i 4 j 4" for i j by (simp add: apart_def)
  have [simp]: "apart sp 4 (sp + j) 4 \<longleftrightarrow> apart 0 4 j 4" for j by (simp add: apart_def)
  note eq = assms [unfolded push_down_initial]
  show "sp' = sp" using eq by simp
  show "frame_at m' sp zero_context entry" "rd32 m' (sp + 32) = 8"
    using eq by (auto simp: frame_at_def zero_context_def mem_simps) (simp_all add: apart_def mem_simps)
  show "m' x = m x" if "x \<notin> region sp 36"
  proof -
    have "region (sp + of_nat i) 4 \<subseteq> region sp 36" if "i \<le> 32" for i
      using that by (intro region_offset) simp_all
    then have "x \<notin> region (sp + of_nat i) 4" if "i \<le> 32" for i using \<open>x \<notin> region sp 36\<close> that by blast
    note out = this [of 0] this [of 4] this [of 8] this [of 12] this [of 16] this [of 20] this [of 24]
      this [of 28] this [of 32]
    have "m' = snd (push_down [8, entry, 0, 0, 0, 0, 0, 0] (sp + 32) m)" unfolding assms by simp
    then show ?thesis using out unfolding push_down_initial by (simp add: wr32_other)
  qed
qed

section \<open>Creating a task\<close>

lemma tasks_create_eq:
  assumes "kmalloc 4096 s = Some (stack, s\<lparr>mem := m1\<rparr>)" "kmalloc 16 (s\<lparr>mem := m1\<rparr>) = Some (task, s\<lparr>mem := m2\<rparr>)"
    and "push_down [8, entry, 0, 0, 0, 0, 0, 0] (stack + 16384)
      (wr32 (task + 12) (tasks_start s) (wr32 (tasks_end s + 12) task m2)) = (sp, m3)"
  shows "tasks_create entry s = Some (s\<lparr>tasks_end := task, mem := wr32 task sp m3, interrupts_on := True\<rparr>)"
proof -
  have "kmalloc 4096 (s\<lparr>interrupts_on := False\<rparr>) = Some (stack, s\<lparr>mem := m1, interrupts_on := False\<rparr>)"
    using assms(1) by (simp add: kmalloc_interrupts_on)
  moreover have "kmalloc 16 (s\<lparr>mem := m1, interrupts_on := False\<rparr>) = Some (task, s\<lparr>mem := m2, interrupts_on := False\<rparr>)"
    using assms(2) kmalloc_interrupts_on [of 16 False "s\<lparr>mem := m1\<rparr>"] by simp
  ultimately show ?thesis
    using assms(3)
    by (simp add: tasks_create_def operator_new_def sizeof_task_context_def set_task_next_def set_task_esp_def
        Let_def del: push_down.simps)
qed

text \<open>A context linked into the ring, and a stack area written.\<close>

lemma ring_link:
  assumes ring: "heap_ready s" "ts \<noteq> []" "distinct ts" "\<And>t. t \<in> set ts \<Longrightarrow> object s t 16"
      "links (mem s) ts (hd ts)"
    and t: "object s t 16" "t \<notin> set ts"
    and m: "m = wr32 (t + 12) (hd ts) (wr32 (last ts + 12) t (mem s))"
  shows "links m (ts @ [t]) (hd ts)" "heap_ready (s\<lparr>mem := m\<rparr>)"
    "object (s\<lparr>mem := m\<rparr>) a n = object s a n" "stack_area (s\<lparr>mem := m\<rparr>) us X = stack_area s us X"
    "\<And>x. x \<notin> region (last ts) 16 \<Longrightarrow> x \<notin> region t 16 \<Longrightarrow> m x = mem s x"
proof -
  define m1 where "m1 = wr32 (last ts + 12) t (mem s)"
  have l: "last ts \<in> set ts" using ring(2) by simp
  note L = links_last [OF ring(4,3,2,5) m1_def]
  have o1: "x \<notin> region (last ts) 16 \<Longrightarrow> m1 x = mem s x" for x using L(4) node_field by blast
  have o2: "x \<notin> region t 16 \<Longrightarrow> m x = m1 x" for x using node_field wr32_other unfolding m m1_def by blast
  note W1 = node_write [OF ring(4) [OF l] o1]
  have t1: "object (s\<lparr>mem := m1\<rparr>) t 16" using W1(2) t(1) by simp
  note W2 = node_write [of "s\<lparr>mem := m1\<rparr>", simplified, OF t1 o2]
  show "heap_ready (s\<lparr>mem := m\<rparr>)" "object (s\<lparr>mem := m\<rparr>) a n = object s a n"
    "stack_area (s\<lparr>mem := m\<rparr>) us X = stack_area s us X"
    using W1 W2 by simp_all
  show "\<And>x. x \<notin> region (last ts) 16 \<Longrightarrow> x \<notin> region t 16 \<Longrightarrow> m x = mem s x" using o1 o2 by simp
  have "rd32 m (e + 12) = rd32 m1 (e + 12)" if "e \<in> set ts" for e
    using other_node [of "s\<lparr>mem := m1\<rparr>" t e m] t1 t(2) that ring(4) W1(2) o2 by auto
  then have "links m ts t" using L(1) links_cong [of ts m m1 t] by blast
  then show "links m (ts @ [t]) (hd ts)" by (simp add: links_snoc m mem_simps)
qed

lemma ring_stack_write:
  assumes "heap_ready s" "\<And>t. t \<in> set ts \<Longrightarrow> object s t 16" "links (mem s) ts q"
    and "stack_area s ts X" "\<And>x. x \<notin> X \<Longrightarrow> m x = mem s x"
  shows "heap_ready (s\<lparr>mem := m\<rparr>)" "object (s\<lparr>mem := m\<rparr>) a n = object s a n" "links m ts q"
    "\<And>t x. t \<in> set ts \<Longrightarrow> x \<in> region t 16 \<Longrightarrow> m x = mem s x"
proof -
  note W = stack_area_write [OF assms(1,4,5)]
  show "heap_ready (s\<lparr>mem := m\<rparr>)" "object (s\<lparr>mem := m\<rparr>) a n = object s a n" using W by simp_all
  show same: "\<And>t x. t \<in> set ts \<Longrightarrow> x \<in> region t 16 \<Longrightarrow> m x = mem s x" using W(3) assms(2,5) by blast
  have "rd32 m (t + 12) = rd32 (mem s) (t + 12)" if "t \<in> set ts" for t
    using same [OF that] node_field by (intro rd32_cong) blast
  then show "links m ts q" using assms(3) links_cong [of ts m "mem s"] by blast
qed

text \<open>The stack pointer of a context stored.\<close>

lemma ring_set_esp:
  assumes "\<And>e. e \<in> set ts \<Longrightarrow> object s e 16" "links (mem s) ts q" "t \<in> set ts"
    and m: "m = wr32 t v (mem s)"
  shows "heap_ready (s\<lparr>mem := m\<rparr>)" "object (s\<lparr>mem := m\<rparr>) a n = object s a n" "links m ts q"
    "\<And>x. x \<notin> region t 4 \<Longrightarrow> m x = mem s x"
proof -
  show o4: "\<And>x. x \<notin> region t 4 \<Longrightarrow> m x = mem s x" by (simp add: m wr32_other)
  have "region t 4 \<subseteq> region t 16" by (rule region_mono) simp
  then have o: "x \<notin> region t 16 \<Longrightarrow> m x = mem s x" for x using o4 by blast
  show "heap_ready (s\<lparr>mem := m\<rparr>)" "object (s\<lparr>mem := m\<rparr>) a n = object s a n"
    using node_write [OF assms(1) [OF assms(3)], of m] o by simp_all
  have "rd32 m (e + 12) = rd32 (mem s) (e + 12)" if "e \<in> set ts" for e
  proof (cases "e = t")
    case True
    then show ?thesis by (simp add: m rd32_wr32_apart apart_def)
  next
    case False
    then show ?thesis using other_node [OF assms(1) [OF assms(3)] assms(1) [OF that] _ o] by simp
  qed
  then show "links m ts q" using assms(2) links_cong [of ts m "mem s"] by blast
qed

text \<open>An allocation leaves the nodes, and what it returns is not one of them.\<close>

lemma ring_alloc:
  assumes "heap_ready s" "\<And>t. t \<in> set ts \<Longrightarrow> object s t 16" "links (mem s) ts q"
    and "kmalloc sz s = Some (p, t)" "p \<noteq> -1" "0 < unat sz"
  obtains m where "t = s\<lparr>mem := m\<rparr>" "heap_ready (s\<lparr>mem := m\<rparr>)" "object (s\<lparr>mem := m\<rparr>) p (unat sz)" "p \<notin> set ts"
    "\<And>t. t \<in> set ts \<Longrightarrow> object (s\<lparr>mem := m\<rparr>) t 16" "links m ts q"
    "\<And>a n. object s a n \<Longrightarrow> object (s\<lparr>mem := m\<rparr>) a n" "\<And>a n. object s a n \<Longrightarrow> a \<noteq> p"
proof -
  obtain m where m: "t = s\<lparr>mem := m\<rparr>" "heap_ready t" "object t p (unat sz)"
    and old: "\<And>a n. object s a n \<Longrightarrow> object t a n" "\<And>a n. object s a n \<Longrightarrow> a \<noteq> p"
      "\<And>a n x. object s a n \<Longrightarrow> x \<in> region a n \<Longrightarrow> m x = mem s x"
    using heap_new' [OF assms(1,6,4,5)] by blast
  have "rd32 m (e + 12) = rd32 (mem s) (e + 12)" if "e \<in> set ts" for e
    using old(3) [OF assms(2) [OF that]] node_field by (intro rd32_cong) blast
  then have "links m ts q" using assms(3) links_cong [of ts m "mem s"] by blast
  moreover have "p \<notin> set ts" using old(2) assms(2) by blast
  ultimately show ?thesis using that [OF m(1)] m(2,3) old(1,2) assms(2) by (simp add: m(1))
qed

text \<open>The steps of \<open>create\<close>: the memory after the allocations, with the new context linked in,
  and with the frame.\<close>

lemma tasks_create_run:
  assumes ring: "task_ring s ts"
    and new: "kmalloc 4096 s = Some (stack, s1)" "stack \<noteq> -1" "kmalloc 16 s1 = Some (task, s2)" "task \<noteq> -1"
  obtains m3 m4 where
    "s2 = s\<lparr>mem := mem s2\<rparr>" "heap_ready s2" "object s2 task 16" "task \<notin> set ts"
    "\<And>t. t \<in> set ts \<Longrightarrow> object s2 t 16" "links (mem s2) ts (hd ts)"
    "object s2 stack 4096" "stack \<notin> set (ts @ [task])"
    "m3 = wr32 (task + 12) (hd ts) (wr32 (last ts + 12) task (mem s2))"
    "push_down [8, entry, 0, 0, 0, 0, 0, 0] (stack + 16352 + 32) m3 = (stack + 16352, m4)"
    "tasks_create entry s = Some (s\<lparr>tasks_end := task, mem := wr32 task (stack + 16352) m4, interrupts_on := True\<rparr>)"
proof -
  have R: "heap_ready s" "ts \<noteq> []" "\<And>t. t \<in> set ts \<Longrightarrow> object s t 16" "links (mem s) ts (hd ts)"
    "tasks_start s = hd ts" "tasks_end s = last ts"
    using ring by (auto simp: task_ring_def)
  obtain m1 where m1: "s1 = s\<lparr>mem := m1\<rparr>" and A: "heap_ready s1" "object s1 stack 4096" "stack \<notin> set ts"
      "\<And>t. t \<in> set ts \<Longrightarrow> object s1 t 16" "links m1 ts (hd ts)"
    by (rule ring_alloc [OF R(1,3,4) new(1,2)]) auto
  obtain m2 where m2: "s2 = s1\<lparr>mem := m2\<rparr>" and B: "heap_ready s2" "object s2 task 16" "task \<notin> set ts"
      "\<And>t. t \<in> set ts \<Longrightarrow> object s2 t 16" "links (mem s2) ts (hd ts)"
      "object s2 stack 4096" "stack \<noteq> task"
    by (rule ring_alloc [OF A(1,4) _ new(3,4), of ts "hd ts"]) (use A(2,5) in \<open>auto simp: m1\<close>)
  have s2: "s2 = s\<lparr>mem := m2\<rparr>" by (simp add: m1 m2)
  define m3 where "m3 = wr32 (task + 12) (hd ts) (wr32 (last ts + 12) task (mem s2))"
  obtain sp m4 where p: "push_down [8, entry, 0, 0, 0, 0, 0, 0] (stack + 16352 + 32) m3 = (sp, m4)" by fastforce
  note sp = initial_frame(1) [OF p]
  have "stack + 16352 + 32 = stack + 16384" "mem s2 = m2" by (simp_all add: m2)
  then have "push_down [8, entry, 0, 0, 0, 0, 0, 0] (stack + 16384)
      (wr32 (task + 12) (tasks_start s) (wr32 (tasks_end s + 12) task m2)) = (stack + 16352, m4)"
    using p sp by (simp only: m3_def R(5,6))
  then have "tasks_create entry s =
      Some (s\<lparr>tasks_end := task, mem := wr32 task (stack + 16352) m4, interrupts_on := True\<rparr>)"
    using tasks_create_eq new(1,3) unfolding m1 m2 by fastforce
  then show ?thesis
    using that [OF _ B(1-6) _ m3_def] p A(3) B(7) by (simp add: s2 sp)
qed

lemma tasks_create_ring:
  assumes ring: "task_ring s ts"
    and new: "kmalloc 4096 s = Some (stack, s1)" "stack \<noteq> -1" "kmalloc 16 s1 = Some (task, s2)" "task \<noteq> -1"
    and area: "stack_area s2 (ts @ [task]) (region (stack + 16352) 36)"
  obtains s' where "tasks_create entry s = Some s'" "task_ring s' (ts @ [task])"
    "current_task s' = current_task s" "task_esp (mem s') task = stack + 16352"
    "frame_at (mem s') (stack + 16352) zero_context entry" "rd32 (mem s') (stack + 16384) = 8" "interrupts_on s'"
    "esp s' = esp s" "heap_top s' = heap_top s"
proof -
  have R: "ts \<noteq> []" "distinct ts" "tasks_start s = hd ts" "current_task s \<in> set ts"
    using ring by (auto simp: task_ring_def)
  obtain m3 m4 where B: "s2 = s\<lparr>mem := mem s2\<rparr>" "heap_ready s2" "object s2 task 16" "task \<notin> set ts"
      "\<And>t. t \<in> set ts \<Longrightarrow> object s2 t 16" "links (mem s2) ts (hd ts)"
    and m3: "m3 = wr32 (task + 12) (hd ts) (wr32 (last ts + 12) task (mem s2))"
    and p: "push_down [8, entry, 0, 0, 0, 0, 0, 0] (stack + 16352 + 32) m3 = (stack + 16352, m4)"
    and run: "tasks_create entry s =
      Some (s\<lparr>tasks_end := task, mem := wr32 task (stack + 16352) m4, interrupts_on := True\<rparr>)"
    by (rule tasks_create_run [OF ring new]) blast
  note F = initial_frame [OF p]
  have L: "links m3 (ts @ [task]) (hd ts)" "heap_ready (s2\<lparr>mem := m3\<rparr>)"
    "object (s2\<lparr>mem := m3\<rparr>) a n = object s2 a n" "stack_area (s2\<lparr>mem := m3\<rparr>) us X = stack_area s2 us X" for a n us X
    using ring_link(1-4) [where s = s2 and ts = ts and t = task and m = m3] B R(1,2) by (simp_all add: m3)
  define m5 where "m5 = wr32 task (stack + 16352) m4"
  have nodes: "object (s2\<lparr>mem := m3\<rparr>) t 16" if "t \<in> set (ts @ [task])" for t
    using that B(3,5) by (auto simp: L(3))
  have W: "heap_ready (s2\<lparr>mem := m4\<rparr>)" "object (s2\<lparr>mem := m4\<rparr>) a n = object (s2\<lparr>mem := m3\<rparr>) a n"
    "links m4 (ts @ [task]) (hd ts)" "t \<in> set (ts @ [task]) \<Longrightarrow> x \<in> region t 16 \<Longrightarrow> x \<notin> region (stack + 16352) 36"
    for a n t x
  proof -
    have ar: "stack_area (s2\<lparr>mem := m3\<rparr>) (ts @ [task]) (region (stack + 16352) 36)"
      using area by (simp add: L(4))
    have o: "m4 x = mem (s2\<lparr>mem := m3\<rparr>) x" if "x \<notin> region (stack + 16352) 36" for x
      using F(4) [OF that] by simp
    show "heap_ready (s2\<lparr>mem := m4\<rparr>)" "object (s2\<lparr>mem := m4\<rparr>) a n = object (s2\<lparr>mem := m3\<rparr>) a n"
      "links m4 (ts @ [task]) (hd ts)"
      using ring_stack_write(1-3) [OF L(2) nodes _ ar o, of "hd ts"] L(1) by simp_all
    show "x \<notin> region (stack + 16352) 36" if "t \<in> set (ts @ [task])" "x \<in> region t 16"
      using stack_area_write(3) [OF L(2) ar o that(1) nodes [OF that(1)] that(2)] .
  qed
  have E: "heap_ready (s2\<lparr>mem := m5\<rparr>)" "object (s2\<lparr>mem := m5\<rparr>) a n = object (s2\<lparr>mem := m3\<rparr>) a n"
    "links m5 (ts @ [task]) (hd ts)" "x \<notin> region task 4 \<Longrightarrow> m5 x = m4 x" for a n x
    using ring_set_esp [where s = "s2\<lparr>mem := m4\<rparr>" and ts = "ts @ [task]" and t = task and m = m5] nodes W(2,3)
    by (simp_all add: m5_def)
  define s' where "s' = s\<lparr>tasks_end := task, mem := m5, interrupts_on := True\<rparr>"
  have "tasks_create entry s = Some s'" by (simp add: run s'_def m5_def)
  moreover have "task_ring s' (ts @ [task])"
    unfolding task_ring_def using R B(4) E nodes arg_cong [OF B(1), of "\<lambda>t. t\<lparr>mem := m5\<rparr>"]
      arg_cong [OF B(1), of "\<lambda>t. t\<lparr>mem := m3\<rparr>"] by (simp add: s'_def)
  moreover have out: "m5 x = m4 x" if "x \<in> region (stack + 16352) 36" for x
  proof -
    have "region task 4 \<subseteq> region task 16" by (rule region_mono) simp
    then have "x \<notin> region task 4" using W(4) [of task x] that by auto
    then show ?thesis by (rule E(4))
  qed
  moreover have "frame_at (mem s') (stack + 16352) zero_context entry" "rd32 (mem s') (stack + 16384) = 8"
    using F(2,3) initial_frame_cong [of "stack + 16352" m5 m4] out by (simp_all add: s'_def add.commute)
  moreover have "task_esp (mem s') task = stack + 16352" by (simp add: s'_def m5_def task_esp_def mem_simps)
  ultimately show ?thesis using that [of s'] by (simp add: s'_def)
qed

section \<open>The switch\<close>

text \<open>\<open>switch_task\<close> in one step: the registers are pushed below the return address, the stack
  pointer goes to the current context, the next one's stack pointer and frame are taken.\<close>

definition pushed :: "u32 \<Rightarrow> 'a tasks_scheme \<Rightarrow> mem" where
  "pushed ra s = mem (save_context (push32 ra s))"

definition popped :: "mem \<Rightarrow> u32 \<Rightarrow> cpu_context" where
  "popped m sp = \<lparr>eax = rd32 m (sp + 24), ebx = rd32 m (sp + 20), ecx = rd32 m (sp + 16),
     edx = rd32 m (sp + 12), esi = rd32 m (sp + 8), edi = rd32 m (sp + 4), ebp = rd32 m sp\<rparr>"

lemma frame_at_popped: "frame_at m sp c ret \<longleftrightarrow> c = popped m sp \<and> rd32 m (sp + 28) = ret"
  by (cases c) (auto simp: frame_at_def popped_def)

lemma saved_eq:
  "save_context ((push32 ra (s\<lparr>interrupts_on := False\<rparr>))\<lparr>interrupts_on := False\<rparr>) =
   s\<lparr>esp := esp s - 32, mem := pushed ra s, interrupts_on := False\<rparr>"
  by (rule tasks.equality) (simp_all add: pushed_def save_context_def push32_def Let_def)

lemma restored_eq: "restore_context s = s\<lparr>esp := esp s + 28, cpu := popped (mem s) (esp s)\<rparr>"
  by (simp add: restore_context_def pop32_def popped_def Let_def add.commute)

lemma switch_context_eq:
  assumes "save_context (t\<lparr>interrupts_on := False\<rparr>) = u" "m = wr32 (current_task u) (esp u) (mem u)"
    and "next = rd32 (mem u) (current_task u + 12)" "sp = rd32 m next"
  shows "switch_context t = u\<lparr>mem := m, port_log := Out8 0x20 0x20 # port_log u, current_task := next,
    cpu := popped m sp, esp := sp + 32, eip := rd32 m (sp + 28), interrupts_on := True\<rparr>"
  by (rule tasks.equality)
    (simp_all add: assms switch_context_def restored_eq pop32_def write8_def Let_def)

lemma switch_task_eq:
  assumes "m = wr32 (current_task s) (esp s - 32) (pushed ra s)"
    and "next = rd32 (pushed ra s) (current_task s + 12)" "sp = rd32 m next"
  shows "switch_task ra s = s\<lparr>mem := m, port_log := Out8 0x20 0x20 # port_log s, current_task := next,
    cpu := popped m sp, esp := sp + 32, eip := rd32 m (sp + 28), interrupts_on := True\<rparr>"
  unfolding switch_task_def Let_def
  by (subst switch_context_eq [OF saved_eq refl refl refl], rule tasks.equality) (simp_all add: assms)

lemma pushed_eq:
  assumes "esp s = sp + 32"
  shows "pushed ra s = wr32 sp (ebp (cpu s)) (wr32 (sp + 4) (edi (cpu s)) (wr32 (sp + 8) (esi (cpu s))
    (wr32 (sp + 12) (edx (cpu s)) (wr32 (sp + 16) (ecx (cpu s)) (wr32 (sp + 20) (ebx (cpu s))
    (wr32 (sp + 24) (eax (cpu s)) (wr32 (sp + 28) ra (mem s))))))))"
  using assms by (simp add: pushed_def save_context_def push32_def Let_def add.commute)

lemma pushed_frame:
  assumes "esp s = sp + 32"
  shows "frame_at (pushed ra s) sp (cpu s) ra" "x \<notin> region sp 32 \<Longrightarrow> pushed ra s x = mem s x"
proof -
  have [simp]: "apart (sp + i) 4 (sp + j) 4 \<longleftrightarrow> apart i 4 j 4" for i j by (simp add: apart_def)
  have [simp]: "apart sp 4 (sp + j) 4 \<longleftrightarrow> apart 0 4 j 4" for j by (simp add: apart_def)
  show "frame_at (pushed ra s) sp (cpu s) ra"
    unfolding pushed_eq [OF assms] frame_at_def by (simp add: mem_simps) (simp add: apart_def mem_simps)
  show "pushed ra s x = mem s x" if "x \<notin> region sp 32"
  proof -
    have "region (sp + of_nat i) 4 \<subseteq> region sp 32" if "i \<le> 28" for i
      using that by (intro region_offset) simp_all
    then have "x \<notin> region (sp + of_nat i) 4" if "i \<le> 28" for i using \<open>x \<notin> region sp 32\<close> that by blast
    note out = this [of 0] this [of 4] this [of 8] this [of 12] this [of 16] this [of 20] this [of 24] this [of 28]
    then show ?thesis unfolding pushed_eq [OF assms] by (simp add: wr32_other)
  qed
qed

text \<open>The switch on a ring, for a stack that may be written.\<close>

lemma links_next:
  assumes "links m ts (hd ts)" "i < length ts"
  shows "rd32 m (ts ! i + 12) = ts ! (Suc i mod length ts)"
  using links_nth [OF assms] assms(2) by (cases "Suc i = length ts"; cases ts) auto

lemma switch_task_ring:
  fixes s :: "'a tasks_scheme" and ra :: u32
  assumes ring: "task_ring s ts" and i: "i < length ts" "current_task s = ts ! i"
    and area: "stack_area s ts (region (esp s - 32) 32)"
  defines "s' \<equiv> switch_task ra s" and "sp \<equiv> task_esp (mem (switch_task ra s)) (ts ! (Suc i mod length ts))"
  shows "task_ring s' ts" "current_task s' = ts ! (Suc i mod length ts)"
    "task_esp (mem s') (ts ! i) = esp s - 32" "frame_at (mem s') (esp s - 32) (cpu s) ra"
    "\<And>x. x \<notin> region (esp s - 32) 32 \<Longrightarrow> x \<notin> region (ts ! i) 4 \<Longrightarrow> mem s' x = mem s x"
    "cpu s' = popped (mem s') sp" "esp s' = sp + 32" "eip s' = rd32 (mem s') (sp + 28)" "interrupts_on s'"
    "heap_top s' = heap_top s"
proof -
  have R: "heap_ready s" "ts \<noteq> []" "distinct ts" "\<And>t. t \<in> set ts \<Longrightarrow> object s t 16" "links (mem s) ts (hd ts)"
    "tasks_start s = hd ts" "tasks_end s = last ts"
    using ring by (auto simp: task_ring_def)
  define c n m where "c = ts ! i" and "n = ts ! (Suc i mod length ts)"
    and "m = wr32 c (esp s - 32) (pushed ra s)"
  have cn: "c \<in> set ts" "n \<in> set ts" using i(1) R(2) by (auto simp: c_def n_def intro!: nth_mem)
  note P = pushed_frame [of s "esp s - 32", simplified]
  have W: "heap_ready (s\<lparr>mem := pushed ra s\<rparr>)" "object (s\<lparr>mem := pushed ra s\<rparr>) a k = object s a k"
    "links (pushed ra s) ts (hd ts)" for a k
    using ring_stack_write(1-3) [OF R(1,4,5) area P(2)] by simp_all
  have out: "x \<notin> region (esp s - 32) 32" if "x \<in> region t 16" "t \<in> set ts" for t x
    using stack_area_write(3) [OF R(1) area P(2) that(2) R(4) [OF that(2)] that(1)] .
  have E: "heap_ready (s\<lparr>mem := m\<rparr>)" "object (s\<lparr>mem := m\<rparr>) a k = object s a k" "links m ts (hd ts)"
    "x \<notin> region c 4 \<Longrightarrow> m x = pushed ra s x" for a k x
    using ring_set_esp [where s = "s\<lparr>mem := pushed ra s\<rparr>" and ts = ts and t = c and m = m] R(4) W cn(1)
    by (simp_all add: m_def)
  have "rd32 (pushed ra s) (c + 12) = n"
    using links_next [OF W(3) i(1)] by (simp add: c_def n_def)
  note eq = switch_task_eq [of m s ra n, OF _ _ refl, unfolded i(2), folded c_def, OF m_def this [symmetric]]
  then have eq: "s' = s\<lparr>mem := m, port_log := Out8 0x20 0x20 # port_log s, current_task := n,
      cpu := popped m (rd32 m n), esp := rd32 m n + 32, eip := rd32 m (rd32 m n + 28), interrupts_on := True\<rparr>"
    by (simp add: s'_def)
  then have m': "mem s' = m" by simp
  then have sp: "sp = rd32 m n" by (simp add: sp_def n_def s'_def task_esp_def)
  show "task_ring s' ts"
    using R cn E by (simp add: task_ring_def eq)
  show "current_task s' = ts ! (Suc i mod length ts)" "interrupts_on s'" "heap_top s' = heap_top s" "cpu s' = popped (mem s') sp"
    "esp s' = sp + 32" "eip s' = rd32 (mem s') (sp + 28)"
    by (simp_all add: eq sp n_def)
  show "task_esp (mem s') (ts ! i) = esp s - 32" by (simp add: m' task_esp_def c_def [symmetric] m_def mem_simps)
  have "x \<notin> region c 4" if "x \<in> region (esp s - 32) 32" for x
    using out [OF _ cn(1), of x] region_mono [of 4 16 c] that by auto
  then show "frame_at (mem s') (esp s - 32) (cpu s) ra"
    using frame_at_cong [of "esp s - 32" m "pushed ra s"] P(1) E(4) by (simp add: m')
  show "\<And>x. x \<notin> region (esp s - 32) 32 \<Longrightarrow> x \<notin> region (ts ! i) 4 \<Longrightarrow> mem s' x = mem s x"
    using E(4) P(2) by (simp add: m' c_def)
qed

text \<open>What a switch away from another task leaves as it is: the context and the saved frame of
  the one it switches to. So that one gets back what is in its frame.\<close>

lemma switch_task_resumes:
  assumes ring: "task_ring u ts" and c: "task_next (mem u) (current_task u) = c" "current_task u \<noteq> c"
    and area: "stack_area u ts (region (esp u - 32) 32)" "stack_area u ts (region sp 32)"
    and ap: "apart (esp u - 32) 32 sp 32"
    and f: "task_esp (mem u) c = sp" "frame_at (mem u) sp r ret"
  shows "cpu (switch_task ra u) = r" "esp (switch_task ra u) = sp + 32" "eip (switch_task ra u) = ret"
    "current_task (switch_task ra u) = c"
proof -
  have R: "heap_ready u" "\<And>t. t \<in> set ts \<Longrightarrow> object u t 16" "links (mem u) ts (hd ts)"
    using ring by (auto simp: task_ring_def)
  define d where "d = current_task u"
  obtain j where j: "j < length ts" "d = ts ! j"
    using ring by (auto simp: task_ring_def d_def in_set_conv_nth)
  have cj: "ts ! (Suc j mod length ts) = c"
    using links_next [OF R(3) j(1)] c(1) j(2) by (simp add: task_next_def d_def)
  have "Suc j mod length ts < length ts" using j(1) by (intro mod_less_divisor) (cases ts, simp_all)
  then have cd: "c \<in> set ts" "d \<in> set ts" using j cj nth_mem by blast+
  note S = switch_task_ring [where ra = ra, OF ring j(1) _ area(1), unfolded cj, folded j(2), OF d_def [symmetric]]
  have "region t 4 \<subseteq> region t 16" for t by (rule region_mono) simp
  then have node: "x \<notin> region (esp u - 32) 32" "x \<notin> region sp 32" if "x \<in> region t 4" "t \<in> set ts" for x t
    using stack_area_write(3) [OF R(1) area(1) refl that(2) R(2) [OF that(2)]]
      stack_area_write(3) [OF R(1) area(2) refl that(2) R(2) [OF that(2)]] that(1) by blast+
  have "apart c 16 d 16" by (rule object_apart [OF R(2) [OF cd(1)] R(2) [OF cd(2)]]) (use c(2) d_def in simp)
  then have "apart c 4 d 4" by (rule apart_mono) simp_all
  then have "mem (switch_task ra u) x = mem u x" if "x \<in> region c 4" for x
    using S(5) node(1) [OF that cd(1)] apart_notin [of d 4 c 4] that by (simp add: apart_sym)
  then have sp: "task_esp (mem (switch_task ra u)) c = sp"
    using rd32_cong [of c "mem (switch_task ra u)" "mem u"] f(1) by (simp add: task_esp_def)
  have "mem (switch_task ra u) x = mem u x" if "x \<in> region sp 32" for x
    using S(5) apart_notin [OF ap that] node(2) [OF _ cd(2), of x] that by blast
  then have "frame_at (mem (switch_task ra u)) sp r ret" using f(2) frame_at_cong by blast
  then show "cpu (switch_task ra u) = r" "eip (switch_task ra u) = ret"
    using S(6,8) by (simp_all add: sp frame_at_popped)
  show "esp (switch_task ra u) = sp + 32" "current_task (switch_task ra u) = c"
    using S(2,7) by (simp_all add: sp)
qed

lemma tasks_init_ring:
  assumes "heap_ready s" "kmalloc 16 s = Some (t, s1)" "t \<noteq> -1"
  obtains m where "tasks_init s = Some (s\<lparr>mem := m, tasks_start := t, tasks_end := t, current_task := t\<rparr>)"
    "task_ring (s\<lparr>mem := m, tasks_start := t, tasks_end := t, current_task := t\<rparr>) [t]"
    "\<And>bs e. heap_inv s1 bs e \<Longrightarrow> heap_inv (s\<lparr>mem := m\<rparr>) bs e"
proof -
  obtain m where m: "s1 = s\<lparr>mem := m\<rparr>" "heap_ready s1" "object s1 t 16"
    using heap_new' [OF assms(1) _ assms(2,3)] by auto
  define m1 where "m1 = wr32 (t + 12) t m"
  have o: "m1 x = m x" if "x \<notin> region t 16" for x using node_field that wr32_other unfolding m1_def by blast
  note W = node_write [of s1 t m1, OF m(3), unfolded m(1), simplified, OF o]
  have "tasks_init s = Some (s\<lparr>mem := m1, tasks_start := t, tasks_end := t, current_task := t\<rparr>)"
    using assms(2) by (simp add: tasks_init_def operator_new_def sizeof_task_context_def m(1) set_task_next_def m1_def)
  moreover have "task_ring (s\<lparr>mem := m1, tasks_start := t, tasks_end := t, current_task := t\<rparr>) [t]"
    using W m(3) by (simp add: task_ring_def m(1)) (simp add: m1_def mem_simps)
  moreover have "heap_inv (s\<lparr>mem := m1\<rparr>) bs e" if "heap_inv s1 bs e" for bs e
    using heap_write(4) [OF m(3), of m1 bs e] that o m(1) by simp
  ultimately show ?thesis using that by blast
qed

section \<open>Properties\<close>

text \<open>
  C30. When both allocations of \<open>create\<close> succeed, the new context is linked in behind the last
  one and the ring is closed again, whichever task runs; the new task's stack pointer is at a
  frame of seven zeros and the entry address, with \<open>0x08\<close> above it as its return address, and
  interrupts are enabled. The frame is written where the code puts it, so this needs that the
  place is not part of the heap's bookkeeping nor of a context.
\<close>

theorem tasks_create_extends_ring:
  assumes "task_ring s ts"
    and "kmalloc 4096 s = Some (stack, s1)" "stack \<noteq> -1" "kmalloc 16 s1 = Some (task, s2)" "task \<noteq> -1"
    and "stack_area s2 (ts @ [task]) (region (stack + 16352) 36)"
  shows "\<exists>s'. tasks_create entry s = Some s' \<and> task_ring s' (ts @ [task]) \<and>
    current_task s' = current_task s \<and> task_esp (mem s') task = stack + 16352 \<and>
    frame_at (mem s') (stack + 16352) zero_context entry \<and> rd32 (mem s') (stack + 16384) = 8 \<and> interrupts_on s'"
  by (rule tasks_create_ring [OF assms]) blast

text \<open>
  C6. The switch goes round the ring: from the task at position \<open>i\<close> to the one behind it, and
  from the last to the first. The ring is kept, the registers and the return address of the
  task left are in a frame at the stack pointer stored in its context, and memory outside
  that frame and that word is untouched.
\<close>

theorem switch_task_round_robin:
  assumes "task_ring s ts" "i < length ts" "current_task s = ts ! i"
    and "stack_area s ts (region (esp s - 32) 32)"
  shows "task_ring (switch_task ra s) ts \<and> current_task (switch_task ra s) = ts ! (Suc i mod length ts) \<and>
    task_esp (mem (switch_task ra s)) (ts ! i) = esp s - 32 \<and>
    frame_at (mem (switch_task ra s)) (esp s - 32) (cpu s) ra \<and>
    (\<forall>x. x \<notin> region (esp s - 32) 32 \<union> region (ts ! i) 4 \<longrightarrow> mem (switch_task ra s) x = mem s x)"
  using switch_task_ring [where ra = ra, OF assms] by auto

text \<open>
  C5. A task that is switched away from gets everything back: if at some later state \<open>u\<close> its
  context's stack pointer and its frame are as the switch left them, and the task running
  then is the one before it in the ring, the switch there restores all seven registers and
  the stack pointer and goes on at the return address.
\<close>

theorem switch_task_roundtrip:
  assumes "task_ring s ts" "current_task s = c" "stack_area s ts (region (esp s - 32) 32)"
    and "task_ring u us" "task_next (mem u) (current_task u) = c" "current_task u \<noteq> c"
    and "task_esp (mem u) c = task_esp (mem (switch_task ra s)) c"
    and "\<forall>x\<in>region (esp s - 32) 32. mem u x = mem (switch_task ra s) x"
    and "stack_area u us (region (esp u - 32) 32)" "stack_area u us (region (esp s - 32) 32)"
    and "apart (esp u - 32) 32 (esp s - 32) 32"
  shows "cpu (switch_task rb u) = cpu s \<and> esp (switch_task rb u) = esp s \<and>
    eip (switch_task rb u) = ra \<and> current_task (switch_task rb u) = c"
proof -
  obtain i where i: "i < length ts" "current_task s = ts ! i"
    using assms(1) by (auto simp: task_ring_def in_set_conv_nth)
  note S = switch_task_ring [where ra = ra, OF assms(1) i assms(3)]
  have "task_esp (mem u) c = esp s - 32" using S(3) assms(2,7) i(2) by simp
  moreover have "frame_at (mem u) (esp s - 32) (cpu s) ra"
    using S(4) frame_at_cong assms(8) by blast
  ultimately show ?thesis
    using switch_task_resumes [where ra = rb, OF assms(4-6,9,10,11)] by simp
qed

text \<open>
  C40. The block that \<open>create\<close> allocates for the stack stays unused: the stack pointer of the
  new task is 12256 bytes above its end, since \<open>stack + 4096\<close> counts words. The nine words of
  the initial frame lie outside the block, in memory that \<open>create\<close> does not own, and not one
  byte of the block is written.
\<close>

theorem task_stack_outside_block:
  assumes "task_ring s ts"
    and "kmalloc 4096 s = Some (stack, s1)" "stack \<noteq> -1" "kmalloc 16 s1 = Some (task, s2)" "task \<noteq> -1"
  shows "\<exists>s'. tasks_create entry s = Some s' \<and> task_esp (mem s') task = stack + 4096 + 12256 \<and>
    region (stack + 16352) 36 \<inter> region stack 4096 = {} \<and>
    (\<forall>x\<in>region stack 4096. mem s' x = mem s2 x) \<and>
    (apart task 4 (stack + 16352) 36 \<longrightarrow>
      frame_at (mem s') (stack + 16352) zero_context entry \<and> rd32 (mem s') (stack + 16384) = 8)"
proof -
  obtain m3 m4 where B: "object s2 task 16" "\<And>t. t \<in> set ts \<Longrightarrow> object s2 t 16" "object s2 stack 4096"
      "stack \<notin> set (ts @ [task])"
    and m3: "m3 = wr32 (task + 12) (hd ts) (wr32 (last ts + 12) task (mem s2))"
    and p: "push_down [8, entry, 0, 0, 0, 0, 0, 0] (stack + 16352 + 32) m3 = (stack + 16352, m4)"
    and run: "tasks_create entry s =
      Some (s\<lparr>tasks_end := task, mem := wr32 task (stack + 16352) m4, interrupts_on := True\<rparr>)"
    by (rule tasks_create_run [OF assms]) blast
  note F = initial_frame [OF p]
  define m5 where "m5 = wr32 task (stack + 16352) m4"
  have far: "apart (stack + 16352) 36 stack 4096" by (simp add: apart_def)
  have "last ts \<in> set ts" using assms(1) by (simp add: task_ring_def)
  then have node: "x \<notin> region (last ts) 16" "x \<notin> region task 16" if "x \<in> region stack 4096" for x
    using apart_disjoint [OF object_apart [OF B(3) B(2)]] apart_disjoint [OF object_apart [OF B(3,1)]] B(4) that by auto
  have sub: "region t 4 \<subseteq> region t 16" for t by (rule region_mono) simp
  have "m5 x = mem s2 x" if x: "x \<in> region stack 4096" for x
  proof -
    have "m5 x = m4 x" using node(2) [OF x] sub by (auto simp: m5_def intro!: wr32_other)
    also have "\<dots> = m3 x" using apart_notin [OF far x] by (rule F(4))
    also have "\<dots> = mem s2 x" using node [OF x] node_field by (auto simp: m3 intro!: wr32_other trans [OF wr32_other])
    finally show ?thesis .
  qed
  moreover have "frame_at m5 (stack + 16352) zero_context entry \<and> rd32 m5 (stack + 16384) = 8"
    if "apart task 4 (stack + 16352) 36"
  proof -
    have eq: "m5 x = m4 x" if "x \<in> region (stack + 16352) 36" for x
      using apart_notin [OF \<open>apart task 4 (stack + 16352) 36\<close> that] by (simp add: m5_def wr32_other)
    then show ?thesis using F(2,3) initial_frame_cong [of "stack + 16352" m5 m4] by (simp add: add.commute)
  qed
  ultimately show ?thesis
    using apart_disjoint [OF far] by (intro exI [of _ "s\<lparr>tasks_end := task, mem := m5, interrupts_on := True\<rparr>"])
      (simp add: run m5_def task_esp_def mem_simps)
qed

section \<open>A concrete ring\<close>

text \<open>A kernel with a heap of 64 KiB and its stack below it, where the tasks are initialised.\<close>

definition task_machine :: tasks where
  "task_machine = heap_allocator_init 0x100000 0x10000
     (tasks.extend (dhcp.extend (udp.extend (booted (\<lambda>_. 0) (\<lambda>_ _. 0) []) (dhcp.fields 0 [] []))
       (tasks.fields 0 0 0 \<lparr>eax = 1, ebx = 2, ecx = 3, edx = 4, esi = 5, edi = 6, ebp = 7\<rparr> 0x9000 0)) ())"

lemma task_machine_fields: "heap_top task_machine = 0x100000" "esp task_machine = 0x9000"
  by (simp_all add: task_machine_def heap_allocator_init_def tasks.defs dhcp.defs udp.defs booted_def)

lemma task_machine_heap: "heap_inv task_machine [Block 0x100000 0x10000 False] 0x110010"
proof -
  have "heap_inv task_machine [Block 0x100000 0x10000 False] (unat (0x100000 :: u32) + 16 + unat (0x10000 :: u32))"
    unfolding task_machine_def
    by (rule heap_init_inv) (simp_all add: tasks.defs dhcp.defs udp.defs booted_def rd32_def)
  then show ?thesis by simp
qed

lemma ring_machine:
  obtains s where "tasks_init task_machine = Some s" "task_ring s [0x100010]" "current_task s = 0x100010"
    "heap_top s = 0x100000" "esp s = 0x9000"
    "heap_inv s [Block 0x100000 16 True, Block 0x100020 0xffe0 False] 0x110010"
proof -
  have a: "abs_malloc 16 [Block 0x100000 0x10000 False] =
      Some (0x100010, [Block 0x100000 16 True, Block 0x100020 0xffe0 False])"
    by (simp add: suitable_def carve_def)
  obtain m where m: "kmalloc 16 task_machine = Some (0x100010, task_machine\<lparr>mem := m\<rparr>)"
    "heap_inv (task_machine\<lparr>mem := m\<rparr>) [Block 0x100000 16 True, Block 0x100020 0xffe0 False] 0x110010"
    by (rule kmalloc_run [OF task_machine_heap _ a]) auto
  have "heap_ready task_machine" unfolding heap_ready_def by (intro exI conjI, rule task_machine_heap) simp
  then obtain k where k:
    "tasks_init task_machine = Some (task_machine\<lparr>mem := k, tasks_start := 0x100010, tasks_end := 0x100010,
       current_task := 0x100010\<rparr>)"
    "task_ring (task_machine\<lparr>mem := k, tasks_start := 0x100010, tasks_end := 0x100010,
       current_task := 0x100010\<rparr>) [0x100010]"
    "heap_inv (task_machine\<lparr>mem := k\<rparr>) [Block 0x100000 16 True, Block 0x100020 0xffe0 False] 0x110010"
    by (rule tasks_init_ring [OF _ m(1)]) (use m(2) in auto)
  have inv: "heap_inv (task_machine\<lparr>mem := k, tasks_start := 0x100010, tasks_end := 0x100010,
       current_task := 0x100010\<rparr>) [Block 0x100000 16 True, Block 0x100020 0xffe0 False] 0x110010"
    using k(3) unfolding heap_inv_def by simp
  show ?thesis using that [OF k(1,2)] inv by (simp add: task_machine_fields)
qed

text \<open>The allocations of the next \<open>create\<close>, and where its frame goes.\<close>

lemma ring_machine_alloc:
  assumes "heap_inv s [Block 0x100000 16 True, Block 0x100020 0xffe0 False] 0x110010"
  obtains s1 s2 where "kmalloc 4096 s = Some (0x100030, s1)" "kmalloc 16 s1 = Some (0x101040, s2)"
    "stack_area s2 ts (region (0x100030 + 16352) 36)"
proof -
  let ?b1 = "[Block 0x100000 16 True, Block 0x100020 0x1000 True, Block 0x101030 0xefd0 False]"
  let ?b2 = "[Block 0x100000 16 True, Block 0x100020 0x1000 True, Block 0x101030 16 True, Block 0x101050 0xefb0 False]"
  have a: "abs_malloc 4096 [Block 0x100000 16 True, Block 0x100020 0xffe0 False] = Some (0x100030, ?b1)"
    "abs_malloc 16 ?b1 = Some (0x101040, ?b2)"
    by (simp_all add: suitable_def carve_def)
  obtain m1 where m1: "kmalloc 4096 s = Some (0x100030, s\<lparr>mem := m1\<rparr>)" "heap_inv (s\<lparr>mem := m1\<rparr>) ?b1 0x110010"
    by (rule kmalloc_run [OF assms _ a(1)]) auto
  obtain m2 where m2: "kmalloc 16 (s\<lparr>mem := m1\<rparr>) = Some (0x101040, s\<lparr>mem := m1\<rparr>\<lparr>mem := m2\<rparr>)"
    "heap_inv (s\<lparr>mem := m1\<rparr>\<lparr>mem := m2\<rparr>) ?b2 0x110010"
    by (rule kmalloc_run [OF m1(2) _ a(2)]) auto
  have "spare (s\<lparr>mem := m1\<rparr>\<lparr>mem := m2\<rparr>) (region (0x100030 + 16352) 36)"
    unfolding spare_iff [OF m2(2)]
    by (auto simp: in_region_nat in_header_bytes [OF heap_invD(2) [OF m2(2)]] used_blocks_def payload_def)
  then show ?thesis using that [OF m1(1) m2(1)] by (simp add: stack_area_def)
qed

lemma stack_area_below: "unat a + n \<le> unat (heap_top s) \<Longrightarrow> stack_area s ts (region a n)"
  using unat_lt32 [of "heap_top s"] by (auto simp: stack_area_def in_region_nat intro!: spare_below)

theorem tasks_create_extends_ring_witness:
  "\<exists>s s'. tasks_init task_machine = Some s \<and> tasks_create 0x20000 s = Some s' \<and>
     task_ring s' [0x100010, 0x101040] \<and> task_esp (mem s') 0x101040 = 0x104010"
proof -
  obtain s where s: "tasks_init task_machine = Some s" "task_ring s [0x100010]"
    "heap_inv s [Block 0x100000 16 True, Block 0x100020 0xffe0 False] 0x110010" by (rule ring_machine)
  obtain s1 s2 where a: "kmalloc 4096 s = Some (0x100030, s1)" "kmalloc 16 s1 = Some (0x101040, s2)"
    "stack_area s2 [0x100010, 0x101040] (region (0x100030 + 16352) 36)"
    using ring_machine_alloc [OF s(3)] by blast
  have "stack_area s2 ([0x100010] @ [0x101040]) (region (0x100030 + 16352) 36)" using a(3) by simp
  from tasks_create_extends_ring [OF s(2) a(1) _ a(2) _ this, of "0x20000"] show ?thesis using s(1) by auto
qed

theorem task_stack_outside_block_witness:
  "\<exists>s s'. tasks_init task_machine = Some s \<and> tasks_create 0x20000 s = Some s' \<and>
     task_esp (mem s') 0x101040 = 0x104010 \<and> frame_at (mem s') 0x104010 zero_context 0x20000"
proof -
  obtain s where s: "tasks_init task_machine = Some s" "task_ring s [0x100010]"
    "heap_inv s [Block 0x100000 16 True, Block 0x100020 0xffe0 False] 0x110010" by (rule ring_machine)
  obtain s1 s2 where a: "kmalloc 4096 s = Some (0x100030, s1)" "kmalloc 16 s1 = Some (0x101040, s2)"
    using ring_machine_alloc [OF s(3)] by blast
  have "apart 0x101040 4 (0x100030 + 16352) 36" by (simp add: apart_def)
  then show ?thesis using task_stack_outside_block [OF s(2) a(1) _ a(2), of "0x20000"] s(1) by auto
qed

theorem switch_task_round_robin_witness:
  "\<exists>s. tasks_init task_machine = Some s \<and> task_ring (switch_task 0x30000 s) [0x100010] \<and>
     frame_at (mem (switch_task 0x30000 s)) 0x8fe0 (cpu s) 0x30000"
proof -
  obtain s where s: "tasks_init task_machine = Some s" "task_ring s [0x100010]" "current_task s = 0x100010"
    "heap_top s = 0x100000" "esp s = 0x9000" by (rule ring_machine)
  have "stack_area s [0x100010] (region (esp s - 32) 32)" using s(4,5) by (intro stack_area_below) simp
  from switch_task_round_robin [OF s(2) _ _ this, of 0 "0x30000"] show ?thesis using s(1,3,5) by auto
qed

text \<open>The ring with a second task created.\<close>

lemma two_tasks:
  obtains s :: tasks where "task_ring s [0x100010, 0x101040]" "current_task s = 0x100010" "esp s = 0x9000"
    "heap_top s = 0x100000"
proof -
  obtain s0 :: tasks where s0: "task_ring s0 [0x100010]" "current_task s0 = 0x100010" "heap_top s0 = 0x100000"
    "esp s0 = 0x9000" "heap_inv s0 [Block 0x100000 16 True, Block 0x100020 0xffe0 False] 0x110010"
    by (rule ring_machine) blast
  obtain s1 s2 where a: "kmalloc 4096 s0 = Some (0x100030, s1)" "kmalloc 16 s1 = Some (0x101040, s2)"
    "stack_area s2 [0x100010, 0x101040] (region (0x100030 + 16352) 36)"
    using ring_machine_alloc [OF s0(5)] by blast
  have ar: "stack_area s2 ([0x100010] @ [0x101040]) (region (0x100030 + 16352) 36)" using a(3) by simp
  show ?thesis
    by (rule tasks_create_ring [OF s0(1) a(1) _ a(2) _ ar, of "0x20000"]) (use s0 that in simp_all)
qed

theorem switch_task_roundtrip_witness:
  "\<exists>s :: tasks. task_ring s [0x100010, 0x101040] \<and> current_task s = 0x100010 \<and>
     (let u = (switch_task 0x30000 s)\<lparr>esp := 0x8000, cpu := zero_context\<rparr>; v = switch_task 0x40000 u
      in current_task u = 0x101040 \<and> cpu v = cpu s \<and> esp v = esp s \<and> eip v = 0x30000)"
proof -
  obtain s :: tasks where s: "task_ring s [0x100010, 0x101040]" "current_task s = 0x100010" "esp s = 0x9000"
    "heap_top s = 0x100000" by (rule two_tasks)
  have area: "stack_area s [0x100010, 0x101040] (region (esp s - 32) 32)"
    by (rule stack_area_below) (simp add: s)
  note S = switch_task_ring [where ra = "0x30000", OF s(1) _ _ area, of 0, simplified, OF s(2)]
  define u where "u = (switch_task 0x30000 s)\<lparr>esp := 0x8000, cpu := zero_context\<rparr>"
  have u: "task_ring u [0x100010, 0x101040]" "current_task u = 0x101040" "heap_top u = 0x100000"
    "mem u = mem (switch_task 0x30000 s)" "esp u = 0x8000"
    using S(1,2,10) s(4) by (simp_all add: u_def task_ring_def)
  have "links (mem u) [0x100010, 0x101040] 0x100010" using u(1) by (simp add: task_ring_def)
  then have succ: "task_next (mem u) (current_task u) = 0x100010" by (simp add: task_next_def u(2))
  have "stack_area u [0x100010, 0x101040] (region (esp u - 32) 32)"
    "stack_area u [0x100010, 0x101040] (region (esp s - 32) 32)"
    by (rule stack_area_below, simp add: u s)+
  note R = switch_task_roundtrip [where ra = "0x30000" and rb = "0x40000", OF s(1,2) area u(1) succ _ _ _ this]
  have "apart (esp u - 32) 32 (esp s - 32) 32" by (simp add: u s apart_def)
  with R have "cpu (switch_task 0x40000 u) = cpu s \<and> esp (switch_task 0x40000 u) = esp s \<and>
      eip (switch_task 0x40000 u) = 0x30000" using s(2) u(2,4) by simp
  with s(1,2) u(2) show ?thesis by (intro exI [of _ s]) (simp only: Let_def u_def [symmetric] simp_thms)
qed

end
