(* ===== verification/Dispatch.thy ===== *)
theory Dispatch
  imports Drivers Example_Machine
begin

text \<open>
  Interrupt dispatch through the drivers of the kernel: what their handlers can change,
  the contract \<open>irq_methods\<close> interpreted on the virtual call, and the delivery of an
  interrupt to the registered devices.
\<close>

section \<open>What a handler can change\<close>

lemma io_only_adapter_send:
  "adapter_send_packet adapter buffer sz s = Some s' \<Longrightarrow> io_only s s'"
  by (auto simp: adapter_send_packet_def pcnet_send_packet_def Let_def split: if_splits intro: effects)

lemma io_only_net_send:
  assumes "net_send h payload sz s = Some s'"
  shows "io_only s s'"
proof -
  consider "s' = s" | frame t u m m' where
    "operator_new_array (sz + 14) s = Some (frame, t)"
    "adapter_send_packet (find_device_by_class DEVICE_NETWORK s) frame (sz + 14)
       (t\<lparr>mem := m, mem := m'\<rparr>) = Some u" "s' = operator_delete_array frame u"
    using assms by (auto simp: net_send_def Let_def bind_eq_Some_conv split: if_splits)
  then show ?thesis
  proof cases
    case 1
    then show ?thesis by simp
  next
    case 2
    have "io_only s (t\<lparr>mem := m, mem := m'\<rparr>)"
      by (intro effects io_only_operator_new_array [OF 2(1)])
    also have "io_only \<dots> u" by (rule io_only_adapter_send [OF 2(2)])
    also have "io_only u s'" unfolding 2(3) by (rule io_only_operator_delete_array)
    finally show ?thesis .
  qed
qed

lemma io_only_arp_handle:
  "arp_handle_packet response_at packet s = Some s' \<Longrightarrow> io_only s s'"
  by (auto simp: arp_handle_packet_def Let_def bind_eq_Some_conv split: if_splits
      intro: effects io_only_trans [OF io_only_mem [OF io_only_refl] io_only_net_send])

lemma io_only_ip_handle: "io_only s (ip_handle_packet buffer s)"
  by (simp add: ip_handle_packet_def udp_handle_packet_def Let_def effects)

lemma io_only_net_handle:
  "net_handle_packet response_at buffer s = Some s' \<Longrightarrow> io_only s s'"
  by (auto simp: net_handle_packet_def Let_def io_only_ip_handle split: if_splits intro: io_only_arp_handle)

lemma io_only_csr [effects]:
  "io_only s t \<Longrightarrow> io_only s (snd (read_csr32 this port t))"
  "io_only s t \<Longrightarrow> io_only s (write_csr32 this port v t)"
  "io_only s t \<Longrightarrow> io_only s (snd (read_bcr32 this port t))"
  "io_only s t \<Longrightarrow> io_only s (write_bcr32 this port v t)"
  by (simp_all add: read_csr32_def write_csr32_def read_bcr32_def write_bcr32_def write_rap32_def Let_def effects)

lemma harmless_net_handle: "io_only s t \<Longrightarrow> harmless s (net_handle_packet response_at buffer t)"
  by (rule harmless_call [OF io_only_net_handle])

lemma harmless_pcnet_receive: "io_only s t \<Longrightarrow> harmless s (pcnet_receive response_at this t)"
  unfolding pcnet_receive_def
  by (rule harmless_rules harmless_bind harmless_net_handle effects | assumption)+

lemma io_only_pcnet_irq:
  assumes "pcnet_irq response_at this s = Some s'"
  shows "io_only s s'"
proof (rule harmlessD [OF _ assms])
  show "harmless s (pcnet_irq response_at this s)"
    unfolding pcnet_irq_def
    by (rule harmless_rules harmless_bind harmless_pcnet_receive harmless_printf effects | assumption)+
qed

lemma io_only_dev_irq: "dev_irq response_at this s = Some s' \<Longrightarrow> io_only s s'"
  by (auto simp: dev_irq_def ahci_irq_def rtl8139_irq_def split: if_splits option.splits driver_class.splits
      dest: io_only_pcnet_irq)

lemma io_only_registry:
  assumes "io_only s s'"
  shows "driver_registry s' = driver_registry s \<and> total_drivers s' = total_drivers s
     \<and> dynamic_class s' = dynamic_class s"
proof -
  obtain m l c where s': "s' = s\<lparr>mem := m, port_log := l, cursor := c\<rparr>"
    using assms unfolding io_only_def by blast
  show ?thesis unfolding s' by simp
qed

section \<open>What starting a driver can change\<close>

lemma io_only_config [effects]:
  "io_only s t \<Longrightarrow> io_only s (snd (config_read dev reg t))"
  "io_only s t \<Longrightarrow> io_only s (snd (config_read16 dev reg t))"
  "io_only s t \<Longrightarrow> io_only s (config_write dev reg v t)"
  by (simp_all add: config_read_def config_read16_def config_write_def Let_def case_prod_unfold effects)

lemma io_only_get_device_header [effects]:
  "io_only s t \<Longrightarrow> io_only s (snd (get_device_header dev t))"
  unfolding get_device_header_def
  by (rule result_rules effects | assumption)+

lemma io_only_read_mac_loop [effects]:
  "io_only s t \<Longrightarrow> io_only s (read_mac_loop n this i t)"
  by (induction n arbitrary: i t) (simp_all add: Let_def case_prod_unfold effects)

lemma io_only_descr_loop [effects]: "io_only s t \<Longrightarrow> io_only s (descr_loop n this i t)"
  by (induction n arbitrary: i t) (simp_all add: Let_def effects)

lemma io_only_fill_init_block [effects]: "io_only s t \<Longrightarrow> io_only s (fill_init_block this t)"
  by (simp add: fill_init_block_def Let_def effects)

lemma harmless_unmask_irq: "io_only s t \<Longrightarrow> harmless s (unmask_irq n t)"
  unfolding unmask_irq_def
  by (auto simp: Let_def case_prod_unfold split: option.split intro!: harmless_rules effects)

text \<open>Waiting is harmless when what happens meanwhile is.\<close>

lemma io_only_wait_init_done:
  assumes "\<And>s s'. idle s = Some s' \<Longrightarrow> io_only s s'" "wait_init_done idle this s = Some s'"
  shows "io_only s s'"
  by (rule init_poll.keeps [OF io_only_refl io_only_trans assms])

lemma harmless_pcnet_init:
  assumes "\<And>s s'. idle s = Some s' \<Longrightarrow> io_only s s'" "io_only s t"
  shows "harmless s (pcnet_init idle this t)"
proof -
  have wait: "io_only s t \<Longrightarrow> harmless s (wait_init_done idle this t)" for s t
    by (rule harmless_call [OF io_only_wait_init_done [OF assms(1)]])
  show ?thesis
    unfolding pcnet_init_def
    by (rule harmless_rules harmless_bind harmless_printf harmless_unmask_irq wait effects assms(2)
        | assumption)+
qed

lemma harmless_ahci_init: "io_only s t \<Longrightarrow> harmless s (ahci_init this t)"
  unfolding ahci_init_def
  by (rule harmless_rules harmless_printf effects | assumption)+

lemma io_only_dev_init:
  assumes "\<And>s s'. idle s = Some s' \<Longrightarrow> io_only s s'" "dev_init idle this s = Some s'"
  shows "io_only s s'" "this \<noteq> 0"
  using assms(2) harmlessD [OF harmless_pcnet_init [OF assms(1) io_only_refl]]
    harmlessD [OF harmless_ahci_init [OF io_only_refl]]
  by (auto simp: dev_init_def rtl8139_init_def split: if_splits option.splits driver_class.splits)

section \<open>Delivery\<close>

interpretation kernel_irq: irq_methods "dev_irq response_at" for response_at
proof
  show "driver_registry s' = driver_registry s \<and> total_drivers s' = total_drivers s"
    if "dev_irq response_at d s = Some s'" for d s s'
    using io_only_registry [OF io_only_dev_irq [OF that]] by simp
  show "dev_irq response_at 0 s = None" for s by (simp add: dev_irq_def)
qed

text \<open>An operation all of whose calls are harmless is harmless.\<close>

lemma io_only_irq_calls:
  "irq_calls (dev_irq response_at) n ds s = Some s' \<Longrightarrow> io_only s s'"
proof (induction ds arbitrary: s)
  case Nil
  then show ?case by simp
next
  case (Cons d ds)
  show ?case
  proof (cases "uint (dev_irq_n (mem s) d) = n")
    case True
    then obtain t where t: "dev_irq response_at d s = Some t" "irq_calls (dev_irq response_at) n ds t = Some s'"
      using Cons.prems by (auto split: option.splits)
    show ?thesis by (rule io_only_trans [OF io_only_dev_irq [OF t(1)] Cons.IH [OF t(2)]])
  next
    case False
    then show ?thesis using Cons.prems Cons.IH by simp
  qed
qed

lemma registry_is_cong:
  "driver_registry s' = driver_registry s \<Longrightarrow> total_drivers s' = total_drivers s \<Longrightarrow>
   registry_is s' ds = registry_is s ds"
  by (simp add: registry_is_def)

lemma io_only_registry_is: "io_only s s' \<Longrightarrow> registry_is s' ds = registry_is s ds"
  using io_only_registry registry_is_cong by blast

section \<open>Properties\<close>

text \<open>
  C12. An interrupt reaches the handlers of the registered devices whose \<open>irq_n\<close> is its
  number, in the order of registration, then both controllers are acknowledged. If the
  registry is not full and the byte at address 12 happens to equal the number, the loop
  goes on to call a method through a null pointer and there is no result. A handler run
  changes nothing but memory, port log and cursor: registry, classes, descriptor table,
  sockets and page directory are as before.
\<close>

theorem irq_handler_delivers:
  fixes s :: "'a udp_scheme"
  assumes "registry_is s ds"
  shows "irq_handler (dev_irq response_at) i s =
      (case irq_calls (dev_irq response_at) (sint (i - 0x20)) ds s of
         None \<Rightarrow> None
       | Some t \<Rightarrow>
           if length ds < 1024 \<and> uint (dev_irq_n (mem t) 0) = sint (i - 0x20) then None
           else Some (write8 PIC_SLAVE_CMD 0x20 (write8 PIC_MASTER_CMD 0x20 t)))
    \<and> (\<forall>s'. irq_handler (dev_irq response_at) i s = Some s' \<longrightarrow>
        io_only s s' \<and> registry_is s' ds)"
proof -
  have "length ds \<le> 1024" using assms by (simp add: registry_is_def)
  then have eq: "irq_handler (dev_irq response_at) i s =
      (case irq_calls (dev_irq response_at) (sint (i - 0x20)) ds s of
         None \<Rightarrow> None
       | Some t \<Rightarrow>
           if length ds < 1024 \<and> uint (dev_irq_n (mem t) 0) = sint (i - 0x20) then None
           else Some (write8 PIC_SLAVE_CMD 0x20 (write8 PIC_MASTER_CMD 0x20 t)))"
    by (auto simp: irq_handler_def kernel_irq.dispatch [OF assms] Let_def split: option.split)
  have "io_only s s'" if "irq_handler (dev_irq response_at) i s = Some s'" for s'
    using that unfolding eq
    by (auto split: option.splits if_splits intro!: effects dest: io_only_irq_calls)
  then show ?thesis using eq assms io_only_registry_is by blast
qed

text \<open>An adapter at \<open>0x1000\<close> on line 11 that reports the end of a transmission.\<close>

definition tx_done_machine :: udp where
  "tx_done_machine = booted (wr8 0x100c 11 (\<lambda>_. 0)) (\<lambda>_ _. 0x200) [0x1000]"

theorem irq_handler_delivers_witness:
  "\<exists>s'. irq_handler (dev_irq 0) 0x2b tx_done_machine = Some s' \<and> tx_n (mem s') 0x1000 = 1
     \<and> registry_is s' [0x1000]"
proof -
  have r: "registry_is tx_done_machine [0x1000]"
    unfolding tx_done_machine_def by (rule registry_booted) simp
  define t where "t = write_csr32 0x1000 0 0x600
    (tx_done_machine\<lparr>port_log := [In32 0x10 0x200, Out32 0x14 0], mem := set_tx_n 0x1000 1 (mem tx_done_machine)\<rparr>)"
  have "dev_irq 0 0x1000 tx_done_machine = Some t"
    by (simp add: t_def dev_irq_def pcnet_irq_def Let_def read_csr32_def write_rap32_def port_defs pcnet_ports
        dev_io_base_def tx_done_machine_def booted_def next_slot_def word_sless_alt tx_n_def rd16_def rd32_def wr8_def)
  moreover have "dev_irq_n (mem tx_done_machine) 0x1000 = 11" "dev_irq_n (mem t) 0 = 0"
    by (simp_all add: t_def write_csr32_def write_rap32_def port_defs Let_def tx_done_machine_def booted_def
        dev_irq_n_def set_tx_n_def rd8_def wr8_def wr32_def)
  moreover have tx: "tx_n (mem t) 0x1000 = 1"
    by (simp add: t_def write_csr32_def write_rap32_def port_defs Let_def set_tx_n_def tx_n_def rd32_wr32_same)
  ultimately have "irq_handler (dev_irq 0) 0x2b tx_done_machine =
      Some (write8 PIC_SLAVE_CMD 0x20 (write8 PIC_MASTER_CMD 0x20 t))"
    using irq_handler_delivers [OF r, of 0 "0x2b"] by simp
  moreover have "registry_is (write8 PIC_SLAVE_CMD 0x20 (write8 PIC_MASTER_CMD 0x20 t)) [0x1000]"
    using irq_handler_delivers [OF r, of 0 "0x2b"] calculation by blast
  ultimately show ?thesis using tx by (simp add: port_defs)
qed

end
