(* ===== verification/Kmain.thy ===== *)
theory Kmain
  imports Dispatch Tasks
begin

text \<open>
  \<open>kmain\<close>, \<open>src/kernel/main.cpp\<close>: the order in which the kernel starts its parts, up to the
  endless loop of the first thread. The record the loader passes
  (\<open>incl/boot/bootinfo.h\<close>) lies in memory: \<open>display_info\<close> at 4, in it \<open>w\<close> at 0, \<open>h\<close> at 2,
  \<open>pitch\<close> at 4, \<open>bpp\<close> at 6 and \<open>fb\<close> at 8. Addresses the linker chooses are parameters.
\<close>

definition boot_w :: "mem \<Rightarrow> u32 \<Rightarrow> u32" where
  "boot_w m boot_info = ucast (rd16 m (boot_info + 4))"

definition boot_h :: "mem \<Rightarrow> u32 \<Rightarrow> u32" where
  "boot_h m boot_info = ucast (rd16 m (boot_info + 6))"

definition boot_pitch :: "mem \<Rightarrow> u32 \<Rightarrow> u32" where
  "boot_pitch m boot_info = ucast (rd16 m (boot_info + 8))"

definition boot_bpp :: "mem \<Rightarrow> u32 \<Rightarrow> u32" where
  "boot_bpp m boot_info = ucast (rd8 m (boot_info + 10))"

definition boot_fb :: "mem \<Rightarrow> u32 \<Rightarrow> u32" where
  "boot_fb m boot_info = rd32 m (boot_info + 12)"

record link_addresses =
  kernel_end :: u32
  stack_end :: u32
  idt_address :: u32
  stub_address :: "nat \<Rightarrow> u32"
  test_entry :: u32
  test2_entry :: u32

section \<open>The listing of the devices\<close>

definition list_function :: "u16 \<Rightarrow> u16 \<Rightarrow> u16 \<Rightarrow> 'a video_scheme \<Rightarrow> 'a video_scheme option" where
  "list_function bus dev fn s =
     (let (header, s) = get_device_header (at_bdf bus dev fn) s
      in if vendor_id header = 0 \<or> vendor_id header = 0xffff then Some s
         else printf (lit (line '' [0x%1x:0x%1x:0x%1x] vendor_id=%x device_id=%x''))
           [ucast bus, ucast dev, ucast fn, ucast (vendor_id header), ucast (device_id header)] s)"

primrec list_functions :: "nat \<Rightarrow> u16 \<Rightarrow> u16 \<Rightarrow> u16 \<Rightarrow> 'a video_scheme \<Rightarrow> 'a video_scheme option" where
  "list_functions 0 bus dev fn s = Some s"
| "list_functions (Suc n) bus dev fn s =
     (case list_function bus dev fn s of
        None \<Rightarrow> None | Some s' \<Rightarrow> list_functions n bus dev (fn + 1) s')"

primrec list_devices :: "nat \<Rightarrow> u16 \<Rightarrow> u16 \<Rightarrow> 'a video_scheme \<Rightarrow> 'a video_scheme option" where
  "list_devices 0 bus dev s = Some s"
| "list_devices (Suc n) bus dev s =
     (let (func, s) = function_count bus dev s
      in case list_functions func bus dev 0 s of
           None \<Rightarrow> None | Some s' \<Rightarrow> list_devices n bus (dev + 1) s')"

primrec list_buses :: "nat \<Rightarrow> u16 \<Rightarrow> 'a video_scheme \<Rightarrow> 'a video_scheme option" where
  "list_buses 0 bus s = Some s"
| "list_buses (Suc n) bus s =
     (case list_devices 32 bus 0 s of None \<Rightarrow> None | Some s' \<Rightarrow> list_buses n (bus + 1) s')"

section \<open>The threads\<close>

text \<open>One round of the loops of \<open>test\<close>, \<open>test2\<close> and the end of \<open>kmain\<close>.\<close>

definition test_round :: "'a video_scheme \<Rightarrow> 'a video_scheme option" where
  "test_round s = printf (lit (line ''Hello from thread No2'')) [] s"

definition test2_round :: "'a video_scheme \<Rightarrow> 'a video_scheme option" where
  "test2_round s = printf (lit (line ''Hello from thread No3'')) [] s"

definition kmain_round :: "'a video_scheme \<Rightarrow> 'a video_scheme option" where
  "kmain_round s = printf (lit (line ''Hello from thread No1'')) [] s"

section \<open>\<open>kmain\<close>\<close>

text \<open>The first part brings up memory management, console and interrupts; what it does in
  \<open>pci::init\<close> and \<open>dhcp::init\<close> while it waits is the parameter \<open>idle\<close>.\<close>

definition kmain_early :: "link_addresses \<Rightarrow> u32 \<Rightarrow> 'a interrupts_scheme \<Rightarrow> 'a interrupts_scheme option" where
  "kmain_early la boot_info s =
     do {
       s \<leftarrow> frames_init (kernel_end la) s;
       let s = paging_init s;
       let s = heap_allocator_init (stack_end la) 0xffffffff s;
       s \<leftarrow> bochs_print (lit (line ''nOSok is booting...'')) s;
       s \<leftarrow> video_init (boot_fb (mem s) boot_info) (boot_w (mem s) boot_info) (boot_h (mem s) boot_info)
              (boot_bpp (mem s) boot_info) (boot_pitch (mem s) boot_info) s;
       let s = clear s;
       let s = set_cursor_pos \<lparr>cur_x = 0, cur_y = 0\<rparr> s;
       interrupts_init (idt_address la) (stub_address la) s
     }"

definition kmain :: "link_addresses \<Rightarrow> ('b tasks_ext dhcp_ext) hlt \<Rightarrow> u32 \<Rightarrow> u32 \<Rightarrow> 'b tasks_scheme \<Rightarrow> 'b tasks_scheme option" where
  "kmain la idle junk boot_info s =
     do {
       s \<leftarrow> kmain_early la boot_info s;
       s \<leftarrow> printf (lit (line ''nOSok is booting...'')) [] s;
       s \<leftarrow> printf (lit (line ''framebuffer base: 0x%8x'')) [boot_fb (mem s) boot_info] s;
       s \<leftarrow> pci_init idle s;
       s \<leftarrow> printf (lit (line ''w: %d, h: %d, bpp %d''))
              [boot_w (mem s) boot_info, boot_h (mem s) boot_info, boot_bpp (mem s) boot_info] s;
       s \<leftarrow> printf (lit (line ''PCI devices:'')) [] s;
       s \<leftarrow> list_buses 8 0 s;
       let s = net_init s;
       let s = arp_init s;
       let s = udp_init s;
       s \<leftarrow> dhcp_init idle junk s;
       s \<leftarrow> tasks_init s;
       s \<leftarrow> unmask_irq 0 s;
       s \<leftarrow> tasks_create (test_entry la) s;
       tasks_create (test2_entry la) s
     }"

end
