(* ===== verification/Boot_Formats.thy ===== *)
theory Boot_Formats
  imports Machine
begin

text \<open>
  The structures the boot loader reads: the FAT parameter block and directory entries
  (\<open>incl/fs/fat.h\<close>), the ELF headers (\<open>incl/elf.h\<close>), the VESA mode and EDID records
  (\<open>incl/boot/vesa.h\<close>) and the information handed to the kernel (\<open>incl/boot/bootinfo.h\<close>).
  The \<open>_at\<close> functions read a structure from memory, each field at its offset.
\<close>

section \<open>FAT\<close>

record fat_bpb =
  short_jmp :: "u8 list"
  oem_id :: "u8 list"
  bytes_per_sector :: u16
  secs_per_cluster :: u8
  reserved_count :: u16
  fat_count :: u8
  root_dir_entries :: u16
  total_sectors :: u16
  media_descr :: u8
  secs_per_fat :: u16
  secs_per_track :: u16
  head_count :: u16
  hidden_count :: u32
  large_secs_count :: u32

text \<open>The structure is packed; the extended block behind it is not used.\<close>

definition fat_bpb_at :: "mem \<Rightarrow> u32 \<Rightarrow> fat_bpb" where
  "fat_bpb_at m a =
     \<lparr>short_jmp = bytes_at m a 3, oem_id = bytes_at m (a + 3) 8, bytes_per_sector = rd16 m (a + 11),
      secs_per_cluster = rd8 m (a + 13), reserved_count = rd16 m (a + 14), fat_count = rd8 m (a + 16),
      root_dir_entries = rd16 m (a + 17), total_sectors = rd16 m (a + 19), media_descr = rd8 m (a + 21),
      secs_per_fat = rd16 m (a + 22), secs_per_track = rd16 m (a + 24), head_count = rd16 m (a + 26),
      hidden_count = rd32 m (a + 28), large_secs_count = rd32 m (a + 32)\<rparr>"

record fat_directory_entry =
  filename :: "u8 list"
  file_attrib :: u8
  nt_reserved :: u8
  creation_time_sec :: u8
  creation_time :: u16
  creation_date :: u16
  last_access_date :: u16
  first_cluster_hi :: u16
  modification_time :: u16
  modification_date :: u16
  first_cluster_lo :: u16
  file_size :: u32

definition directory_entry_at :: "mem \<Rightarrow> u32 \<Rightarrow> fat_directory_entry" where
  "directory_entry_at m a =
     \<lparr>filename = bytes_at m a 11, file_attrib = rd8 m (a + 11), nt_reserved = rd8 m (a + 12),
      creation_time_sec = rd8 m (a + 13), creation_time = rd16 m (a + 14), creation_date = rd16 m (a + 16),
      last_access_date = rd16 m (a + 18), first_cluster_hi = rd16 m (a + 20), modification_time = rd16 m (a + 22),
      modification_date = rd16 m (a + 24), first_cluster_lo = rd16 m (a + 26), file_size = rd32 m (a + 28)\<rparr>"

section \<open>ELF\<close>

record Elf32_Ehdr =
  e_ident :: "u8 list"
  e_type :: u16
  e_machine :: u16
  e_version :: u32
  e_entry :: u32
  e_phoff :: u32
  e_shoff :: u32
  e_flags :: u32
  e_ehsize :: u16
  e_phentsize :: u16
  e_phnum :: u16
  e_shentsize :: u16
  e_shnum :: u16
  e_shstrndx :: u16

definition elf_header_at :: "mem \<Rightarrow> u32 \<Rightarrow> Elf32_Ehdr" where
  "elf_header_at m a =
     \<lparr>e_ident = bytes_at m a 16, e_type = rd16 m (a + 16), e_machine = rd16 m (a + 18),
      e_version = rd32 m (a + 20), e_entry = rd32 m (a + 24), e_phoff = rd32 m (a + 28),
      e_shoff = rd32 m (a + 32), e_flags = rd32 m (a + 36), e_ehsize = rd16 m (a + 40),
      e_phentsize = rd16 m (a + 42), e_phnum = rd16 m (a + 44), e_shentsize = rd16 m (a + 46),
      e_shnum = rd16 m (a + 48), e_shstrndx = rd16 m (a + 50)\<rparr>"

record Elf32_Phdr =
  p_type :: u32
  p_offset :: u32
  p_vaddr :: u32
  p_paddr :: u32
  p_filesz :: u32
  p_memsz :: u32
  p_flags :: u32
  p_align :: u32

definition program_header_at :: "mem \<Rightarrow> u32 \<Rightarrow> Elf32_Phdr" where
  "program_header_at m a =
     \<lparr>p_type = rd32 m a, p_offset = rd32 m (a + 4), p_vaddr = rd32 m (a + 8), p_paddr = rd32 m (a + 12),
      p_filesz = rd32 m (a + 16), p_memsz = rd32 m (a + 20), p_flags = rd32 m (a + 24), p_align = rd32 m (a + 28)\<rparr>"

definition ELFMAG0 :: u8 where "ELFMAG0 = 0x7f"
definition ELFMAG1 :: u8 where "ELFMAG1 = byte_of_char (CHR ''E'')"
definition ELFMAG2 :: u8 where "ELFMAG2 = byte_of_char (CHR ''L'')"
definition ELFMAG3 :: u8 where "ELFMAG3 = byte_of_char (CHR ''F'')"
definition EV_CURRENT :: u32 where "EV_CURRENT = 1"
definition EM_386 :: u16 where "EM_386 = 3"
definition ET_EXEC :: u16 where "ET_EXEC = 2"

section \<open>VESA and EDID\<close>

text \<open>What the BIOS returns for a mode; the reserved tail is left out.\<close>

record vesa_modeinfo =
  attrib :: u16
  win1_attrib :: u8
  win2_attrib :: u8
  win_gran :: u16
  win_size :: u16
  win1_seg :: u16
  win2_seg :: u16
  win_func_ptr :: u32
  pitch :: u16
  width :: u16
  height :: u16
  char_width :: u8
  char_height :: u8
  planes :: u8
  bpp :: u8
  banks :: u8
  mem_model :: u8
  bank_size :: u8
  image_pages :: u8
  red_mask_size :: u8
  red_field_pos :: u8
  green_mask_size :: u8
  green_field_pos :: u8
  blue_mask_size :: u8
  blue_field_pos :: u8
  res_mask_size :: u8
  res_field_pos :: u8
  direct_color_modeinfo :: u8
  framebuffer :: u32
  offscreen_offs :: u32
  offscreen_size :: u16

record edid_timing_info =
  h_freq :: u8
  v_freq :: u8
  h_active_time :: u8
  h_blank_time :: u8
  h_active_blank_time :: u8
  v_active_time :: u8
  v_blank_time :: u8
  v_active_blank_time :: u8
  hsync_offs :: u8
  hsync_pulsewidth :: u8
  vsync_offs_pulsewidth :: u8
  vhsync_offs_pulsewidth :: u8
  h_img_size :: u8
  v_img_size :: u8
  hv_img_size :: u8
  h_border :: u8
  v_border :: u8
  display_type :: u8

record edid_record =
  padding :: "64 word"
  manufacture_id :: u16
  edid_id :: u16
  serial :: u32
  manufacture_week :: u8
  manufacture_year :: u8
  version :: u8
  revision :: u8
  video_input_type :: u8
  horizontal_size :: u8
  vertical_size :: u8
  gamma :: u8
  dpms :: u8
  chroma_info :: "u8 list"
  timings_1 :: u8
  timings_2 :: u8
  reserved_timings :: u8
  timing_id :: "u16 list"
  timing_descr1 :: edid_timing_info
  timing_descr2 :: edid_timing_info
  timing_descr3 :: edid_timing_info
  timing_descr4 :: edid_timing_info
  checksum :: u8

section \<open>Boot information\<close>

record bootloader_display_info =
  info_w :: u16
  info_h :: u16
  info_pitch :: u16
  info_bpp :: u8
  info_fb :: u32

record bootloader_info =
  boot_drive :: u8
  display_info :: bootloader_display_info

text \<open>The structure in memory: \<open>display_info\<close> at 4, padded before \<open>fb\<close>.\<close>

definition write_boot_info :: "u32 \<Rightarrow> bootloader_info \<Rightarrow> mem \<Rightarrow> mem" where
  "write_boot_info a info m =
     (let d = display_info info;
          m = wr8 a (boot_drive info) m;
          m = wr16 (a + 4) (info_w d) m;
          m = wr16 (a + 6) (info_h d) m;
          m = wr8 (a + 10) (info_bpp d) m;
          m = wr16 (a + 8) (info_pitch d) m
      in wr32 (a + 12) (info_fb d) m)"

end
