(* ===== verification/Bootloader.thy ===== *)
theory Bootloader
  imports Boot_Formats
begin

text \<open>
  The boot loader, \<open>src/boot/legacy/nosokldr.c\<close>, with the disk access of
  \<open>src/boot/legacy/nosokldr.asm\<close>: it looks for the file of the kernel in the root directory,
  follows its cluster chain, copies the segments of the ELF image, chooses a video mode and
  enters the kernel. The BIOS is not part of the repository and a parameter: what its
  services do to memory and which records they return. The addresses of locals on the stack
  and what they hold before they are set are parameters as well.
\<close>

text \<open>The services, by their register arguments: the disk read (\<open>int 13h\<close>, \<open>ah = 2\<close>) gets
  \<open>al\<close>, \<open>ch\<close>, \<open>cl\<close>, \<open>dh\<close>, \<open>dl\<close>, \<open>es\<close> and \<open>bx\<close>; the VESA calls fill a record given its
  earlier contents.\<close>

record bios =
  int13_read :: "u8 \<Rightarrow> u8 \<Rightarrow> u8 \<Rightarrow> u8 \<Rightarrow> u8 \<Rightarrow> u16 \<Rightarrow> u16 \<Rightarrow> mem \<Rightarrow> mem"
  vesa_info :: "u16 \<Rightarrow> vesa_modeinfo \<Rightarrow> vesa_modeinfo"
  edid_info :: "edid_record \<Rightarrow> edid_record"

record loader_locals =
  drive :: u8
  root_directory :: u32
  mode_junk :: vesa_modeinfo
  edid_junk :: edid_record

record loader = machine +
  modes_set :: "u16 list"

definition FAT_ADDR :: u32 where "FAT_ADDR = 0x8000"
definition KERNEL_IMAGE_ADDR :: u32 where "KERNEL_IMAGE_ADDR = 0x40000"
definition BPB_ADDR :: u32 where "BPB_ADDR = 0x7c00"

abbreviation bpb :: "'a machine_scheme \<Rightarrow> fat_bpb" where
  "bpb s \<equiv> fat_bpb_at (mem s) BPB_ADDR"

section \<open>Disk access\<close>

text \<open>\<open>div\<close> by zero traps: no result. The quotients and remainders are 16 bits.\<close>

definition lba2chs :: "mem \<Rightarrow> u16 \<Rightarrow> (u16 \<times> u16 \<times> u16) option" where
  "lba2chs m ax =
     (let cx = rd16 m 0x7c18
      in if cx = 0 then None
         else let dx = ax mod cx; ax = ax div cx; cx = dx + 1; bx = rd16 m 0x7c1a
              in if bx = 0 then None
                 else let dx = ax mod bx; ax = ax div bx; bx = dx in Some (ax, bx, cx))"

definition bios_drive_read :: "bios \<Rightarrow> u8 \<Rightarrow> u16 \<Rightarrow> u8 \<Rightarrow> u32 \<Rightarrow> 'a machine_scheme \<Rightarrow> 'a machine_scheme option" where
  "bios_drive_read B drv lba count buffer s =
     do {
       (ax, bx, cx) \<leftarrow> lba2chs (mem s) lba;
       let cl = ucast cx;
       let ch = ucast ax;
       let dh = ucast bx;
       let dl = drv;
       let bx = ucast buffer;
       let es = push_bit 12 (ucast (drop_bit 16 buffer));
       let al = count;
       Some (s\<lparr>mem := int13_read B al ch cl dh dl es bx (mem s)\<rparr>)
     }"

section \<open>The file of the kernel\<close>

text \<open>The arithmetic on \<open>int\<close> is on words of 32 bits here: no operation of it overflows.\<close>

partial_function (option) load_clusters ::
  "bios \<Rightarrow> u8 \<Rightarrow> u16 \<Rightarrow> u16 \<Rightarrow> u32 \<Rightarrow> 'a machine_scheme \<Rightarrow> 'a machine_scheme option" where
  "load_clusters B drv first_data_sect cluster offset s =
     (if cluster < 0xfff8 then
        case bios_drive_read B drv
               (ucast (ucast first_data_sect + (ucast cluster - 2) * ucast (secs_per_cluster (bpb s)) :: u32))
               (secs_per_cluster (bpb s)) (KERNEL_IMAGE_ADDR + offset) s of
          None \<Rightarrow> None
        | Some s \<Rightarrow>
            load_clusters B drv first_data_sect (rd16 (mem s) (FAT_ADDR + 2 * ucast cluster))
              (offset + ucast (secs_per_cluster (bpb s)) * ucast (bytes_per_sector (bpb s))) s
      else Some s)"

definition kernel_name :: "u8 list" where
  "kernel_name = map byte_of_char ''KERNEL     ''"

text \<open>The loop over the directory. The array has 512 entries; an index beyond it has no
  result. A match does not end the loop.\<close>

function find_kernel :: "bios \<Rightarrow> loader_locals \<Rightarrow> u16 \<Rightarrow> u32 \<Rightarrow> 'a machine_scheme \<Rightarrow> 'a machine_scheme option" where
  "find_kernel B l first_data_sect i s =
     (if i < ucast (root_dir_entries (bpb s)) then
        if 512 \<le> i then None
        else
          let entry = directory_entry_at (mem s) (root_directory l + 32 * i)
          in if byte_diff (filename entry) kernel_name = 0 then
               case load_clusters B (drive l) first_data_sect (first_cluster_lo entry) 0 s of
                 None \<Rightarrow> None
               | Some s \<Rightarrow> find_kernel B l first_data_sect (i + 1) s
             else find_kernel B l first_data_sect (i + 1) s
      else Some s)"
  by pat_completeness auto
termination
proof (relation "measure (\<lambda>(B, l, f, i, s). 512 - unat i)", goal_cases)
  case 1
  show ?case by simp
next
  case (2 B l f i s entry s')
  then have "unat i < 512" by (simp add: word_le_nat_alt)
  then show ?case by (simp add: unat_word_ariths)
next
  case (3 B l f i s entry)
  then have "unat i < 512" by (simp add: word_le_nat_alt)
  then show ?case by (simp add: unat_word_ariths)
qed

declare find_kernel.simps [simp del]

definition root_sect :: "fat_bpb \<Rightarrow> u16" where
  "root_sect b = ucast (ucast (reserved_count b) + ucast (fat_count b) * ucast (secs_per_fat b) :: u32)"

text \<open>A division by zero has no result.\<close>

definition first_data_sect :: "fat_bpb \<Rightarrow> u16 option" where
  "first_data_sect b =
     (if bytes_per_sector b = 0 then None
      else Some (ucast (ucast (root_sect b)
             + ucast (root_dir_entries b) * 32 div ucast (bytes_per_sector b) :: u32)))"

definition load_kernel :: "bios \<Rightarrow> loader_locals \<Rightarrow> 'a machine_scheme \<Rightarrow> 'a machine_scheme option" where
  "load_kernel B l s =
     do {
       let root = root_sect (bpb s);
       first_data \<leftarrow> first_data_sect (bpb s);
       s \<leftarrow> bios_drive_read B (drive l) (reserved_count (bpb s)) (ucast (secs_per_fat (bpb s))) FAT_ADDR s;
       s \<leftarrow> bios_drive_read B (drive l) root 1 (root_directory l) s;
       find_kernel B l first_data 0 s
     }"

section \<open>The image\<close>

definition elf_refused :: "Elf32_Ehdr \<Rightarrow> bool" where
  "elf_refused h \<longleftrightarrow>
     e_ident h ! 0 \<noteq> ELFMAG0 \<or> e_ident h ! 1 \<noteq> ELFMAG1 \<or> e_ident h ! 2 \<noteq> ELFMAG2 \<or>
     e_ident h ! 3 \<noteq> ELFMAG3 \<or> e_version h \<noteq> EV_CURRENT \<or> e_machine h \<noteq> EM_386 \<or> e_type h \<noteq> ET_EXEC"

text \<open>The loop over the program headers, whose table address was taken before it.\<close>

function load_segments :: "u32 \<Rightarrow> u32 \<Rightarrow> 'a machine_scheme \<Rightarrow> 'a machine_scheme" where
  "load_segments elf_phdr i s =
     (if i < ucast (e_phnum (elf_header_at (mem s) KERNEL_IMAGE_ADDR)) then
        let ph = program_header_at (mem s) (elf_phdr + 32 * i);
            offset = KERNEL_IMAGE_ADDR + p_offset ph
        in load_segments elf_phdr (i + 1) (s\<lparr>mem := memcpy (p_paddr ph) offset (p_filesz ph) (mem s)\<rparr>)
      else s)"
  by pat_completeness auto
termination
proof (relation "measure (\<lambda>(p, i, s). 65536 - unat i)", goal_cases)
  case 1
  show ?case by simp
next
  case (2 p i s ph offset)
  then have "unat i < unat (ucast (e_phnum (elf_header_at (mem s) KERNEL_IMAGE_ADDR)) :: u32)"
    by (simp add: word_less_nat_alt)
  moreover have "unat (ucast (e_phnum (elf_header_at (mem s) KERNEL_IMAGE_ADDR)) :: u32) < 65536"
    using unat_lt16 [of "e_phnum (elf_header_at (mem s) KERNEL_IMAGE_ADDR)"]
    by (simp add: unsigned_ucast_eq take_bit_eq_mod)
  ultimately have "unat i < 65536" by simp
  then show ?case by (simp add: unat_word_ariths)
qed

declare load_segments.simps [simp del]

section \<open>The display\<close>

definition set_vesa_mode :: "u16 \<Rightarrow> 'a loader_scheme \<Rightarrow> 'a loader_scheme" where
  "set_vesa_mode m s = s\<lparr>modes_set := m # modes_set s\<rparr>"

definition edid_width :: "edid_record \<Rightarrow> u16" where
  "edid_width e = ucast (h_active_time (timing_descr1 e))
     OR push_bit 4 (ucast (h_active_blank_time (timing_descr1 e)) AND 0xf0)"

definition edid_height :: "edid_record \<Rightarrow> u16" where
  "edid_height e = ucast (v_active_time (timing_descr1 e))
     OR push_bit 4 (ucast (v_active_blank_time (timing_descr1 e)) AND 0xf0)"

text \<open>Either of the bits of the mask is enough.\<close>

definition mode_fits :: "u16 \<Rightarrow> u16 \<Rightarrow> vesa_modeinfo \<Rightarrow> bool" where
  "mode_fits w h mode \<longleftrightarrow> width mode = w \<and> height mode = h \<and> (bpp mode = 24 \<or> bpp mode = 32) \<and>
     attrib mode AND 0x90 \<noteq> 0 \<and> mem_model mode = 6"

text \<open>The loop over the modes: the record and, if one fits, its number.\<close>

function find_mode :: "bios \<Rightarrow> u16 \<Rightarrow> u16 \<Rightarrow> u16 \<Rightarrow> vesa_modeinfo \<Rightarrow> u16 option \<times> vesa_modeinfo" where
  "find_mode B w h m mode =
     (if m < 0xffff then
        let mode = vesa_info B m mode
        in if mode_fits w h mode then (Some m, mode) else find_mode B w h (m + 1) mode
      else (None, mode))"
  by pat_completeness auto
termination
proof (relation "measure (\<lambda>(B, w, h, m, mode). 65535 - unat m)", goal_cases)
  case 1
  show ?case by simp
next
  case (2 B w h m mode x)
  then have "unat m < 65535" by (simp add: word_less_nat_alt)
  then show ?case by (simp add: unat_word_ariths)
qed

declare find_mode.simps [simp del]

definition setup_display :: "bios \<Rightarrow> loader_locals \<Rightarrow> 'a loader_scheme \<Rightarrow> vesa_modeinfo \<times> 'a loader_scheme" where
  "setup_display B l s =
     (let mode = vesa_info B 0x4115 (mode_junk l);
          edid = edid_info B (edid_junk l)
      in if padding edid \<noteq> 0x00ffffffffffff00 then (mode, set_vesa_mode 0x115 s)
         else case find_mode B (edid_width edid) (edid_height edid) 0x4100 mode of
             (Some m, mode) \<Rightarrow> (mode, set_vesa_mode m s)
           | (None, mode) \<Rightarrow> (mode, set_vesa_mode 0x4115 s))"

section \<open>\<open>ldrmain\<close>\<close>

text \<open>The loader either returns, which stops the machine, or calls the entry point with the
  boot information, here given by its contents.\<close>

datatype loader_end = Refused | Entered u32 bootloader_info

definition ldrmain :: "bios \<Rightarrow> loader_locals \<Rightarrow> 'a loader_scheme \<Rightarrow> (loader_end \<times> 'a loader_scheme) option" where
  "ldrmain B l s =
     do {
       s \<leftarrow> load_kernel B l s;
       let h = elf_header_at (mem s) KERNEL_IMAGE_ADDR;
       if elf_refused h then Some (Refused, s)
       else do {
         let elf_phdr = KERNEL_IMAGE_ADDR + e_phoff h;
         let s = load_segments elf_phdr 0 s;
         let entry = e_entry (elf_header_at (mem s) KERNEL_IMAGE_ADDR);
         let (mode, s) = setup_display B l s;
         Some (Entered entry \<lparr>boot_drive = drive l,
             display_info = \<lparr>info_w = width mode, info_h = height mode, info_pitch = pitch mode,
               info_bpp = bpp mode, info_fb = framebuffer mode\<rparr>\<rparr>, s)
       }
     }"

end
