(* ===== verification/Boot_Load.thy ===== *)
theory Boot_Load
  imports Bootloader Packets
begin

text \<open>
  What the boot loader loads: the sectors its disk access reaches, the file a cluster chain
  makes up, and the segments of the image.
\<close>

section \<open>Sectors\<close>

definition sectors :: "(nat \<Rightarrow> u8 list) \<Rightarrow> nat \<Rightarrow> nat \<Rightarrow> u8 list" where
  "sectors disk lba n = concat (map disk [lba..<lba + n])"

lemma length_sectors: "(\<And>k. length (disk k) = 512) \<Longrightarrow> length (sectors disk lba n) = 512 * n"
  by (induction n) (simp_all add: sectors_def)

text \<open>
  The documented behaviour of the disk service for drive \<open>drv\<close>, with \<open>spt\<close> sectors per track and
  \<open>heads\<close> heads: the cylinder has its upper two bits in \<open>cl\<close>, the sector counts from 1, the
  bytes go to the address \<open>es:bx\<close>, in one segment.
\<close>

definition chs_sector :: "nat \<Rightarrow> nat \<Rightarrow> u8 \<Rightarrow> u8 \<Rightarrow> u8 \<Rightarrow> nat" where
  "chs_sector spt heads ch cl dh =
     ((unat ch + 256 * (unat cl div 64)) * heads + unat dh) * spt + unat cl mod 64 - 1"

definition disk_service :: "bios \<Rightarrow> u8 \<Rightarrow> (nat \<Rightarrow> u8 list) \<Rightarrow> nat \<Rightarrow> nat \<Rightarrow> bool" where
  "disk_service B drv disk spt heads \<longleftrightarrow> (\<forall>k. length (disk k) = 512) \<and>
     (\<forall>al ch cl dh es bx m. 0 < al \<and> 0 < unat cl mod 64 \<and> unat cl mod 64 \<le> spt \<and> unat dh < heads \<and>
        unat bx + 512 * unat al \<le> 65536 \<longrightarrow>
        int13_read B al ch cl dh drv es bx m =
          write_bytes (16 * ucast es + ucast bx) (sectors disk (chs_sector spt heads ch cl dh) (unat al)) m)"

definition geometry :: "mem \<Rightarrow> nat \<Rightarrow> nat \<Rightarrow> bool" where
  "geometry m spt heads \<longleftrightarrow> 0 < spt \<and> spt < 64 \<and> 0 < heads \<and> heads \<le> 256 \<and>
     unat (rd16 m 0x7c18) = spt \<and> unat (rd16 m 0x7c1a) = heads"

text \<open>Cylinder, head and sector of a block.\<close>

lemma lba2chs_exact:
  assumes "geometry m spt heads"
  obtains c h s where "lba2chs m lba = Some (c, h, s)"
    "unat c = unat lba div spt div heads" "unat h = unat lba div spt mod heads" "unat s = unat lba mod spt + 1"
proof -
  note G = assms [unfolded geometry_def]
  let ?t = "rd16 m 0x7c18" and ?n = "rd16 m 0x7c1a"
  have "?t \<noteq> 0" "?n \<noteq> 0" using G by (auto simp: word_unat_eq_iff)
  moreover have "unat (lba mod ?t + 1) = unat lba mod spt + 1"
  proof -
    have "unat lba mod spt < 64" using G order_less_trans [OF mod_less_divisor, of spt 64] by simp
    then show ?thesis using G by (simp add: unat_word_ariths unat_mod)
  qed
  ultimately show ?thesis
    using that [of "lba div ?t div ?n" "lba div ?t mod ?n" "lba mod ?t + 1"] G
    by (simp add: lba2chs_def Let_def unat_div unat_mod)
qed

text \<open>\<open>es:bx\<close> from the address: its lower twenty bits.\<close>

lemma segment_address:
  fixes a :: u32
  shows "16 * ucast (push_bit 12 (ucast (drop_bit 16 a)) :: u16) + ucast (ucast a :: u16) = a AND 0xfffff"
proof -
  define x where "x = unat a"
  let ?e = "push_bit 12 (ucast (drop_bit 16 a)) :: u16"
  have "unat (ucast (drop_bit 16 a) :: u16) = x div 65536"
    using unat_lt32 [of a] by (simp add: unsigned_ucast_eq take_bit_eq_mod unat_drop_bit_eq drop_bit_eq_div unat_div x_def)
  then have e: "unat ?e = 4096 * (x div 65536 mod 16)"
    using mult_mod_right [of 4096 "x div 65536" 16]
    by (simp add: unsigned_push_bit_eq push_bit_eq_mult take_bit_eq_mod unat_word_ariths mult.commute)
  have u: "unat (ucast v :: u32) = unat v" for v :: u16
    using unat_lt16 [of v] by (simp add: unsigned_ucast_eq take_bit_eq_mod)
  have lo: "unat (ucast a :: u16) = x mod 65536"
    by (simp add: unsigned_ucast_eq take_bit_eq_mod x_def)
  have "16 * unat ?e + unat (ucast a :: u16) < 4294967296"
    using unat_lt16 [of ?e] unat_lt16 [of "ucast a"] by linarith
  then have "unat (16 * ucast ?e + ucast (ucast a :: u16) :: u32) = 16 * unat ?e + unat (ucast a :: u16)"
    by (simp add: unat_word_ariths u)
  also have "\<dots> = x mod 1048576"
    using mod_mult2_eq [of x 65536 16] by (simp add: e lo)
  also have "\<dots> = unat (a AND 0xfffff)"
  proof -
    have "a AND 0xfffff = take_bit 20 a" by (simp add: take_bit_eq_mask mask_eq_exp_minus_1)
    then show ?thesis by (simp add: take_bit_eq_mod unat_mod x_def)
  qed
  finally show ?thesis by (simp add: word_unat_eq_iff)
qed

lemma drive_read:
  assumes D: "disk_service B drv disk spt heads" and G: "geometry (mem s) spt heads"
    and n: "0 < count" "unat buffer mod 65536 + 512 * unat count \<le> 65536"
  shows "bios_drive_read B drv lba count buffer s =
    Some (s\<lparr>mem := write_bytes (buffer AND 0xfffff)
      (sectors disk (unat lba mod (256 * (heads * spt))) (unat count)) (mem s)\<rparr>)"
proof -
  note g = G [unfolded geometry_def]
  obtain c h t where chs: "lba2chs (mem s) lba = Some (c, h, t)"
    "unat c = unat lba div spt div heads" "unat h = unat lba div spt mod heads" "unat t = unat lba mod spt + 1"
    using lba2chs_exact [OF G] by blast
  have t: "unat (ucast t :: u8) = unat lba mod spt + 1" "unat lba mod spt + 1 \<le> spt"
  proof -
    show "unat lba mod spt + 1 \<le> spt" using g by (simp add: Suc_le_eq)
    then show "unat (ucast t :: u8) = unat lba mod spt + 1" using g chs(4) by (simp add: unsigned_ucast_eq take_bit_eq_mod)
  qed
  have h: "unat (ucast h :: u8) = unat lba div spt mod heads" "unat lba div spt mod heads < heads"
  proof -
    show "unat lba div spt mod heads < heads" using g by simp
    then have "unat lba div spt mod heads < 256" using g by linarith
    then show "unat (ucast h :: u8) = unat lba div spt mod heads" using chs(3) by (simp add: unsigned_ucast_eq take_bit_eq_mod)
  qed
  have c: "unat (ucast c :: u8) = unat lba div spt div heads mod 256"
    using chs(2) by (simp add: unsigned_ucast_eq take_bit_eq_mod)
  have "chs_sector spt heads (ucast c) (ucast t) (ucast h) = unat lba mod (256 * (heads * spt))"
  proof -
    have small: "unat lba mod spt + 1 < 64" using t(2) g by linarith
    define q where "q = unat lba div spt"
    have "unat lba = q * spt + unat lba mod spt" by (simp add: q_def)
    have "unat lba mod (256 * (heads * spt)) = spt * (q mod (heads * 256)) + unat lba mod spt"
    proof -
      have "256 * (heads * spt) = spt * (heads * 256)" by simp
      then show ?thesis unfolding q_def by (simp only: mod_mult2_eq)
    qed
    also have "q mod (heads * 256) = heads * (q div heads mod 256) + q mod heads"
      by (rule mod_mult2_eq)
    finally show ?thesis
      using small by (simp add: chs_sector_def c h(1) t(1) q_def algebra_simps)
  qed
  moreover have "unat (ucast buffer :: u16) = unat buffer mod 65536"
    by (simp add: unsigned_ucast_eq take_bit_eq_mod)
  moreover have "unat (ucast t :: u8) mod 64 = unat lba mod spt + 1" using t g by simp
  ultimately have "int13_read B count (ucast c) (ucast t) (ucast h) drv
      (push_bit 12 (ucast (drop_bit 16 buffer))) (ucast buffer) (mem s) =
    write_bytes (buffer AND 0xfffff) (sectors disk (unat lba mod (256 * (heads * spt))) (unat count)) (mem s)"
    using D n t(2) h by (simp add: disk_service_def segment_address)
  then show ?thesis by (simp add: bios_drive_read_def chs(1) Let_def)
qed

section \<open>The file\<close>

text \<open>The clusters of a file, from the file allocation table in memory, and their sectors.\<close>

fun cluster_chain :: "mem \<Rightarrow> u16 \<Rightarrow> u16 list \<Rightarrow> bool" where
  "cluster_chain m c [] \<longleftrightarrow> 0xfff8 \<le> c"
| "cluster_chain m c (d # ds) \<longleftrightarrow> c = d \<and> c < 0xfff8 \<and> cluster_chain m (rd16 m (FAT_ADDR + 2 * ucast c)) ds"

definition cluster_sector :: "u16 \<Rightarrow> nat \<Rightarrow> u16 \<Rightarrow> nat" where
  "cluster_sector first spc c = unat first + (unat c - 2) * spc"

definition file_bytes :: "(nat \<Rightarrow> u8 list) \<Rightarrow> u16 \<Rightarrow> nat \<Rightarrow> u16 list \<Rightarrow> u8 list" where
  "file_bytes disk first spc cs = concat (map (\<lambda>c. sectors disk (cluster_sector first spc c) spc) cs)"

text \<open>Clusters the access reaches: numbered from 2, within the first 256 cylinders and the
  sixteen bits of a sector number.\<close>

definition reachable_cluster :: "nat \<Rightarrow> nat \<Rightarrow> u16 \<Rightarrow> nat \<Rightarrow> u16 \<Rightarrow> bool" where
  "reachable_cluster spt heads first spc c \<longleftrightarrow> 2 \<le> unat c \<and>
     cluster_sector first spc c < 65536 \<and> cluster_sector first spc c < 256 * (heads * spt)"

text \<open>Memory below the image is out of reach of its writes.\<close>

lemma image_write_below:
  assumes "unat x < 0x40000" "k + length bs \<le> 0xc0000"
  shows "write_bytes (KERNEL_IMAGE_ADDR + of_nat k) bs m x = m x"
proof (rule write_bytes_other)
  have "unat (KERNEL_IMAGE_ADDR + of_nat k) = 0x40000 + k"
    using assms(2) by (subst unat_add_of_nat) (simp_all add: KERNEL_IMAGE_ADDR_def)
  then show "x \<notin> region (KERNEL_IMAGE_ADDR + of_nat k) (length bs)"
    using assms by (simp add: in_region_nat)
  show "length bs \<le> 4294967296" using assms(2) by simp
qed

definition below :: "mem \<Rightarrow> mem \<Rightarrow> bool" where
  "below m' m \<longleftrightarrow> (\<forall>x. unat x < 0x40000 \<longrightarrow> m' x = m x)"

lemma below_image_write: "k + length bs \<le> 0xc0000 \<Longrightarrow> below (write_bytes (KERNEL_IMAGE_ADDR + of_nat k) bs m) m"
  by (simp add: below_def image_write_below)

lemma fat_entry_address:
  "unat (FAT_ADDR + 2 * ucast (c :: u16) :: u32) = 0x8000 + 2 * unat c"
proof -
  have u: "unat (ucast c :: u32) = unat c" using unat_lt16 [of c] by (simp add: unsigned_ucast_eq take_bit_eq_mod)
  show ?thesis using unat_lt16 [of c] by (simp add: FAT_ADDR_def unat_word_ariths u)
qed

lemma fat_entry_cong:
  assumes "below m' m"
  shows "rd16 m' (FAT_ADDR + 2 * ucast (c :: u16)) = rd16 m (FAT_ADDR + 2 * ucast c)"
proof -
  let ?a = "FAT_ADDR + 2 * ucast c :: u32"
  have "unat ?a < 0x40000" "unat (?a + 1) < 0x40000"
    using fat_entry_address [of c] unat_lt16 [of c] unat_add_numeral32 [of ?a]
    by (simp_all add: unat_word_ariths)
  then show ?thesis using assms by (simp add: below_def rd16_def)
qed

lemma cluster_chain_cong: "below m' m \<Longrightarrow> cluster_chain m' c cs = cluster_chain m c cs"
  by (induction cs arbitrary: c) (simp_all add: fat_entry_cong)

lemma bytes_at_below:
  assumes "below m' m" "unat a + n \<le> 0x40000"
  shows "bytes_at m' a n = bytes_at m a n"
  using assms by (intro bytes_at_cong) (auto simp: in_region_nat below_def)

text \<open>The parameter block, with the geometry the disk access takes from it.\<close>

lemma fat_bpb_cong:
  assumes "\<And>x. 0x7c00 \<le> unat x \<Longrightarrow> unat x < 0x8000 \<Longrightarrow> m' x = m x"
  shows "fat_bpb_at m' BPB_ADDR = fat_bpb_at m BPB_ADDR" "geometry m' spt heads = geometry m spt heads"
proof -
  have "bytes_at m' BPB_ADDR 3 = bytes_at m BPB_ADDR 3" "bytes_at m' (BPB_ADDR + 3) 8 = bytes_at m (BPB_ADDR + 3) 8"
    by (rule bytes_at_cong, auto simp: BPB_ADDR_def in_region_nat intro: assms)+
  then show "fat_bpb_at m' BPB_ADDR = fat_bpb_at m BPB_ADDR" "geometry m' spt heads = geometry m spt heads"
    using assms by (simp_all add: fat_bpb_at_def geometry_def BPB_ADDR_def rd16_def rd32_def rd8_def)
qed

lemma fat_bpb_below:
  assumes "below m' m"
  shows "fat_bpb_at m' BPB_ADDR = fat_bpb_at m BPB_ADDR" "geometry m' spt heads = geometry m spt heads"
  using assms by (auto simp: below_def intro!: fat_bpb_cong)

lemma unat_ucast_16_32: "unat (ucast (v :: u16) :: u32) = unat v"
  using unat_lt16 [of v] by (simp add: unsigned_ucast_eq take_bit_eq_mod)

lemma unat_ucast_8_32: "unat (ucast (v :: u8) :: u32) = unat v"
  using unat_lt8 [of v] by (simp add: unsigned_ucast_eq take_bit_eq_mod)

lemma cluster_sector_word:
  assumes "2 \<le> unat c" "cluster_sector first (unat spc) c < 65536"
  shows "unat (ucast (ucast first + (ucast c - 2) * ucast (spc :: u8) :: u32) :: u16) =
    cluster_sector first (unat spc) c"
proof -
  have "unat (ucast c - 2 :: u32) = unat c - 2"
    using assms(1) by (simp add: unat_sub32 unat_ucast_16_32)
  then have "unat (ucast first + (ucast c - 2) * ucast spc :: u32) = cluster_sector first (unat spc) c"
    using assms(2) by (simp add: unat_word_ariths unat_ucast_16_32 unat_ucast_8_32 cluster_sector_def)
  then show ?thesis using assms(2) by (simp add: unsigned_ucast_eq take_bit_eq_mod)
qed

lemma mod_multiple_le:
  assumes "a mod k = 0" "n mod k = 0" "0 < n"
  shows "a mod n + k \<le> (n :: nat)"
proof -
  have "k dvd n" using assms(2) by (simp add: dvd_eq_mod_eq_0)
  moreover have "k dvd a mod n" using assms(1) \<open>k dvd n\<close> by (simp add: dvd_mod_iff dvd_eq_mod_eq_0 [symmetric])
  ultimately have "k dvd n - a mod n" by simp
  moreover have "0 < n - a mod n" using mod_less_divisor [OF assms(3), of a] by simp
  ultimately have "k \<le> n - a mod n" by (rule dvd_imp_le)
  then show ?thesis using mod_less_divisor [OF assms(3), of a] by simp
qed

text \<open>Clusters are loaded at multiples of their size, so none crosses a segment.\<close>

lemma image_buffer:
  assumes "off mod k = 0" "65536 mod k = 0" "off + k \<le> 0xc0000" "0 < k"
  shows "(KERNEL_IMAGE_ADDR + of_nat off) AND 0xfffff = KERNEL_IMAGE_ADDR + of_nat off"
    "unat (KERNEL_IMAGE_ADDR + of_nat off) mod 65536 + k \<le> 65536"
proof -
  have u: "unat (KERNEL_IMAGE_ADDR + of_nat off) = 0x40000 + off"
    using assms(3) by (subst unat_add_of_nat) (simp_all add: KERNEL_IMAGE_ADDR_def)
  have "(KERNEL_IMAGE_ADDR + of_nat off) AND 0xfffff = take_bit 20 (KERNEL_IMAGE_ADDR + of_nat off :: u32)"
    by (simp add: take_bit_eq_mask mask_eq_exp_minus_1)
  then show "(KERNEL_IMAGE_ADDR + of_nat off) AND 0xfffff = KERNEL_IMAGE_ADDR + of_nat off"
    using u assms(3,4) by (simp add: word_unat_eq_iff take_bit_eq_mod unat_mod)
  have "(off + 4 * 65536) mod 65536 = off mod 65536" by (rule mod_mult_self1)
  moreover have "0x40000 + off = off + 4 * 65536" by simp
  moreover have "off mod 65536 + k \<le> 65536" by (rule mod_multiple_le [OF assms(1,2)]) simp
  ultimately show "unat (KERNEL_IMAGE_ADDR + of_nat off) mod 65536 + k \<le> 65536" unfolding u by (simp add: add.commute)
qed

lemma load_clusters_file:
  "disk_service B drv disk spt heads \<Longrightarrow> geometry (mem s) spt heads \<Longrightarrow>
   unat (secs_per_cluster (bpb s)) = spc \<Longrightarrow> 0 < spc \<Longrightarrow> 65536 mod (512 * spc) = 0 \<Longrightarrow>
   bytes_per_sector (bpb s) = 512 \<Longrightarrow>
   cluster_chain (mem s) c cs \<Longrightarrow> \<forall>d\<in>set cs. reachable_cluster spt heads first spc d \<Longrightarrow>
   off mod (512 * spc) = 0 \<Longrightarrow> off + 512 * spc * length cs \<le> 0xc0000 \<Longrightarrow>
   load_clusters B drv first c (of_nat off) s =
     Some (s\<lparr>mem := write_bytes (KERNEL_IMAGE_ADDR + of_nat off) (file_bytes disk first spc cs) (mem s)\<rparr>)"
proof (induction cs arbitrary: c off s)
  case Nil
  then have "\<not> c < 0xfff8" by (simp add: not_less)
  then show ?case by (subst load_clusters.simps) (simp add: file_bytes_def)
next
  case (Cons d cs)
  have c: "c = d" "c < 0xfff8" "cluster_chain (mem s) (rd16 (mem s) (FAT_ADDR + 2 * ucast c)) cs"
    using Cons.prems(7) by auto
  have r: "2 \<le> unat c" "cluster_sector first spc c < 65536" "cluster_sector first spc c < 256 * (heads * spt)"
    using Cons.prems(8) c(1) by (simp_all add: reachable_cluster_def)
  let ?k = "512 * spc" and ?buf = "KERNEL_IMAGE_ADDR + of_nat off"
  let ?w = "sectors disk (cluster_sector first spc c) spc"
  have end_le: "off + ?k \<le> 0xc0000" "off + ?k + ?k * length cs \<le> 0xc0000"
    using Cons.prems(10) by (simp_all add: algebra_simps)
  have len: "length ?w = ?k" using length_sectors Cons.prems(1) by (simp add: disk_service_def)
  have count: "0 < secs_per_cluster (bpb s)" using Cons.prems(3,4) by (simp add: word_less_nat_alt)
  note buf = image_buffer [OF Cons.prems(9,5) end_le(1)]
  have "unat ?buf mod 65536 + 512 * unat (secs_per_cluster (bpb s)) \<le> 65536"
    using buf(2) Cons.prems(3,4) by simp
  note rd = drive_read [OF Cons.prems(1,2) count this]
  define t where "t = s\<lparr>mem := write_bytes ?buf ?w (mem s)\<rparr>"
  have read: "bios_drive_read B drv
      (ucast (ucast first + (ucast c - 2) * ucast (secs_per_cluster (bpb s)) :: u32))
      (secs_per_cluster (bpb s)) ?buf s = Some t"
    using cluster_sector_word [OF r(1), of first "secs_per_cluster (bpb s)"] r(2,3) rd buf(1) Cons.prems(3,4)
    by (simp add: t_def)
  have bel: "below (mem t) (mem s)"
    using below_image_write [of off ?w] len end_le by (simp add: t_def)
  have bt: "bpb t = bpb s" using bel by (rule fat_bpb_below(1))
  have "ucast (secs_per_cluster (bpb s)) = (of_nat (unat (secs_per_cluster (bpb s))) :: u32)" by simp
  then have spc: "ucast (secs_per_cluster (bpb s)) = (of_nat spc :: u32)" unfolding Cons.prems(3) .
  have next_off: "of_nat off + ucast (secs_per_cluster (bpb t)) * ucast (bytes_per_sector (bpb t)) =
      (of_nat (off + ?k) :: u32)"
    unfolding bt Cons.prems(6) spc by simp
  have next_c: "rd16 (mem t) (FAT_ADDR + 2 * ucast c) = rd16 (mem s) (FAT_ADDR + 2 * ucast c)"
    using bel by (rule fat_entry_cong)
  have "load_clusters B drv first (rd16 (mem s) (FAT_ADDR + 2 * ucast c)) (of_nat (off + ?k)) t =
      Some (t\<lparr>mem := write_bytes (KERNEL_IMAGE_ADDR + of_nat (off + ?k)) (file_bytes disk first spc cs) (mem t)\<rparr>)"
  proof (rule Cons.IH [OF Cons.prems(1)])
    show "geometry (mem t) spt heads" using Cons.prems(2) fat_bpb_below(2) [OF bel] by simp
    show "unat (secs_per_cluster (bpb t)) = spc" "bytes_per_sector (bpb t) = 512"
      using Cons.prems(3,6) by (simp_all only: bt)
    show "cluster_chain (mem t) (rd16 (mem s) (FAT_ADDR + 2 * ucast c)) cs"
      using c(3) cluster_chain_cong [OF bel] by simp
    show "(off + ?k) mod ?k = 0" using Cons.prems(9) by simp
  qed (use Cons.prems(4,5,8) end_le in simp_all)
  moreover have "load_clusters B drv first c (of_nat off) s =
      load_clusters B drv first (rd16 (mem s) (FAT_ADDR + 2 * ucast c)) (of_nat (off + ?k)) t"
    by (subst load_clusters.simps) (simp only: c(2) if_True read option.case next_c next_off)
  moreover have "write_bytes (KERNEL_IMAGE_ADDR + of_nat (off + ?k)) (file_bytes disk first spc cs) (mem t) =
      write_bytes ?buf (file_bytes disk first spc (d # cs)) (mem s)"
    using len c(1) by (simp add: file_bytes_def write_bytes_append t_def add.assoc)
  ultimately show ?case by (simp add: t_def)
qed

section \<open>The directory\<close>

definition entry_named :: "mem \<Rightarrow> u32 \<Rightarrow> nat \<Rightarrow> bool" where
  "entry_named m dir i \<longleftrightarrow> filename (directory_entry_at m (dir + 32 * of_nat i)) = kernel_name"

lemma entry_named_diff:
  "byte_diff (filename (directory_entry_at m a)) kernel_name = 0 \<longleftrightarrow> filename (directory_entry_at m a) = kernel_name"
  by (rule byte_diff_eq_0) (simp add: directory_entry_at_def kernel_name_def)

lemma find_kernel_step:
  assumes "i < unat (root_dir_entries (bpb s))" "i < 512" "\<not> entry_named (mem s) (root_directory l) i"
  shows "find_kernel B l f (of_nat i) s = find_kernel B l f (of_nat (Suc i)) s"
proof -
  have i: "unat (of_nat i :: u32) = i" using assms(2) by (simp add: unsigned_of_nat take_bit_eq_mod)
  have "of_nat i < (ucast (root_dir_entries (bpb s)) :: u32)"
    using assms(1) by (simp only: word_less_nat_alt i unat_ucast_16_32)
  moreover have "\<not> 512 \<le> (of_nat i :: u32)" using assms(2) by (simp only: word_le_nat_alt i) simp
  moreover have "byte_diff (filename (directory_entry_at (mem s) (root_directory l + 32 * of_nat i))) kernel_name \<noteq> 0"
    using assms(3) by (simp add: entry_named_diff entry_named_def)
  ultimately show ?thesis
    by (subst find_kernel.simps) (simp add: Let_def add.commute)
qed

lemma find_kernel_skip:
  "i \<le> j \<Longrightarrow> j \<le> unat (root_dir_entries (bpb s)) \<Longrightarrow> j \<le> 512 \<Longrightarrow>
   \<forall>i'\<in>{i..<j}. \<not> entry_named (mem s) (root_directory l) i' \<Longrightarrow>
   find_kernel B l f (of_nat i) s = find_kernel B l f (of_nat j) s"
proof (induction "j - i" arbitrary: i)
  case 0
  then show ?case by simp
next
  case (Suc n)
  then have "i < j" by simp
  then have "find_kernel B l f (of_nat i) s = find_kernel B l f (of_nat (Suc i)) s"
    using Suc.prems by (intro find_kernel_step) auto
  also have "\<dots> = find_kernel B l f (of_nat j) s"
    using Suc.hyps(2) Suc.prems \<open>i < j\<close> by (intro Suc.hyps(1)) auto
  finally show ?case .
qed

lemma find_kernel_end:
  assumes "unat (root_dir_entries (bpb s)) = n"
  shows "find_kernel B l f (of_nat n) s = Some s"
proof -
  have "unat (of_nat n :: u32) = n"
    using unat_lt16 [of "root_dir_entries (bpb s)"] assms by (simp add: unsigned_of_nat take_bit_eq_mod)
  then have "\<not> of_nat n < (ucast (root_dir_entries (bpb s)) :: u32)"
    using assms by (simp only: word_less_nat_alt unat_ucast_16_32)
  then show ?thesis by (subst find_kernel.simps) simp
qed

lemma find_kernel_match:
  assumes "k < unat (root_dir_entries (bpb s))" "k < 512" "entry_named (mem s) (root_directory l) k"
    and "load_clusters B (drive l) f (first_cluster_lo (directory_entry_at (mem s) (root_directory l + 32 * of_nat k))) 0 s
      = Some t"
  shows "find_kernel B l f (of_nat k) s = find_kernel B l f (of_nat (Suc k)) t"
proof -
  have i: "unat (of_nat k :: u32) = k" using assms(2) by (simp add: unsigned_of_nat take_bit_eq_mod)
  have "of_nat k < (ucast (root_dir_entries (bpb s)) :: u32)"
    using assms(1) by (simp only: word_less_nat_alt i unat_ucast_16_32)
  moreover have "\<not> 512 \<le> (of_nat k :: u32)" using assms(2) by (simp only: word_le_nat_alt i) simp
  ultimately show ?thesis
    using assms(3,4) by (subst find_kernel.simps) (simp add: Let_def byte_diff_eq_0 entry_named_def add.commute)
qed

text \<open>One entry with the name: its file is loaded, and the rest of the directory passed over.\<close>

lemma find_kernel_file:
  assumes n: "unat (root_dir_entries (bpb s)) = n" "k < n" "n \<le> 512"
    and named: "\<forall>i<n. entry_named (mem s) (root_directory l) i \<longleftrightarrow> i = k"
    and dir: "unat (root_directory l) + 32 * 512 \<le> 0x40000"
    and load: "load_clusters B (drive l) f
      (first_cluster_lo (directory_entry_at (mem s) (root_directory l + 32 * of_nat k))) 0 s = Some t"
    and t: "below (mem t) (mem s)"
  shows "find_kernel B l f 0 s = Some t"
proof -
  have bt: "bpb t = bpb s" using t by (rule fat_bpb_below(1))
  have "entry_named (mem t) (root_directory l) i = entry_named (mem s) (root_directory l) i" if "i < n" for i
  proof -
    have "unat (32 * of_nat i :: u32) = 32 * i"
      using that n(3) by (simp add: unat_word_ariths unsigned_of_nat take_bit_eq_mod)
    then have "unat (root_directory l + 32 * of_nat i) = unat (root_directory l) + 32 * i"
      using dir that n(3) by (subst unat_add_nowrap) auto
    then show ?thesis
      using bytes_at_below [OF t, of "root_directory l + 32 * of_nat i" 11] dir that n(3)
      by (simp add: entry_named_def directory_entry_at_def)
  qed
  then have "find_kernel B l f (of_nat (Suc k)) t = find_kernel B l f (of_nat n) t"
    using n named by (intro find_kernel_skip) (auto simp: bt)
  moreover have "find_kernel B l f (of_nat 0) s = find_kernel B l f (of_nat k) s"
    using n named by (intro find_kernel_skip) auto
  moreover have "find_kernel B l f (of_nat k) s = find_kernel B l f (of_nat (Suc k)) t"
    using n named by (intro find_kernel_match load) auto
  ultimately show ?thesis using find_kernel_end [of t n] n(1) bt by simp
qed

section \<open>The file of the kernel\<close>

text \<open>
  What the loader relies on: a drive it can address, under the number it has been given, a
  parameter block with sectors of 512 bytes and clusters that divide a segment, a table that fits
  between \<open>FAT_ADDR\<close> and the end of the segment, and a stack below the parameter block.
\<close>

definition boot_drive_ok :: "bios \<Rightarrow> (nat \<Rightarrow> u8 list) \<Rightarrow> nat \<Rightarrow> nat \<Rightarrow> loader_locals \<Rightarrow> mem \<Rightarrow> bool" where
  "boot_drive_ok B disk spt heads l m \<longleftrightarrow> disk_service B (drive l) disk spt heads \<and> geometry m spt heads \<and>
     (let b = fat_bpb_at m BPB_ADDR; limit = 256 * (heads * spt)
      in bytes_per_sector b = 512 \<and> 0 < unat (secs_per_cluster b) \<and>
         65536 mod (512 * unat (secs_per_cluster b)) = 0 \<and>
         0 < unat (secs_per_fat b) \<and> unat (secs_per_fat b) \<le> 64 \<and>
         unat (reserved_count b) < limit \<and> unat (root_sect b) < limit \<and>
         unat (root_dir_entries b) \<le> 512) \<and>
     unat (root_directory l) + 32 * 512 \<le> 0x7c00"

text \<open>Memory after the table and the first sector of the directory have been read.\<close>

definition tables_read :: "(nat \<Rightarrow> u8 list) \<Rightarrow> loader_locals \<Rightarrow> mem \<Rightarrow> mem" where
  "tables_read disk l m =
     (let b = fat_bpb_at m BPB_ADDR
      in write_bytes (root_directory l) (sectors disk (unat (root_sect b)) 1)
           (write_bytes FAT_ADDR (sectors disk (unat (reserved_count b)) (unat (secs_per_fat b))) m))"

lemma take_20: "unat (a :: u32) < 0x100000 \<Longrightarrow> a AND 0xfffff = a"
proof -
  assume "unat a < 0x100000"
  moreover have "a AND 0xfffff = take_bit 20 a" by (simp add: take_bit_eq_mask mask_eq_exp_minus_1)
  ultimately show ?thesis by (simp add: word_unat_eq_iff take_bit_eq_mod unat_mod)
qed

lemma tables_read_run:
  assumes ok: "boot_drive_ok B disk spt heads l (mem s)"
  defines "s2 \<equiv> s\<lparr>mem := tables_read disk l (mem s)\<rparr>"
  shows "load_kernel B l s =
      (case first_data_sect (bpb s) of None \<Rightarrow> None | Some f \<Rightarrow> find_kernel B l f 0 s2)"
    "bpb s2 = bpb s" "geometry (mem s2) spt heads"
proof -
  have D: "disk_service B (drive l) disk spt heads" and G: "geometry (mem s) spt heads"
    and b: "0 < unat (secs_per_fat (bpb s))" "unat (secs_per_fat (bpb s)) \<le> 64"
      "unat (reserved_count (bpb s)) < 256 * (heads * spt)" "unat (root_sect (bpb s)) < 256 * (heads * spt)"
    and root: "unat (root_directory l) + 32 * 512 \<le> 0x7c00"
    using ok by (simp_all add: boot_drive_ok_def Let_def)
  have len: "length (sectors disk k n) = 512 * n" for k n using D length_sectors by (simp add: disk_service_def)
  define m1 where "m1 = write_bytes FAT_ADDR (sectors disk (unat (reserved_count (bpb s))) (unat (secs_per_fat (bpb s)))) (mem s)"
  define m2 where "m2 = write_bytes (root_directory l) (sectors disk (unat (root_sect (bpb s))) 1) m1"
  have s2: "s2 = s\<lparr>mem := m2\<rparr>" by (simp add: s2_def tables_read_def m1_def m2_def Let_def)
  have o1: "m1 x = mem s x" if "unat x < 0x8000" for x
    unfolding m1_def using that b(2) by (intro write_bytes_other) (auto simp: FAT_ADDR_def in_region_nat len)
  have o2: "m2 x = m1 x" if "0x7c00 \<le> unat x" for x
    unfolding m2_def using that root by (intro write_bytes_other) (auto simp: in_region_nat len)
  have P1: "bpb (s\<lparr>mem := m1\<rparr>) = bpb s" "geometry m1 spt heads = geometry (mem s) spt heads"
    using o1 fat_bpb_cong [of m1 "mem s"] by simp_all
  then show "bpb s2 = bpb s" "geometry (mem s2) spt heads"
    using o2 fat_bpb_cong [of m2 m1] G by (simp_all add: s2)
  have count: "unat (ucast (secs_per_fat (bpb s)) :: u8) = unat (secs_per_fat (bpb s))"
    using b(2) by (simp add: unsigned_ucast_eq take_bit_eq_mod)
  have "bios_drive_read B (drive l) (reserved_count (bpb s)) (ucast (secs_per_fat (bpb s))) FAT_ADDR s =
      Some (s\<lparr>mem := m1\<rparr>)"
    using drive_read [OF D G, of "ucast (secs_per_fat (bpb s))" FAT_ADDR] b(1-3) count
    by (simp add: word_less_nat_alt FAT_ADDR_def m1_def)
  moreover have "bios_drive_read B (drive l) (root_sect (bpb s)) 1 (root_directory l) (s\<lparr>mem := m1\<rparr>) =
      Some s2"
  proof -
    have "unat (root_directory l) mod 65536 + 512 * unat (1 :: u8) \<le> 65536" using root by simp
    then show ?thesis
      using drive_read [OF D, of "s\<lparr>mem := m1\<rparr>" 1 "root_directory l"] G P1(2) b(4) root take_20 [of "root_directory l"]
      by (simp add: s2 m2_def)
  qed
  ultimately show "load_kernel B l s =
      (case first_data_sect (bpb s) of None \<Rightarrow> None | Some f \<Rightarrow> find_kernel B l f 0 s2)"
    by (simp add: load_kernel_def Let_def split: option.split)
qed

lemma length_file_bytes:
  assumes "\<And>k. length (disk k) = 512"
  shows "length (file_bytes disk first spc cs) = 512 * spc * length cs"
  by (induction cs) (simp_all add: file_bytes_def length_sectors [OF assms])

lemma load_kernel_file:
  assumes ok: "boot_drive_ok B disk spt heads l (mem s)"
    and m: "m = tables_read disk l (mem s)" and first: "first_data_sect (bpb s) = Some first"
    and k: "k < unat (root_dir_entries (bpb s))"
      "\<forall>i<unat (root_dir_entries (bpb s)). entry_named m (root_directory l) i \<longleftrightarrow> i = k"
    and spc: "spc = unat (secs_per_cluster (bpb s))"
    and cs: "cluster_chain m (first_cluster_lo (directory_entry_at m (root_directory l + 32 * of_nat k))) cs"
      "\<forall>c\<in>set cs. reachable_cluster spt heads first spc c" "512 * spc * length cs \<le> 0xc0000"
  shows "\<exists>t. load_kernel B l s = Some t \<and> t = s\<lparr>mem := mem t\<rparr> \<and>
    bytes_at (mem t) KERNEL_IMAGE_ADDR (512 * spc * length cs) = file_bytes disk first spc cs \<and>
    (\<forall>x. x \<notin> region KERNEL_IMAGE_ADDR (512 * spc * length cs) \<longrightarrow> mem t x = m x)"
proof -
  note R = tables_read_run [OF ok, folded m]
  have D: "disk_service B (drive l) disk spt heads" and b: "bytes_per_sector (bpb s) = 512" "0 < spc"
      "65536 mod (512 * spc) = 0" "unat (root_dir_entries (bpb s)) \<le> 512"
    and root: "unat (root_directory l) + 32 * 512 \<le> 0x40000"
    using ok by (simp_all add: boot_drive_ok_def Let_def spc)
  define s2 t where "s2 = s\<lparr>mem := m\<rparr>"
    and "t = s\<lparr>mem := write_bytes KERNEL_IMAGE_ADDR (file_bytes disk first spc cs) m\<rparr>"
  have len: "length (file_bytes disk first spc cs) = 512 * spc * length cs"
    using D by (intro length_file_bytes) (simp add: disk_service_def)
  have bel: "below (mem t) m"
    using below_image_write [of 0 "file_bytes disk first spc cs" m] len cs(3) by (simp add: t_def)
  have "load_clusters B (drive l) first (first_cluster_lo (directory_entry_at m (root_directory l + 32 * of_nat k)))
      (of_nat 0) s2 = Some (s2\<lparr>mem := write_bytes (KERNEL_IMAGE_ADDR + of_nat 0) (file_bytes disk first spc cs) (mem s2)\<rparr>)"
    by (rule load_clusters_file [OF D]) (use R b cs spc in \<open>simp_all add: s2_def\<close>)
  then have "find_kernel B l first 0 s2 = Some t"
    using find_kernel_file [where s = s2 and l = l and k = k and t = t and f = first] k b(4) root R(2) bel
    by (simp add: s2_def t_def)
  then have "load_kernel B l s = Some t" using R(1) first by (simp add: s2_def)
  moreover have "bytes_at (mem t) KERNEL_IMAGE_ADDR (512 * spc * length cs) = file_bytes disk first spc cs"
    using bytes_at_write_bytes [of "file_bytes disk first spc cs" KERNEL_IMAGE_ADDR m] len cs(3) by (simp add: t_def)
  moreover have "mem t x = m x" if "x \<notin> region KERNEL_IMAGE_ADDR (512 * spc * length cs)" for x
    using that len cs(3) by (simp add: t_def write_bytes_other)
  ultimately show ?thesis by (intro exI [of _ t]) (simp add: t_def)
qed

text \<open>
  The disk access reads what it is asked for, in the first 256 cylinders: block number
  \<open>lba\<close> modulo 256 times the sectors of a cylinder, since only the lower eight bits of the
  cylinder are passed; the bytes go to the lower twenty bits of the address. It writes nothing
  else.
\<close>

theorem drive_read_sectors:
  assumes "disk_service B drv disk spt heads" "geometry (mem s) spt heads"
    and "0 < count" "unat buffer mod 65536 + 512 * unat count \<le> 65536"
  shows "bios_drive_read B drv lba count buffer s =
    Some (s\<lparr>mem := write_bytes (buffer AND 0xfffff)
      (sectors disk (unat lba mod (256 * (heads * spt))) (unat count)) (mem s)\<rparr>)"
  by (rule drive_read [OF assms])

text \<open>
  C15. The loader loads the file of the kernel from the drive it was started from: if exactly one entry of the directory, as it is
  in memory, has the name, the clusters of its chain are read one behind the other to
  \<open>KERNEL_IMAGE_ADDR\<close>, the loops end, and beside the tables read before nothing changes.
  Only the first sector of the directory is read; the premise on the names is about all
  the entries the loader looks at, also those it has not read.
\<close>

theorem load_kernel_loads_file:
  assumes ok: "boot_drive_ok B disk spt heads l (mem s)"
    and m: "m = tables_read disk l (mem s)" and first: "first_data_sect (bpb s) = Some first"
    and k: "k < unat (root_dir_entries (bpb s))"
      "\<forall>i<unat (root_dir_entries (bpb s)). entry_named m (root_directory l) i \<longleftrightarrow> i = k"
    and spc: "spc = unat (secs_per_cluster (bpb s))"
    and cs: "cluster_chain m (first_cluster_lo (directory_entry_at m (root_directory l + 32 * of_nat k))) cs"
      "\<forall>c\<in>set cs. reachable_cluster spt heads first spc c" "512 * spc * length cs \<le> 0xc0000"
  shows "\<exists>t. load_kernel B l s = Some t \<and> t = s\<lparr>mem := mem t\<rparr> \<and>
    bytes_at (mem t) KERNEL_IMAGE_ADDR (512 * spc * length cs) = file_bytes disk first spc cs \<and>
    (\<forall>x. x \<notin> region KERNEL_IMAGE_ADDR (512 * spc * length cs) \<longrightarrow> mem t x = m x)"
  by (rule load_kernel_file [OF assms])

section \<open>A small disk\<close>

text \<open>The only drive is 0x80. One table, one sector of directory with the kernel as its second entry, and a file of two
  clusters of one sector each: an ELF header, one program header, and a segment of four bytes.\<close>

definition small_image :: "u8 list" where
  "small_image =
     [0x7f, 0x45, 0x4c, 0x46, 1, 1, 1, 0, 0, 0, 0, 0, 0, 0, 0, 0,
      2, 0, 3, 0, 1, 0, 0, 0, 0, 0, 0x10, 0, 52, 0, 0, 0, 0, 0, 0, 0, 0, 0, 0, 0,
      52, 0, 32, 0, 1, 0, 0, 0, 0, 0, 0, 0,
      1, 0, 0, 0, 84, 0, 0, 0, 0, 0, 0x10, 0, 0, 0, 0x10, 0,
      4, 0, 0, 0, 8, 0, 0, 0, 5, 0, 0, 0, 0, 0, 0, 0,
      0xfa, 0xf4, 0xeb, 0xfe]"

definition small_disk :: "nat \<Rightarrow> u8 list" where
  "small_disk k =
     (if k = 1 then (replicate 512 0)[4 := 3, 6 := 0xff, 7 := 0xff]
      else if k = 2 then replicate 32 0 @ kernel_name @ replicate 15 0 @ [2] @ replicate 453 0
      else if k = 3 then small_image @ replicate 424 0 else if k = 4 then replicate 512 0x22 else replicate 512 0)"

definition no_mode :: vesa_modeinfo where
  "no_mode = \<lparr>attrib = 0, win1_attrib = 0, win2_attrib = 0, win_gran = 0, win_size = 0, win1_seg = 0,
     win2_seg = 0, win_func_ptr = 0, pitch = 0, width = 0, height = 0, char_width = 0, char_height = 0,
     planes = 0, bpp = 0, banks = 0, mem_model = 0, bank_size = 0, image_pages = 0, red_mask_size = 0,
     red_field_pos = 0, green_mask_size = 0, green_field_pos = 0, blue_mask_size = 0, blue_field_pos = 0,
     res_mask_size = 0, res_field_pos = 0, direct_color_modeinfo = 0, framebuffer = 0, offscreen_offs = 0,
     offscreen_size = 0\<rparr>"

definition no_timing :: edid_timing_info where
  "no_timing = \<lparr>h_freq = 0, v_freq = 0, h_active_time = 0, h_blank_time = 0, h_active_blank_time = 0,
     v_active_time = 0, v_blank_time = 0, v_active_blank_time = 0, hsync_offs = 0, hsync_pulsewidth = 0,
     vsync_offs_pulsewidth = 0, vhsync_offs_pulsewidth = 0, h_img_size = 0, v_img_size = 0, hv_img_size = 0,
     h_border = 0, v_border = 0, display_type = 0\<rparr>"

definition no_edid :: edid_record where
  "no_edid = \<lparr>padding = 0, manufacture_id = 0, edid_id = 0, serial = 0, manufacture_week = 0,
     manufacture_year = 0, version = 0, revision = 0, video_input_type = 0, horizontal_size = 0,
     vertical_size = 0, gamma = 0, dpms = 0, chroma_info = [], timings_1 = 0, timings_2 = 0,
     reserved_timings = 0, timing_id = [], timing_descr1 = no_timing, timing_descr2 = no_timing,
     timing_descr3 = no_timing, timing_descr4 = no_timing, checksum = 0\<rparr>"

definition small_bios :: "(nat \<Rightarrow> u8 list) \<Rightarrow> bios" where
  "small_bios disk = \<lparr>int13_read = (\<lambda>al ch cl dh dl es bx m.
       if dl = 0x80 then write_bytes (16 * ucast es + ucast bx) (sectors disk (chs_sector 32 64 ch cl dh) (unat al)) m
       else m),
     vesa_info = (\<lambda>m x. x), edid_info = (\<lambda>x. x)\<rparr>"

definition small_locals :: loader_locals where
  "small_locals = \<lparr>drive = 0x80, root_directory = 0x3000, mode_junk = no_mode, edid_junk = no_edid\<rparr>"

definition small_loader :: "mem \<Rightarrow> loader" where
  "small_loader m = \<lparr>mem = m, port_log = [], hw8 = (\<lambda>_ _. 0), hw16 = (\<lambda>_ _. 0), hw32 = (\<lambda>_ _. 0),
     modes_set = []\<rparr>"

definition small_bpb :: mem where
  "small_bpb = write_bytes 0x7c0b
     [0x00, 0x02, 1, 1, 0, 1, 16, 0, 0, 0, 0xf8, 1, 0, 32, 0, 64, 0] (\<lambda>_. 0)"

lemma length_small_disk: "length (small_disk k) = 512"
  by (simp add: small_disk_def kernel_name_def small_image_def)

lemma small_service: "disk_service (small_bios small_disk) 0x80 small_disk 32 64"
  by (simp add: disk_service_def small_bios_def length_small_disk)

lemma small_bpb_fields:
  "geometry small_bpb 32 64" "bytes_per_sector (fat_bpb_at small_bpb BPB_ADDR) = 512"
  "secs_per_cluster (fat_bpb_at small_bpb BPB_ADDR) = 1" "reserved_count (fat_bpb_at small_bpb BPB_ADDR) = 1"
  "fat_count (fat_bpb_at small_bpb BPB_ADDR) = 1" "secs_per_fat (fat_bpb_at small_bpb BPB_ADDR) = 1"
  "root_dir_entries (fat_bpb_at small_bpb BPB_ADDR) = 16"
  by (simp_all add: geometry_def small_bpb_def fat_bpb_at_def BPB_ADDR_def rd16_def rd8_def)

lemma small_drive_ok: "boot_drive_ok (small_bios small_disk) small_disk 32 64 small_locals small_bpb"
  by (simp add: boot_drive_ok_def small_service small_bpb_fields small_locals_def root_sect_def)

theorem drive_read_sectors_witness:
  "\<exists>t. bios_drive_read (small_bios small_disk) 0x80 3 2 0x40000 (small_loader small_bpb) = Some t \<and>
     mem t = write_bytes 0x40000 (small_image @ replicate 424 0 @ replicate 512 0x22) small_bpb"
proof -
  have "geometry (mem (small_loader small_bpb)) 32 64" by (simp add: small_loader_def small_bpb_fields)
  moreover have "sectors small_disk 3 2 = small_image @ replicate 424 0 @ replicate 512 0x22"
    by (simp add: sectors_def small_disk_def numeral_2_eq_2)
  ultimately show ?thesis
    using drive_read_sectors [OF small_service, of "small_loader small_bpb" 2 "0x40000" 3]
    by (simp add: small_loader_def)
qed

lemma written_part:
  assumes "i + n \<le> length bs" "length bs \<le> 4294967295"
  shows "bytes_at (write_bytes a bs m) (a + of_nat i) n = take n (drop i bs)"
proof -
  let ?m = "write_bytes a bs m" and ?k = "length bs - (i + n)"
  have "bytes_at ?m a (i + (n + ?k)) = bs"
    using bytes_at_write_bytes [of bs a m] assms by simp
  then have "bytes_at ?m a i @ bytes_at ?m (a + of_nat i) n @ bytes_at ?m (a + of_nat i + of_nat n) ?k = bs"
    by (simp only: bytes_at_add)
  from arg_cong [OF this, of "\<lambda>xs. take n (drop i xs)"] show ?thesis by simp
qed

lemma rd16_bytes_at: "bytes_at m a 2 = [b, c] \<Longrightarrow> rd16 m a = ucast b OR push_bit 8 (ucast c)"
  by (simp add: rd16_def bytes_at_Suc numeral_2_eq_2)

lemma small_tables:
  defines "m \<equiv> tables_read small_disk small_locals small_bpb"
  shows "i + n \<le> 512 \<Longrightarrow> bytes_at m (0x3000 + of_nat i) n = take n (drop i (small_disk 2))"
    "i + n \<le> 512 \<Longrightarrow> bytes_at m (0x8000 + of_nat i) n = take n (drop i (small_disk 1))"
proof -
  have m: "m = write_bytes 0x3000 (small_disk 2) (write_bytes 0x8000 (small_disk 1) small_bpb)"
    by (simp add: m_def tables_read_def small_bpb_fields root_sect_def small_locals_def FAT_ADDR_def sectors_def Let_def)
  then show "i + n \<le> 512 \<Longrightarrow> bytes_at m (0x3000 + of_nat i) n = take n (drop i (small_disk 2))"
    by (simp add: written_part length_small_disk)
  assume i: "i + n \<le> 512"
  have "m x = write_bytes 0x8000 (small_disk 1) small_bpb x" if "0x8000 \<le> unat x" for x
    unfolding m using that by (intro write_bytes_other) (auto simp: in_region_nat length_small_disk)
  moreover have "0x8000 \<le> unat x" if "x \<in> region (0x8000 + of_nat i) n" for x
  proof -
    have "unat (0x8000 + of_nat i :: u32) = 0x8000 + i" using i by (subst unat_add_of_nat) simp_all
    then show ?thesis using that i by (simp add: in_region_nat)
  qed
  ultimately have "bytes_at m (0x8000 + of_nat i) n = bytes_at (write_bytes 0x8000 (small_disk 1) small_bpb) (0x8000 + of_nat i) n"
    using i by (intro bytes_at_cong) auto
  then show "bytes_at m (0x8000 + of_nat i) n = take n (drop i (small_disk 1))"
    using i by (simp add: written_part length_small_disk)
qed

lemma small_entries:
  defines "m \<equiv> tables_read small_disk small_locals small_bpb"
  shows "\<forall>i<16. entry_named m 0x3000 i \<longleftrightarrow> i = 1"
    "first_cluster_lo (directory_entry_at m 0x3020) = 2" "cluster_chain m 2 [2, 3]"
proof -
  have name: "filename (directory_entry_at m (0x3000 + 32 * of_nat i)) = take 11 (drop (32 * i) (small_disk 2))" if "i < 16" for i
    using small_tables(1) [of "32 * i" 11] that by (simp add: directory_entry_at_def m_def)
  show "\<forall>i<16. entry_named m 0x3000 i \<longleftrightarrow> i = 1"
  proof (intro allI impI)
    fix i :: nat assume i: "i < 16"
    have len: "length kernel_name = 11" by (simp add: kernel_name_def)
    show "entry_named m 0x3000 i \<longleftrightarrow> i = 1"
    proof (cases "i = 1")
      case True
      then show ?thesis unfolding entry_named_def name [OF i] by (simp add: small_disk_def len)
    next
      case False
      then have "small_disk 2 ! (32 * i) = 0"
        using i len by (auto simp: small_disk_def nth_append nth_Cons')
      then have "take 11 (drop (32 * i) (small_disk 2)) ! 0 = 0"
        using i length_small_disk [of 2] by simp
      moreover have "kernel_name ! 0 \<noteq> 0" by (simp add: kernel_name_def byte_of_char_def)
      ultimately show ?thesis using False unfolding entry_named_def name [OF i] by metis
    qed
  qed
  show "first_cluster_lo (directory_entry_at m 0x3020) = 2"
  proof -
    have "take 2 (drop 58 (small_disk 2)) = [2, 0]"
      by (simp add: small_disk_def kernel_name_def take_Cons' numeral_eq_Suc)
    then have "bytes_at m 0x303a 2 = [2, 0]" using small_tables(1) [of 58 2] by (simp add: m_def)
    then show ?thesis using rd16_bytes_at [of m "0x303a" 2 0] by (simp add: directory_entry_at_def)
  qed
  have "small_disk 1 ! 4 = 3" "small_disk 1 ! 5 = 0" "small_disk 1 ! 6 = 0xff" "small_disk 1 ! 7 = 0xff"
    by (simp_all add: small_disk_def)
  then have "take 2 (drop 4 (small_disk 1)) = [3, 0]" "take 2 (drop 6 (small_disk 1)) = [0xff, 0xff]"
    using length_small_disk [of 1] by (simp_all add: take_Suc_conv_app_nth numeral_2_eq_2)
  then have "rd16 m 0x8004 = 3" "rd16 m 0x8006 = 0xffff"
    using small_tables(2) [of 4 2] small_tables(2) [of 6 2] rd16_bytes_at [of m "0x8004"] rd16_bytes_at [of m "0x8006"]
    by (simp_all add: m_def)
  then show "cluster_chain m 2 [2, 3]" by (simp add: FAT_ADDR_def)
qed

theorem load_kernel_loads_file_witness:
  "\<exists>t. load_kernel (small_bios small_disk) small_locals (small_loader small_bpb) = Some t \<and>
     bytes_at (mem t) KERNEL_IMAGE_ADDR 1024 = small_image @ replicate 424 0 @ replicate 512 0x22"
proof -
  have [simp]: "mem (small_loader small_bpb) = small_bpb" by (simp add: small_loader_def)
  have "file_bytes small_disk 3 1 [2, 3] = small_image @ replicate 424 0 @ replicate 512 0x22"
    by (simp add: file_bytes_def cluster_sector_def sectors_def small_disk_def)
  moreover have "first_data_sect (bpb (small_loader small_bpb)) = Some 3"
    by (simp add: first_data_sect_def small_bpb_fields root_sect_def)
  moreover have "\<forall>c\<in>set [2, 3]. reachable_cluster 32 64 3 1 c"
    by (simp add: reachable_cluster_def cluster_sector_def)
  ultimately show ?thesis
    using load_kernel_loads_file [where s = "small_loader small_bpb" and l = small_locals and k = 1 and spc = 1
        and cs = "[2, 3]" and first = 3 and m = "tables_read small_disk small_locals small_bpb"
        and spt = 32 and heads = 64 and disk = small_disk and B = "small_bios small_disk"]
      small_drive_ok small_entries
    by (simp add: small_bpb_fields) (auto simp: small_locals_def)
qed

end
