(* ===== verification/Boot_Image.thy ===== *)
theory Boot_Image
  imports Boot_Load Kmain
begin

text \<open>
  What the boot loader does with the file it has loaded: the segments of the image in their
  places, the choice of the video mode, and the boot information the kernel reads.
\<close>

section \<open>Segments\<close>

text \<open>The program headers of the image in memory, and the copies made for them, in order.\<close>

definition program_headers :: "mem \<Rightarrow> Elf32_Phdr list" where
  "program_headers m =
     (let h = elf_header_at m KERNEL_IMAGE_ADDR
      in map (\<lambda>i. program_header_at m (KERNEL_IMAGE_ADDR + e_phoff h + 32 * of_nat i)) [0..<unat (e_phnum h)])"

definition copy_segments :: "Elf32_Phdr list \<Rightarrow> mem \<Rightarrow> mem" where
  "copy_segments = fold (\<lambda>p. memcpy (p_paddr p) (KERNEL_IMAGE_ADDR + p_offset p) (p_filesz p))"

abbreviation target :: "Elf32_Phdr \<Rightarrow> u32 set" where
  "target p \<equiv> region (p_paddr p) (unat (p_filesz p))"

text \<open>
  An image of \<open>sz\<close> bytes: header, program headers and segments lie inside, the segments
  are loaded outside the image and apart from each other.
\<close>

definition image_ok :: "mem \<Rightarrow> nat \<Rightarrow> bool" where
  "image_ok m sz \<longleftrightarrow>
     (let h = elf_header_at m KERNEL_IMAGE_ADDR
      in 52 \<le> sz \<and> sz \<le> 0xc0000 \<and> unat (e_phoff h) + 32 * unat (e_phnum h) \<le> sz) \<and>
     (\<forall>p\<in>set (program_headers m). unat (p_offset p) + unat (p_filesz p) \<le> sz \<and>
        target p \<inter> region KERNEL_IMAGE_ADDR sz = {}) \<and>
     sorted_wrt (\<lambda>p q. target p \<inter> target q = {}) (program_headers m)"

lemma image_part:
  assumes "i + n \<le> sz" "sz \<le> 0xc0000"
  shows "region (KERNEL_IMAGE_ADDR + of_nat i) n \<subseteq> region KERNEL_IMAGE_ADDR sz"
  using assms by (intro region_offset) auto

text \<open>Fields and headers depend on their own bytes.\<close>

lemma field_cong:
  assumes "\<forall>x\<in>region a k. m' x = m x" "k \<le> 0x1000"
  shows "i + 4 \<le> k \<Longrightarrow> rd32 m' (a + of_nat i) = rd32 m (a + of_nat i)"
    "i + 2 \<le> k \<Longrightarrow> rd16 m' (a + of_nat i) = rd16 m (a + of_nat i)"
    "i + n \<le> k \<Longrightarrow> bytes_at m' (a + of_nat i) n = bytes_at m (a + of_nat i) n"
proof -
  have part: "x \<in> region a k" if "x \<in> region (a + of_nat i) n" "i + n \<le> k" for x n
    using region_offset [OF that(2), of a] that assms(2) by auto
  show "i + 4 \<le> k \<Longrightarrow> rd32 m' (a + of_nat i) = rd32 m (a + of_nat i)"
    by (intro rd32_cong assms(1) [THEN bspec] part)
  show "i + 2 \<le> k \<Longrightarrow> rd16 m' (a + of_nat i) = rd16 m (a + of_nat i)"
    by (intro rd16_cong assms(1) [THEN bspec] part)
  show "i + n \<le> k \<Longrightarrow> bytes_at m' (a + of_nat i) n = bytes_at m (a + of_nat i) n"
    using assms(2) by (intro bytes_at_cong assms(1) [THEN bspec] part) auto
qed

lemma program_header_cong:
  assumes "\<forall>x\<in>region a 32. m' x = m x"
  shows "program_header_at m' a = program_header_at m a"
  using field_cong(1) [OF assms, of 0] field_cong(1) [OF assms, of 4] field_cong(1) [OF assms, of 8]
    field_cong(1) [OF assms, of 12] field_cong(1) [OF assms, of 16] field_cong(1) [OF assms, of 20]
    field_cong(1) [OF assms, of 24] field_cong(1) [OF assms, of 28]
  by (simp add: program_header_at_def)

lemma elf_header_cong:
  assumes "\<forall>x\<in>region a 52. m' x = m x"
  shows "elf_header_at m' a = elf_header_at m a"
  using field_cong(3) [OF assms, of 0 16] field_cong(2) [OF assms, of 16] field_cong(2) [OF assms, of 18]
    field_cong(1) [OF assms, of 20] field_cong(1) [OF assms, of 24] field_cong(1) [OF assms, of 28]
    field_cong(1) [OF assms, of 32] field_cong(1) [OF assms, of 36] field_cong(2) [OF assms, of 40]
    field_cong(2) [OF assms, of 42] field_cong(2) [OF assms, of 44] field_cong(2) [OF assms, of 46]
    field_cong(2) [OF assms, of 48] field_cong(2) [OF assms, of 50]
  by (simp add: elf_header_at_def)

text \<open>The copies, one segment after the other.\<close>

lemma copy_segments_other:
  "x \<notin> \<Union> (target ` set ps) \<Longrightarrow> copy_segments ps m x = m x"
  by (induction ps arbitrary: m) (simp_all add: copy_segments_def memcpy_other)

lemma copy_segment:
  assumes "unat (p_offset p) + unat (p_filesz p) \<le> sz" "sz \<le> 0xc0000"
    "target p \<inter> region KERNEL_IMAGE_ADDR sz = {}"
  shows "bytes_at (memcpy (p_paddr p) (KERNEL_IMAGE_ADDR + p_offset p) (p_filesz p) m) (p_paddr p) (unat (p_filesz p))
    = bytes_at m (KERNEL_IMAGE_ADDR + p_offset p) (unat (p_filesz p))"
proof (cases "unat (p_filesz p) = 0")
  case False
  let ?n = "unat (p_filesz p)"
  have "p_paddr p \<in> target p" using False by simp
  then have "p_paddr p \<notin> region KERNEL_IMAGE_ADDR sz" using assms(3) by blast
  then have "p_paddr p \<notin> region (KERNEL_IMAGE_ADDR + of_nat (unat (p_offset p))) ?n"
    using image_part [OF assms(1,2)] by blast
  then have "?n \<le> unat (p_paddr p - (KERNEL_IMAGE_ADDR + p_offset p))" by (simp add: region_def)
  then show ?thesis unfolding memcpy_def using unat_lt32 [of "p_filesz p"] by (intro bytes_at_movsb) auto
qed simp

lemma copy_segments_bytes:
  assumes "\<forall>p\<in>set ps. unat (p_offset p) + unat (p_filesz p) \<le> sz \<and> target p \<inter> region KERNEL_IMAGE_ADDR sz = {}"
    "sz \<le> 0xc0000" "sorted_wrt (\<lambda>p q. target p \<inter> target q = {}) ps"
  shows "\<forall>p\<in>set ps. bytes_at (copy_segments ps m) (p_paddr p) (unat (p_filesz p)) =
    bytes_at m (KERNEL_IMAGE_ADDR + p_offset p) (unat (p_filesz p))"
  using assms
proof (induction ps arbitrary: m)
  case (Cons p ps)
  define m1 where "m1 = memcpy (p_paddr p) (KERNEL_IMAGE_ADDR + p_offset p) (p_filesz p) m"
  have step: "copy_segments (p # ps) m = copy_segments ps m1" by (simp add: copy_segments_def m1_def)
  have p: "unat (p_offset p) + unat (p_filesz p) \<le> sz" "target p \<inter> region KERNEL_IMAGE_ADDR sz = {}"
    using Cons.prems(1) by auto
  have m1: "m1 x = m x" if "x \<in> region KERNEL_IMAGE_ADDR sz" for x
    unfolding m1_def using that p(2) by (intro memcpy_other) auto
  have "bytes_at (copy_segments ps m1) (p_paddr p) (unat (p_filesz p)) = bytes_at m1 (p_paddr p) (unat (p_filesz p))"
  proof (rule bytes_at_cong)
    show "unat (p_filesz p) \<le> 4294967296" using unat_lt32 [of "p_filesz p"] by simp
    fix x assume "x \<in> target p"
    then have "x \<notin> \<Union> (target ` set ps)" using Cons.prems(3) by auto
    then show "copy_segments ps m1 x = m1 x" by (rule copy_segments_other)
  qed
  moreover have "bytes_at m1 (p_paddr p) (unat (p_filesz p)) = bytes_at m (KERNEL_IMAGE_ADDR + p_offset p) (unat (p_filesz p))"
    unfolding m1_def by (rule copy_segment [OF p(1) Cons.prems(2) p(2)])
  moreover have "\<forall>q\<in>set ps. bytes_at (copy_segments ps m1) (p_paddr q) (unat (p_filesz q)) =
      bytes_at m1 (KERNEL_IMAGE_ADDR + p_offset q) (unat (p_filesz q))"
    using Cons.prems by (intro Cons.IH) auto
  moreover have "bytes_at m1 (KERNEL_IMAGE_ADDR + p_offset q) (unat (p_filesz q)) =
      bytes_at m (KERNEL_IMAGE_ADDR + p_offset q) (unat (p_filesz q))" if "q \<in> set ps" for q
  proof -
    have "unat (p_offset q) + unat (p_filesz q) \<le> sz" using Cons.prems(1) that by auto
    then have "region (KERNEL_IMAGE_ADDR + p_offset q) (unat (p_filesz q)) \<subseteq> region KERNEL_IMAGE_ADDR sz"
      using image_part [of "unat (p_offset q)"] Cons.prems(2) by simp
    then show ?thesis using unat_lt32 [of "p_filesz q"] m1 by (intro bytes_at_cong) auto
  qed
  ultimately show ?case unfolding step by simp
qed simp

text \<open>The loop makes these copies: none of them changes the headers it still reads.\<close>

lemma load_segments_copies:
  assumes ok: "image_ok m sz" and same: "\<And>x. x \<in> region KERNEL_IMAGE_ADDR sz \<Longrightarrow> mem s x = m x"
    and i: "i \<le> length (program_headers m)"
  shows "load_segments (KERNEL_IMAGE_ADDR + e_phoff (elf_header_at m KERNEL_IMAGE_ADDR)) (of_nat i) s =
    s\<lparr>mem := copy_segments (drop i (program_headers m)) (mem s)\<rparr>"
  using same i
proof (induction "length (program_headers m) - i" arbitrary: i s)
  case (0 i s)
  define h where "h = elf_header_at m KERNEL_IMAGE_ADDR"
  have "elf_header_at (mem s) KERNEL_IMAGE_ADDR = h"
    unfolding h_def using ok 0(2) region_mono [of 52 sz] by (intro elf_header_cong) (auto simp: image_ok_def Let_def)
  moreover have "length (program_headers m) = unat (e_phnum h)" by (simp add: program_headers_def h_def Let_def)
  moreover have "(of_nat (unat (e_phnum h)) :: u32) = ucast (e_phnum h)" by simp
  ultimately show ?case using 0 by (subst load_segments.simps) (simp add: copy_segments_def del: of_nat_unat)
next
  case (Suc n i s)
  define h where "h = elf_header_at m KERNEL_IMAGE_ADDR"
  define table where "table = KERNEL_IMAGE_ADDR + e_phoff h"
  have sz: "52 \<le> sz" "sz \<le> 0xc0000" "unat (e_phoff h) + 32 * unat (e_phnum h) \<le> sz"
    using ok by (simp_all add: image_ok_def h_def Let_def)
  have len: "length (program_headers m) = unat (e_phnum h)" by (simp add: program_headers_def h_def Let_def)
  have i: "i < unat (e_phnum h)" using Suc.hyps(2) len by simp
  have hs: "elf_header_at (mem s) KERNEL_IMAGE_ADDR = h"
    unfolding h_def using sz(1) Suc.prems(1) region_mono [of 52 sz] by (intro elf_header_cong) auto
  have "of_nat i < (ucast (e_phnum h) :: u32)"
    using i unat_lt16 [of "e_phnum h"] by (simp add: word_less_nat_alt unat_ucast_16_32 unsigned_of_nat take_bit_eq_mod)
  define p where "p = program_headers m ! i"
  have p_eq: "p = program_header_at m (table + 32 * of_nat i)"
    using i by (simp add: p_def program_headers_def table_def h_def Let_def)
  have "program_header_at (mem s) (table + 32 * of_nat i) = p"
  proof -
    have "region (KERNEL_IMAGE_ADDR + of_nat (unat (e_phoff h) + 32 * i)) 32 \<subseteq> region KERNEL_IMAGE_ADDR sz"
      using sz i by (intro image_part) auto
    then have "region (table + 32 * of_nat i) 32 \<subseteq> region KERNEL_IMAGE_ADDR sz"
      by (simp add: table_def add.assoc)
    then show ?thesis unfolding p_eq using Suc.prems(1) by (intro program_header_cong) auto
  qed
  define s' where "s' = s\<lparr>mem := memcpy (p_paddr p) (KERNEL_IMAGE_ADDR + p_offset p) (p_filesz p) (mem s)\<rparr>"
  have "target p \<inter> region KERNEL_IMAGE_ADDR sz = {}"
    using ok i len by (auto simp: image_ok_def p_def)
  then have s': "mem s' x = m x" if "x \<in> region KERNEL_IMAGE_ADDR sz" for x
  proof -
    have "x \<notin> target p" using \<open>target p \<inter> _ = {}\<close> that by blast
    then show ?thesis using that Suc.prems(1) by (simp add: s'_def memcpy_other)
  qed
  have "load_segments table (of_nat (Suc i)) s' = s'\<lparr>mem := copy_segments (drop (Suc i) (program_headers m)) (mem s')\<rparr>"
    unfolding table_def h_def using Suc.hyps(2) s' by (intro Suc.hyps(1)) auto
  moreover have "load_segments table (of_nat i) s = load_segments table (of_nat (Suc i)) s'"
    using \<open>of_nat i < ucast (e_phnum h)\<close> \<open>program_header_at (mem s) (table + 32 * of_nat i) = p\<close>
    by (subst load_segments.simps) (simp add: hs s'_def Let_def add.commute)
  moreover have "drop i (program_headers m) = p # drop (Suc i) (program_headers m)"
    unfolding p_def using i len by (simp add: Cons_nth_drop_Suc)
  ultimately show ?case unfolding table_def [symmetric] h_def [symmetric]
    by (simp add: copy_segments_def s'_def table_def h_def)
qed

section \<open>The video mode\<close>

text \<open>
  The documented behaviour of the VESA service: a supported mode fills the record, an
  unsupported one leaves it as it is (the status it returns is not looked at).
\<close>

definition vesa_service :: "bios \<Rightarrow> (u16 \<Rightarrow> vesa_modeinfo option) \<Rightarrow> bool" where
  "vesa_service B info \<longleftrightarrow> (\<forall>m x. vesa_info B m x = (case info m of None \<Rightarrow> x | Some i \<Rightarrow> i))"

definition fits :: "(u16 \<Rightarrow> vesa_modeinfo option) \<Rightarrow> u16 \<Rightarrow> u16 \<Rightarrow> u16 \<Rightarrow> bool" where
  "fits info w h m = (case info m of None \<Rightarrow> False | Some i \<Rightarrow> mode_fits w h i)"

definition modes_from :: "nat \<Rightarrow> u16 list" where
  "modes_from k = map of_nat [k..<0xffff]"

lemma modes_from_end [simp]: "modes_from 0xffff = []"
  by (simp add: modes_from_def)

lemma modes_from_step: "k < 0xffff \<Longrightarrow> modes_from k = of_nat k # modes_from (Suc k)"
  by (simp only: modes_from_def upt_conv_Cons list.map)

definition last_answer :: "(u16 \<Rightarrow> vesa_modeinfo option) \<Rightarrow> vesa_modeinfo \<Rightarrow> u16 list \<Rightarrow> vesa_modeinfo" where
  "last_answer info x ms = last (x # List.map_filter info ms)"

lemma last_answer_simps:
  "last_answer info x [] = x"
  "last_answer info x (m # ms) = last_answer info (case info m of None \<Rightarrow> x | Some i \<Rightarrow> i) ms"
  by (auto simp: last_answer_def map_filter_simps split: option.split)

lemma find_mode_step:
  assumes "vesa_service B info" "k < 0xffff" "x' = (case info (of_nat k) of None \<Rightarrow> x | Some i \<Rightarrow> i)"
  shows "find_mode B w h (of_nat k) x =
    (if mode_fits w h x' then (Some (of_nat k), x') else find_mode B w h (of_nat (Suc k)) x')"
proof -
  have "unat (of_nat k :: u16) = k" using assms(2) by (simp add: unsigned_of_nat take_bit_eq_mod)
  then have "(of_nat k :: u16) < 0xffff" using assms(2) by (simp add: word_less_nat_alt)
  moreover have "vesa_info B (of_nat k) x = x'" using assms(1,3) by (simp add: vesa_service_def)
  ultimately show ?thesis by (subst find_mode.simps) (simp add: add.commute)
qed

lemma find_mode_search:
  assumes "vesa_service B info"
  shows "k \<le> 0xffff \<Longrightarrow> \<not> mode_fits w h x \<Longrightarrow>
   find_mode B w h (of_nat k) x =
     (case find (fits info w h) (modes_from k) of
        Some m \<Rightarrow> (Some m, the (info m))
      | None \<Rightarrow> (None, last_answer info x (modes_from k)))"
proof (induction "0xffff - k" arbitrary: k x)
  case 0
  then have "k = 0xffff" by simp
  then show ?case by (subst find_mode.simps) (simp add: last_answer_simps)
next
  case (Suc n)
  then have k: "k < 0xffff" by simp
  define x' where "x' = (case info (of_nat k) of None \<Rightarrow> x | Some i \<Rightarrow> i)"
  have fits: "fits info w h (of_nat k) \<longleftrightarrow> mode_fits w h x'"
    using Suc.prems(2) by (simp add: fits_def x'_def split: option.split)
  show ?case
  proof (cases "mode_fits w h x'")
    case True
    then have "x' = the (info (of_nat k))"
      using Suc.prems(2) by (auto simp: x'_def split: option.splits)
    then show ?thesis using True fits by (simp add: find_mode_step [OF assms k x'_def] modes_from_step [OF k])
  next
    case False
    have "find_mode B w h (of_nat (Suc k)) x' = (case find (fits info w h) (modes_from (Suc k)) of
        Some m \<Rightarrow> (Some m, the (info m))
      | None \<Rightarrow> (None, last_answer info x' (modes_from (Suc k))))"
      using Suc.hyps(2) k False by (intro Suc.hyps(1)) auto
    then show ?thesis
      using False fits by (simp only: find_mode_step [OF assms k x'_def] modes_from_step [OF k]
          find.simps if_False last_answer_simps x'_def [symmetric])
  qed
qed

text \<open>
  C22. The choice of the video mode. Without a valid EDID record the loader sets mode 0x115 and
  reports what the BIOS says of 0x4115, the same mode with a linear framebuffer. With one it
  sets the first supported mode from 0x4100 on that fits the size of the display, and reports
  that mode. Two of the results are not what is meant: if 0x4100 is not supported and 0x4115
  fits, it is 0x4100 that is set, and if no mode fits, 0x4115 is set but the last supported
  mode is reported.
\<close>

theorem setup_display_first_fit:
  assumes service: "vesa_service B info" and d: "info 0x4115 = Some d"
    and edid: "e = edid_info B (edid_junk l)" "w = edid_width e" "h = edid_height e"
  shows "setup_display B l s =
    (if padding e \<noteq> 0x00ffffffffffff00 then (d, set_vesa_mode 0x115 s)
     else if info 0x4100 = None \<and> mode_fits w h d then (d, set_vesa_mode 0x4100 s)
     else case find (fits info w h) (modes_from 0x4100) of
         Some m \<Rightarrow> (the (info m), set_vesa_mode m s)
       | None \<Rightarrow> (last (List.map_filter info (modes_from 0x4100)), set_vesa_mode 0x4115 s))"
proof -
  have first: "vesa_info B 0x4115 x = d" for x using service d by (simp add: vesa_service_def)
  define d' where "d' = (case info 0x4100 of None \<Rightarrow> d | Some i \<Rightarrow> i)"
  have eta: "(of_nat 0x4100 :: u16) = 0x4100" by simp
  note step = find_mode_step [OF service, of "0x4100", unfolded eta, OF _ d'_def]
  have split: "modes_from 0x4100 = 0x4100 # modes_from (Suc 0x4100)"
    using modes_from_step [of "0x4100"] by simp
  have "(0x4115 :: u16) \<in> set (modes_from 0x4100)"
    unfolding modes_from_def list.set_map set_upt by (rule image_eqI [of _ _ "0x4115"]) simp_all
  then have "List.map_filter info (modes_from 0x4100) \<noteq> []"
    using d by (auto simp: List.map_filter_def filter_empty_conv)
  then have last: "last_answer info d (modes_from 0x4100) = last (List.map_filter info (modes_from 0x4100))"
    by (simp add: last_answer_def)
  have search: "find_mode B w h 0x4100 d =
      (if info 0x4100 = None \<and> mode_fits w h d then (Some 0x4100, d)
       else case find (fits info w h) (modes_from 0x4100) of
           Some m \<Rightarrow> (Some m, the (info m))
         | None \<Rightarrow> (None, last (List.map_filter info (modes_from 0x4100))))"
  proof (cases "mode_fits w h d'")
    case True
    then show ?thesis
      by (cases "info 0x4100") (simp_all add: step split fits_def d'_def)
  next
    case False
    then have "\<not> fits info w h 0x4100" by (simp add: fits_def d'_def split: option.splits)
    moreover have "find_mode B w h (of_nat (Suc 0x4100)) d' = (case find (fits info w h) (modes_from (Suc 0x4100)) of
        Some m \<Rightarrow> (Some m, the (info m))
      | None \<Rightarrow> (None, last_answer info d' (modes_from (Suc 0x4100))))"
      using False by (intro find_mode_search [OF service]) auto
    moreover have "last_answer info d' (modes_from (Suc 0x4100)) = last_answer info d (modes_from 0x4100)"
      by (simp add: split last_answer_simps d'_def)
    ultimately show ?thesis
      using False last step [of w h] by (auto simp: split d'_def split: option.splits)
  qed
  show ?thesis
    by (simp add: setup_display_def Let_def first edid [symmetric] search split: option.split)
qed

section \<open>Entering the kernel\<close>

lemma elf_refused_bytes:
  "elf_refused (elf_header_at m a) \<longleftrightarrow>
     bytes_at m a 4 \<noteq> [0x7f, 0x45, 0x4c, 0x46] \<or> rd32 m (a + 20) \<noteq> 1 \<or> rd16 m (a + 18) \<noteq> 3 \<or> rd16 m (a + 16) \<noteq> 2"
proof -
  have "bytes_at m a 4 = [m a, m (a + 1), m (a + 2), m (a + 3)]"
    by (simp add: bytes_at_def upt_conv_Cons)
  then show ?thesis
    by (auto simp: elf_refused_def elf_header_at_def ELFMAG0_def ELFMAG1_def ELFMAG2_def ELFMAG3_def
        EV_CURRENT_def EM_386_def ET_EXEC_def byte_of_char_def)
qed

lemma ldrmain_cases:
  "load_kernel B l s = None \<Longrightarrow> ldrmain B l s = None"
  "load_kernel B l s = Some t \<Longrightarrow> elf_refused (elf_header_at (mem t) KERNEL_IMAGE_ADDR) \<Longrightarrow>
     ldrmain B l s = Some (Refused, t)"
  "load_kernel B l s = Some t \<Longrightarrow> \<not> elf_refused (elf_header_at (mem t) KERNEL_IMAGE_ADDR) \<Longrightarrow>
     \<exists>e i u. ldrmain B l s = Some (Entered e i, u)"
  by (simp_all add: ldrmain_def Let_def split: prod.split)

text \<open>
  A file that does not start as a 32-bit x86 executable does is refused, with memory as it
  was loaded and no video mode set, and nothing else is refused. When loading itself has no
  result (a division by zero in the parameter block, an index beyond the directory), the loader
  has none.
\<close>

theorem ldrmain_refuses:
  "(ldrmain B l s = Some (Refused, u) \<longleftrightarrow> load_kernel B l s = Some u \<and>
     \<not> (bytes_at (mem u) KERNEL_IMAGE_ADDR 4 = [0x7f, 0x45, 0x4c, 0x46] \<and>
        rd32 (mem u) (KERNEL_IMAGE_ADDR + 20) = 1 \<and> rd16 (mem u) (KERNEL_IMAGE_ADDR + 18) = 3 \<and>
        rd16 (mem u) (KERNEL_IMAGE_ADDR + 16) = 2)) \<and>
   (ldrmain B l s = None \<longleftrightarrow> load_kernel B l s = None)"
proof -
  have "(ldrmain B l s = Some (Refused, u) \<longleftrightarrow> load_kernel B l s = Some u \<and>
      elf_refused (elf_header_at (mem u) KERNEL_IMAGE_ADDR)) \<and>
    (ldrmain B l s = None \<longleftrightarrow> load_kernel B l s = None)"
  proof (cases "load_kernel B l s")
    case None
    then show ?thesis by (simp add: ldrmain_cases(1))
  next
    case (Some t)
    then show ?thesis
      using ldrmain_cases(2,3) [OF Some] by (cases "elf_refused (elf_header_at (mem t) KERNEL_IMAGE_ADDR)") auto
  qed
  then show ?thesis unfolding elf_refused_bytes by blast
qed

text \<open>
  C14. An accepted image is started: every segment of the file has its bytes at the physical
  address of its program header, memory outside the segments is as it was loaded (so that what
  a header asks for beyond the bytes in the file is not cleared), the display is set up as
  \<open>setup_display\<close> does it, and the kernel is entered at the entry point of the header, with the
  boot drive and the reported mode as its boot information.
\<close>

theorem ldrmain_starts_kernel:
  assumes load: "load_kernel B l s = Some t" and h: "h = elf_header_at (mem t) KERNEL_IMAGE_ADDR" "\<not> elf_refused h"
    and image: "image_ok (mem t) sz" and display: "setup_display B l t = (mode, v)"
  shows "\<exists>u. ldrmain B l s = Some (Entered (e_entry h)
      \<lparr>boot_drive = drive l, display_info = \<lparr>info_w = width mode, info_h = height mode,
         info_pitch = pitch mode, info_bpp = bpp mode, info_fb = vesa_modeinfo.framebuffer mode\<rparr>\<rparr>, u) \<and>
    u = v\<lparr>mem := mem u\<rparr> \<and>
    (\<forall>p\<in>set (program_headers (mem t)). bytes_at (mem u) (p_paddr p) (unat (p_filesz p)) =
       bytes_at (mem t) (KERNEL_IMAGE_ADDR + p_offset p) (unat (p_filesz p))) \<and>
    (\<forall>x. (\<forall>p\<in>set (program_headers (mem t)). x \<notin> region (p_paddr p) (unat (p_filesz p))) \<longrightarrow> mem u x = mem t x)"
proof -
  define m where "m = copy_segments (program_headers (mem t)) (mem t)"
  have copied: "load_segments (KERNEL_IMAGE_ADDR + e_phoff h) 0 t = t\<lparr>mem := m\<rparr>"
    using load_segments_copies [OF image, of t 0] by (simp add: m_def h(1))
  have "elf_header_at m KERNEL_IMAGE_ADDR = h"
    unfolding h(1)
  proof (intro elf_header_cong ballI)
    fix x :: u32 assume "x \<in> region KERNEL_IMAGE_ADDR 52"
    then have "x \<in> region KERNEL_IMAGE_ADDR sz"
      using image region_mono [of 52 sz] by (auto simp: image_ok_def Let_def)
    then have "x \<notin> \<Union> (target ` set (program_headers (mem t)))" using image by (auto simp: image_ok_def)
    then show "m x = mem t x" unfolding m_def by (rule copy_segments_other)
  qed
  moreover have "setup_display B l (t\<lparr>mem := m\<rparr>) = (mode, v\<lparr>mem := m\<rparr>)"
    using display by (auto simp: setup_display_def set_vesa_mode_def Let_def split: option.splits prod.splits if_splits)
  ultimately have "ldrmain B l s = Some (Entered (e_entry h)
      \<lparr>boot_drive = drive l, display_info = \<lparr>info_w = width mode, info_h = height mode,
         info_pitch = pitch mode, info_bpp = bpp mode, info_fb = vesa_modeinfo.framebuffer mode\<rparr>\<rparr>, v\<lparr>mem := m\<rparr>)"
    using h(2) by (simp add: ldrmain_def load h(1) [symmetric] copied Let_def)
  moreover have "\<forall>p\<in>set (program_headers (mem t)). bytes_at m (p_paddr p) (unat (p_filesz p)) =
      bytes_at (mem t) (KERNEL_IMAGE_ADDR + p_offset p) (unat (p_filesz p))"
    unfolding m_def using image by (intro copy_segments_bytes) (auto simp: image_ok_def Let_def)
  moreover have "m x = mem t x" if "\<forall>p\<in>set (program_headers (mem t)). x \<notin> target p" for x
    unfolding m_def using that by (intro copy_segments_other) auto
  ultimately show ?thesis by (intro exI [of _ "v\<lparr>mem := m\<rparr>"]) simp
qed

lemma other_field_simps:
  "apart a 1 b 2 \<Longrightarrow> rd16 (wr8 a u m) b = rd16 m b" "apart a 4 b 2 \<Longrightarrow> rd16 (wr32 a w m) b = rd16 m b"
  "apart a 2 b 1 \<Longrightarrow> rd8 (wr16 a v m) b = rd8 m b"
  by (intro rd16_cong wr8_other, erule (1) apart_notin) (intro rd16_cong wr32_other rd8_cong wr16_other, erule (1) apart_notin)+

text \<open>What is written there is what the kernel reads.\<close>

lemma boot_info_roundtrip:
  fixes a :: u32 and m :: mem and info :: bootloader_info
  defines "m' \<equiv> write_boot_info a info m"
  shows "boot_w m' a = ucast (info_w (display_info info)) \<and> boot_h m' a = ucast (info_h (display_info info)) \<and>
    boot_pitch m' a = ucast (info_pitch (display_info info)) \<and> boot_bpp m' a = ucast (info_bpp (display_info info)) \<and>
    boot_fb m' a = info_fb (display_info info) \<and> rd8 m' a = boot_drive info"
  by (simp add: m'_def write_boot_info_def Let_def boot_w_def boot_h_def boot_pitch_def boot_bpp_def boot_fb_def mem_simps
      other_field_simps apart_def)

section \<open>A small machine\<close>

text \<open>The small disk, a display of 640 by 480 and a BIOS with two modes.\<close>

definition small_modes :: "u16 \<Rightarrow> vesa_modeinfo option" where
  "small_modes m =
     (if m = 0x4101 then Some (no_mode\<lparr>attrib := 0x9b, width := 640, height := 480, pitch := 2560, bpp := 32,
        mem_model := 6, framebuffer := 0xfd000000\<rparr>)
      else if m = 0x4115 then Some (no_mode\<lparr>attrib := 0x9b, width := 800, height := 600, pitch := 3200, bpp := 32,
        mem_model := 6, framebuffer := 0xfd000000\<rparr>)
      else None)"

definition small_edid :: edid_record where
  "small_edid = no_edid\<lparr>padding := 0x00ffffffffffff00,
     timing_descr1 := no_timing\<lparr>h_active_time := 0x80, h_active_blank_time := 0x20,
       v_active_time := 0xe0, v_active_blank_time := 0x10\<rparr>\<rparr>"

definition small_pc :: bios where
  "small_pc = (small_bios small_disk)\<lparr>
     vesa_info := (\<lambda>m x. case small_modes m of None \<Rightarrow> x | Some i \<Rightarrow> i), edid_info := (\<lambda>_. small_edid)\<rparr>"

lemma small_pc_service: "vesa_service small_pc small_modes"
  by (simp add: vesa_service_def small_pc_def)

lemma small_pc_edid: "edid_info small_pc x = small_edid" "edid_width small_edid = 640" "edid_height small_edid = 480"
  by (simp_all add: small_pc_def edid_width_def edid_height_def small_edid_def)

theorem setup_display_first_fit_witness:
  "let (mode, t) = setup_display small_pc small_locals (small_loader small_bpb)
   in width mode = 640 \<and> bpp mode = 32 \<and> modes_set t = [0x4101]"
proof -
  have "modes_from 0x4100 = 0x4100 # 0x4101 # modes_from 0x4102"
    using modes_from_step [of "0x4100"] modes_from_step [of "0x4101"] by simp
  moreover have "fits small_modes 640 480 0x4101" "\<not> fits small_modes 640 480 0x4100"
    by (simp_all add: fits_def small_modes_def mode_fits_def)
  moreover have "small_modes 0x4115 \<noteq> None" "\<not> mode_fits 640 480 (the (small_modes 0x4115))"
    by (simp_all add: small_modes_def mode_fits_def)
  moreover have "padding small_edid = 0x00ffffffffffff00" by (simp add: small_edid_def)
  ultimately show ?thesis
    using setup_display_first_fit [OF small_pc_service _ small_pc_edid(1) [symmetric] refl refl,
        of "the (small_modes 0x4115)" small_locals "small_loader small_bpb"]
    by (simp add: small_pc_edid) (simp add: small_modes_def set_vesa_mode_def small_loader_def)
qed

lemma small_pc_loads:
  "\<exists>t. load_kernel small_pc small_locals (small_loader small_bpb) = Some t \<and> t = small_loader (mem t) \<and>
     bytes_at (mem t) KERNEL_IMAGE_ADDR 88 = small_image"
proof -
  have [simp]: "mem (small_loader small_bpb) = small_bpb" by (simp add: small_loader_def)
  have "boot_drive_ok small_pc small_disk 32 64 small_locals small_bpb"
    using small_drive_ok by (simp add: boot_drive_ok_def disk_service_def small_pc_def)
  moreover have "file_bytes small_disk 3 1 [2, 3] = small_image @ replicate 424 0 @ replicate 512 0x22"
    by (simp add: file_bytes_def cluster_sector_def sectors_def small_disk_def)
  moreover have "first_data_sect (bpb (small_loader small_bpb)) = Some 3"
    by (simp add: first_data_sect_def small_bpb_fields root_sect_def)
  moreover have "\<forall>c\<in>set [2, 3]. reachable_cluster 32 64 3 1 c"
    by (simp add: reachable_cluster_def cluster_sector_def)
  ultimately have "\<exists>t. load_kernel small_pc small_locals (small_loader small_bpb) = Some t \<and>
      t = (small_loader small_bpb)\<lparr>mem := mem t\<rparr> \<and>
      bytes_at (mem t) KERNEL_IMAGE_ADDR 1024 = small_image @ replicate 424 0 @ replicate 512 0x22"
    using load_kernel_file [where s = "small_loader small_bpb" and l = small_locals and k = 1 and spc = 1
        and cs = "[2, 3]" and first = 3 and m = "tables_read small_disk small_locals small_bpb"
        and spt = 32 and heads = 64 and disk = small_disk and B = small_pc] small_entries
    by (simp add: small_bpb_fields) (auto simp: small_locals_def)
  then obtain t where t: "load_kernel small_pc small_locals (small_loader small_bpb) = Some t"
    "t = (small_loader small_bpb)\<lparr>mem := mem t\<rparr>"
    "bytes_at (mem t) KERNEL_IMAGE_ADDR (88 + 936) = small_image @ replicate 424 0 @ replicate 512 0x22" by auto
  have "length small_image = 88" by (simp add: small_image_def)
  then have "bytes_at (mem t) KERNEL_IMAGE_ADDR 88 = small_image"
    using t(3) unfolding bytes_at_add by (simp add: append_eq_append_conv)
  moreover have "t = small_loader (mem t)" using t(2) by (simp add: small_loader_def)
  ultimately show ?thesis using t(1) by auto
qed

lemma small_image_memory:
  assumes "bytes_at m KERNEL_IMAGE_ADDR 88 = small_image"
  shows "elf_header_at m KERNEL_IMAGE_ADDR =
      \<lparr>e_ident = [0x7f, 0x45, 0x4c, 0x46, 1, 1, 1, 0, 0, 0, 0, 0, 0, 0, 0, 0], e_type = 2, e_machine = 3,
       e_version = 1, e_entry = 0x100000, e_phoff = 52, e_shoff = 0, e_flags = 0, e_ehsize = 52,
       e_phentsize = 32, e_phnum = 1, e_shentsize = 0, e_shnum = 0, e_shstrndx = 0\<rparr>"
    "program_headers m = [\<lparr>p_type = 1, p_offset = 84, p_vaddr = 0x100000, p_paddr = 0x100000,
       p_filesz = 4, p_memsz = 8, p_flags = 5, p_align = 0\<rparr>]"
    "bytes_at m 0x40054 4 = [0xfa, 0xf4, 0xeb, 0xfe]"
proof -
  have b: "m x = small_image ! unat (x - 0x40000)" if "unat (x - 0x40000) < 88" for x
  proof -
    have "KERNEL_IMAGE_ADDR + of_nat (unat (x - 0x40000)) = x" by (simp add: KERNEL_IMAGE_ADDR_def)
    then show ?thesis using nth_bytes_at [OF that, of m KERNEL_IMAGE_ADDR] assms by simp
  qed
  show h: "elf_header_at m KERNEL_IMAGE_ADDR =
      \<lparr>e_ident = [0x7f, 0x45, 0x4c, 0x46, 1, 1, 1, 0, 0, 0, 0, 0, 0, 0, 0, 0], e_type = 2, e_machine = 3,
       e_version = 1, e_entry = 0x100000, e_phoff = 52, e_shoff = 0, e_flags = 0, e_ehsize = 52,
       e_phentsize = 32, e_phnum = 1, e_shentsize = 0, e_shnum = 0, e_shstrndx = 0\<rparr>"
    by (simp add: elf_header_at_def KERNEL_IMAGE_ADDR_def rd16_def rd32_def bytes_at_def b upt_conv_Cons)
      (simp add: small_image_def)
  show "program_headers m = [\<lparr>p_type = 1, p_offset = 84, p_vaddr = 0x100000, p_paddr = 0x100000,
       p_filesz = 4, p_memsz = 8, p_flags = 5, p_align = 0\<rparr>]"
    by (simp add: program_headers_def h [unfolded KERNEL_IMAGE_ADDR_def] program_header_at_def rd32_def KERNEL_IMAGE_ADDR_def b)
      (simp add: small_image_def)
  show "bytes_at m 0x40054 4 = [0xfa, 0xf4, 0xeb, 0xfe]"
    by (simp add: bytes_at_def b upt_conv_Cons) (simp add: small_image_def)
qed

theorem ldrmain_starts_kernel_witness:
  "\<exists>i u. ldrmain small_pc small_locals (small_loader small_bpb) = Some (Entered 0x100000 i, u) \<and>
     boot_drive i = 0x80 \<and> bytes_at (mem u) 0x100000 4 = [0xfa, 0xf4, 0xeb, 0xfe]"
proof -
  obtain t where t: "load_kernel small_pc small_locals (small_loader small_bpb) = Some t"
    "t = small_loader (mem t)" "bytes_at (mem t) KERNEL_IMAGE_ADDR 88 = small_image"
    using small_pc_loads by auto
  note m = small_image_memory [OF t(3)]
  have "\<not> elf_refused (elf_header_at (mem t) KERNEL_IMAGE_ADDR)"
    by (simp add: m elf_refused_def ELFMAG0_def ELFMAG1_def ELFMAG2_def ELFMAG3_def EV_CURRENT_def EM_386_def
        ET_EXEC_def byte_of_char_def)
  moreover have "image_ok (mem t) 88"
  proof -
    have "region 0x100000 4 \<inter> region KERNEL_IMAGE_ADDR 88 = {}"
      by (intro apart_disjoint) (simp add: apart_def KERNEL_IMAGE_ADDR_def)
    then show ?thesis by (simp add: image_ok_def m Let_def)
  qed
  moreover obtain mode v where mode: "setup_display small_pc small_locals t = (mode, v)" by fastforce
  ultimately show ?thesis
    using ldrmain_starts_kernel [OF t(1) refl, of 88 mode v] m(3)
    by (simp add: m) (auto simp: KERNEL_IMAGE_ADDR_def small_locals_def m(3))
qed

end
