(* ===== verification/Kernel_Entry.thy ===== *)
theory Kernel_Entry
  imports Tasks Example_Machine
begin

text \<open>
  The first instructions of the kernel, \<open>src/kernel/entry.asm\<close>: the initial page tables, the
  jump to the upper half, and the call of \<open>kmain\<close>. The addresses the linker gives to the
  labels are parameters. The state is that of the tasks with the other registers of the
  processor.
\<close>

record processor = tasks +
  cr0 :: u32
  cr2 :: u32
  cs_reg :: u16
  ds_reg :: u16
  es_reg :: u16
  fs_reg :: u16
  gs_reg :: u16
  eflags :: u32

record entry_labels =
  boot_info_ptr :: u32
  page_directory :: u32
  k_start :: u32
  stack_end :: u32
  kmain_addr :: u32
  kmain_return :: u32

definition page_table_0 :: "entry_labels \<Rightarrow> u32" where
  "page_table_0 l = page_directory l + 4096"

text \<open>The loop over the table, from its first instruction: \<open>loop\<close> lowers \<open>ecx\<close> and goes on
  while it is not zero.\<close>

function table_loop :: "'a tasks_scheme \<Rightarrow> 'a tasks_scheme" where
  "table_loop s =
     (let s = s\<lparr>cpu := (cpu s)\<lparr>eax := esi (cpu s)\<rparr>\<rparr>;
          s = s\<lparr>cpu := (cpu s)\<lparr>eax := eax (cpu s) + 3\<rparr>\<rparr>;
          s = s\<lparr>mem := wr32 (edi (cpu s)) (eax (cpu s)) (mem s)\<rparr>;
          s = s\<lparr>cpu := (cpu s)\<lparr>esi := esi (cpu s) + 4096\<rparr>\<rparr>;
          s = s\<lparr>cpu := (cpu s)\<lparr>edi := edi (cpu s) + 4\<rparr>\<rparr>;
          s = s\<lparr>cpu := (cpu s)\<lparr>ecx := ecx (cpu s) - 1\<rparr>\<rparr>
      in if ecx (cpu s) \<noteq> 0 then table_loop s else s)"
  by pat_completeness auto
termination
proof (relation "measure (\<lambda>s. unat (ecx (cpu s) - 1))", goal_cases)
  case 1
  show ?case by simp
next
  case (2 s s1 s2 s3 s4 s5 s6)
  then have "ecx (cpu s6) \<noteq> 0" "ecx (cpu s6) = ecx (cpu s) - 1" by simp_all
  moreover have "unat (x - 1) < unat x" if "x \<noteq> 0" for x :: u32
  proof -
    have "0 < unat x" using that by (simp add: unat_gt_0)
    then show ?thesis by (simp add: unat_sub32)
  qed
  ultimately show ?case unfolding in_measure by metis
qed

declare table_loop.simps [simp del]

text \<open>From \<open>_start\<close> to the jump, with paging enabled by bits 31 and 16 of \<open>cr0\<close>.\<close>

definition start_paging :: "entry_labels \<Rightarrow> 'a processor_scheme \<Rightarrow> 'a processor_scheme" where
  "start_paging l s =
     (let s = s\<lparr>cpu := (cpu s)\<lparr>eax := rd32 (mem s) (esp s + 4)\<rparr>\<rparr>;
          s = s\<lparr>mem := wr32 (boot_info_ptr l) (eax (cpu s)) (mem s)\<rparr>;
          s = s\<lparr>cpu := (cpu s)\<lparr>edi := page_table_0 l, esi := 0, ecx := 1023\<rparr>\<rparr>;
          s = table_loop s;
          s = s\<lparr>mem := wr32 (page_table_0 l + 1023 * 4) 0xB8003 (mem s)\<rparr>;
          s = s\<lparr>cpu := (cpu s)\<lparr>eax := page_table_0 l + 3\<rparr>\<rparr>;
          s = s\<lparr>mem := wr32 (page_directory l) (eax (cpu s)) (mem s)\<rparr>;
          s = s\<lparr>mem := wr32 (page_directory l + 768 * 4) (eax (cpu s)) (mem s)\<rparr>;
          s = s\<lparr>cpu := (cpu s)\<lparr>eax := page_directory l\<rparr>\<rparr>;
          s = s\<lparr>cr3 := eax (cpu s)\<rparr>;
          s = s\<lparr>cpu := (cpu s)\<lparr>eax := cr0 s\<rparr>\<rparr>;
          s = s\<lparr>cpu := (cpu s)\<lparr>eax := eax (cpu s) OR 0x80010000\<rparr>\<rparr>;
          s = s\<lparr>cr0 := eax (cpu s)\<rparr>;
          s = s\<lparr>cpu := (cpu s)\<lparr>ecx := k_start l\<rparr>\<rparr>
      in s\<lparr>eip := ecx (cpu s)\<rparr>)"

text \<open>From \<open>_k_start\<close> to the first instruction of \<open>kmain\<close>, which finds its argument above the
  return address.\<close>

definition enter_kmain :: "entry_labels \<Rightarrow> 'a processor_scheme \<Rightarrow> 'a processor_scheme" where
  "enter_kmain l s =
     (let s = s\<lparr>esp := stack_end l\<rparr>;
          s = s\<lparr>cpu := (cpu s)\<lparr>eax := rd32 (mem s) (boot_info_ptr l)\<rparr>\<rparr>;
          s = push32 (eax (cpu s)) s;
          s = push32 (kmain_return l) s
      in s\<lparr>eip := kmain_addr l\<rparr>)"

section \<open>The tables\<close>

primrec fill_table :: "nat \<Rightarrow> u32 \<Rightarrow> u32 \<Rightarrow> mem \<Rightarrow> mem" where
  "fill_table 0 a p m = m"
| "fill_table (Suc n) a p m = fill_table n (a + 4) (p + 4096) (wr32 a (p + 3) m)"

lemma table_loop_fill:
  "ecx (cpu s) = of_nat n \<Longrightarrow> 0 < n \<Longrightarrow> n < 4294967296 \<Longrightarrow>
   \<exists>c. table_loop s = s\<lparr>cpu := c, mem := fill_table n (edi (cpu s)) (esi (cpu s)) (mem s)\<rparr>"
proof (induction n arbitrary: s)
  case (Suc n)
  define s1 where "s1 = s\<lparr>cpu := (cpu s)\<lparr>eax := esi (cpu s)\<rparr>\<rparr>"
  define s2 where "s2 = s1\<lparr>cpu := (cpu s1)\<lparr>eax := eax (cpu s1) + 3\<rparr>\<rparr>"
  define s3 where "s3 = s2\<lparr>mem := wr32 (edi (cpu s2)) (eax (cpu s2)) (mem s2)\<rparr>"
  define s4 where "s4 = s3\<lparr>cpu := (cpu s3)\<lparr>esi := esi (cpu s3) + 4096\<rparr>\<rparr>"
  define s5 where "s5 = s4\<lparr>cpu := (cpu s4)\<lparr>edi := edi (cpu s4) + 4\<rparr>\<rparr>"
  define s' where "s' = s5\<lparr>cpu := (cpu s5)\<lparr>ecx := ecx (cpu s5) - 1\<rparr>\<rparr>"
  note S = s1_def s2_def s3_def s4_def s5_def s'_def
  have step: "table_loop s = (if ecx (cpu s') \<noteq> 0 then table_loop s' else s')"
    unfolding table_loop.simps [of s] Let_def S ..
  have mem: "mem s' = wr32 (edi (cpu s)) (esi (cpu s) + 3) (mem s)"
    and regs: "edi (cpu s') = edi (cpu s) + 4" "esi (cpu s') = esi (cpu s) + 4096" "ecx (cpu s') = ecx (cpu s) - 1"
    and rest: "s'\<lparr>cpu := d, mem := m\<rparr> = s\<lparr>cpu := d, mem := m\<rparr>" for d m
    by (simp_all add: S)
  have c: "ecx (cpu s') = of_nat n" using Suc.prems(1) regs(3) by simp
  show ?case
  proof (cases "n = 0")
    case True
    then have "table_loop s = s\<lparr>cpu := cpu s', mem := mem s'\<rparr>"
      using c by (simp add: step flip: rest)
    then show ?thesis using True by (auto simp: mem)
  next
    case False
    then have "unat (of_nat n :: u32) \<noteq> 0" using Suc.prems(3) by (simp add: unsigned_of_nat take_bit_eq_mod)
    then have "ecx (cpu s') \<noteq> 0" unfolding c by (metis unat_0)
    moreover obtain d where "table_loop s' = s'\<lparr>cpu := d, mem := fill_table n (edi (cpu s')) (esi (cpu s')) (mem s')\<rparr>"
      using Suc.IH [OF c] False Suc.prems(3) by auto
    ultimately have "table_loop s = s'\<lparr>cpu := d, mem := fill_table n (edi (cpu s')) (esi (cpu s')) (mem s')\<rparr>"
      by (simp add: step)
    then show ?thesis by (auto simp: mem regs rest)
  qed
qed simp

lemma fill_table_other:
  "x \<notin> region a (4 * n) \<Longrightarrow> n \<le> 1024 \<Longrightarrow> fill_table n a p m x = m x"
proof (induction n arbitrary: a p m)
  case (Suc n)
  have "region (a + of_nat 4) (4 * n) \<subseteq> region a (4 * Suc n)" "region a 4 \<subseteq> region a (4 * Suc n)"
    using Suc.prems(2) by (intro region_offset region_mono, simp_all)+
  then have "x \<notin> region (a + 4) (4 * n)" "x \<notin> region a 4" using Suc.prems(1) by auto
  then show ?case using Suc.IH Suc.prems(2) by (simp add: wr32_other)
qed simp

lemma fill_table_entry:
  "i < n \<Longrightarrow> n \<le> 1024 \<Longrightarrow> rd32 (fill_table n a p m) (a + 4 * of_nat i) = p + 4096 * of_nat i + 3"
proof (induction n arbitrary: a p m i)
  case (Suc n)
  show ?case
  proof (cases i)
    case 0
    have "apart (a + 4) (4 * n) a 4" using Suc.prems(2) by (simp add: apart_def)
    then have "rd32 (fill_table n (a + 4) (p + 4096) (wr32 a (p + 3) m)) a = rd32 (wr32 a (p + 3) m) a"
      using Suc.prems(2) by (intro rd32_cong fill_table_other) (auto dest: apart_notin)
    then show ?thesis by (simp add: 0 mem_simps)
  next
    case (Suc j)
    then have "rd32 (fill_table n (a + 4) (p + 4096) (wr32 a (p + 3) m)) (a + 4 + 4 * of_nat j) =
        p + 4096 + 4096 * of_nat j + 3"
      using Suc.IH Suc.prems by simp
    then show ?thesis by (simp add: Suc algebra_simps)
  qed
qed simp

lemma decode_plus_3:
  assumes "page_aligned p"
  shows "decode (p + 3) = Some p"
proof -
  obtain k where k: "unat p = 4096 * k" using assms by (auto simp: page_aligned_def)
  then have u: "unat (p + 3) = 4096 * k + 3"
    using unat_lt32 [of p] by (simp add: unat_word_ariths) 
  have "p = of_nat (unat p)" by simp
  then have "p = of_nat (4096 * k)" unfolding k .
  then have "p + 3 = 2 * (2048 * of_nat k + 1) + 1" by simp
  moreover have "odd (2 * x + 1)" for x :: u32 by simp
  ultimately have "odd (p + 3)" by metis
  then have "entry_present (p + 3)" by (simp add: entry_present_def bit_0)
  moreover have "unat (entry_base (p + 3)) = unat p" by (simp add: unat_entry_base u k)
  ultimately show ?thesis by (simp add: decode_def word_unat_eq_iff)
qed

definition entry_memory :: "entry_labels \<Rightarrow> u32 \<Rightarrow> mem \<Rightarrow> mem" where
  "entry_memory l arg m =
     wr32 (page_directory l + 4 * 768) (page_table_0 l + 3) (wr32 (page_directory l + 4 * 0) (page_table_0 l + 3)
       (wr32 (page_table_0 l + 4 * 1023) 0xB8003
         (fill_table 1023 (page_table_0 l) 0 (wr32 (boot_info_ptr l) arg m))))"

lemma start_paging_eq:
  "\<exists>c. start_paging l s = s\<lparr>mem := entry_memory l (rd32 (mem s) (esp s + 4)) (mem s),
     cr3 := page_directory l, cr0 := cr0 s OR 0x80010000, cpu := c, eip := k_start l\<rparr>"
proof -
  define arg where "arg = rd32 (mem s) (esp s + 4)"
  define s1 where "s1 = s\<lparr>mem := wr32 (boot_info_ptr l) arg (mem s),
      cpu := (cpu s)\<lparr>eax := arg, edi := page_table_0 l, esi := 0, ecx := 1023\<rparr>\<rparr>"
  obtain c where "table_loop s1 = s1\<lparr>cpu := c, mem := fill_table 1023 (edi (cpu s1)) (esi (cpu s1)) (mem s1)\<rparr>"
    using table_loop_fill [of s1 1023] by (auto simp: s1_def)
  then have loop: "table_loop s1 = s\<lparr>cpu := c, mem := fill_table 1023 (page_table_0 l) 0 (wr32 (boot_info_ptr l) arg (mem s))\<rparr>"
    by (simp add: s1_def)
  have "start_paging l s = (let s = table_loop s1;
          s = s\<lparr>mem := wr32 (page_table_0 l + 1023 * 4) 0xB8003 (mem s)\<rparr>;
          s = s\<lparr>cpu := (cpu s)\<lparr>eax := page_table_0 l + 3\<rparr>\<rparr>;
          s = s\<lparr>mem := wr32 (page_directory l) (eax (cpu s)) (mem s)\<rparr>;
          s = s\<lparr>mem := wr32 (page_directory l + 768 * 4) (eax (cpu s)) (mem s)\<rparr>;
          s = s\<lparr>cpu := (cpu s)\<lparr>eax := page_directory l\<rparr>\<rparr>;
          s = s\<lparr>cr3 := eax (cpu s)\<rparr>;
          s = s\<lparr>cpu := (cpu s)\<lparr>eax := cr0 s\<rparr>\<rparr>;
          s = s\<lparr>cpu := (cpu s)\<lparr>eax := eax (cpu s) OR 0x80010000\<rparr>\<rparr>;
          s = s\<lparr>cr0 := eax (cpu s)\<rparr>;
          s = s\<lparr>cpu := (cpu s)\<lparr>ecx := k_start l\<rparr>\<rparr>
      in s\<lparr>eip := ecx (cpu s)\<rparr>)"
    by (simp add: start_paging_def Let_def s1_def arg_def)
  then show ?thesis
    unfolding loop by (intro exI [of _ "c\<lparr>eax := cr0 s OR 0x80010000, ecx := k_start l\<rparr>"], simp add: Let_def entry_memory_def arg_def)
qed

text \<open>What the labels have to satisfy: the two tables are whole pages, as the section they are
  in is aligned, and the saved pointer is not inside.\<close>

definition entry_labels_ok :: "entry_labels \<Rightarrow> bool" where
  "entry_labels_ok l \<longleftrightarrow> page_aligned (page_directory l) \<and> unat (page_directory l) + 8192 \<le> 4294967296 \<and>
     apart (boot_info_ptr l) 4 (page_directory l) 8192"

lemma table_pages:
  assumes "entry_labels_ok l"
  shows "page_aligned (page_directory l)" "page_aligned (page_table_0 l)" "page_table_0 l \<noteq> page_directory l"
proof -
  show d: "page_aligned (page_directory l)" using assms by (simp add: entry_labels_ok_def)
  have "unat (page_table_0 l) = unat (page_directory l) + 4096"
    using assms by (simp add: entry_labels_ok_def page_table_0_def unat_word_ariths)
  then show "page_aligned (page_table_0 l)" "page_table_0 l \<noteq> page_directory l"
    using d by (auto simp: page_aligned_def)
qed

lemma entry_memory_entries:
  assumes "entry_labels_ok l" "unat j < 1024"
  shows "rd32 (entry_memory l arg m) (page_table_0 l + 4 * j) = (if j = 1023 then 0xB8003 else 4096 * j + 3)"
    "j \<in> {0, 768} \<Longrightarrow> rd32 (entry_memory l arg m) (page_directory l + 4 * j) = page_table_0 l + 3"
proof -
  note T = table_pages [OF assms(1)]
  let ?f = "fill_table 1023 (page_table_0 l) 0 (wr32 (boot_info_ptr l) arg m)"
  have "rd32 ?f (page_table_0 l + 4 * j) = 4096 * j + 3" if "j \<noteq> 1023"
  proof -
    have "unat j \<noteq> 1023" using that by (simp add: word_unat_eq_iff)
    then show ?thesis using fill_table_entry [of "unat j" 1023 "page_table_0 l" 0] assms(2) by simp
  qed
  then show "rd32 (entry_memory l arg m) (page_table_0 l + 4 * j) = (if j = 1023 then 0xB8003 else 4096 * j + 3)"
    using T(3) unfolding entry_memory_def
    by (subst rd32_entry_write [OF T(1,2) _ assms(2)], simp)+ (subst rd32_entry_write [OF T(2,2) _ assms(2)], simp_all)
  show "rd32 (entry_memory l arg m) (page_directory l + 4 * j) = page_table_0 l + 3" if "j \<in> {0, 768}"
    using that unfolding entry_memory_def by (subst rd32_entry_write [OF T(1,1) _ assms(2)], simp)+ auto
qed

lemma entry_memory_outside:
  assumes "x \<notin> region (page_directory l) 8192"
  shows "entry_memory l arg m x = wr32 (boot_info_ptr l) arg m x"
proof -
  have "region (page_directory l + of_nat i) n \<subseteq> region (page_directory l) 8192" if "i + n \<le> 8192" for i n
    using that by (intro region_offset) simp_all
  then have out: "x \<notin> region (page_directory l + of_nat i) n" if "i + n \<le> 8192" for i n using assms that by blast
  show ?thesis
    using out [of 3072 4] out [of 0 4] out [of 8188 4] out [of 4096 4092]
    by (simp add: entry_memory_def page_table_0_def wr32_other fill_table_other add.assoc)
qed

lemma entry_memory_other:
  "x \<notin> region (page_directory l) 8192 \<Longrightarrow> x \<notin> region (boot_info_ptr l) 4 \<Longrightarrow> entry_memory l arg m x = m x"
  by (simp add: entry_memory_outside wr32_other)

lemma entry_memory_pointer:
  assumes "entry_labels_ok l"
  shows "rd32 (entry_memory l arg m) (boot_info_ptr l) = arg"
proof -
  have "x \<notin> region (page_directory l) 8192" if "x \<in> region (boot_info_ptr l) 4" for x
    using assms that by (auto simp: entry_labels_ok_def apart_sym dest: apart_notin)
  then have "rd32 (entry_memory l arg m) (boot_info_ptr l) = rd32 (wr32 (boot_info_ptr l) arg m) (boot_info_ptr l)"
    by (intro rd32_cong entry_memory_outside) blast
  then show ?thesis by (simp add: mem_simps)
qed

lemma entry_memory_unset:
  assumes ok: "entry_labels_ok l" and i: "unat i < 1024" "i \<notin> {0, 768}"
  shows "rd32 (entry_memory l arg m) (page_directory l + 4 * i) = rd32 m (page_directory l + 4 * i)"
proof -
  note T = table_pages [OF ok]
  let ?m1 = "wr32 (boot_info_ptr l) arg m"
  have part: "region (page_directory l + 4 * i) 4 \<subseteq> region (page_directory l) n" if "4096 \<le> n" "n \<le> 8192" for n
    using region_offset [of "4 * unat i" 4 n "page_directory l"] i(1) that by simp
  have sub: "x \<in> region (page_directory l) 4096" "x \<in> region (page_directory l) 8192"
    if "x \<in> region (page_directory l + 4 * i) 4" for x using part [of 4096] part [of 8192] that by auto
  have ap: "apart (page_table_0 l) (4 * 1023) (page_directory l) 4096"
    by (simp add: apart_def page_table_0_def)
  have bi: "apart (boot_info_ptr l) 4 (page_directory l) 8192" using ok by (simp add: entry_labels_ok_def)
  have "x \<notin> region (boot_info_ptr l) 4 \<and> x \<notin> region (page_table_0 l) (4 * 1023)"
    if "x \<in> region (page_directory l + 4 * i) 4" for x
    using apart_notin [OF ap sub(1) [OF that]] apart_notin [OF bi sub(2) [OF that]] by (rule conjI [rotated])
  then have "rd32 (fill_table 1023 (page_table_0 l) 0 ?m1) (page_directory l + 4 * i) = rd32 m (page_directory l + 4 * i)"
    by (intro rd32_cong) (simp add: fill_table_other wr32_other)
  then show ?thesis
    unfolding entry_memory_def using T(3) i(2)
    by (subst rd32_entry_write [OF T(1,1) _ i(1)], simp)+ (subst rd32_entry_write [OF T(2,1) _ i(1)], auto)
qed

lemma pt_index_page: "4096 * pt_index v = v AND 0x003ff000"
proof -
  have "4096 * pt_index v = entry_base (v AND 0x003ff000)"
    by (simp add: pt_index_def entry_base_def entry_address_def push_bit_eq_mult)
  then show ?thesis by (simp add: entry_base_mask and.assoc)
qed

lemma entry_translation:
  assumes ok: "entry_labels_ok l" and v: "pd_index v \<in> {0, 768}"
  shows "walk (entry_memory l arg m) (page_directory l) v =
    Some (if pt_index v = 1023 then 0xb8000 else v AND 0x003ff000)"
proof -
  note T = table_pages [OF ok]
  let ?m = "entry_memory l arg m"
  have "decode (page_table_0 l + 3) = Some (page_table_0 l)" by (rule decode_plus_3 [OF T(2)])
  then have "entry_present (page_table_0 l + 3)" "entry_base (page_table_0 l + 3) = page_table_0 l"
    by (auto simp: decode_def split: if_splits)
  then have "slot ?m (page_directory l) v = Some (page_table_0 l + 4 * pt_index v)"
    using entry_memory_entries(2) [OF ok pd_index_lt v] by (simp add: slot_def)
  then have "walk ?m (page_directory l) v = decode (if pt_index v = 1023 then 0xB8003 else 4096 * pt_index v + 3)"
    using entry_memory_entries(1) [OF ok pt_index_lt] by (simp add: walk_def)
  also have "\<dots> = Some (if pt_index v = 1023 then 0xb8000 else 4096 * pt_index v)"
  proof -
    have "page_aligned 0xb8000" by (simp add: page_aligned_def)
    moreover have "page_aligned (4096 * pt_index v)"
      using pt_index_lt [of v] by (simp add: page_aligned_def unat_word_ariths)
    ultimately show ?thesis using decode_plus_3 [of "0xb8000"] decode_plus_3 [of "4096 * pt_index v"] by simp
  qed
  finally show ?thesis by (simp only: pt_index_page)
qed

section \<open>Properties\<close>

text \<open>
  C19. The entry code maps the kernel: when it jumps to the upper half, paging is on with the
  directory it has filled, the first 4 MiB of the address space and the 4 MiB at \<open>0xC0000000\<close>
  both translate to the first 4 MiB of memory, except that the last page of each is the text
  buffer at \<open>0xb8000\<close>. The pointer to the boot information is saved, and nothing else is
  written: the other 1022 entries of the directory are what memory held.
\<close>

theorem start_paging_maps_kernel:
  assumes ok: "entry_labels_ok l" and s': "s' = start_paging l s"
  shows "cr3 s' = page_directory l \<and> bit (cr0 s') 31 \<and> eip s' = k_start l \<and> esp s' = esp s \<and>
    (\<forall>v. pd_index v \<in> {0, 768} \<longrightarrow>
       walk (mem s') (cr3 s') v = Some (if pt_index v = 1023 then 0xb8000 else v AND 0x003ff000)) \<and>
    (\<forall>i. unat i < 1024 \<and> i \<notin> {0, 768} \<longrightarrow>
       rd32 (mem s') (cr3 s' + 4 * i) = rd32 (mem s) (cr3 s' + 4 * i)) \<and>
    rd32 (mem s') (boot_info_ptr l) = rd32 (mem s) (esp s + 4) \<and>
    (\<forall>x. x \<notin> region (page_directory l) 8192 \<and> x \<notin> region (boot_info_ptr l) 4 \<longrightarrow> mem s' x = mem s x)"
proof -
  define m arg where "m = mem s" and "arg = rd32 (mem s) (esp s + 4)"
  obtain c where c: "s' = s\<lparr>mem := entry_memory l arg m, cr3 := page_directory l,
      cr0 := cr0 s OR 0x80010000, cpu := c, eip := k_start l\<rparr>"
    unfolding s' m_def arg_def using start_paging_eq [of l s] by blast
  have arg: "arg = rd32 m (esp s + 4)" by (simp add: m_def arg_def)
  have "bit (cr0 s OR 0x80010000) 31" by (simp add: bit_or_iff)
  then show ?thesis
    using entry_translation [OF ok] entry_memory_unset [OF ok] entry_memory_pointer [OF ok] entry_memory_other
    by (simp add: c arg [symmetric] flip: m_def)
qed

definition entry_machine :: processor where
  "entry_machine = tasks.extend (dhcp.extend (udp.extend
      (booted (wr32 0x9004 0x7b00 (\<lambda>_. 0xff)) (\<lambda>_ _. 0) []) (dhcp.fields 0 [] []))
      (tasks.fields 0 0 0 \<lparr>eax = 1, ebx = 2, ecx = 3, edx = 4, esi = 5, edi = 6, ebp = 7\<rparr> 0x9000 0))
      (processor.fields 1 0 8 16 16 16 16 2)"

definition entry_machine_labels :: entry_labels where
  "entry_machine_labels = \<lparr>boot_info_ptr = 0x100200, page_directory = 0x101000, k_start = 0xC0104000,
     stack_end = 0xC0300000, kmain_addr = 0xC0105000, kmain_return = 0xC0104010\<rparr>"

lemma entry_machine_labels_ok: "entry_labels_ok entry_machine_labels"
  by (simp add: entry_labels_ok_def entry_machine_labels_def page_aligned_def apart_def)

theorem start_paging_maps_kernel_witness:
  "walk (mem (start_paging entry_machine_labels entry_machine)) 0x101000 0xC0104abc = Some 0x104000 \<and>
   rd32 (mem (start_paging entry_machine_labels entry_machine)) 0x101004 = rd32 (mem entry_machine) 0x101004"
  using start_paging_maps_kernel [OF entry_machine_labels_ok refl, of entry_machine]
  by (auto simp: entry_machine_labels_def pd_index_def pt_index_def dest: spec [of _ "0xC0104abc"] spec [of _ 1])

end
