(* ===== verification/Boot_Chain.thy ===== *)
theory Boot_Chain
  imports Boot_Image Kernel_Entry
begin

text \<open>
  From the boot loader to \<open>kmain\<close>: the boot information on its way through the entry code.
\<close>

lemma enter_kmain_eq:
  "\<exists>c. enter_kmain l s = s\<lparr>mem := wr32 (stack_end l - 8) (kmain_return l)
       (wr32 (stack_end l - 4) (rd32 (mem s) (boot_info_ptr l)) (mem s)),
     esp := stack_end l - 8, cpu := c, eip := kmain_addr l\<rparr>"
  by (intro exI [of _ "(cpu s)\<lparr>eax := rd32 (mem s) (boot_info_ptr l)\<rparr>"])
    (simp add: enter_kmain_def push32_def Let_def)

lemma boot_info_cong:
  assumes "\<forall>x\<in>region a 16. m' x = m x"
  shows "boot_w m' a = boot_w m a" "boot_h m' a = boot_h m a" "boot_pitch m' a = boot_pitch m a"
    "boot_bpp m' a = boot_bpp m a" "boot_fb m' a = boot_fb m a" "rd8 m' a = rd8 m a"
proof -
  note C = field_cong [OF assms]
  show "boot_w m' a = boot_w m a" "boot_h m' a = boot_h m a" "boot_pitch m' a = boot_pitch m a"
    "boot_fb m' a = boot_fb m a"
    using C(2) [of 4] C(2) [of 6] C(2) [of 8] C(1) [of 12]
    by (simp_all add: boot_w_def boot_h_def boot_pitch_def boot_fb_def)
  have "a + of_nat 10 \<in> region a 16" by (rule of_nat_in_region) simp_all
  then show "boot_bpp m' a = boot_bpp m a" using assms by (simp add: boot_bpp_def rd8_def)
  show "rd8 m' a = rd8 m a" using assms by (simp add: rd8_def)
qed

text \<open>The memory \<open>kmain\<close> starts with: the tables, the saved pointer and the top of the stack.\<close>

definition kmain_memory :: "entry_labels \<Rightarrow> u32 \<Rightarrow> mem \<Rightarrow> mem" where
  "kmain_memory l a m = wr32 (stack_end l - 8) (kmain_return l) (wr32 (stack_end l - 4) a (entry_memory l a m))"

lemma entry_hands_over:
  assumes "entry_labels_ok l" "rd32 (mem s) (esp s + 4) = a"
  shows "\<exists>c. enter_kmain l (start_paging l s) = s\<lparr>cr3 := page_directory l, cr0 := cr0 s OR 0x80010000,
    mem := kmain_memory l a (mem s), esp := stack_end l - 8, cpu := c, eip := kmain_addr l\<rparr>"
proof -
  obtain c where c: "start_paging l s = s\<lparr>mem := entry_memory l a (mem s), cr3 := page_directory l,
      cr0 := cr0 s OR 0x80010000, cpu := c, eip := k_start l\<rparr>"
    using start_paging_eq [of l s] assms(2) by auto
  show ?thesis
    using enter_kmain_eq [of l "start_paging l s"]
    by (simp add: c entry_memory_pointer [OF assms(1)] kmain_memory_def)
qed

lemma stack_top: "region (stack_end l - 8) 4 \<union> region (stack_end l - 4) 4 \<subseteq> region (stack_end l - 8) 8"
  using region_offset [of 4 4 8 "stack_end l - 8"] by (auto simp: region_def)

lemma kmain_memory_stack: "x \<notin> region (stack_end l - 8) 8 \<Longrightarrow> kmain_memory l a m x = entry_memory l a m x"
  using stack_top [of l] by (auto simp: kmain_memory_def intro!: wr32_other trans [OF wr32_other])

lemma kmain_memory_other:
  assumes "apart (page_directory l) 8192 a n" "apart (boot_info_ptr l) 4 a n" "apart (stack_end l - 8) 8 a n" "x \<in> region a n"
  shows "kmain_memory l arg m x = m x"
  using assms apart_notin by (subst kmain_memory_stack) (blast, auto intro!: entry_memory_other)

text \<open>
  C23. What the loader writes is what \<open>kmain\<close> reads: if the structure at \<open>a\<close> is on the way of
  neither the page tables nor the saved pointer nor the top of the new stack, \<open>kmain\<close> starts
  with \<open>a\<close> as its argument and finds there the size of the display, its depth, its pitch, its
  framebuffer and the boot drive the loader has put there.
\<close>

theorem boot_info_reaches_kmain:
  assumes ok: "entry_labels_ok l"
    and s: "\<forall>x\<in>region a 16. mem s x = write_boot_info a info m x" "rd32 (mem s) (esp s + 4) = a"
    and apart: "apart (page_directory l) 8192 a 16" "apart (boot_info_ptr l) 4 a 16" "apart (stack_end l - 8) 8 a 16"
    and u: "u = enter_kmain l (start_paging l s)"
  shows "eip u = kmain_addr l \<and> esp u = stack_end l - 8 \<and> rd32 (mem u) (esp u + 4) = a \<and>
    boot_w (mem u) a = ucast (info_w (display_info info)) \<and> boot_h (mem u) a = ucast (info_h (display_info info)) \<and>
    boot_pitch (mem u) a = ucast (info_pitch (display_info info)) \<and>
    boot_bpp (mem u) a = ucast (info_bpp (display_info info)) \<and> boot_fb (mem u) a = info_fb (display_info info) \<and>
    rd8 (mem u) a = boot_drive info"
proof -
  obtain c where c: "u = s\<lparr>cr3 := page_directory l, cr0 := cr0 s OR 0x80010000,
    mem := kmain_memory l a (mem s), esp := stack_end l - 8, cpu := c, eip := kmain_addr l\<rparr>"
    unfolding u using entry_hands_over [OF ok s(2)] by blast
  have "\<forall>x\<in>region a 16. mem u x = write_boot_info a info m x"
    using kmain_memory_other [OF apart(1-3)] s(1) by (simp add: c)
  note R = boot_info_cong [OF this] boot_info_roundtrip [of a info m]
  have "rd32 (mem u) (stack_end l - 4) = a" by (simp add: c kmain_memory_def mem_simps apart_def)
  then show ?thesis using R by (simp add: c)
qed

theorem boot_info_reaches_kmain_witness:
  "\<exists>u. u = enter_kmain entry_machine_labels (start_paging entry_machine_labels
        (entry_machine\<lparr>mem := write_boot_info 0x7b00 \<lparr>boot_drive = 0x80, display_info = \<lparr>info_w = 640, info_h = 480,
          info_pitch = 2560, info_bpp = 32, info_fb = 0xfd000000\<rparr>\<rparr> (wr32 0x9004 0x7b00 (\<lambda>_. 0))\<rparr>)) \<and>
     rd32 (mem u) (esp u + 4) = 0x7b00 \<and> boot_w (mem u) 0x7b00 = 640 \<and> boot_fb (mem u) 0x7b00 = 0xfd000000"
proof -
  let ?info = "\<lparr>boot_drive = 0x80, display_info = \<lparr>info_w = 640, info_h = 480,
          info_pitch = 2560, info_bpp = 32, info_fb = 0xfd000000\<rparr>\<rparr>"
  let ?m = "write_boot_info 0x7b00 ?info (wr32 0x9004 0x7b00 (\<lambda>_. 0))"
  have e: "esp entry_machine = 0x9000"
    by (simp add: entry_machine_def tasks.defs dhcp.defs udp.defs processor.defs)
  have "rd32 ?m 0x9004 = 0x7b00"
    by (simp add: write_boot_info_def Let_def rd32_def wr8_def wr16_def wr32_def)
  then show ?thesis
    using boot_info_reaches_kmain [OF entry_machine_labels_ok, of "0x7b00" "entry_machine\<lparr>mem := ?m\<rparr>" ?info "wr32 0x9004 0x7b00 (\<lambda>_. 0)"]
    by (auto simp: e entry_machine_labels_def apart_def)
qed

end
