(* ===== verification/Display.thy ===== *)
theory Display
  imports Video
begin

text \<open>
  The mapping of the framebuffer that \<open>video::init\<close> makes: page by page, in as many new tables
  as it takes.
\<close>

section \<open>Pages\<close>

definition same_page :: "u32 \<Rightarrow> u32 \<Rightarrow> bool" where
  "same_page w v \<longleftrightarrow> pd_index w = pd_index v \<and> pt_index w = pt_index v"

lemma unat_pd_index: "unat (pd_index v) = unat v div 4194304"
proof -
  have "pd_index v = take_bit 10 (drop_bit 22 v)"
    unfolding pd_index_def by (simp add: drop_bit_and take_bit_eq_mask mask_eq_exp_minus_1)
  moreover have "unat v div 4194304 < 1024" using unat_lt32 [of v] by simp
  ultimately show ?thesis by (simp add: take_bit_eq_mod unat_mod unat_drop_bit_eq drop_bit_eq_div unat_div)
qed

lemma unat_pt_index: "unat (pt_index v) = unat v div 4096 mod 1024"
proof -
  have "pt_index v = take_bit 10 (drop_bit 12 v)"
    unfolding pt_index_def by (simp add: drop_bit_and take_bit_eq_mask mask_eq_exp_minus_1)
  then show ?thesis by (simp add: take_bit_eq_mod unat_mod drop_bit_eq_div unat_div)
qed

lemma same_page_unat: "same_page w v \<longleftrightarrow> unat w div 4096 = unat v div 4096"
proof -
  have d: "unat x div 4096 div 1024 = unat x div 4194304" for x :: u32 by (simp add: div_mult2_eq [symmetric])
  have "unat w div 4096 = unat v div 4096 \<longleftrightarrow>
      unat w div 4096 div 1024 = unat v div 4096 div 1024 \<and> unat w div 4096 mod 1024 = unat v div 4096 mod 1024"
    by (metis div_mult_mod_eq)
  then show ?thesis unfolding d same_page_def word_unat_eq_iff unat_pd_index unat_pt_index by simp
qed

lemma walk_same_page: "same_page w v \<Longrightarrow> walk m dir w = walk m dir v"
  by (simp add: same_page_def walk_def slot_def Let_def)

lemma walk_present: "walk (mem s) (current_page_dir s) w \<noteq> None \<Longrightarrow> entry_present (dir_entry s w)"
  by (auto simp: walk_def slot_def dir_entry_def Let_def split: if_splits)

lemma dir_entry_cong: "pd_index w = pd_index v \<Longrightarrow> dir_entry s w = dir_entry s v"
  by (simp add: dir_entry_def)

section \<open>One page\<close>

text \<open>A table that only one directory entry names.\<close>

definition private_table :: "'a paging_scheme \<Rightarrow> u32 \<Rightarrow> bool" where
  "private_table s v \<longleftrightarrow> (\<forall>w. pd_index w \<noteq> pd_index v \<and> entry_present (dir_entry s v) \<and> entry_present (dir_entry s w) \<longrightarrow>
     entry_base (dir_entry s w) \<noteq> entry_base (dir_entry s v))"

text \<open>
  Where the mapping of a page may write: the directory, the tables it names, and frames that
  are free, all below the 2 GiB the bitmap of the frames describes.
\<close>

definition table_area :: "'a paging_scheme \<Rightarrow> u32 set" where
  "table_area s = {a. entry_base a = current_page_dir s \<or> unat a < 0x80000000 \<and> entry_base a \<notin> owned_pages s \<or>
     (\<exists>w. entry_present (dir_entry s w) \<and> entry_base a = entry_base (dir_entry s w))}"

lemma make_entry_outside:
  assumes "page_aligned t" "unat i < 1024" "entry_base a \<noteq> t"
  shows "make_entry (t + 4 * i) p m a = m a"
proof -
  have "a \<notin> region (t + 4 * i) 4"
  proof
    assume "a \<in> region (t + 4 * i) 4"
    then have a: "unat (t + 4 * i) \<le> unat a" "unat a < unat (t + 4 * i) + 4"
      using entry_end [OF assms(1,2)] by (subst (asm) in_region_nat; simp)+
    obtain k where k: "unat t = 4096 * k" using assms(1) by (auto simp: page_aligned_def)
    have "unat a div 4096 = k"
      using a assms(2) unfolding unat_entry [OF assms(1,2)] k by (intro div_nat_eqI) simp_all
    then have "entry_base a = t" by (simp add: word_unat_eq_iff unat_entry_base k)
    then show False using assms(3) by simp
  qed
  then show ?thesis by (simp add: make_entry_def wr32_other)
qed

lemma next_frame_area:
  assumes "owned_frames s \<noteq> {..<524288}" "entry_base a = next_frame s"
  shows "a \<in> table_area s"
proof -
  have k: "(LEAST k. k \<notin> owned_frames s) < 524288" by (rule first_free(1) [OF assms(1)])
  have "unat a div 4096 * 4096 = (LEAST k. k \<notin> owned_frames s) * 4096"
    using arg_cong [OF assms(2), of unat] unfolding next_frame_def unat_page [OF k] unat_entry_base .
  then have "unat a < 0x80000000" using k by simp
  then show ?thesis using assms(2) next_frame(2) [OF assms(1)] by (auto simp: table_area_def)
qed

lemma map_page_outside:
  assumes "paging_ok s" "owned_frames s \<noteq> {..<524288}" "map_page p v s = Some (v, t)" "a \<notin> table_area s"
  shows "mem t a = mem s a"
proof (cases "entry_present (dir_entry s v)")
  case True
  then have "entry_base a \<noteq> entry_base (dir_entry s v)" using assms(4) by (auto simp: table_area_def)
  then show ?thesis
    using assms(3) make_entry_outside [OF page_aligned_entry_base pt_index_lt] True
    by (auto simp: map_page_eq)
next
  case False
  note N = next_frame [OF assms(2)]
  have "entry_base a \<noteq> next_frame s" using assms(4) next_frame_area [OF assms(2)] by auto
  moreover have "entry_base a \<noteq> current_page_dir s" using assms(4) by (auto simp: table_area_def)
  ultimately show ?thesis
    using assms(3) False make_entry_outside [OF N(3) pt_index_lt]
      make_entry_outside [OF paging_okD(1) [OF assms(1)] pd_index_lt]
    by (auto simp: map_page_eq N(1) frame_simps)
qed

lemma map_page_step:
  fixes s :: "'a paging_scheme"
  assumes ok: "paging_ok s" and v: "private_table s v" and free: "owned_frames s \<noteq> {..<524288}"
  obtains s' where "map_page p v s = Some (v, s')" "s' = s\<lparr>bitmap := bitmap s', mem := mem s'\<rparr>" "paging_ok s'"
    "walk (mem s') (current_page_dir s) v = Some (p AND 0xfffff000)"
    "\<And>w. \<not> same_page w v \<Longrightarrow> walk (mem s) (current_page_dir s) w \<noteq> None \<Longrightarrow>
       walk (mem s') (current_page_dir s) w = walk (mem s) (current_page_dir s) w"
    "\<And>w. private_table s w \<Longrightarrow> private_table s' w"
    "card (owned_frames s') \<le> Suc (card (owned_frames s))" "table_area s' \<subseteq> table_area s"
proof (cases "entry_present (dir_entry s v)")
  case True
  obtain m where m: "map_page p v s = Some (v, s\<lparr>mem := m\<rparr>)" "paging_ok (s\<lparr>mem := m\<rparr>)"
    and walks: "\<And>w. walk m (current_page_dir s) w =
      (if slot (mem s) (current_page_dir s) w = slot (mem s) (current_page_dir s) v then Some (p AND 0xfffff000)
       else walk (mem s) (current_page_dir s) w)"
    and dirs: "\<And>w. dir_entry (s\<lparr>mem := m\<rparr>) w = dir_entry s w"
    by (rule map_page_old [OF ok True, of p]) (rule that, assumption+)
  have "slot (mem s) (current_page_dir s) w \<noteq> slot (mem s) (current_page_dir s) v"
    if "\<not> same_page w v" "walk (mem s) (current_page_dir s) w \<noteq> None" for w
  proof -
    have w: "entry_present (dir_entry s w)" using that(2) by (rule walk_present)
    show ?thesis
      unfolding slot_dir_entry [OF w] slot_dir_entry [OF True]
      using entry_inject [OF page_aligned_entry_base page_aligned_entry_base pt_index_lt pt_index_lt] v w True that(1)
      by (auto simp: private_table_def same_page_def)
  qed
  then show ?thesis
    using m walks dirs by (intro that [of "s\<lparr>mem := m\<rparr>"]) (auto simp: private_table_def owned_frames_def table_area_def)
next
  case False
  define s1 where "s1 = own_frame (LEAST k. k \<notin> owned_frames s) s"
  obtain m where m: "map_page p v s = Some (v, s1\<lparr>mem := m\<rparr>)" "paging_ok (s1\<lparr>mem := m\<rparr>)"
    and walks: "\<And>w. walk m (current_page_dir s) w =
      (if pd_index w \<noteq> pd_index v then walk (mem s) (current_page_dir s) w
       else if pt_index w = pt_index v then Some (p AND 0xfffff000)
       else decode (rd32 (mem s) (next_frame s + 4 * pt_index w)))"
    and dirs: "\<And>w. pd_index w \<noteq> pd_index v \<Longrightarrow> dir_entry (s1\<lparr>mem := m\<rparr>) w = dir_entry s w"
      "\<And>w. pd_index w = pd_index v \<Longrightarrow> entry_present (dir_entry (s1\<lparr>mem := m\<rparr>) w) \<and>
      entry_base (dir_entry (s1\<lparr>mem := m\<rparr>) w) = next_frame s"
    by (rule map_page_new [OF ok False free, of p, folded s1_def]) blast
  have fresh: "entry_base (dir_entry s w) \<noteq> next_frame s" if "entry_present (dir_entry s w)" for w
    using paging_okD(3) [OF ok that] next_frame(2) [OF free] by auto
  have "private_table (s1\<lparr>mem := m\<rparr>) w" if "private_table s w" for w
    unfolding private_table_def
  proof (intro allI impI, elim conjE)
    fix x assume x: "pd_index x \<noteq> pd_index w" "entry_present (dir_entry (s1\<lparr>mem := m\<rparr>) w)"
      "entry_present (dir_entry (s1\<lparr>mem := m\<rparr>) x)"
    consider "pd_index w = pd_index v" "pd_index x \<noteq> pd_index v" | "pd_index w \<noteq> pd_index v" "pd_index x = pd_index v"
      | "pd_index w \<noteq> pd_index v" "pd_index x \<noteq> pd_index v" using x(1) by metis
    then show "entry_base (dir_entry (s1\<lparr>mem := m\<rparr>) x) \<noteq> entry_base (dir_entry (s1\<lparr>mem := m\<rparr>) w)"
    proof cases
      case 1
      then show ?thesis using dirs fresh [of x] x(3) by simp
    next
      case 2
      then show ?thesis using dirs fresh [of w] x(2) by metis
    next
      case 3
      then show ?thesis using dirs(1) that x by (simp add: private_table_def)
    qed
  qed
  moreover have "pd_index w \<noteq> pd_index v" if "walk (mem s) (current_page_dir s) w \<noteq> None" for w
    using walk_present [OF that] False dir_entry_cong [of w v s] by auto
  moreover have "s1\<lparr>mem := m\<rparr> = s\<lparr>bitmap := bitmap s1, mem := m\<rparr>" by (simp add: s1_def own_frame_def)
  moreover have "card (owned_frames (s1\<lparr>mem := m\<rparr>)) \<le> Suc (card (owned_frames s))"
  proof -
    have "owned_frames (s1\<lparr>mem := m\<rparr>) = insert (LEAST k. k \<notin> owned_frames s) (owned_frames s)"
      using owned_own_frame [OF first_free(1) [OF free]] by (simp add: s1_def owned_frames_def)
    then show ?thesis by (simp add: card_insert_le_m1 card_insert_if owned_frames_def)
  qed
  moreover have "table_area (s1\<lparr>mem := m\<rparr>) \<subseteq> table_area s"
  proof (rule subsetI)
    fix a assume a: "a \<in> table_area (s1\<lparr>mem := m\<rparr>)"
    have o: "owned_pages (s1\<lparr>mem := m\<rparr>) = insert (next_frame s) (owned_pages s)"
      using next_frame(4) [OF free] unfolding owned_pages_mem s1_def .
    consider "entry_base a = current_page_dir s"
      | "unat a < 0x80000000" "entry_base a \<notin> owned_pages (s1\<lparr>mem := m\<rparr>)"
      | w where "entry_present (dir_entry (s1\<lparr>mem := m\<rparr>) w)" "entry_base a = entry_base (dir_entry (s1\<lparr>mem := m\<rparr>) w)"
      using a by (auto simp: table_area_def s1_def frame_simps)
    then show "a \<in> table_area s"
    proof cases
      case 2
      then show ?thesis unfolding o by (simp add: table_area_def)
    next
      case 3
      then show ?thesis
        using dirs next_frame_area [OF free, of a] by (cases "pd_index w = pd_index v") (auto simp: table_area_def)
    qed (simp add: table_area_def)
  qed
  ultimately show ?thesis using m walks by (intro that [of "s1\<lparr>mem := m\<rparr>"]) auto
qed

section \<open>All pages of the framebuffer\<close>

definition display_page :: "nat \<Rightarrow> u32" where
  "display_page k = of_nat k * 4096 + VGA_FRAMEBUFFER_BASE"

lemma unat_display_page: "k < 131072 \<Longrightarrow> unat (display_page k) = 4096 * k + 0xe0000000"
  by (simp add: display_page_def VGA_FRAMEBUFFER_BASE_def unat_word_ariths unsigned_of_nat take_bit_eq_mod)

lemma display_pages_differ: "j < 131072 \<Longrightarrow> k < 131072 \<Longrightarrow> same_page (display_page j) (display_page k) \<longleftrightarrow> j = k"
  by (simp add: same_page_unat unat_display_page)

lemma owned_not_full: "card (owned_frames s) < 524288 \<Longrightarrow> owned_frames s \<noteq> {..<524288}"
proof
  assume "card (owned_frames s) < 524288" "owned_frames s = {..<524288}"
  then have "card {..<(524288 :: nat)} < 524288" by (simp only:)
  then show False by (simp only: card_lessThan less_irrefl)
qed

lemma video_map_loop_run:
  fixes s :: "'a video_scheme"
  shows "paging_ok s \<Longrightarrow> (\<And>k. i \<le> k \<Longrightarrow> k < i + n \<Longrightarrow> private_table s (display_page k)) \<Longrightarrow>
   card (owned_frames s) + n \<le> 524288 \<Longrightarrow> i + n \<le> 131072 \<Longrightarrow>
   \<exists>s'. video_map_loop n fb (of_nat i) s = Some s' \<and> s' = s\<lparr>bitmap := bitmap s', mem := mem s'\<rparr> \<and> paging_ok s' \<and>
     (\<forall>a. a \<notin> table_area s \<longrightarrow> mem s' a = mem s a) \<and>
     (\<forall>k. i \<le> k \<and> k < i + n \<longrightarrow>
        walk (mem s') (current_page_dir s) (display_page k) = Some ((of_nat k * 4096 + fb) AND 0xfffff000)) \<and>
     (\<forall>w. (\<forall>k. i \<le> k \<and> k < i + n \<longrightarrow> \<not> same_page w (display_page k)) \<and>
        walk (mem s) (current_page_dir s) w \<noteq> None \<longrightarrow>
        walk (mem s') (current_page_dir s) w = walk (mem s) (current_page_dir s) w)"
proof (induction n arbitrary: i s)
  case 0
  then show ?case by (intro exI [of _ s]) (auto simp: not_less)
next
  case (Suc n)
  let ?v = "display_page i" and ?dir = "current_page_dir s"
  have p: "private_table s ?v" using Suc.prems(2) by simp
  have free: "owned_frames s \<noteq> {..<524288}" using Suc.prems(3) by (intro owned_not_full) simp
  obtain t where t: "map_page (of_nat i * 4096 + fb) ?v s = Some (?v, t)" "t = s\<lparr>bitmap := bitmap t, mem := mem t\<rparr>"
    "paging_ok t" "walk (mem t) ?dir ?v = Some ((of_nat i * 4096 + fb) AND 0xfffff000)"
    and keep: "\<And>w. \<not> same_page w ?v \<Longrightarrow> walk (mem s) ?dir w \<noteq> None \<Longrightarrow> walk (mem t) ?dir w = walk (mem s) ?dir w"
    and priv: "\<And>w. private_table s w \<Longrightarrow> private_table t w" and card: "card (owned_frames t) \<le> Suc (card (owned_frames s))"
    and area: "table_area t \<subseteq> table_area s"
    by (rule map_page_step [OF Suc.prems(1) p free, of "of_nat i * 4096 + fb"]) (rule that, assumption+)
  have dir: "current_page_dir t = ?dir" using arg_cong [OF t(2), of current_page_dir] by simp
  have "\<exists>s'. video_map_loop n fb (of_nat (Suc i)) t = Some s' \<and> s' = t\<lparr>bitmap := bitmap s', mem := mem s'\<rparr> \<and> paging_ok s' \<and>
     (\<forall>a. a \<notin> table_area t \<longrightarrow> mem s' a = mem t a) \<and>
     (\<forall>k. Suc i \<le> k \<and> k < Suc i + n \<longrightarrow>
        walk (mem s') (current_page_dir t) (display_page k) = Some ((of_nat k * 4096 + fb) AND 0xfffff000)) \<and>
     (\<forall>w. (\<forall>k. Suc i \<le> k \<and> k < Suc i + n \<longrightarrow> \<not> same_page w (display_page k)) \<and>
        walk (mem t) (current_page_dir t) w \<noteq> None \<longrightarrow>
        walk (mem s') (current_page_dir t) w = walk (mem t) (current_page_dir t) w)"
    using Suc.prems(2-4) card by (intro Suc.IH t(3) priv) auto
  then obtain s' where s': "video_map_loop n fb (of_nat (Suc i)) t = Some s'" "s' = t\<lparr>bitmap := bitmap s', mem := mem s'\<rparr>" "paging_ok s'"
    and same: "\<And>a. a \<notin> table_area t \<Longrightarrow> mem s' a = mem t a"
    and new: "\<And>k. Suc i \<le> k \<Longrightarrow> k < Suc i + n \<Longrightarrow>
        walk (mem s') ?dir (display_page k) = Some ((of_nat k * 4096 + fb) AND 0xfffff000)"
    and kept: "\<And>w. (\<And>k. Suc i \<le> k \<Longrightarrow> k < Suc i + n \<Longrightarrow> \<not> same_page w (display_page k)) \<Longrightarrow>
        walk (mem t) ?dir w \<noteq> None \<Longrightarrow> walk (mem s') ?dir w = walk (mem t) ?dir w"
    unfolding dir by blast
  have run: "video_map_loop (Suc n) fb (of_nat i) s = Some s'"
    using t(1) s'(1) by (simp add: display_page_def Let_def add.commute)
  have "walk (mem s') ?dir ?v = walk (mem t) ?dir ?v"
    using Suc.prems(4) t(4) by (intro kept) (auto simp: display_pages_differ)
  then have "walk (mem s') ?dir (display_page k) = Some ((of_nat k * 4096 + fb) AND 0xfffff000)" if "i \<le> k" "k < i + Suc n" for k
    using new [of k] t(4) that by (cases "k = i") auto
  moreover have "walk (mem s') ?dir w = walk (mem s) ?dir w"
    if w: "\<forall>k. i \<le> k \<and> k < i + Suc n \<longrightarrow> \<not> same_page w (display_page k)" "walk (mem s) ?dir w \<noteq> None" for w
  proof -
    have "walk (mem t) ?dir w = walk (mem s) ?dir w" using w by (intro keep) auto
    then show ?thesis using kept [of w] w by auto
  qed
  moreover have "s' = s\<lparr>bitmap := bitmap s', mem := mem s'\<rparr>" using arg_cong [OF t(2), of "\<lambda>t. t\<lparr>bitmap := bitmap s', mem := mem s'\<rparr>"] s'(2) by simp
  moreover have "mem s' a = mem s a" if "a \<notin> table_area s" for a
    using same [of a] map_page_outside [OF Suc.prems(1) free t(1) that] area that by auto
  ultimately show ?case using run s'(3) by blast
qed

section \<open>The framebuffer\<close>

lemma page_and_offset:
  assumes "page_aligned a"
  shows "a OR (v AND 0xfff) = a + (v AND 0xfff)"
proof -
  have v: "v AND 0xfff = take_bit 12 v" by (simp add: take_bit_eq_mask mask_eq_exp_minus_1)
  have "entry_base a AND take_bit 12 v = 0"
    unfolding entry_base_def by (rule bit_word_eqI) (auto simp: bit_and_iff bit_push_bit_iff bit_take_bit_iff)
  then show ?thesis
    unfolding v entry_base_aligned [OF assms] by (rule disjunctive_add_eq_or [symmetric])
qed

lemma page_aligned_add: "page_aligned a \<Longrightarrow> page_aligned (of_nat k * 4096 + a)"
proof -
  assume "page_aligned a"
  then have "4096 dvd (unat (of_nat k * 4096 :: u32) + unat a) mod 4294967296"
    by (intro dvd_mod) (simp_all add: page_aligned_def unat_word_ariths dvd_mod)
  then show ?thesis by (simp add: page_aligned_def unat_word_ariths)
qed

lemma display_address:
  assumes "x < 0x20000000"
  shows "same_page (VGA_FRAMEBUFFER_BASE + of_nat x) (display_page (x div 4096))"
    "(VGA_FRAMEBUFFER_BASE + of_nat x) AND 0xfff = of_nat (x mod 4096)"
proof -
  have u: "unat (VGA_FRAMEBUFFER_BASE + of_nat x) = 0xe0000000 + x"
    using assms by (simp add: VGA_FRAMEBUFFER_BASE_def unat_word_ariths unsigned_of_nat take_bit_eq_mod)
  have "x div 4096 < 131072" using assms by simp
  then show "same_page (VGA_FRAMEBUFFER_BASE + of_nat x) (display_page (x div 4096))"
    by (simp add: same_page_unat u unat_display_page)
  have "(0xe0000000 + x) mod 4096 = x mod 4096" using mod_mult_self2 [of x 4096 917504] by (simp add: add.commute)
  then have "unat (take_bit 12 (VGA_FRAMEBUFFER_BASE + of_nat x)) = x mod 4096"
    by (simp add: take_bit_eq_mod unat_mod u)
  moreover have "unat (of_nat (x mod 4096) :: u32) = x mod 4096"
    by (simp add: unsigned_of_nat take_bit_eq_mod)
  moreover have "(VGA_FRAMEBUFFER_BASE + of_nat x) AND 0xfff = take_bit 12 (VGA_FRAMEBUFFER_BASE + of_nat x)"
    by (simp add: take_bit_eq_mask mask_eq_exp_minus_1)
  ultimately show "(VGA_FRAMEBUFFER_BASE + of_nat x) AND 0xfff = of_nat (x mod 4096)"
    by (simp add: word_unat_eq_iff)
qed

lemma video_init_run:
  fixes s :: "'a video_scheme"
  assumes ok: "paging_ok s" and fb: "page_aligned fb"
    and n: "n = Suc (unat ((pitch * h * (bpp div 8)) div 4096))" "n \<le> 131072" "card (owned_frames s) + n \<le> 524288"
    and priv: "\<forall>k<n. private_table s (display_page k)"
  shows "\<exists>s'. video_init fb w h bpp pitch s = Some s' \<and> paging_ok s' \<and>
    s' = s\<lparr>bitmap := bitmap s', mem := mem s', cursor := \<lparr>cur_x = 0, cur_y = 0\<rparr>, scr_w := w, scr_h := h,
      scr_bpp := bpp, scr_pitch := pitch\<rparr> \<and>
    (\<forall>a. a \<notin> table_area s \<longrightarrow> mem s' a = mem s a) \<and>
    (\<forall>x<4096 * n. vaddr_to_paddr (VGA_FRAMEBUFFER_BASE + of_nat x) s' = fb + of_nat x) \<and>
    (\<forall>v. (\<forall>k<n. \<not> same_page v (display_page k)) \<and> page_present v s \<longrightarrow>
       page_present v s' \<and> vaddr_to_paddr v s' = vaddr_to_paddr v s)"
proof -
  have "\<exists>s'. video_map_loop n fb (of_nat 0) s = Some s' \<and> s' = s\<lparr>bitmap := bitmap s', mem := mem s'\<rparr> \<and> paging_ok s' \<and>
     (\<forall>a. a \<notin> table_area s \<longrightarrow> mem s' a = mem s a) \<and>
     (\<forall>k. 0 \<le> k \<and> k < 0 + n \<longrightarrow>
        walk (mem s') (current_page_dir s) (display_page k) = Some ((of_nat k * 4096 + fb) AND 0xfffff000)) \<and>
     (\<forall>w. (\<forall>k. 0 \<le> k \<and> k < 0 + n \<longrightarrow> \<not> same_page w (display_page k)) \<and>
        walk (mem s) (current_page_dir s) w \<noteq> None \<longrightarrow>
        walk (mem s') (current_page_dir s) w = walk (mem s) (current_page_dir s) w)"
    using ok priv n by (intro video_map_loop_run) auto
  then obtain t where t: "video_map_loop n fb 0 s = Some t" "t = s\<lparr>bitmap := bitmap t, mem := mem t\<rparr>" "paging_ok t"
    and same: "\<forall>a. a \<notin> table_area s \<longrightarrow> mem t a = mem s a"
    and new: "\<And>k. k < n \<Longrightarrow> walk (mem t) (current_page_dir s) (display_page k) = Some ((of_nat k * 4096 + fb) AND 0xfffff000)"
    and kept: "\<And>v. \<forall>k<n. \<not> same_page v (display_page k) \<Longrightarrow> walk (mem s) (current_page_dir s) v \<noteq> None \<Longrightarrow>
        walk (mem t) (current_page_dir s) v = walk (mem s) (current_page_dir s) v"
    by auto
  have dir: "current_page_dir t = current_page_dir s" using arg_cong [OF t(2), of current_page_dir] by simp
  define s' where "s' = t\<lparr>cursor := \<lparr>cur_x = 0, cur_y = 0\<rparr>, scr_w := w, scr_h := h, scr_bpp := bpp, scr_pitch := pitch\<rparr>"
  have s': "mem s' = mem t" "current_page_dir s' = current_page_dir s" by (simp_all add: s'_def dir)
  have "video_init fb w h bpp pitch s = Some s'"
    using t(1) n(1) by (simp add: video_init_def Let_def s'_def)
  moreover have "paging_ok s'"
    using t(3) by (simp add: s'_def paging_ok_def dir_entry_def owned_pages_def owned_frames_def)
  moreover have "s' = s\<lparr>bitmap := bitmap s', mem := mem s', cursor := \<lparr>cur_x = 0, cur_y = 0\<rparr>, scr_w := w, scr_h := h,
      scr_bpp := bpp, scr_pitch := pitch\<rparr>"
    using arg_cong [OF t(2), of "\<lambda>t. t\<lparr>cursor := \<lparr>cur_x = 0, cur_y = 0\<rparr>, scr_w := w, scr_h := h, scr_bpp := bpp,
      scr_pitch := pitch\<rparr>"] by (simp add: s'_def)
  moreover have "vaddr_to_paddr (VGA_FRAMEBUFFER_BASE + of_nat x) s' = fb + of_nat x" if x: "x < 4096 * n" for x
  proof -
    let ?v = "VGA_FRAMEBUFFER_BASE + of_nat x :: u32" and ?k = "x div 4096"
    have lt: "x < 0x20000000" "?k < n" using x n(2) by (auto simp: less_mult_imp_div_less mult.commute)
    note a = page_aligned_add [OF fb, of ?k]
    have "walk (mem t) (current_page_dir s) ?v = Some (of_nat ?k * 4096 + fb)"
      unfolding walk_same_page [OF display_address(1) [OF lt(1)]] new [OF lt(2)]
      using entry_base_aligned [OF a] entry_base_mask [of "of_nat ?k * 4096 + fb"] by simp
    then have "vaddr_to_paddr ?v s' = of_nat ?k * 4096 + fb + of_nat (x mod 4096)"
      using page_and_offset [OF a, of ?v] by (simp add: vaddr_to_paddr_walk s' display_address(2) [OF lt(1)])
    also have "\<dots> = fb + of_nat (?k * 4096 + x mod 4096)" by (simp only: of_nat_add of_nat_mult of_nat_numeral add.commute add.left_commute)
    finally show ?thesis by simp
  qed
  moreover have "page_present v s' \<and> vaddr_to_paddr v s' = vaddr_to_paddr v s"
    if "\<forall>k<n. \<not> same_page v (display_page k)" "page_present v s" for v
    using kept [OF that(1)] that(2) by (simp add: page_present_walk vaddr_to_paddr_walk s')
  moreover have "\<forall>a. a \<notin> table_area s \<longrightarrow> mem s' a = mem s a" using same by (simp add: s')
  ultimately show ?thesis by blast
qed

section \<open>Properties\<close>

text \<open>
  C29. \<open>init\<close> makes the framebuffer accessible: for every byte of the \<open>n\<close> pages its loop counts,
  the address from \<open>VGA_FRAMEBUFFER_BASE\<close> on translates to that byte of the framebuffer, even
  where the pages are spread over several tables that have to be made first. Every page that
  was mapped elsewhere keeps its translation, memory outside the directory, the tables and
  free frames is untouched, and the cursor and the size of the screen are set. Hypotheses: a
  page-aligned framebuffer, at most 512 MiB of it, a frame for each page, and no table for
  those addresses that another directory entry names as well.
\<close>

theorem video_init_maps_framebuffer:
  fixes s :: "'a video_scheme"
  assumes "paging_ok s" "page_aligned fb"
    and "n = Suc (unat ((pitch * h * (bpp div 8)) div 4096))" "n \<le> 131072" "card (owned_frames s) + n \<le> 524288"
    and "\<forall>k<n. private_table s (display_page k)"
  shows "\<exists>s'. video_init fb w h bpp pitch s = Some s' \<and> paging_ok s' \<and>
    (\<forall>x<4096 * n. vaddr_to_paddr (VGA_FRAMEBUFFER_BASE + of_nat x) s' = fb + of_nat x) \<and>
    (\<forall>v. (\<forall>k<n. \<not> same_page v (display_page k)) \<and> page_present v s \<longrightarrow>
       page_present v s' \<and> vaddr_to_paddr v s' = vaddr_to_paddr v s) \<and>
    (\<forall>a. a \<notin> table_area s \<longrightarrow> mem s' a = mem s a) \<and>
    cursor s' = \<lparr>cur_x = 0, cur_y = 0\<rparr> \<and> scr_w s' = w \<and> scr_h s' = h \<and> scr_bpp s' = bpp \<and> scr_pitch s' = pitch"
proof -
  obtain s' where s': "video_init fb w h bpp pitch s = Some s'" "paging_ok s'"
    "s' = s\<lparr>bitmap := bitmap s', mem := mem s', cursor := \<lparr>cur_x = 0, cur_y = 0\<rparr>, scr_w := w, scr_h := h,
      scr_bpp := bpp, scr_pitch := pitch\<rparr>"
    and r: "\<forall>a. a \<notin> table_area s \<longrightarrow> mem s' a = mem s a"
      "\<forall>x<4096 * n. vaddr_to_paddr (VGA_FRAMEBUFFER_BASE + of_nat x) s' = fb + of_nat x"
      "\<forall>v. (\<forall>k<n. \<not> same_page v (display_page k)) \<and> page_present v s \<longrightarrow>
       page_present v s' \<and> vaddr_to_paddr v s' = vaddr_to_paddr v s"
    using video_init_run [OF assms, of w] by blast
  have "cursor s' = \<lparr>cur_x = 0, cur_y = 0\<rparr>" "scr_w s' = w" "scr_h s' = h" "scr_bpp s' = bpp" "scr_pitch s' = pitch"
    by (subst s'(3), simp)+
  then show ?thesis using s'(1,2) r by blast
qed

definition example_display :: video where
  "example_display = paging.extend example_paging (video.fields (\<lambda>_. 0) VGA_FRAMEBUFFER_BASE
     \<lparr>cur_x = 7, cur_y = 7\<rparr> 0 0 0 0)"

lemma example_display_simps:
  "dir_entry example_display v = (if pd_index v = 0 then 0x2003 else 0)"
  "paging_ok example_display" "owned_frames example_display = {1, 2}"
proof -
  have m: "mem example_display = mem example_paging" "bitmap example_display = bitmap example_paging"
    "current_page_dir example_display = current_page_dir example_paging"
    by (simp_all add: example_display_def paging.defs video.defs)
  then have "dir_entry example_display v = dir_entry example_paging v" for v by (simp add: dir_entry_def)
  then show "dir_entry example_display v = (if pd_index v = 0 then 0x2003 else 0)"
    "paging_ok example_display"
    using example_paging_ok by (simp_all add: example_dir_entry paging_ok_def owned_pages_def owned_frames_def m)
  have "bit (6 :: u8) i \<longleftrightarrow> i = 1 \<or> i = 2" for i
  proof -
    have "\<forall>i\<in>set [0..<8]. bit (6 :: u8) i \<longleftrightarrow> i = 1 \<or> i = 2" by code_simp
    then show ?thesis by (cases "i < 8") (auto dest: bit_imp_le_length)
  qed
  then have "i \<in> owned_frames example_display \<longleftrightarrow> i < 524288 \<and> i div 8 = 0 \<and> (i mod 8 = 1 \<or> i mod 8 = 2)" for i
    by (simp add: owned_frames_def m example_paging_def)
  moreover have "i < 524288 \<and> i div 8 = 0 \<and> (i mod 8 = 1 \<or> i mod 8 = 2) \<longleftrightarrow> i = 1 \<or> i = 2" for i :: nat by presburger
  ultimately show "owned_frames example_display = {1, 2}" by blast
qed

lemma example_display_private: "k < 131072 \<Longrightarrow> private_table example_display (display_page k)"
proof -
  assume "k < 131072"
  then have "unat (pd_index (display_page k)) \<noteq> 0" by (simp add: unat_pd_index unat_display_page)
  then have "pd_index (display_page k) \<noteq> 0" by (metis unat_0)
  then show ?thesis by (simp add: private_table_def example_display_simps entry_present_def)
qed

theorem video_init_maps_framebuffer_witness:
  "\<exists>s'. video_init 0xfd000000 640 480 32 2560 example_display = Some s' \<and>
     vaddr_to_paddr 0xe0000000 s' = 0xfd000000 \<and> vaddr_to_paddr 0xe0412345 s' = 0xfd412345 \<and> scr_pitch s' = 2560"
proof -
  have n: "Suc (unat ((2560 * 480 * (32 div 8)) div 4096 :: u32)) = 1201" by simp
  have "page_aligned 0xfd000000" by (simp add: page_aligned_def)
  then obtain s' where s': "video_init 0xfd000000 640 480 32 2560 example_display = Some s'"
    "\<forall>x<4096 * 1201. vaddr_to_paddr (VGA_FRAMEBUFFER_BASE + of_nat x) s' = 0xfd000000 + of_nat x" "scr_pitch s' = 2560"
    using video_init_maps_framebuffer [OF example_display_simps(2) _ n [symmetric], of "0xfd000000" 640]
      example_display_private by (auto simp: example_display_simps(3))
  show ?thesis
    using s'(1,3) spec [OF s'(2), of 0] spec [OF s'(2), of "0x412345"] by (simp add: VGA_FRAMEBUFFER_BASE_def)
qed

end
