(* ===== verification/Startup.thy ===== *)
theory Startup
  imports Boot_Chain Display
begin

text \<open>
  The first part of \<open>kmain\<close>, put together: page frames, heap, framebuffer, console and
  interrupts, each working on the state the ones before it leave.
\<close>

section \<open>Memory the page tables do not see\<close>

text \<open>The directory and the tables the processor starts with, in whole pages below \<open>k\<close>.\<close>

definition tables_below :: "nat \<Rightarrow> 'a paging_scheme \<Rightarrow> bool" where
  "tables_below k s \<longleftrightarrow> page_aligned (current_page_dir s) \<and> unat (current_page_dir s) < k \<and>
     (\<forall>v. entry_present (dir_entry s v) \<longrightarrow> unat (entry_base (dir_entry s v)) < k \<and>
        entry_base (dir_entry s v) \<noteq> current_page_dir s)"

definition paging_tables :: "'a paging_scheme \<Rightarrow> u32 set" where
  "paging_tables s = {a. entry_base a = current_page_dir s \<or>
     (\<exists>w. entry_present (dir_entry s w) \<and> entry_base a = entry_base (dir_entry s w))}"

lemma owned_page_low: "p \<in> owned_pages s \<Longrightarrow> unat p + 4096 \<le> 0x80000000"
  by (auto simp: owned_pages_def unat_page dest: owned_frames_lt)

lemma rd32_low:
  assumes "page_aligned p" "unat p + 4096 \<le> 0x80000000" "unat i < 1024" "\<forall>a. unat a < 0x80000000 \<longrightarrow> m a = m' a"
  shows "rd32 m (p + 4 * i) = rd32 m' (p + 4 * i)"
proof (rule rd32_cong)
  fix x assume "x \<in> region (p + 4 * i) 4"
  then have "unat x < unat (p + 4 * i) + 4" using entry_end [OF assms(1,3)] by (simp add: in_region_nat)
  then show "m x = m' x" using assms(2-4) unfolding unat_entry [OF assms(1,3)] by simp
qed

lemma walk_low:
  assumes dir: "page_aligned dir" "unat dir + 4096 \<le> 0x80000000" and low: "\<forall>a. unat a < 0x80000000 \<longrightarrow> m a = m' a"
    and table: "entry_present (rd32 m' (dir + 4 * pd_index v)) \<Longrightarrow>
      unat (entry_base (rd32 m' (dir + 4 * pd_index v))) + 4096 \<le> 0x80000000"
  shows "walk m dir v = walk m' dir v"
  using rd32_low [OF dir pd_index_lt low] rd32_low [OF page_aligned_entry_base table pt_index_lt low]
  by (simp add: walk_def slot_def Let_def)

lemma paging_mem_cong:
  fixes s :: "'a paging_scheme"
  assumes ok: "paging_ok s" and low: "\<forall>a. unat a < 0x80000000 \<longrightarrow> m a = mem s a"
  shows "paging_ok (s\<lparr>mem := m\<rparr>)" "walk m (current_page_dir s) v = walk (mem s) (current_page_dir s) v"
proof -
  have dir: "current_page_dir s \<in> owned_pages s" using ok by (simp add: paging_ok_def)
  note D = rd32_low [OF paging_okD(1) [OF ok] owned_page_low [OF dir] pd_index_lt low]
  then have entry: "dir_entry (s\<lparr>mem := m\<rparr>) w = dir_entry s w" for w by (simp add: dir_entry_def)
  then show "paging_ok (s\<lparr>mem := m\<rparr>)" using ok by (simp add: paging_ok_def)
  show "walk m (current_page_dir s) v = walk (mem s) (current_page_dir s) v"
    using owned_page_low [OF paging_okD(3) [OF ok]]
    by (intro walk_low [OF paging_okD(1) [OF ok] owned_page_low [OF dir] low]) (simp add: dir_entry_def)
qed

lemma low_page_owned:
  assumes "page_aligned p" "unat p < k" "k < 0x80000000" "{j. j * 4096 < k} \<subseteq> owned_frames s"
  shows "p \<in> owned_pages s"
proof -
  have p: "unat p div 4096 * 4096 = unat p" using assms(1) by (simp add: page_aligned_def)
  then have "unat p div 4096 \<in> owned_frames s" using assms(2,4) by auto
  moreover have "p = of_nat (unat p div 4096) * 4096"
    using owned_frames_lt [OF calculation] by (simp add: word_unat_eq_iff unat_page p)
  ultimately show ?thesis unfolding owned_pages_def by blast
qed

lemma tables_below_ok:
  assumes "tables_below k s" "k < 0x80000000" "{j. j * 4096 < k} \<subseteq> owned_frames s"
  shows "paging_ok s"
  using assms(1) low_page_owned [OF _ _ assms(2,3)] by (simp add: paging_ok_def tables_below_def)

section \<open>The steps\<close>

text \<open>Frames, heap and the first message, for a heap above the page tables.\<close>

lemma startup_memory:
  fixes s :: "'a interrupts_scheme"
  assumes kernel: "k = unat (kernel_end la) + 0x10000" "k < 0x80000000"
    and tables: "tables_below k s" and heap: "0x80000000 \<le> unat base" "unat base + 16 \<le> 4294967296"
  obtains bm m log where "frames_init (kernel_end la) s = Some (s\<lparr>bitmap := bm\<rparr>)"
    "heap_allocator_init base 0xffffffff (s\<lparr>bitmap := bm\<rparr>) = s\<lparr>bitmap := bm, heap_top := base, mem := m\<rparr>"
    "paging_ok (s\<lparr>bitmap := bm, heap_top := base, mem := m\<rparr>)"
    "owned_frames (s\<lparr>bitmap := bm\<rparr>) = owned_frames s \<union> {j. j * 4096 < k}"
    "read_header m base = (read_header (mem s) base)\<lparr>is_allocated := False, blk_size := 0xffffffff\<rparr>"
    "\<And>x. x \<notin> region base 16 \<Longrightarrow> m x = mem s x"
    "\<And>v. dir_entry (s\<lparr>bitmap := bm, heap_top := base, mem := m\<rparr>) v = dir_entry s v"
    "\<And>v. walk m (current_page_dir s) v = walk (mem s) (current_page_dir s) v"
proof -
  define m where "m = set_size base 0xffffffff (set_allocated base False (mem s))"
  obtain bm where bm: "frames_init (kernel_end la) s = Some (s\<lparr>bitmap := bm\<rparr>)"
    "owned_frames (s\<lparr>bitmap := bm\<rparr>) = owned_frames s \<union> {j. j * 4096 < k}"
    by (rule frames_init_eq [of "kernel_end la" s]) (use kernel in auto)
  have low: "\<forall>a. unat a < 0x80000000 \<longrightarrow> m a = mem s a"
    using heap by (auto simp: m_def in_region_nat set_allocated_other set_field_other)
  have "tables_below k (s\<lparr>bitmap := bm\<rparr>)" using tables by (simp add: tables_below_def dir_entry_def)
  then have ok: "paging_ok (s\<lparr>bitmap := bm\<rparr>)" using kernel(2) bm(2) by (intro tables_below_ok) auto
  have dir: "current_page_dir (s\<lparr>bitmap := bm\<rparr>) \<in> owned_pages (s\<lparr>bitmap := bm\<rparr>)" using ok by (simp add: paging_ok_def)
  have "dir_entry (s\<lparr>bitmap := bm, heap_top := base, mem := m\<rparr>) v = dir_entry s v" for v
    using rd32_low [OF paging_okD(1) [OF ok] owned_page_low [OF dir] pd_index_lt low] by (simp add: dir_entry_def)
  moreover have "walk m (current_page_dir s) v = walk (mem s) (current_page_dir s) v" for v
    using paging_mem_cong(2) [OF ok, of m v] low by simp
  moreover have "paging_ok (s\<lparr>bitmap := bm, heap_top := base, mem := m\<rparr>)"
    using paging_mem_cong(1) [OF ok, of m] low
    by (simp add: paging_ok_def dir_entry_def owned_pages_def owned_frames_def)
  moreover have "m x = mem s x" if "x \<notin> region base 16" for x
    using that by (simp add: m_def set_allocated_other set_field_other)
  moreover have "read_header m base = (read_header (mem s) base)\<lparr>is_allocated := False, blk_size := 0xffffffff\<rparr>"
    by (simp add: m_def mem_simps)
  moreover have "heap_allocator_init base 0xffffffff (s\<lparr>bitmap := bm\<rparr>) = s\<lparr>bitmap := bm, heap_top := base, mem := m\<rparr>"
    by (simp add: heap_allocator_init_def m_def)
  ultimately show ?thesis using bm by (intro that [of bm m]) auto
qed

text \<open>The display: mapped, cleared, with the cursor in its corner.\<close>

lemma startup_display:
  fixes s :: "'a video_scheme" and fb w h bpp pitch :: u32
  assumes ok: "paging_ok s" and fb: "page_aligned fb" and len: "len = unat (pitch * h * (bpp div 8))"
    and n: "n = Suc (len div 4096)" "n \<le> 131072" "card (owned_frames s) + n \<le> 524288"
    and priv: "\<forall>k<n. private_table s (display_page k)"
  obtains s1 t where "video_init fb w h bpp pitch s = Some s1" "t = set_cursor_pos \<lparr>cur_x = 0, cur_y = 0\<rparr> (clear s1)"
    "t = s\<lparr>bitmap := bitmap t, mem := mem t, cursor := \<lparr>cur_x = 0, cur_y = 0\<rparr>, scr_w := w, scr_h := h,
       scr_bpp := bpp, scr_pitch := pitch\<rparr>" "paging_ok t"
    "\<forall>x<4096 * n. vaddr_to_paddr (VGA_FRAMEBUFFER_BASE + of_nat x) t = fb + of_nat x"
    "\<forall>v. (\<forall>k<n. \<not> same_page v (display_page k)) \<and> page_present v s \<longrightarrow>
       page_present v t \<and> vaddr_to_paddr v t = vaddr_to_paddr v s"
    "\<forall>x\<in>region VGA_FRAMEBUFFER_BASE len. mem t x = 0"
    "\<forall>x. x \<notin> table_area s \<and> x \<notin> region VGA_FRAMEBUFFER_BASE len \<longrightarrow> mem t x = mem s x"
proof -
  have n': "n = Suc (unat ((pitch * h * (bpp div 8)) div 4096))" using n(1) len by (simp add: unat_div)
  obtain s1 where s1: "video_init fb w h bpp pitch s = Some s1" "paging_ok s1"
    "s1 = s\<lparr>bitmap := bitmap s1, mem := mem s1, cursor := \<lparr>cur_x = 0, cur_y = 0\<rparr>, scr_w := w, scr_h := h,
      scr_bpp := bpp, scr_pitch := pitch\<rparr>"
    and area: "\<forall>a. a \<notin> table_area s \<longrightarrow> mem s1 a = mem s a"
    and fbs: "\<forall>x<4096 * n. vaddr_to_paddr (VGA_FRAMEBUFFER_BASE + of_nat x) s1 = fb + of_nat x"
    and kept: "\<forall>v. (\<forall>k<n. \<not> same_page v (display_page k)) \<and> page_present v s \<longrightarrow>
       page_present v s1 \<and> vaddr_to_paddr v s1 = vaddr_to_paddr v s"
    using video_init_run [OF ok fb n' n(2,3) priv, of w] by blast
  define m where "m = memset VGA_FRAMEBUFFER_BASE 0 (pitch * h * (bpp div 8)) (mem s1)"
  define t where "t = set_cursor_pos \<lparr>cur_x = 0, cur_y = 0\<rparr> (clear s1)"
  have scr: "scr_pitch s1 = pitch" "scr_h s1 = h" "scr_bpp s1 = bpp" "cursor s1 = \<lparr>cur_x = 0, cur_y = 0\<rparr>" by (subst s1(3), simp)+
  have t: "t = s1\<lparr>mem := m\<rparr>" by (simp add: t_def set_cursor_pos_def clear_def scr m_def)
  have m: "m x = (if x \<in> region VGA_FRAMEBUFFER_BASE len then 0 else mem s1 x)" for x
    by (simp add: m_def memset_apply len)
  have "len < 0x20000000" using n(1,2) by (simp add: div_less_iff_less_mult Suc_le_eq)
  then have low: "\<forall>a. unat a < 0x80000000 \<longrightarrow> m a = mem s1 a"
    by (auto simp: m in_region_nat VGA_FRAMEBUFFER_BASE_def)
  note C = paging_mem_cong [OF s1(2) low]
  have "t = s\<lparr>bitmap := bitmap t, mem := mem t, cursor := \<lparr>cur_x = 0, cur_y = 0\<rparr>, scr_w := w, scr_h := h,
       scr_bpp := bpp, scr_pitch := pitch\<rparr>"
    using arg_cong [OF s1(3), of "\<lambda>t. t\<lparr>mem := m\<rparr>"] by (simp add: t)
  moreover have "paging_ok t" using C(1) by (simp add: t)
  moreover have v: "vaddr_to_paddr v t = vaddr_to_paddr v s1" "page_present v t = page_present v s1" for v
    using C(2) by (simp_all add: t vaddr_to_paddr_walk page_present_walk)
  have "mem t = m" by (simp add: t)
  then have "\<forall>x\<in>region VGA_FRAMEBUFFER_BASE len. mem t x = 0"
    "\<forall>x. x \<notin> table_area s \<and> x \<notin> region VGA_FRAMEBUFFER_BASE len \<longrightarrow> mem t x = mem s x"
    using area by (simp_all add: m)
  moreover note fbs [folded v] kept [folded v]
  ultimately show ?thesis using that [OF s1(1) t_def] by blast
qed

lemma paging_frame:
  fixes s t :: "'a interrupts_scheme"
  assumes "mem t = mem s" "bitmap t = bitmap s" "current_page_dir t = current_page_dir s"
  shows "paging_ok t = paging_ok s" "dir_entry t v = dir_entry s v" "owned_frames t = owned_frames s"
    "vaddr_to_paddr v t = vaddr_to_paddr v s" "page_present v t = page_present v s" "table_area t = table_area s"
  using assms by (simp_all add: paging_ok_def dir_entry_def owned_pages_def owned_frames_def vaddr_to_paddr_walk
      page_present_walk table_area_def)

lemma entry_base_le: "unat (entry_base x) \<le> unat x"
  by (simp add: unat_entry_base)

lemma table_area_low:
  assumes "paging_ok s" "x \<in> table_area s"
  shows "unat x < 0x80000000"
proof (rule ccontr)
  assume "\<not> unat x < 0x80000000"
  then have x: "0x80000000 \<le> unat (entry_base x)" unfolding unat_entry_base by simp
  have "entry_base x \<in> owned_pages s"
    using assms x entry_base_le [of x] paging_okD(3) [OF assms(1)] by (auto simp: table_area_def paging_ok_def)
  then show False using owned_page_low x by fastforce
qed

lemma table_area_owned:
  assumes "x \<in> table_area s" "unat x < k" "k < 0x80000000" "{j. j * 4096 < k} \<subseteq> owned_frames s"
  shows "x \<in> paging_tables s"
proof -
  have "unat (entry_base x) < k" using assms(2) entry_base_le [of x] by simp
  then have "entry_base x \<in> owned_pages s" by (rule low_page_owned [OF page_aligned_entry_base _ assms(3,4)])
  then show ?thesis using assms(1) by (auto simp: table_area_def paging_tables_def)
qed

lemma read_header_cong:
  assumes m: "\<forall>x\<in>region a 16. m x = m' x"
  shows "read_header m a = read_header m' a"
proof -
  note C = field_cong(1) [OF m]
  show ?thesis using C [of 4] C [of 8] C [of 12] m by (simp add: read_header_def rd8_def)
qed

section \<open>The first part of \<open>kmain\<close>\<close>

definition boot_message :: "io_event list" where
  "boot_message = map (\<lambda>c. Out8 0xe9 (byte_of_char c)) (line ''nOSok is booting...'')"

lemma boot_message_printed:
  "bochs_print (lit (line ''nOSok is booting...'')) s = Some (s\<lparr>port_log := rev boot_message @ port_log s\<rparr>)"
proof -
  have "0 \<notin> set (map byte_of_char (line ''nOSok is booting...''))" by (simp add: line_def byte_of_char_def)
  then show ?thesis
    unfolding lit_def by (simp add: bochs_print_nul boot_message_def rev_map [symmetric] del: rev_map)
qed

lemma kmain_early_run:
  fixes s :: "'a interrupts_scheme"
  assumes kernel: "k = unat (kernel_end la) + 0x10000" "k < 0x80000000" and tables: "tables_below k s"
    and heap: "base = link_addresses.stack_end la" "0x80000000 \<le> unat base" "unat base + 16 \<le> 0xe0000000"
    and info: "apart base 16 a 16" "page_aligned (boot_fb (mem s) a)"
      "len = unat (boot_pitch (mem s) a * boot_h (mem s) a * (boot_bpp (mem s) a div 8))"
    and n: "n = Suc (len div 4096)" "n \<le> 131072" "card (owned_frames s \<union> {j. j * 4096 < k}) + n \<le> 524288"
    and absent: "\<forall>j<n. \<not> entry_present (dir_entry s (display_page j))"
  shows "\<exists>u. kmain_early la a s = Some u \<and> paging_ok u \<and>
    heap_top u = base \<and> read_header (mem u) base = (read_header (mem s) base)\<lparr>is_allocated := False, blk_size := 0xffffffff\<rparr> \<and>
    (\<forall>x<4096 * n. vaddr_to_paddr (VGA_FRAMEBUFFER_BASE + of_nat x) u = boot_fb (mem s) a + of_nat x) \<and>
    (\<forall>v. page_present v s \<longrightarrow> page_present v u \<and> vaddr_to_paddr v u = vaddr_to_paddr v s) \<and>
    (\<forall>x\<in>region VGA_FRAMEBUFFER_BASE len. mem u x = 0) \<and>
    (\<forall>x. x \<notin> paging_tables s \<and> (unat x < k \<or> 0x80000000 \<le> unat x) \<and> x \<notin> region base 16 \<and>
       x \<notin> region VGA_FRAMEBUFFER_BASE len \<longrightarrow> mem u x = mem s x) \<and>
    cursor u = \<lparr>cur_x = 0, cur_y = 0\<rparr> \<and> scr_w u = boot_w (mem s) a \<and> scr_h u = boot_h (mem s) a \<and>
    scr_bpp u = boot_bpp (mem s) a \<and> scr_pitch u = boot_pitch (mem s) a \<and>
    interrupts_on u \<and> idt_loaded u = Some (2047, idt_address la) \<and>
    (\<forall>v<256. gate_present (idt u v) \<longleftrightarrow> v \<in> set handled_vectors) \<and>
    (\<forall>v\<in>set handled_vectors. entry_handler (idt u v) = stub_address la v) \<and> (\<forall>i<16. irq_masked u i \<longleftrightarrow> i \<noteq> 2) \<and>
    (\<exists>log. port_log u = log @ rev boot_message @ port_log s)"
proof -
  have h16: "unat base + 16 \<le> 4294967296" using heap(3) by simp
  obtain bm m where s1: "frames_init (kernel_end la) s = Some (s\<lparr>bitmap := bm\<rparr>)"
    "heap_allocator_init base 0xffffffff (s\<lparr>bitmap := bm\<rparr>) = s\<lparr>bitmap := bm, heap_top := base, mem := m\<rparr>"
    "paging_ok (s\<lparr>bitmap := bm, heap_top := base, mem := m\<rparr>)"
    "owned_frames (s\<lparr>bitmap := bm\<rparr>) = owned_frames s \<union> {j. j * 4096 < k}"
    and header: "read_header m base = (read_header (mem s) base)\<lparr>is_allocated := False, blk_size := 0xffffffff\<rparr>"
    and m: "\<And>x. x \<notin> region base 16 \<Longrightarrow> m x = mem s x"
    and dirs: "\<And>v. dir_entry (s\<lparr>bitmap := bm, heap_top := base, mem := m\<rparr>) v = dir_entry s v"
    and walks: "\<And>v. walk m (current_page_dir s) v = walk (mem s) (current_page_dir s) v"
    by (rule startup_memory [OF kernel tables heap(2) h16]) (rule that, assumption+)
  define s4 where "s4 = s\<lparr>bitmap := bm, heap_top := base, mem := m, port_log := rev boot_message @ port_log s\<rparr>"
  note F = paging_frame [of s4 "s\<lparr>bitmap := bm, heap_top := base, mem := m\<rparr>"]
  have s4: "mem s4 = m" "current_page_dir s4 = current_page_dir s" "paging_ok s4"
    "owned_frames s4 = owned_frames s \<union> {j. j * 4096 < k}" "\<And>v. dir_entry s4 v = dir_entry s v"
    using F s1(3,4) dirs by (simp_all add: s4_def owned_frames_def)
  have "\<forall>x\<in>region a 16. m x = mem s x" using m apart_notin [OF info(1)] by blast
  note B = boot_info_cong [OF this]
  have priv: "\<forall>j<n. private_table s4 (display_page j)" using absent by (simp add: private_table_def s4(5))
  have room: "card (owned_frames s4) + n \<le> 524288" unfolding s4(4) by (rule n(3))
  obtain s5 t where t: "video_init (boot_fb m a) (boot_w m a) (boot_h m a) (boot_bpp m a) (boot_pitch m a) s4 = Some s5"
    "t = set_cursor_pos \<lparr>cur_x = 0, cur_y = 0\<rparr> (clear s5)"
    "t = s4\<lparr>bitmap := bitmap t, mem := mem t, cursor := \<lparr>cur_x = 0, cur_y = 0\<rparr>, scr_w := boot_w m a, scr_h := boot_h m a,
       scr_bpp := boot_bpp m a, scr_pitch := boot_pitch m a\<rparr>" "paging_ok t"
    and fbs: "\<forall>x<4096 * n. vaddr_to_paddr (VGA_FRAMEBUFFER_BASE + of_nat x) t = boot_fb m a + of_nat x"
    and kept: "\<forall>v. (\<forall>k<n. \<not> same_page v (display_page k)) \<and> page_present v s4 \<longrightarrow>
       page_present v t \<and> vaddr_to_paddr v t = vaddr_to_paddr v s4"
    and blank: "\<forall>x\<in>region VGA_FRAMEBUFFER_BASE len. mem t x = 0"
    and same: "\<forall>x. x \<notin> table_area s4 \<and> x \<notin> region VGA_FRAMEBUFFER_BASE len \<longrightarrow> mem t x = mem s4 x"
    by (rule startup_display [OF s4(3) info(2,3) [folded B] n(1,2) room priv, of "boot_w m a"]) (rule that, assumption+)
  obtain u where u: "interrupts_init (idt_address la) (stub_address la) t = Some u"
    "\<forall>v<256. gate_present (idt u v) \<longleftrightarrow> v \<in> set handled_vectors"
    "\<forall>v\<in>set handled_vectors. entry_handler (idt u v) = stub_address la v" "\<forall>i<16. irq_masked u i \<longleftrightarrow> i \<noteq> 2"
    "idt_loaded u = Some (2047, idt_address la)" "interrupts_on u"
    and log: "\<exists>log. port_log u = log @ port_log t"
    and frame: "u = t\<lparr>port_log := port_log u, idt := idt u, idtr_size := 2047, idtr_linear_addr := idt_address la,
      idt_loaded := idt_loaded u, interrupts_on := True\<rparr>"
    using interrupts_init_run [of "idt_address la" "stub_address la" t] by blast
  have run: "kmain_early la a s = Some u"
    using s1(1,2) t(1) u(1)
    by (simp add: kmain_early_def paging_init_def heap(1) [symmetric] boot_message_printed s4(1) flip: s4_def t(2))
  have u_t: "mem u = mem t" "bitmap u = bitmap t" "current_page_dir u = current_page_dir t" "heap_top u = heap_top t"
    "cursor u = cursor t" "scr_w u = scr_w t" "scr_h u = scr_h t" "scr_bpp u = scr_bpp t" "scr_pitch u = scr_pitch t"
    by (subst frame, simp)+
  have t_s: "heap_top t = base" "cursor t = \<lparr>cur_x = 0, cur_y = 0\<rparr>" "scr_w t = boot_w m a" "scr_h t = boot_h m a"
    "scr_bpp t = boot_bpp m a" "scr_pitch t = boot_pitch m a" "port_log t = rev boot_message @ port_log s"
    by (subst t(3), simp add: s4_def)+
  have fb_high: "0xe0000000 \<le> unat x" if "x \<in> region VGA_FRAMEBUFFER_BASE len" for x
  proof -
    have "len < 0x20000000" using n(1,2) by (simp add: div_less_iff_less_mult Suc_le_eq)
    then show ?thesis using that by (simp add: in_region_nat VGA_FRAMEBUFFER_BASE_def)
  qed
  have "mem t x = m x" if "x \<in> region base 16" for x
  proof -
    have "0x80000000 \<le> unat x" "unat x < 0xe0000000" using that heap(2,3) h16 by (simp_all add: in_region_nat)
    then show ?thesis using same fb_high table_area_low [OF s4(3)] s4(1) by fastforce
  qed
  then have "read_header (mem u) base = read_header m base" by (intro read_header_cong) (simp add: u_t(1))
  moreover have "page_present v u \<and> vaddr_to_paddr v u = vaddr_to_paddr v s" if v: "page_present v s" for v
  proof -
    have "walk (mem s4) (current_page_dir s4) v = walk (mem s) (current_page_dir s) v" by (simp add: s4(1,2) walks)
    then have "page_present v s4" "vaddr_to_paddr v s4 = vaddr_to_paddr v s"
      using v by (simp_all add: page_present_walk vaddr_to_paddr_walk)
    moreover have "entry_present (dir_entry s v)" using v walk_present by (simp add: page_present_walk)
    then have "\<forall>j<n. \<not> same_page v (display_page j)" using absent dir_entry_cong by (metis same_page_def)
    ultimately show ?thesis using kept paging_frame(4,5) [OF u_t(1-3)] by metis
  qed
  moreover have "mem u x = mem s x" if x: "x \<notin> paging_tables s" "unat x < k \<or> 0x80000000 \<le> unat x" "x \<notin> region base 16"
    "x \<notin> region VGA_FRAMEBUFFER_BASE len" for x
  proof -
    have "x \<notin> paging_tables s4" using x(1) by (simp add: paging_tables_def s4(2,5))
    then have "x \<notin> table_area s4"
      using x(2) table_area_low [OF s4(3), of x] table_area_owned [of x s4 k] kernel(2) s4(4) by fastforce
    then show ?thesis using same x(3,4) m s4(1) by (simp add: u_t(1))
  qed
  moreover have "paging_ok u" "\<forall>x<4096 * n. vaddr_to_paddr (VGA_FRAMEBUFFER_BASE + of_nat x) u = boot_fb (mem s) a + of_nat x"
    using t(4) fbs B(5) by (simp_all add: paging_frame [OF u_t(1-3)])
  moreover have "\<forall>x\<in>region VGA_FRAMEBUFFER_BASE len. mem u x = 0" using blank by (simp add: u_t(1))
  ultimately show ?thesis
    using run header u log by (simp add: u_t t_s B)
qed

section \<open>From the first instruction\<close>

lemma display_page_index:
  assumes "k < 131072"
  shows "pd_index (display_page k) \<notin> {0, 768}"
proof -
  have "896 \<le> unat (pd_index (display_page k))" using assms by (simp add: unat_pd_index unat_display_page)
  then show ?thesis by auto
qed

text \<open>The page tables \<open>kmain\<close> finds.\<close>

lemma entry_tables:
  fixes s :: "'a processor_scheme"
  assumes ok: "entry_labels_ok l" and dir: "current_page_dir s = page_directory l"
    and k: "k < 0x80000000" "unat (page_directory l) + 8192 \<le> k" and stack: "0x80000008 \<le> unat (stack_end l)"
    and unset: "\<forall>i. unat i < 1024 \<and> i \<notin> {0, 768} \<longrightarrow> \<not> entry_present (rd32 m (page_directory l + 4 * i))"
    and mem: "mem s = kmain_memory l a m"
  shows "tables_below k s" "\<And>v. pd_index v \<notin> {0, 768} \<Longrightarrow> \<not> entry_present (dir_entry s v)"
    "\<And>v. pd_index v \<in> {0, 768} \<Longrightarrow> walk (mem s) (current_page_dir s) v =
       Some (if pt_index v = 1023 then 0xb8000 else v AND 0x003ff000)"
proof -
  note T = table_pages [OF ok]
  have t0: "unat (page_table_0 l) = unat (page_directory l) + 4096"
    using k by (simp add: page_table_0_def unat_word_ariths)
  have "unat (stack_end l - 8) = unat (stack_end l) - 8" using stack by (simp add: unat_sub32)
  then have low: "\<forall>x. unat x < 0x80000000 \<longrightarrow> kmain_memory l a m x = entry_memory l a m x"
    using stack unat_lt32 [of "stack_end l"] by (auto intro!: kmain_memory_stack simp: in_region_nat)
  have d: "unat (page_directory l) + 4096 \<le> 0x80000000" using k by simp
  have entry: "dir_entry s v = rd32 (entry_memory l a m) (page_directory l + 4 * pd_index v)" for v
    using rd32_low [OF T(1) d pd_index_lt low] by (simp add: dir_entry_def dir mem)
  show unset': "\<not> entry_present (dir_entry s v)" if "pd_index v \<notin> {0, 768}" for v
    using that unset entry_memory_unset [OF ok pd_index_lt that] pd_index_lt unfolding entry by metis
  have set': "entry_present (dir_entry s v) \<and> entry_base (dir_entry s v) = page_table_0 l" if "pd_index v \<in> {0, 768}" for v
    using decode_plus_3 [OF T(2)] entry_memory_entries(2) [OF ok pd_index_lt that] unfolding entry
    by (auto simp: decode_def split: if_splits)
  show "tables_below k s"
    unfolding tables_below_def dir
  proof (intro conjI allI impI)
    fix v assume "entry_present (dir_entry s v)"
    then have b: "entry_base (dir_entry s v) = page_table_0 l" using unset' set' by blast
    show "unat (entry_base (dir_entry s v)) < k" "entry_base (dir_entry s v) \<noteq> page_directory l"
      using k T(3) unfolding b t0 by simp_all
  qed (use T k in simp_all)
  show "walk (mem s) (current_page_dir s) v = Some (if pt_index v = 1023 then 0xb8000 else v AND 0x003ff000)"
    if v: "pd_index v \<in> {0, 768}" for v
  proof -
    have "entry_base (rd32 (entry_memory l a m) (page_directory l + 4 * pd_index v)) = page_table_0 l"
      using set' [OF v] entry by simp
    then have "walk (mem s) (page_directory l) v = walk (entry_memory l a m) (page_directory l) v"
      unfolding mem using k t0 by (intro walk_low [OF T(1) d low]) simp
    then show ?thesis using entry_translation [OF ok v] dir by simp
  qed
qed

section \<open>Properties\<close>

text \<open>
  C13. From the first instruction of the kernel to a working console: with the boot
  information at \<open>a\<close>, \<open>kmain\<close> starts and its first part comes to an end. Then the kernel is
  still mapped at both its addresses, every byte of the framebuffer is mapped behind
  \<open>VGA_FRAMEBUFFER_BASE\<close> and cleared, the screen has the size the loader has reported, the
  cursor is in the corner, the heap is one free block behind the stack, exactly the
  vectors 2, 6, 13, 14 and 0x20 to 0x2f have gates, to their stubs, only line 2 is unmasked, interrupts are enabled, and the
  debug port has got the message. Other memory is as the entry code left it: below the end
  of the kernel apart from the page tables, and from 2 GiB up apart from the header of the
  heap and the framebuffer. Hypotheses: what the linker script gives (the tables in the
  kernel, the stack in the upper half), directory entries that are absent where the entry
  code writes none, boot information in memory the kernel counts as its own, and a
  page-aligned framebuffer with enough free frames.
\<close>

theorem start_to_console:
  fixes s :: "'a processor_scheme"
  assumes labels: "entry_labels_ok l" "base = stack_end l" "base = link_addresses.stack_end la" "current_page_dir s = page_directory l"
    and kernel: "k = unat (kernel_end la) + 0x10000" "k < 0x80000000" "unat (page_directory l) + 8192 \<le> k"
    and stack: "0x80000008 \<le> unat base" "unat base + 16 \<le> 0xe0000000"
    and unset: "\<forall>i. unat i < 1024 \<and> i \<notin> {0, 768} \<longrightarrow> \<not> entry_present (rd32 (mem s) (page_directory l + 4 * i))"
    and info: "\<forall>x\<in>region a 16. mem s x = write_boot_info a info m x" "rd32 (mem s) (esp s + 4) = a" "unat a + 16 \<le> k"
      "apart (page_directory l) 8192 a 16" "apart (boot_info_ptr l) 4 a 16"
    and display: "d = display_info info" "page_aligned (info_fb d)"
      "len = unat (ucast (info_pitch d) * ucast (info_h d) * (ucast (info_bpp d) div 8) :: u32)"
    and n: "n = Suc (len div 4096)" "n \<le> 131072" "card (owned_frames s \<union> {j. j * 4096 < k}) + n \<le> 524288"
    and u: "u = enter_kmain l (start_paging l s)"
  shows "\<exists>t. eip u = kmain_addr l \<and> kmain_early la (rd32 (mem u) (esp u + 4)) u = Some t \<and> paging_ok t \<and>
    (\<forall>v. pd_index v \<in> {0, 768} \<and> pt_index v \<noteq> 1023 \<longrightarrow> vaddr_to_paddr v t = v AND 0x003fffff) \<and>
    (\<forall>x<4096 * n. vaddr_to_paddr (VGA_FRAMEBUFFER_BASE + of_nat x) t = info_fb d + of_nat x) \<and>
    (\<forall>x\<in>region VGA_FRAMEBUFFER_BASE len. mem t x = 0) \<and>
    cursor t = \<lparr>cur_x = 0, cur_y = 0\<rparr> \<and> scr_w t = ucast (info_w d) \<and> scr_h t = ucast (info_h d) \<and>
    scr_bpp t = ucast (info_bpp d) \<and> scr_pitch t = ucast (info_pitch d) \<and>
    heap_top t = base \<and> \<not> is_allocated (read_header (mem t) base) \<and> blk_size (read_header (mem t) base) = 0xffffffff \<and>
    interrupts_on t \<and> idt_loaded t = Some (2047, idt_address la) \<and>
    (\<forall>v<256. gate_present (idt t v) \<longleftrightarrow> v \<in> {0x02, 0x06, 0x0d, 0x0e} \<union> {0x20..0x2f}) \<and>
    (\<forall>v\<in>{0x02, 0x06, 0x0d, 0x0e} \<union> {0x20..0x2f}. entry_handler (idt t v) = stub_address la v) \<and> (\<forall>i<16. irq_masked t i \<longleftrightarrow> i \<noteq> 2) \<and>
    (\<exists>log. port_log t = log @ rev boot_message @ port_log s) \<and>
    (\<forall>x. x \<notin> paging_tables u \<and> (unat x < k \<or> 0x80000000 \<le> unat x) \<and> x \<notin> region base 16 \<and>
       x \<notin> region VGA_FRAMEBUFFER_BASE len \<longrightarrow> mem t x = mem u x)"
proof -
  obtain c where c: "u = s\<lparr>cr3 := page_directory l, cr0 := cr0 s OR 0x80010000,
    mem := kmain_memory l a (mem s), esp := stack_end l - 8, cpu := c, eip := kmain_addr l\<rparr>"
    unfolding u using entry_hands_over [OF labels(1) info(2)] by blast
  have arg: "rd32 (mem u) (esp u + 4) = a" by (simp add: c kmain_memory_def mem_simps apart_def)
  have E: "tables_below k u" "\<And>v. pd_index v \<notin> {0, 768} \<Longrightarrow> \<not> entry_present (dir_entry u v)"
    "\<And>v. pd_index v \<in> {0, 768} \<Longrightarrow> walk (mem u) (current_page_dir u) v =
       Some (if pt_index v = 1023 then 0xb8000 else v AND 0x003ff000)"
    using entry_tables [OF labels(1) _ kernel(2,3) stack(1) [unfolded labels(2)] unset, of u a] labels(4) by (simp_all add: c)
  have "unat (base - 8) = unat base - 8" using stack(1) by (simp add: unat_sub32)
  then have ap: "apart (stack_end l - 8) 8 a 16" "apart base 16 a 16"
    using stack info(3) kernel(2) unfolding labels(2) by (auto intro!: apartI2)
  have "\<forall>x\<in>region a 16. mem u x = write_boot_info a info m x"
    using kmain_memory_other [OF info(4,5) ap(1)] info(1) by (simp add: c)
  note C = boot_info_cong [OF this]
  have B: "boot_w (mem u) a = ucast (info_w d)" "boot_h (mem u) a = ucast (info_h d)"
    "boot_pitch (mem u) a = ucast (info_pitch d)" "boot_bpp (mem u) a = ucast (info_bpp d)" "boot_fb (mem u) a = info_fb d"
    using boot_info_roundtrip [of a info m] by (simp_all add: C display(1))
  have absent: "\<forall>j<n. \<not> entry_present (dir_entry u (display_page j))"
    using n(2) display_page_index E(2) by (meson less_le_trans)
  have "owned_frames u = owned_frames s" by (simp add: c owned_frames_def)
  then have free: "card (owned_frames u \<union> {j. j * 4096 < k}) + n \<le> 524288" using n(3) by simp
  have base: "0x80000000 \<le> unat base" using stack(1) by simp
  obtain t where t: "kmain_early la a u = Some t" "paging_ok t" "heap_top t = base"
    "\<forall>x<4096 * n. vaddr_to_paddr (VGA_FRAMEBUFFER_BASE + of_nat x) t = info_fb d + of_nat x"
    "\<forall>x\<in>region VGA_FRAMEBUFFER_BASE len. mem t x = 0"
    "cursor t = \<lparr>cur_x = 0, cur_y = 0\<rparr>" "scr_w t = ucast (info_w d)" "scr_h t = ucast (info_h d)"
    "scr_bpp t = ucast (info_bpp d)" "scr_pitch t = ucast (info_pitch d)" "interrupts_on t" "idt_loaded t = Some (2047, idt_address la)"
    "\<forall>v<256. gate_present (idt t v) \<longleftrightarrow> v \<in> {0x02, 0x06, 0x0d, 0x0e} \<union> {0x20..0x2f}"
    "\<forall>v\<in>{0x02, 0x06, 0x0d, 0x0e} \<union> {0x20..0x2f}. entry_handler (idt t v) = stub_address la v" "\<forall>i<16. irq_masked t i \<longleftrightarrow> i \<noteq> 2"
    "\<forall>x. x \<notin> paging_tables u \<and> (unat x < k \<or> 0x80000000 \<le> unat x) \<and> x \<notin> region base 16 \<and>
       x \<notin> region VGA_FRAMEBUFFER_BASE len \<longrightarrow> mem t x = mem u x"
    and header: "read_header (mem t) base = (read_header (mem u) base)\<lparr>is_allocated := False, blk_size := 0xffffffff\<rparr>"
    and log: "\<exists>log. port_log t = log @ rev boot_message @ port_log u"
    and kept: "\<forall>v. page_present v u \<longrightarrow> page_present v t \<and> vaddr_to_paddr v t = vaddr_to_paddr v u"
    using kmain_early_run [OF kernel(1,2) E(1) labels(3) base stack(2) ap(2), unfolded B set_handled_vectors, OF display(2,3) n(1,2) free absent] by blast
  have "vaddr_to_paddr v t = v AND 0x003fffff" if v: "pd_index v \<in> {0, 768}" "pt_index v \<noteq> 1023" for v
  proof -
    have "(v AND 0x003ff000) OR (v AND 0xfff) = v AND 0x003fffff" by (simp flip: bit.conj_disj_distrib)
    then show ?thesis using kept E(3) [OF v(1)] v(2) by (simp add: page_present_walk vaddr_to_paddr_walk)
  qed
  moreover have "eip u = kmain_addr l" "port_log u = port_log s" by (simp_all add: c)
  moreover have "\<not> is_allocated (read_header (mem t) base)" "blk_size (read_header (mem t) base) = 0xffffffff" by (simp_all add: header)
  ultimately show ?thesis using t log unfolding arg by (intro exI [of _ t]) simp
qed

definition console_info :: bootloader_info where
  "console_info = \<lparr>boot_drive = 0x80, display_info = \<lparr>info_w = 640, info_h = 480, info_pitch = 2560, info_bpp = 32,
     info_fb = 0xfd000000\<rparr>\<rparr>"

definition console_addresses :: link_addresses where
  "console_addresses = \<lparr>kernel_end = 0x310000, stack_end = 0xC0300000, idt_address = 0xC0200000,
     stub_address = (\<lambda>v. 0xC0100000 + 16 * of_nat v), test_entry = 0xC0106000, test2_entry = 0xC0106100\<rparr>"

definition console_machine :: processor where
  "console_machine = entry_machine\<lparr>mem := write_boot_info 0x7b00 console_info (wr32 0x9004 0x7b00 (\<lambda>_. 0)),
     current_page_dir := 0x101000\<rparr>"

lemma console_machine_simps:
  "mem console_machine = write_boot_info 0x7b00 console_info (wr32 0x9004 0x7b00 (\<lambda>_. 0))"
  "current_page_dir console_machine = 0x101000" "esp console_machine = 0x9000" "owned_frames console_machine = {}"
  by (simp_all add: console_machine_def entry_machine_def tasks.defs dhcp.defs udp.defs processor.defs owned_frames_def booted_def)

lemma write_boot_info_other:
  assumes "x \<notin> region a 16"
  shows "write_boot_info a info m x = m x"
proof -
  have out: "x \<notin> region (a + of_nat i) n" if "i + n \<le> 16" for i n
    using region_offset [OF that, of a] assms by auto
  from out [of 0 1] out [of 4 2] out [of 6 2] out [of 8 2] out [of 10 1] out [of 12 4] show ?thesis
    by (simp add: write_boot_info_def Let_def wr8_other wr16_other wr32_other)
qed

lemma console_machine_directory:
  assumes "unat i < 1024"
  shows "rd32 (mem console_machine) (0x101000 + 4 * i) = 0"
proof -
  have "rd32 (mem console_machine) (0x101000 + 4 * i) = rd32 (\<lambda>_. 0) (0x101000 + 4 * i)"
  proof (rule rd32_cong)
    fix x assume "x \<in> region (0x101000 + 4 * i) 4"
    moreover have "unat (0x101000 + 4 * i) = 0x101000 + 4 * unat i"
      using assms by (subst unat_entry) (simp_all add: page_aligned_def)
    ultimately have "0x101000 \<le> unat x" using assms by (simp add: in_region_nat)
    then have "x \<notin> region 0x7b00 16" "x \<notin> region 0x9004 4" by (simp_all add: in_region_nat)
    then show "mem console_machine x = 0" by (simp add: console_machine_simps write_boot_info_other wr32_other)
  qed
  then show ?thesis by (simp add: rd32_zero)
qed

theorem start_to_console_witness:
  "\<exists>u t. u = enter_kmain entry_machine_labels (start_paging entry_machine_labels console_machine) \<and>
     kmain_early console_addresses (rd32 (mem u) (esp u + 4)) u = Some t \<and> scr_w t = 640 \<and> interrupts_on t \<and>
     vaddr_to_paddr 0xe0000000 t = 0xfd000000 \<and> vaddr_to_paddr 0xC0104abc t = 0x104abc \<and>
     entry_handler (idt t 0x20) = 0xC0100200"
proof -
  define u where "u = enter_kmain entry_machine_labels (start_paging entry_machine_labels console_machine)"
  have D: "page_directory entry_machine_labels = 0x101000" "stack_end entry_machine_labels = 0xC0300000"
    "link_addresses.stack_end console_addresses = 0xC0300000" "kernel_end console_addresses = 0x310000"
    "boot_info_ptr entry_machine_labels = 0x100200"
    by (simp_all add: entry_machine_labels_def console_addresses_def)
  have arg: "rd32 (mem console_machine) (esp console_machine + 4) = 0x7b00"
    by (simp add: console_machine_simps write_boot_info_def Let_def rd32_def wr8_def wr16_def wr32_def)
  have "{j. j * 4096 < (0x320000 :: nat)} = {..<800}" by auto
  then have card: "card (owned_frames console_machine \<union> {j. j * 4096 < 0x320000}) + 1201 \<le> 524288"
    by (simp add: console_machine_simps(4))
  have absent: "\<forall>i. unat i < 1024 \<and> i \<notin> {0, 768} \<longrightarrow>
      \<not> entry_present (rd32 (mem console_machine) (page_directory entry_machine_labels + 4 * i))"
    by (simp add: D console_machine_directory entry_present_def)
  have labels: "(0xC0300000 :: u32) = stack_end entry_machine_labels" "(0xC0300000 :: u32) = link_addresses.stack_end console_addresses"
    "current_page_dir console_machine = page_directory entry_machine_labels"
    "(0x320000 :: nat) = unat (kernel_end console_addresses) + 0x10000" "unat (page_directory entry_machine_labels) + 8192 \<le> 0x320000"
    "apart (page_directory entry_machine_labels) 8192 0x7b00 16" "apart (boot_info_ptr entry_machine_labels) 4 0x7b00 16"
    by (simp_all add: D console_machine_simps apart_def)
  have display: "page_aligned (info_fb (display_info console_info))"
    "(4915200 :: nat) = unat (ucast (info_pitch (display_info console_info)) * ucast (info_h (display_info console_info)) *
       (ucast (info_bpp (display_info console_info)) div 8) :: u32)"
    by (simp_all add: console_info_def page_aligned_def)
  have numbers: "(0x320000 :: nat) < 0x80000000" "0x80000008 \<le> unat (0xC0300000 :: u32)" "unat (0xC0300000 :: u32) + 16 \<le> 0xe0000000"
    "unat (0x7b00 :: u32) + 16 \<le> 0x320000" "(1201 :: nat) = Suc (4915200 div 4096)" "(1201 :: nat) \<le> 131072"
    by simp_all
  obtain t where t: "kmain_early console_addresses (rd32 (mem u) (esp u + 4)) u = Some t" "interrupts_on t"
    "scr_w t = ucast (info_w (display_info console_info))"
    "\<forall>x<4096 * 1201. vaddr_to_paddr (VGA_FRAMEBUFFER_BASE + of_nat x) t = info_fb (display_info console_info) + of_nat x"
    "\<forall>v. pd_index v \<in> {0, 768} \<and> pt_index v \<noteq> 1023 \<longrightarrow> vaddr_to_paddr v t = v AND 0x003fffff"
    "\<forall>v\<in>{0x02, 0x06, 0x0d, 0x0e} \<union> {0x20..0x2f}. entry_handler (idt t v) = stub_address console_addresses v"
    using start_to_console [OF entry_machine_labels_ok labels(1-4) numbers(1) labels(5) numbers(2,3) absent _ arg numbers(4)
      labels(6,7) refl display numbers(5,6) card u_def, of "wr32 0x9004 0x7b00 (\<lambda>_. 0)"] console_machine_simps(1) by auto
  have "pd_index 0xC0104abc = 768" "pt_index 0xC0104abc = 260" by (simp_all add: pd_index_def pt_index_def)
  then have "vaddr_to_paddr 0xC0104abc t = 0x104abc" using t(5) by simp
  moreover have "(0x20 :: nat) \<in> {0x02, 0x06, 0x0d, 0x0e} \<union> {0x20..0x2f}" by simp
  then have "entry_handler (idt t 0x20) = 0xC0100200" using t(6) by (simp add: console_addresses_def)
  moreover have "vaddr_to_paddr 0xe0000000 t = 0xfd000000"
    using spec [OF t(4), of 0] by (simp add: VGA_FRAMEBUFFER_BASE_def console_info_def)
  ultimately show ?thesis using t(1-3) u_def by (auto simp: console_info_def)
qed

end
