(* ===== verification/Interrupt_Stubs.thy ===== *)
theory Interrupt_Stubs
  imports Kernel_Entry Task_Ring Dispatch
begin

text \<open>
  The code around the handlers of interrupts and exceptions, \<open>src/kernel/cpu/interrupts.asm\<close>:
  what it saves, what the handlers find on the stack, and where the machine goes on. The C++
  handlers are called as the C convention has it: they may change \<open>eax\<close>, \<open>ecx\<close> and \<open>edx\<close>, and
  what they leave there is a parameter, as are the return addresses of the calls.
\<close>

section \<open>The processor\<close>

text \<open>An interrupt gate of the same privilege: flags, code segment and instruction pointer are
  pushed and interrupts disabled; \<open>iret\<close> takes the three back. Bit 9 of the flags is
  \<open>interrupts_on\<close>.\<close>

definition flags_word :: "'a processor_scheme \<Rightarrow> u32" where
  "flags_word s = (if interrupts_on s then eflags s OR 0x200 else eflags s AND NOT 0x200)"

definition take_interrupt :: "'a processor_scheme \<Rightarrow> 'a processor_scheme" where
  "take_interrupt s =
     (let s = push32 (flags_word s) s; s = push32 (ucast (cs_reg s)) s; s = push32 (eip s) s
      in s\<lparr>interrupts_on := False\<rparr>)"

definition iret :: "'a processor_scheme \<Rightarrow> 'a processor_scheme" where
  "iret s =
     (let (v, s) = pop32 s; s = s\<lparr>eip := v\<rparr>;
          (v, s) = pop32 s; s = s\<lparr>cs_reg := ucast v\<rparr>;
          (v, s) = pop32 s
      in s\<lparr>eflags := v, interrupts_on := bit v 9\<rparr>)"

definition pusha :: "'a tasks_scheme \<Rightarrow> 'a tasks_scheme" where
  "pusha s =
     (let temp = esp s;
          s = push32 (eax (cpu s)) s; s = push32 (ecx (cpu s)) s; s = push32 (edx (cpu s)) s;
          s = push32 (ebx (cpu s)) s; s = push32 temp s; s = push32 (ebp (cpu s)) s;
          s = push32 (esi (cpu s)) s
      in push32 (edi (cpu s)) s)"

definition popa :: "'a tasks_scheme \<Rightarrow> 'a tasks_scheme" where
  "popa s =
     (let (v, s) = pop32 s; s = s\<lparr>cpu := (cpu s)\<lparr>edi := v\<rparr>\<rparr>;
          (v, s) = pop32 s; s = s\<lparr>cpu := (cpu s)\<lparr>esi := v\<rparr>\<rparr>;
          (v, s) = pop32 s; s = s\<lparr>cpu := (cpu s)\<lparr>ebp := v\<rparr>\<rparr>;
          (_, s) = pop32 s;
          (v, s) = pop32 s; s = s\<lparr>cpu := (cpu s)\<lparr>ebx := v\<rparr>\<rparr>;
          (v, s) = pop32 s; s = s\<lparr>cpu := (cpu s)\<lparr>edx := v\<rparr>\<rparr>;
          (v, s) = pop32 s; s = s\<lparr>cpu := (cpu s)\<lparr>ecx := v\<rparr>\<rparr>;
          (v, s) = pop32 s
      in s\<lparr>cpu := (cpu s)\<lparr>eax := v\<rparr>\<rparr>)"

text \<open>What a C++ function leaves in the registers it need not keep: \<open>eax\<close>, \<open>ecx\<close> and \<open>edx\<close>.\<close>

definition clobber :: "u32 \<times> u32 \<times> u32 \<Rightarrow> 'a tasks_scheme \<Rightarrow> 'a tasks_scheme" where
  "clobber junk s = (case junk of (a, c, d) \<Rightarrow> s\<lparr>cpu := (cpu s)\<lparr>eax := a, ecx := c, edx := d\<rparr>\<rparr>)"

section \<open>The stubs\<close>

text \<open>Interrupts of devices: the number is pushed and dropped again. The handler takes its
  argument from above the return address.\<close>

definition irq_stub ::
  "(u32 \<Rightarrow> 'a processor_scheme \<Rightarrow> 'a processor_scheme option) \<Rightarrow> u32 \<times> u32 \<times> u32 \<Rightarrow> u32 \<Rightarrow> u32 \<Rightarrow>
   'a processor_scheme \<Rightarrow> 'a processor_scheme option" where
  "irq_stub irq junk return_addr i s =
     do {
       let s = push32 i s;
       let s = push32 return_addr s;
       s \<leftarrow> irq_handler irq (rd32 (mem s) (esp s + 4)) s;
       let s = clobber junk s;
       let (_, s) = pop32 s;
       let s = s\<lparr>esp := esp s + 4\<rparr>;
       Some (iret s)
     }"

text \<open>The structure the exception handler is given by value, at its place on the stack.\<close>

definition regs_at :: "mem \<Rightarrow> u32 \<Rightarrow> regs" where
  "regs_at m a =
     \<lparr>reg_cr2 = rd32 m a, reg_gs = rd32 m (a + 4), reg_fs = rd32 m (a + 8), reg_es = rd32 m (a + 12),
      reg_ds = rd32 m (a + 16), reg_edi = rd32 m (a + 20), reg_esi = rd32 m (a + 24), reg_ebp = rd32 m (a + 28),
      reg_esp = rd32 m (a + 32), reg_ebx = rd32 m (a + 36), reg_edx = rd32 m (a + 40), reg_ecx = rd32 m (a + 44),
      reg_eax = rd32 m (a + 48), reg_error_code = rd32 m (a + 52), reg_eip = rd32 m (a + 56),
      reg_cs = rd16 m (a + 60), reg_eflags = rd32 m (a + 64)\<rparr>"

text \<open>Exceptions for which the processor pushes an error code, up to the call and after it.\<close>

definition isr_save :: "u32 \<Rightarrow> u32 \<Rightarrow> 'a processor_scheme \<Rightarrow> 'a processor_scheme" where
  "isr_save return_addr i s =
     (let s = pusha s;
          s = push32 (ucast (ds_reg s)) s; s = push32 (ucast (es_reg s)) s;
          s = push32 (ucast (fs_reg s)) s; s = push32 (ucast (gs_reg s)) s;
          s = s\<lparr>cpu := (cpu s)\<lparr>eax := cr2 s\<rparr>\<rparr>;
          s = push32 (eax (cpu s)) s;
          s = push32 i s
      in push32 return_addr s)"

definition isr_restore :: "'a processor_scheme \<Rightarrow> 'a processor_scheme" where
  "isr_restore s =
     (let (_, s) = pop32 s;
          s = s\<lparr>esp := esp s + 4\<rparr>;
          (v, s) = pop32 s; s = s\<lparr>cpu := (cpu s)\<lparr>eax := v\<rparr>\<rparr>;
          (v, s) = pop32 s; s = s\<lparr>gs_reg := ucast v\<rparr>;
          (v, s) = pop32 s; s = s\<lparr>fs_reg := ucast v\<rparr>;
          (v, s) = pop32 s; s = s\<lparr>es_reg := ucast v\<rparr>;
          (v, s) = pop32 s; s = s\<lparr>ds_reg := ucast v\<rparr>;
          s = popa s
      in iret s)"

definition isr_with_code :: "u32 \<times> u32 \<times> u32 \<Rightarrow> u32 \<Rightarrow> u32 \<Rightarrow> 'a processor_scheme \<Rightarrow> 'a processor_scheme option" where
  "isr_with_code junk return_addr i s =
     do {
       let s = isr_save return_addr i s;
       s \<leftarrow> isr_handler (rd32 (mem s) (esp s + 4)) (regs_at (mem s) (esp s + 8)) s;
       Some (isr_restore (clobber junk s))
     }"

definition isr_without_code :: "u32 \<times> u32 \<times> u32 \<Rightarrow> u32 \<Rightarrow> u32 \<Rightarrow> 'a processor_scheme \<Rightarrow> 'a processor_scheme option" where
  "isr_without_code junk return_addr i s = isr_with_code junk return_addr i (push32 0 s)"

text \<open>The timer: the switch may return into the task it has switched to, where the \<open>iret\<close> behind
  the call is the next instruction only if that task was left here.\<close>

definition irq_32 :: "u32 \<Rightarrow> 'a processor_scheme \<Rightarrow> 'a processor_scheme" where
  "irq_32 return_addr s =
     (let s = switch_context (push32 return_addr s) in if eip s = return_addr then iret s else s)"

end
