(* ===== verification/Preemption.thy ===== *)
theory Preemption
  imports Interrupt_Stubs
begin

text \<open>
  What the stubs promise: the timer as a preemptive switch, the frame of a device interrupt,
  and the registers an exception handler is shown.
\<close>

section \<open>Interrupt frames\<close>

definition interrupt_frame :: "'a processor_scheme \<Rightarrow> mem" where
  "interrupt_frame s = wr32 (esp s - 12) (eip s) (wr32 (esp s - 8) (ucast (cs_reg s)) (wr32 (esp s - 4) (flags_word s) (mem s)))"

lemma take_interrupt_eq:
  "take_interrupt s = s\<lparr>mem := interrupt_frame s, esp := esp s - 12, interrupts_on := False\<rparr>"
  by (rule processor.equality)
    (simp_all add: take_interrupt_def push32_def interrupt_frame_def flags_word_def Let_def)

lemma interrupt_frame_words:
  "rd32 (interrupt_frame s) (esp s - 12) = eip s" "rd32 (interrupt_frame s) (esp s - 8) = ucast (cs_reg s)"
  "rd32 (interrupt_frame s) (esp s - 4) = flags_word s"
  "x \<notin> region (esp s - 12) 12 \<Longrightarrow> interrupt_frame s x = mem s x"
proof -
  define a where "a = esp s - 12"
  have a: "esp s - 12 = a" "esp s - 8 = a + 4" "esp s - 4 = a + 8" by (simp_all add: a_def)
  show "rd32 (interrupt_frame s) (esp s - 12) = eip s" "rd32 (interrupt_frame s) (esp s - 8) = ucast (cs_reg s)"
    "rd32 (interrupt_frame s) (esp s - 4) = flags_word s"
    unfolding interrupt_frame_def a by (simp_all add: mem_simps apart_def)
  show "interrupt_frame s x = mem s x" if "x \<notin> region (esp s - 12) 12"
  proof -
    have "region (a + of_nat i) 4 \<subseteq> region a 12" if "i \<le> 8" for i using that by (intro region_offset) simp_all
    then have "x \<notin> region (a + of_nat i) 4" if "i \<le> 8" for i using \<open>x \<notin> _\<close> that unfolding a by blast
    from this [of 0] this [of 4] this [of 8] show ?thesis
      unfolding interrupt_frame_def a by (simp add: wr32_other)
  qed
qed

lemma iret_eq:
  "iret s = s\<lparr>esp := esp s + 12, eip := rd32 (mem s) (esp s), cs_reg := ucast (rd32 (mem s) (esp s + 4)),
     eflags := rd32 (mem s) (esp s + 8), interrupts_on := bit (rd32 (mem s) (esp s + 8)) 9\<rparr>"
  by (rule processor.equality) (simp_all add: iret_def pop32_def Let_def add.commute)

text \<open>Bit 9 of the pushed flags is the one that is kept apart.\<close>

lemma bit_flags_word: "bit (flags_word s) 9 = interrupts_on s"
proof -
  have "bit (0x200 :: u32) 9" by simp
  then show ?thesis by (simp add: flags_word_def bit_or_iff bit_and_iff bit_not_iff)
qed

lemma flags_word_restored:
  assumes "eflags t = flags_word s" "interrupts_on t = interrupts_on s"
  shows "flags_word t = flags_word s"
proof -
  have "flags_word s OR 0x200 = flags_word s" if "interrupts_on s" using that by (simp add: flags_word_def or.assoc)
  moreover have "flags_word s AND NOT 0x200 = flags_word s" if "\<not> interrupts_on s"
    using that by (simp add: flags_word_def and.assoc)
  ultimately show ?thesis using assms by (simp add: flags_word_def [of t])
qed

section \<open>The timer\<close>

lemma switch_context_call: "switch_context (push32 ra s) = switch_task ra s"
proof -
  have "switch_context (push32 ra (s\<lparr>interrupts_on := False\<rparr>)) = switch_context (push32 ra s)"
    unfolding switch_context_def by (simp add: push32_def)
  then show ?thesis
    unfolding switch_task_def Let_def
    by (simp add: switch_context_eq [OF refl refl refl refl])
qed

lemma irq_32_eq: "irq_32 ra s = (if eip (switch_task ra s) = ra then iret (switch_task ra s) else switch_task ra s)"
  by (simp add: irq_32_def switch_context_call Let_def)

lemma stack_area_mono: "stack_area s ts X \<Longrightarrow> Y \<subseteq> X \<Longrightarrow> stack_area s ts Y"
  unfolding stack_area_def spare_def by blast

lemma stack_area_kept:
  assumes "heap_ready s" "stack_area s ts X" "\<And>x. x \<notin> X \<Longrightarrow> m x = mem s x" "stack_area s ts Y"
  shows "stack_area (s\<lparr>mem := m\<rparr>) ts Y"
proof -
  have "spare (s\<lparr>mem := m\<rparr>) Y" if Y: "spare s Y"
  proof -
    consider "spare s X" | q n where "object s q n" "X \<subseteq> region q n"
      using assms(2) by (auto simp: stack_area_def)
    then show ?thesis
    proof cases
      case 1
      obtain bs e where inv: "heap_inv s bs e" using assms(1) by (auto simp: heap_ready_def)
      have "m x = mem s x" if "x \<in> header_bytes bs" for x
        using 1 that assms(3) unfolding spare_iff [OF inv] by blast
      then have "heap_inv (s\<lparr>mem := m\<rparr>) bs e" by (rule heap_inv_write [OF inv])
      from spare_iff [OF this] spare_iff [OF inv] Y show ?thesis by simp
    next
      case 2
      have "m x = mem s x" if "x \<notin> region q n" for x using 2(2) that assms(3) by blast
      from heap_write(3) [OF 2(1) this] Y show ?thesis by simp
    qed
  qed
  moreover have "object (s\<lparr>mem := m\<rparr>) q n = object s q n" for q n
    using stack_area_write(2) [OF assms(1-3)] .
  ultimately show ?thesis using assms(4) by (auto simp: stack_area_def)
qed

lemma interrupt_ring:
  assumes ring: "task_ring s ts" and area: "stack_area s ts (region (esp s - 12) 12)"
  shows "task_ring (take_interrupt s) ts" "stack_area s ts X \<Longrightarrow> stack_area (take_interrupt s) ts X"
proof -
  have R: "heap_ready s" "\<And>t. t \<in> set ts \<Longrightarrow> object s t 16" "links (mem s) ts (hd ts)"
    using ring by (auto simp: task_ring_def)
  note W = ring_stack_write [OF R area interrupt_frame_words(4)]
  show "task_ring (take_interrupt s) ts"
    using ring W by (simp add: task_ring_def take_interrupt_eq)
  show "stack_area (take_interrupt s) ts X" if "stack_area s ts X"
    using stack_area_kept [OF R(1) area interrupt_frame_words(4) that]
    by (simp add: take_interrupt_eq stack_area_def spare_def heap_inv_def)
qed

lemma frame_parts:
  fixes e :: u32
  shows "region (e - 44) 32 \<subseteq> region (e - 44) 44" "region (e - 12) 12 \<subseteq> region (e - 44) 44"
    "region (e - 12) 12 \<inter> region (e - 44) 32 = {}"
proof -
  show "region (e - 44) 32 \<subseteq> region (e - 44) 44" by (rule region_mono) simp
  show "region (e - 12) 12 \<subseteq> region (e - 44) 44" using region_offset [of 32 12 44 "e - 44"] by simp
  show "region (e - 12) 12 \<inter> region (e - 44) 32 = {}" by (rule apart_disjoint) (simp add: apart_def)
qed

text \<open>A context is outside any memory used as a stack.\<close>

lemma node_outside:
  assumes "task_ring s ts" "t \<in> set ts" "stack_area s ts X"
  shows "region t 16 \<inter> X = {}"
  using assms stack_area_write(3) [OF _ assms(3) refl assms(2)] by (auto simp: task_ring_def)

text \<open>What the timer leaves of the task it interrupts.\<close>

lemma timer_saves:
  fixes s :: "'a processor_scheme" and ra :: u32
  assumes ring: "task_ring s ts" and area: "stack_area s ts (region (esp s - 44) 44)"
  defines "s' \<equiv> irq_32 ra (take_interrupt s)"
  shows "task_esp (mem s') (current_task s) = esp s - 44" "frame_at (mem s') (esp s - 44) (cpu s) ra"
    "\<And>x. x \<in> region (esp s - 12) 12 \<Longrightarrow> mem s' x = interrupt_frame s x"
    "\<And>x. x \<notin> region (esp s - 44) 44 \<Longrightarrow> x \<notin> region (current_task s) 4 \<Longrightarrow> mem s' x = mem s x"
proof -
  note P = frame_parts [of "esp s"]
  define t where "t = take_interrupt s"
  have t: "mem t = interrupt_frame s" "esp t = esp s - 12" "cpu t = cpu s" "current_task t = current_task s"
    by (simp_all add: t_def take_interrupt_eq)
  have area12: "stack_area s ts (region (esp s - 12) 12)" and area32: "stack_area s ts (region (esp s - 44) 32)"
    using area P by (auto intro: stack_area_mono)
  note I = interrupt_ring [OF ring area12, folded t_def]
  obtain i where i: "i < length ts" "current_task t = ts ! i"
    using ring t(4) by (auto simp: task_ring_def in_set_conv_nth)
  have "stack_area t ts (region (esp t - 32) 32)" using I(2) [OF area32] by (simp add: t)
  note S = switch_task_ring [where ra = ra, OF I(1) i this]
  have m: "mem s' = mem (switch_task ra t)" by (simp add: s'_def t_def irq_32_eq iret_eq)
  show "task_esp (mem s') (current_task s) = esp s - 44" "frame_at (mem s') (esp s - 44) (cpu s) ra"
    using S(3,4) i(2) by (simp_all add: m t)
  have "current_task s \<in> set ts" using ring by (simp add: task_ring_def)
  then have "region (current_task s) 16 \<inter> region (esp s - 12) 12 = {}"
    using node_outside [OF ring _ area12] by blast
  moreover have "region (current_task s) 4 \<subseteq> region (current_task s) 16" by (rule region_mono) simp
  ultimately have far: "x \<notin> region (current_task s) 4" if "x \<in> region (esp s - 12) 12" for x using that by blast
  show "\<And>x. x \<in> region (esp s - 12) 12 \<Longrightarrow> mem s' x = interrupt_frame s x"
    using S(5) far P(3) i(2) by (auto simp: m t)
  show "mem s' x = mem s x" if "x \<notin> region (esp s - 44) 44" "x \<notin> region (current_task s) 4" for x
  proof -
    have "x \<notin> region (esp t - 32) 32" "x \<notin> region (esp s - 12) 12" using that(1) P by (auto simp: t)
    then show ?thesis using S(5) [of x] that(2) i(2) interrupt_frame_words(4) [of x s] by (simp add: m t)
  qed
qed

text \<open>The timer in another task gives back what is in the frame, if that was left by the timer.\<close>

lemma timer_resumes:
  fixes u :: "'a processor_scheme" and ra e :: u32
  assumes ring: "task_ring u us" and c: "task_next (mem u) (current_task u) = c" "current_task u \<noteq> c"
    and area: "stack_area u us (region (esp u - 44) 44)" "stack_area u us (region (e - 44) 44)"
    and ap: "apart (esp u - 44) 44 (e - 44) 44"
    and f: "task_esp (mem u) c = e - 44" "frame_at (mem u) (e - 44) r ra"
  defines "v \<equiv> irq_32 ra (take_interrupt u)"
  shows "cpu v = r" "esp v = e" "current_task v = c" "eip v = rd32 (mem u) (e - 12)"
    "cs_reg v = ucast (rd32 (mem u) (e - 8))" "eflags v = rd32 (mem u) (e - 4)" "interrupts_on v = bit (rd32 (mem u) (e - 4)) 9"
proof -
  note P = frame_parts [of "esp u"] and Q = frame_parts [of e]
  define t where "t = take_interrupt u"
  have t: "mem t = interrupt_frame u" "esp t = esp u - 12" "current_task t = current_task u"
    by (simp_all add: t_def take_interrupt_eq)
  have area12: "stack_area u us (region (esp u - 12) 12)" and area32: "stack_area u us (region (esp u - 44) 32)"
    using area(1) P by (auto intro: stack_area_mono)
  note I = interrupt_ring [OF ring area12, folded t_def]
  have d: "current_task u \<in> set us" and links: "links (mem u) us (hd us)" using ring by (auto simp: task_ring_def)
  have cs: "c \<in> set us"
  proof -
    obtain j where j: "j < length us" "current_task u = us ! j" using d by (auto simp: in_set_conv_nth)
    have "c = us ! (Suc j mod length us)" using links_next [OF links j(1)] c(1) j(2) by (simp add: task_next_def)
    moreover have "Suc j mod length us < length us" using j(1) by (intro mod_less_divisor) (cases us, simp_all)
    ultimately show ?thesis by simp
  qed
  have far: "x \<notin> region (esp u - 12) 12" "x \<notin> region (e - 44) 44" "x \<notin> region (esp u - 44) 32"
    if "x \<in> region a 16" "a \<in> set us" for x a
    using node_outside [OF ring that(2) area12] node_outside [OF ring that(2) area(2)]
      node_outside [OF ring that(2) area32] that(1) by blast+
  have sub: "region a 4 \<subseteq> region a 16" "region (a + 12) 4 \<subseteq> region a 16" for a :: u32
    using region_offset [of 12 4 16 a] region_mono [of 4 16 a] by simp_all
  have mt: "mem t x = mem u x" if "x \<notin> region (esp u - 12) 12" for x
    using interrupt_frame_words(4) [OF that] by (simp add: t)
  have sep: "x \<notin> region (esp u - 12) 12" "x \<notin> region (esp u - 44) 32" if "x \<in> region (e - 44) 44" for x
    using apart_notin [OF ap that] P by blast+
  have word: "rd32 (mem t) a = rd32 (mem u) a" if "region a 4 \<inter> region (esp u - 12) 12 = {}" for a
    using that mt by (intro rd32_cong) blast
  have node: "region a 4 \<inter> region (esp u - 12) 12 = {}" "region (a + 12) 4 \<inter> region (esp u - 12) 12 = {}"
    if "a \<in> set us" for a
    using far(1) [OF _ that] sub [of a] by blast+
  have "task_next (mem t) (current_task t) = c"
    using word [of "current_task u + 12"] node(2) [OF d] c(1) by (simp add: task_next_def t(3))
  moreover have "stack_area t us (region (esp t - 32) 32)" "stack_area t us (region (e - 44) 32)"
    using I(2) [OF area32] I(2) [OF stack_area_mono [OF area(2) Q(1)]] by (simp_all add: t)
  moreover have "apart (esp t - 32) 32 (e - 44) 32" using apart_mono [OF ap, of 32 32] by (simp add: t)
  moreover have "task_esp (mem t) c = e - 44"
    using word [of c] node(1) [OF cs] f(1) by (simp add: task_esp_def)
  moreover have "frame_at (mem t) (e - 44) r ra"
    using f(2) frame_at_cong [of "e - 44" "mem t" "mem u"] mt sep(1) Q(1) by blast
  ultimately have R: "cpu (switch_task ra t) = r" "esp (switch_task ra t) = e - 12" "eip (switch_task ra t) = ra"
      "current_task (switch_task ra t) = c"
    using switch_task_resumes [where ra = ra, OF I(1)] c(2) by (simp_all add: t(3))
  obtain j where j: "j < length us" "current_task t = us ! j"
    using I(1) by (auto simp: task_ring_def in_set_conv_nth)
  have "stack_area t us (region (esp t - 32) 32)" using I(2) [OF area32] by (simp add: t)
  note S = switch_task_ring [where ra = ra, OF I(1) j this]
  have "mem (switch_task ra t) x = mem u x" if "x \<in> region (e - 12) 12" for x
  proof -
    have x: "x \<in> region (e - 44) 44" using that Q(2) by blast
    then have "x \<notin> region (current_task u) 4" using far(2) [OF _ d] sub(1) by blast
    then show ?thesis using S(5) [of x] sep [OF x] mt [OF sep(1) [OF x]] j(2) by (simp add: t)
  qed
  note W = frame_words [of _ 12 "e - 12" "mem (switch_task ra t)" "mem u", OF _ _ this]
  have "rd32 (mem (switch_task ra t)) (e - 12) = rd32 (mem u) (e - 12)"
    "rd32 (mem (switch_task ra t)) (e - 8) = rd32 (mem u) (e - 8)"
    "rd32 (mem (switch_task ra t)) (e - 4) = rd32 (mem u) (e - 4)"
    using W [of 0] W [of 4] W [of 8] by simp_all
  then show "cpu v = r" "esp v = e" "current_task v = c" "eip v = rd32 (mem u) (e - 12)"
    "cs_reg v = ucast (rd32 (mem u) (e - 8))" "eflags v = rd32 (mem u) (e - 4)" "interrupts_on v = bit (rd32 (mem u) (e - 4)) 9"
    using R by (simp_all add: v_def irq_32_eq flip: t_def) (simp_all add: iret_eq)
qed

lemma ucast_up_down: "ucast (ucast (x :: u16) :: u32) = x"
  by (rule bit_word_eqI) (simp add: bit_ucast_iff)

text \<open>
  C17. Preemption by the timer: a task that the timer interrupts gets everything back. If at some
  later state \<open>u\<close> its context's stack pointer and the 44 bytes of its frame are as the timer
  left them, and the task running then is the one before it in the ring, the next tick restores
  all seven registers, the stack pointer, the instruction pointer, the code segment and the flags.
\<close>

theorem timer_preemption_roundtrip:
  fixes s u :: "'a processor_scheme" and ra :: u32
  assumes s: "task_ring s ts" "current_task s = c" "stack_area s ts (region (esp s - 44) 44)"
    and s': "s' = irq_32 ra (take_interrupt s)"
    and u: "task_ring u us" "task_next (mem u) (current_task u) = c" "current_task u \<noteq> c"
    and kept: "task_esp (mem u) c = task_esp (mem s') c" "\<forall>x\<in>region (esp s - 44) 44. mem u x = mem s' x"
    and area: "stack_area u us (region (esp u - 44) 44)" "stack_area u us (region (esp s - 44) 44)"
      "apart (esp u - 44) 44 (esp s - 44) 44"
    and v: "v = irq_32 ra (take_interrupt u)"
  shows "cpu v = cpu s \<and> esp v = esp s \<and> eip v = eip s \<and> cs_reg v = cs_reg s \<and>
    flags_word v = flags_word s \<and> interrupts_on v = interrupts_on s \<and> current_task v = c"
proof -
  note P = frame_parts [of "esp s"] and T = timer_saves [where ra = ra, OF s(1,3), folded s', unfolded s(2)]
  have "frame_at (mem u) (esp s - 44) (cpu s) ra"
    using T(2) frame_at_cong [of "esp s - 44" "mem u" "mem s'"] kept(2) P(1) by blast
  note R = timer_resumes [OF u area kept(1) [unfolded T(1)] this, folded v]
  have "mem u x = interrupt_frame s x" if "x \<in> region (esp s - 12) 12" for x
    using T(3) [OF that] kept(2) P(2) that by auto
  note W = frame_words [of _ 12 "esp s - 12" "mem u" "interrupt_frame s", OF _ _ this]
  have F: "rd32 (mem u) (esp s - 12) = eip s" "rd32 (mem u) (esp s - 8) = ucast (cs_reg s)"
    "rd32 (mem u) (esp s - 4) = flags_word s"
    using W [of 0] W [of 4] W [of 8] interrupt_frame_words(1-3) [of s] by simp_all
  have "interrupts_on v = interrupts_on s" using R(7) by (simp add: F bit_flags_word)
  moreover have "flags_word v = flags_word s" using R(6) calculation by (intro flags_word_restored) (simp_all add: F)
  ultimately show ?thesis using R by (simp add: F ucast_up_down)
qed

section \<open>Interrupts of devices\<close>

lemma clobber_eq: "clobber (a, c, d) s = s\<lparr>cpu := (cpu s)\<lparr>eax := a, ecx := c, edx := d\<rparr>\<rparr>"
  by (simp add: clobber_def)

text \<open>
  C20. An interrupt of a device, from the interrupted instruction through stub and handler and
  back: the handler gets the number; if it changes nothing of the processor and not the frame,
  the program goes on where it was, with its stack pointer, code segment and flags, and with
  \<open>ebx\<close>, \<open>esi\<close>, \<open>edi\<close> and \<open>ebp\<close>. But \<open>eax\<close>, \<open>ecx\<close> and \<open>edx\<close> hold whatever the handler has
  left there: the stub does not save them.
\<close>

theorem irq_stub_resumes:
  fixes s :: "'a processor_scheme"
  assumes call: "s1 = push32 ra (push32 i (take_interrupt s))" "irq_handler irq i s1 = Some t"
    and cpu: "t = s1\<lparr>mem := mem t, port_log := port_log t, cursor := cursor t\<rparr>"
    and frame: "\<forall>x\<in>region (esp s - 12) 12. mem t x = mem s1 x"
    and v: "irq_stub irq (a, c, d) ra i (take_interrupt s) = v"
  shows "\<exists>u. v = Some u \<and> mem u = mem t \<and> eip u = eip s \<and> esp u = esp s \<and> cs_reg u = cs_reg s \<and>
    flags_word u = flags_word s \<and> interrupts_on u = interrupts_on s \<and>
    cpu u = (cpu s)\<lparr>eax := a, ecx := c, edx := d\<rparr>"
proof -
  have s1: "esp s1 = esp s - 20" "cpu s1 = cpu s"
    "mem s1 = wr32 (esp s - 20) ra (wr32 (esp s - 16) i (interrupt_frame s))"
    by (simp_all add: call(1) push32_def take_interrupt_eq)
  have arg: "rd32 (mem s1) (esp s1 + 4) = i" by (simp add: s1 mem_simps apart_def)
  have t: "esp t = esp s - 20" "cpu t = cpu s" using arg_cong [OF cpu, of esp] arg_cong [OF cpu, of cpu] s1 by simp_all
  have "mem s1 x = interrupt_frame s x" if "x \<in> region (esp s - 12) 12" for x
  proof -
    have "apart (esp s - 20) 4 (esp s - 12) 12" "apart (esp s - 16) 4 (esp s - 12) 12" by (simp_all add: apart_def)
    then show ?thesis using that by (simp add: s1(3) wr32_other apart_notin)
  qed
  then have "mem t x = interrupt_frame s x" if "x \<in> region (esp s - 12) 12" for x using frame that by simp
  note W = frame_words [of _ 12 "esp s - 12" "mem t" "interrupt_frame s", OF _ _ this]
  have F: "rd32 (mem t) (esp s - 12) = eip s" "rd32 (mem t) (esp s - 8) = ucast (cs_reg s)"
    "rd32 (mem t) (esp s - 4) = flags_word s"
    using W [of 0] W [of 4] W [of 8] interrupt_frame_words(1-3) [of s] by simp_all
  define u where "u = iret (t\<lparr>cpu := (cpu s)\<lparr>eax := a, ecx := c, edx := d\<rparr>, esp := esp s - 12\<rparr>)"
  have "irq_stub irq (a, c, d) ra i (take_interrupt s) = Some u"
    using call arg by (simp add: irq_stub_def u_def clobber_eq pop32_def t Let_def flip: call(1))
  moreover have "interrupts_on u = interrupts_on s" by (simp add: u_def iret_eq F bit_flags_word)
  moreover have "flags_word u = flags_word s"
    using calculation(2) by (intro flags_word_restored) (simp_all add: u_def iret_eq F)
  ultimately show ?thesis using v
    by (intro exI [of _ u]) (simp add: u_def iret_eq F ucast_up_down)
qed

section \<open>Exceptions\<close>

text \<open>The registers at the moment of the exception, as the handler should see them.\<close>

definition regs_of :: "u32 \<Rightarrow> 'a processor_scheme \<Rightarrow> regs" where
  "regs_of err s =
     \<lparr>reg_cr2 = cr2 s, reg_gs = ucast (gs_reg s), reg_fs = ucast (fs_reg s), reg_es = ucast (es_reg s),
      reg_ds = ucast (ds_reg s), reg_edi = edi (cpu s), reg_esi = esi (cpu s), reg_ebp = ebp (cpu s),
      reg_esp = esp s - 16, reg_ebx = ebx (cpu s), reg_edx = edx (cpu s), reg_ecx = ecx (cpu s),
      reg_eax = eax (cpu s), reg_error_code = err, reg_eip = eip s, reg_cs = cs_reg s,
      reg_eflags = flags_word s\<rparr>"

text \<open>The words of the frame, from the lowest address up.\<close>

definition isr_words :: "u32 \<Rightarrow> u32 \<Rightarrow> u32 \<Rightarrow> 'a processor_scheme \<Rightarrow> u32 list" where
  "isr_words ra i err s = (let r = regs_of err s in
     [ra, i, reg_cr2 r, reg_gs r, reg_fs r, reg_es r, reg_ds r, reg_edi r, reg_esi r, reg_ebp r, reg_esp r,
      reg_ebx r, reg_edx r, reg_ecx r, reg_eax r, err, reg_eip r, ucast (reg_cs r), reg_eflags r])"

primrec write_words :: "u32 \<Rightarrow> u32 list \<Rightarrow> mem \<Rightarrow> mem" where
  "write_words a [] m = m"
| "write_words a (w # ws) m = wr32 a w (write_words (a + 4) ws m)"

lemma write_words_other:
  "x \<notin> region a (4 * length ws) \<Longrightarrow> length ws \<le> 1024 \<Longrightarrow> write_words a ws m x = m x"
proof (induction ws arbitrary: a)
  case (Cons w ws)
  have "region (a + of_nat 4) (4 * length ws) \<subseteq> region a (4 * length (w # ws))" "region a 4 \<subseteq> region a (4 * length (w # ws))"
    using Cons.prems(2) by (intro region_offset region_mono, simp_all)+
  then have "x \<notin> region (a + 4) (4 * length ws)" "x \<notin> region a 4" using Cons.prems(1) by auto
  then show ?case using Cons.IH Cons.prems(2) by (simp add: wr32_other)
qed simp

lemma apart_above:
  assumes "n \<le> unat y" "unat y + k \<le> 4294967296" "0 < n"
  shows "apart a n (a + y) k"
proof -
  have "unat (- y) = 4294967296 - unat y" using unat_sub32 [of 0 y] assms(1,3) by simp
  then show ?thesis using assms by (simp add: apart_def)
qed

lemma write_words_nth:
  "k < length ws \<Longrightarrow> length ws \<le> 1024 \<Longrightarrow> rd32 (write_words a ws m) (a + 4 * of_nat k) = ws ! k"
proof (induction ws arbitrary: a k)
  case (Cons w ws)
  show ?case
  proof (cases k)
    case 0
    then show ?thesis by (simp add: mem_simps)
  next
    case (Suc j)
    have "j < 1023" using Suc Cons.prems by simp
    then have "unat (4 * of_nat j + 4 :: u32) = 4 * j + 4"
      by (simp add: unat_word_ariths unsigned_of_nat take_bit_eq_mod)
    then have "apart a 4 (a + (4 * of_nat j + 4)) 4"
      using \<open>j < 1023\<close> by (intro apart_above) simp_all
    then have "rd32 (wr32 a w (write_words (a + 4) ws m)) (a + 4 + 4 * of_nat j) =
        rd32 (write_words (a + 4) ws m) (a + 4 + 4 * of_nat j)"
      by (intro rd32_wr32_apart) (simp add: algebra_simps)
    then show ?thesis using Cons.IH [of j "a + 4"] Cons.prems Suc by (simp add: algebra_simps)
  qed
qed simp

lemma isr_save_eq:
  "isr_save ra i (push32 err (take_interrupt s)) = s\<lparr>mem := write_words (esp s - 76) (isr_words ra i err s) (mem s),
     esp := esp s - 76, interrupts_on := False, cpu := (cpu s)\<lparr>eax := cr2 s\<rparr>\<rparr>"
  by (rule processor.equality)
    (simp_all add: isr_save_def pusha_def push32_def take_interrupt_eq interrupt_frame_def Let_def
      isr_words_def regs_of_def)

text \<open>The handler prints and halts; of the processor it only disables interrupts.\<close>

lemma io_only_bochs_print: "bochs_print cs s = Some t \<Longrightarrow> io_only s t"
proof (induction cs arbitrary: s)
  case (Cons c cs)
  then show ?case
    by (auto split: if_splits) (blast intro: io_only_trans io_only_ports(1) io_only_refl)
qed simp

lemma isr_handler_effect:
  fixes s :: "'a interrupts_scheme"
  assumes "isr_handler i r s = Some t"
  shows "\<exists>t'. io_only s t' \<and> t = t'\<lparr>interrupts_on := False\<rparr>"
proof -
  define message where "message t = (if i = 0x06 then printf (lit (line ''EXCEPTION: 0x06 - Invalid opcode'')) [] t
      else if i = 0x08 then printf (lit (line ''EXCEPTION: 0x08 - Double fault'')) [] t
      else if i = 0x0d then printf (lit (line ''EXCEPTION: 0x0d - GPF (e: %x)'')) [reg_error_code r] t
      else if i = 0x0e then printf (lit (line ''EXCEPTION: 0x0e - Page fault (e: %x)'')) [reg_error_code r] t
      else printf (lit (line ''INTERRUPT: 0x%2x'')) [i] t)" for t :: "'a interrupts_scheme"
  obtain s1 s2 s3 s4 where run: "printf (lit (line ''Something went wrong...'')) [] s = Some s1"
    "bochs_print (lit (line ''Something went wrong...'')) s1 = Some s2" "message s2 = Some s3"
    and regs: "io_only s3 s4"
    and t: "t = (write16 0x8a00 0x8ae0 (write16 0x8a00 0x8a00 s4))\<lparr>interrupts_on := False\<rparr>"
    using assms unfolding isr_handler_def message_def [symmetric] bind_eq_Some_conv
    by (auto simp: Let_def dest: io_only_printf)
  have msg: "io_only s2 s3"
    using run(3) by (auto simp: message_def split: if_splits dest: io_only_printf)
  have "io_only s s4"
    using io_only_printf [OF run(1)] io_only_bochs_print [OF run(2)] msg regs by (blast intro: io_only_trans)
  then show ?thesis unfolding t by (intro exI conjI) (auto intro: effects)
qed

lemma rd16_rd32: "rd16 m a = ucast (rd32 m a)"
  unfolding rd16_def rd32_def
  by (rule bit_word_eqI) (auto simp: bit_or_iff bit_push_bit_iff bit_ucast_iff)

lemma isr_frame_words:
  assumes "\<forall>x\<in>region a 76. m x = write_words a (isr_words ra i err s) m0 x" "k < 19"
  shows "rd32 m (a + 4 * of_nat k) = isr_words ra i err s ! k"
proof -
  have len: "length (isr_words ra i err s) = 19" by (simp add: isr_words_def Let_def)
  have "rd32 m (a + of_nat (4 * k)) = rd32 (write_words a (isr_words ra i err s) m0) (a + of_nat (4 * k))"
    using assms by (intro frame_words [of _ 76]) auto
  then show ?thesis using write_words_nth [of k "isr_words ra i err s" a m0] assms(2) len by simp
qed

lemma isr_regs:
  assumes "\<forall>x\<in>region a 76. m x = write_words a (isr_words ra i err s) m0 x"
  shows "rd32 m (a + 4) = i" "regs_at m (a + 8) = regs_of err s"
proof -
  note W = isr_frame_words [OF assms]
  note w = W [of 1] W [of 2] W [of 3] W [of 4] W [of 5] W [of 6] W [of 7] W [of 8] W [of 9] W [of 10]
    W [of 11] W [of 12] W [of 13] W [of 14] W [of 15] W [of 16] W [of 17] W [of 18]
  show "rd32 m (a + 4) = i" using W [of 1] by (simp add: isr_words_def Let_def)
  show "regs_at m (a + 8) = regs_of err s"
    using w by (simp add: regs_at_def rd16_rd32 isr_words_def Let_def add.assoc) (simp add: regs_of_def ucast_up_down)
qed

lemma isr_restore_eq:
  "isr_restore s = s\<lparr>cpu := \<lparr>eax = rd32 (mem s) (esp s + 56), ebx = rd32 (mem s) (esp s + 44),
       ecx = rd32 (mem s) (esp s + 52), edx = rd32 (mem s) (esp s + 48), esi = rd32 (mem s) (esp s + 32),
       edi = rd32 (mem s) (esp s + 28), ebp = rd32 (mem s) (esp s + 36)\<rparr>, esp := esp s + 72,
     eip := rd32 (mem s) (esp s + 60), cs_reg := ucast (rd32 (mem s) (esp s + 64)),
     ds_reg := ucast (rd32 (mem s) (esp s + 24)), es_reg := ucast (rd32 (mem s) (esp s + 20)),
     fs_reg := ucast (rd32 (mem s) (esp s + 16)), gs_reg := ucast (rd32 (mem s) (esp s + 12)),
     eflags := rd32 (mem s) (esp s + 68), interrupts_on := bit (rd32 (mem s) (esp s + 68)) 9\<rparr>"
  by (rule processor.equality)
    (simp_all add: isr_restore_def popa_def iret_def pop32_def Let_def add.assoc add.commute)

text \<open>
  C21. An exception: the structure the handler is given holds the registers of the interrupted
  code, with the error code the processor has pushed or 0 (the stack pointer it shows is that of
  the frame). If the handler comes back with the frame as it was (\<open>hlt\<close> ends when a non-maskable
  interrupt comes), all registers are restored but \<open>iret\<close> finds the error code, which nothing has
  taken from the stack: the machine goes on at the error code as its address, in the code segment
  the old instruction pointer is taken for.
\<close>

theorem isr_stub_shows_registers:
  fixes s :: "'a processor_scheme"
  assumes s1: "s1 = isr_save ra i (push32 err (take_interrupt s))"
    and v: "v = isr_with_code junk ra i (push32 err (take_interrupt s)) \<or>
      err = 0 \<and> v = isr_without_code junk ra i (take_interrupt s)"
  shows "v = map_option (\<lambda>t. isr_restore (clobber junk t)) (isr_handler i (regs_of err s) s1) \<and>
    (\<forall>t u. isr_handler i (regs_of err s) s1 = Some t \<and> u = isr_restore (clobber junk t) \<and>
         (\<forall>x\<in>region (esp s - 76) 76. mem t x = mem s1 x) \<longrightarrow>
       eip u = err \<and> cs_reg u = ucast (eip s) \<and> esp u = esp s - 4 \<and> cpu u = cpu s \<and>
       ds_reg u = ds_reg s \<and> es_reg u = es_reg s \<and> fs_reg u = fs_reg s \<and> gs_reg u = gs_reg s)"
proof -
  have m1: "esp s1 = esp s - 76" "\<forall>x\<in>region (esp s - 76) 76. mem s1 x =
      write_words (esp s - 76) (isr_words ra i err s) (mem s) x"
    by (simp_all add: s1 isr_save_eq)
  have "v = isr_with_code junk ra i (push32 err (take_interrupt s))" using v by (auto simp: isr_without_code_def)
  then have "v = map_option (\<lambda>t. isr_restore (clobber junk t)) (isr_handler i (regs_of err s) s1)"
    using isr_regs [OF m1(2)]
    by (simp add: isr_with_code_def Let_def m1(1) map_conv_bind_option o_def flip: s1)
  moreover have "eip u = err \<and> cs_reg u = ucast (eip s) \<and> esp u = esp s - 4 \<and> cpu u = cpu s \<and>
      ds_reg u = ds_reg s \<and> es_reg u = es_reg s \<and> fs_reg u = fs_reg s \<and> gs_reg u = gs_reg s"
    if run: "isr_handler i (regs_of err s) s1 = Some t" and u: "u = isr_restore (clobber junk t)"
      and kept: "\<forall>x\<in>region (esp s - 76) 76. mem t x = mem s1 x" for t u
  proof -
    obtain t' where "io_only s1 t'" and t': "t = t'\<lparr>interrupts_on := False\<rparr>"
      using isr_handler_effect [OF run] by blast
    then have "t' = s1\<lparr>mem := mem t', port_log := port_log t', cursor := cursor t'\<rparr>" by (simp add: io_only_def)
    from arg_cong [OF this, of esp] have "esp t' = esp s1" by simp
    then have e: "esp t = esp s - 76" using m1(1) by (simp add: t')
    have "\<forall>x\<in>region (esp s - 76) 76. mem t x = write_words (esp s - 76) (isr_words ra i err s) (mem s) x"
      using kept m1(2) by simp
    note W = isr_frame_words [OF this]
    show ?thesis
      using W [of 3] W [of 4] W [of 5] W [of 6] W [of 7] W [of 8] W [of 9] W [of 11]
        W [of 12] W [of 13] W [of 14] W [of 15] W [of 16] 
      by (cases junk) (simp add: u clobber_eq isr_restore_eq e isr_words_def Let_def regs_of_def ucast_up_down)
  qed
  ultimately show ?thesis by blast
qed

section \<open>Examples\<close>

lemma heap_top_timer: "heap_top (irq_32 ra (take_interrupt s)) = heap_top s"
  by (simp add: irq_32_eq iret_eq take_interrupt_eq switch_task_eq [OF refl refl refl])

lemma ring_iret [simp]: "task_ring (iret s) ts = task_ring s ts"
  by (simp add: iret_eq task_ring_def heap_ready_def object_def heap_inv_def)

text \<open>A tick of the timer goes round the ring.\<close>

lemma timer_ring:
  fixes s :: "'a processor_scheme" and ra :: u32
  assumes ring: "task_ring s ts" and area: "stack_area s ts (region (esp s - 44) 44)"
    and i: "i < length ts" "current_task s = ts ! i"
  shows "task_ring (irq_32 ra (take_interrupt s)) ts"
    "current_task (irq_32 ra (take_interrupt s)) = ts ! (Suc i mod length ts)"
proof -
  note P = frame_parts [of "esp s"]
  have parts: "stack_area s ts (region (esp s - 12) 12)" "stack_area s ts (region (esp s - 44) 32)"
    using area P by (auto intro: stack_area_mono)
  note I = interrupt_ring [OF ring parts(1)]
  have "stack_area (take_interrupt s) ts (region (esp (take_interrupt s) - 32) 32)"
    using I(2) [OF parts(2)] by (simp add: take_interrupt_eq)
  note S = switch_task_ring [where ra = ra, OF I(1) i(1) _ this]
  show "task_ring (irq_32 ra (take_interrupt s)) ts"
    "current_task (irq_32 ra (take_interrupt s)) = ts ! (Suc i mod length ts)"
    using S(1,2) i(2) by (simp_all add: irq_32_eq take_interrupt_eq) (simp_all add: iret_eq)
qed

definition two_task_processor :: "tasks \<Rightarrow> processor" where
  "two_task_processor s = tasks.extend s (processor.fields 0x80010001 0 8 16 16 16 16 2)"

theorem timer_preemption_roundtrip_witness:
  "\<exists>s :: processor. task_ring s [0x100010, 0x101040] \<and> current_task s = 0x100010 \<and> cs_reg s = 8 \<and>
     (let u = (irq_32 0x30000 (take_interrupt s))\<lparr>esp := 0x8000, cpu := zero_context\<rparr>;
          v = irq_32 0x30000 (take_interrupt u)
      in current_task u = 0x101040 \<and> cpu v = cpu s \<and> esp v = esp s \<and> eip v = eip s \<and> cs_reg v = 8)"
proof -
  obtain s0 :: tasks where s0: "task_ring s0 [0x100010, 0x101040]" "current_task s0 = 0x100010" "esp s0 = 0x9000"
    "heap_top s0 = 0x100000" by (rule two_tasks)
  define s where "s = two_task_processor s0"
  have s: "task_ring s [0x100010, 0x101040]" "current_task s = 0x100010" "esp s = 0x9000" "heap_top s = 0x100000"
    "cs_reg s = 8"
    using s0 by (simp_all add: s_def two_task_processor_def tasks.defs processor.defs task_ring_def heap_ready_def
        object_def heap_inv_def)
  have area: "stack_area s [0x100010, 0x101040] (region (esp s - 44) 44)"
    by (rule stack_area_below) (simp add: s)
  define s' where "s' = irq_32 0x30000 (take_interrupt s)"
  define u where "u = s'\<lparr>esp := 0x8000, cpu := zero_context\<rparr>"
  note S = timer_ring [OF s(1) area, of 0, simplified, OF s(2), of "0x30000", folded s'_def]
  have u: "task_ring u [0x100010, 0x101040]" "current_task u = 0x101040" "heap_top u = 0x100000"
    "mem u = mem s'" "esp u = 0x8000"
    using S s(4) by (simp_all add: u_def task_ring_def heap_top_timer s'_def)
  have "links (mem u) [0x100010, 0x101040] 0x100010" using u(1) by (simp add: task_ring_def)
  then have succ: "task_next (mem u) (current_task u) = 0x100010" by (simp add: task_next_def u(2))
  have areas: "stack_area u [0x100010, 0x101040] (region (esp u - 44) 44)"
    "stack_area u [0x100010, 0x101040] (region (esp s - 44) 44)"
    by (rule stack_area_below, simp add: u s)+
  have "apart (esp u - 44) 44 (esp s - 44) 44" by (simp add: u s apart_def)
  from timer_preemption_roundtrip [OF s(1,2) area s'_def u(1) succ _ _ _ areas this refl]
  have "cpu (irq_32 0x30000 (take_interrupt u)) = cpu s \<and> esp (irq_32 0x30000 (take_interrupt u)) = esp s \<and>
      eip (irq_32 0x30000 (take_interrupt u)) = eip s \<and> cs_reg (irq_32 0x30000 (take_interrupt u)) = cs_reg s"
    using u(2,4) by simp
  with s(1,2,5) u(2) show ?thesis
    by (intro exI [of _ s]) (simp only: Let_def u_def [symmetric] s'_def [symmetric] simp_thms)
qed

text \<open>An interrupt no device has asked for.\<close>

theorem irq_stub_resumes_witness:
  "\<exists>u. irq_stub (dev_irq 0) (0x51, 0x52, 0x53) 0x200010 0x27 (take_interrupt entry_machine) = Some u \<and>
     eip u = eip entry_machine \<and> esp u = 0x9000 \<and> ebx (cpu u) = 2 \<and> eax (cpu u) = 0x51"
proof -
  define s1 where "s1 = push32 0x200010 (push32 0x27 (take_interrupt entry_machine))"
  define t where "t = write8 PIC_SLAVE_CMD 0x20 (write8 PIC_MASTER_CMD 0x20 s1)"
  have e: "esp entry_machine = 0x9000" "cpu entry_machine = \<lparr>eax = 1, ebx = 2, ecx = 3, edx = 4, esi = 5, edi = 6, ebp = 7\<rparr>"
    "registry_is entry_machine []" "mem entry_machine 12 = 0xff"
    by (simp_all add: entry_machine_def tasks.defs dhcp.defs udp.defs processor.defs booted_def registry_is_def wr32_def)
  have r: "registry_is s1 []" using e(3) by (simp add: s1_def push32_def take_interrupt_eq registry_is_def)
  have "interrupt_frame entry_machine 12 = 0xff"
    using interrupt_frame_words(4) [of 12 entry_machine] e(1,4) by (simp add: region_def)
  then have "dev_irq_n (mem s1) 0 = 0xff"
    by (simp add: s1_def push32_def take_interrupt_eq dev_irq_n_def rd8_def e(1) wr32_other region_def)
  then have run: "irq_handler (dev_irq 0) 0x27 s1 = Some t"
    by (simp add: irq_handler_def kernel_irq.dispatch [OF r] t_def)
  have "t = s1\<lparr>mem := mem t, port_log := port_log t, cursor := cursor t\<rparr>" "mem t = mem s1"
    by (simp_all add: t_def write8_def)
  with irq_stub_resumes [OF s1_def run _ _ refl, of "0x51" "0x52" "0x53"] show ?thesis
    by (auto simp: e)
qed

text \<open>On a valid screen, printing writes to the framebuffer only.\<close>

lemma hex_chars_small: "c \<in> set (hex_string v w) \<Longrightarrow> unat c < 128"
  using string_chars [of c v w] by auto

lemma printf_frame:
  assumes "geometry s" "cursor_ok s" "format fmt args = Some cs" "\<forall>c\<in>set cs. unat c < 128"
  obtains s' where "printf fmt args s = Some s'" "geometry s'" "cursor_ok s'" "framebuffer s' = framebuffer s"
    "\<And>x. x \<notin> framebuffer s \<Longrightarrow> mem s' x = mem s x"
proof -
  have "shows_console s \<lparr>col = unat (cur_x (cursor s)), row = unat (cur_y (cursor s)), pic = pixel s\<rparr>"
    by (simp add: shows_console_def)
  from puts_console [OF assms(1,2) this assms(4)] obtain s' where s': "puts cs s = Some s'" "geometry s'" "cursor_ok s'"
    "s' = s\<lparr>mem := mem s', cursor := cursor s'\<rparr>" "\<forall>a. a \<notin> framebuffer s \<longrightarrow> mem s' a = mem s a" by blast
  have "framebuffer s' = framebuffer s" by (subst s'(4)) (simp add: framebuffer_def)
  moreover have "printf fmt args s = Some s'"
    unfolding printf_def numeral_2_eq_2 printf_depth_format by (simp add: assms(3) s'(1))
  ultimately show ?thesis using s'(2,3,5) that by blast
qed

lemma regs_text:
  "\<exists>cs. format (lit regs_format) [a1, a2, a3, a4, a5, a6, a7, a8, a9, a10, a11, a12, a13, a14, a15, a16] = Some cs \<and>
    (\<forall>c\<in>set cs. unat c < 128)"
  by (simp add: regs_format_def lit_def line_def byte_of_char_def width_value_simps decimal_digit_def)
    (auto dest: hex_chars_small)

lemma mem_port_log: "mem (s\<lparr>port_log := l\<rparr>) = mem s"
  by simp

lemma bochs_print_keeps: "bochs_print cs s = Some s' \<Longrightarrow> \<exists>l. s' = s\<lparr>port_log := l\<rparr>"
proof (induction cs arbitrary: s)
  case (Cons c cs)
  show ?case
  proof (cases "c = 0")
    case True
    then show ?thesis using Cons.prems by (intro exI [of _ "port_log s"]) simp
  next
    case False
    then show ?thesis using Cons.IH [of "write8 0xe9 c s"] Cons.prems by (auto simp: port_defs)
  qed
qed simp

text \<open>On a valid screen, the handler of an invalid opcode prints and returns, and writes to the
  framebuffer only.\<close>

lemma isr_handler_prints:
  assumes "geometry s" "cursor_ok s"
  shows "\<exists>t. isr_handler 6 r s = Some t \<and> (\<forall>x. x \<notin> framebuffer s \<longrightarrow> mem t x = mem s x)"
proof -
  have hello: "\<exists>cs. format (lit (line ''Something went wrong...'')) [] = Some cs \<and> (\<forall>c\<in>set cs. unat c < 128)"
    and opcode: "\<exists>cs. format (lit (line ''EXCEPTION: 0x06 - Invalid opcode'')) [] = Some cs \<and> (\<forall>c\<in>set cs. unat c < 128)"
    by (simp_all add: lit_def line_def byte_of_char_def)
  obtain s1 where s1: "printf (lit (line ''Something went wrong...'')) [] s = Some s1" "geometry s1" "cursor_ok s1"
    "framebuffer s1 = framebuffer s" "\<And>x. x \<notin> framebuffer s \<Longrightarrow> mem s1 x = mem s x"
    using hello printf_frame [OF assms] by metis
  have "\<exists>s2. bochs_print (lit (line ''Something went wrong...'')) s1 = Some s2"
    by (simp add: lit_def line_def byte_of_char_def)
  then obtain l where s2: "bochs_print (lit (line ''Something went wrong...'')) s1 = Some (s1\<lparr>port_log := l\<rparr>)"
    using bochs_print_keeps by blast
  have g: "geometry (s1\<lparr>port_log := l\<rparr>)" "cursor_ok (s1\<lparr>port_log := l\<rparr>)" "framebuffer (s1\<lparr>port_log := l\<rparr>) = framebuffer s"
    using s1(2-4) by (simp_all add: geometry_def cursor_ok_def framebuffer_def)
  obtain s3 where s3: "printf (lit (line ''EXCEPTION: 0x06 - Invalid opcode'')) [] (s1\<lparr>port_log := l\<rparr>) = Some s3"
    "geometry s3" "cursor_ok s3" "framebuffer s3 = framebuffer s" "\<And>x. x \<notin> framebuffer s \<Longrightarrow> mem s3 x = mem s1 x"
    using opcode printf_frame [OF g(1,2), unfolded g(3)] by (metis mem_port_log)
  obtain s4 where s4: "printf (lit regs_format) [reg_eip r, ucast (reg_cs r), reg_eflags r, reg_eax r, reg_ebx r,
      reg_ecx r, reg_edx r, reg_edi r, reg_esi r, reg_ebp r, reg_esp r, reg_ds r, reg_es r, reg_fs r, reg_gs r, reg_cr2 r] s3 = Some s4"
    "\<And>x. x \<notin> framebuffer s \<Longrightarrow> mem s4 x = mem s3 x"
    using regs_text printf_frame [OF s3(2,3)] s3(4) by metis
  show ?thesis
    by (simp add: isr_handler_def s1(1) s2 s3(1) s4(1) Let_def port_defs s4(2) s3(5) s1(5))
qed

text \<open>Invalid opcode in the machine of the entry code: the stub runs and returns to address 0.\<close>

theorem isr_stub_shows_registers_witness:
  "\<exists>u. isr_without_code (0, 0, 0) 0x200010 6 (take_interrupt entry_machine) = Some u \<and> eip u = 0 \<and>
     cs_reg u = ucast (eip entry_machine) \<and> esp u = esp entry_machine - 4 \<and> ds_reg u = ds_reg entry_machine \<and>
     reg_ebx (regs_of 0 entry_machine) = 2"
proof -
  let ?s1 = "isr_save 0x200010 6 (push32 0 (take_interrupt entry_machine))"
  note D = entry_machine_def booted_def tasks.defs dhcp.defs udp.defs processor.defs
  have "geometry ?s1 = geometry entry_machine" "cursor_ok ?s1 = cursor_ok entry_machine" "framebuffer ?s1 = framebuffer entry_machine"
    by (simp_all only: isr_save_eq) (simp_all add: geometry_def cursor_ok_def framebuffer_def)
  moreover have "geometry entry_machine" "cursor_ok entry_machine" by (simp_all add: D geometry_def cursor_ok_def)
  ultimately have s1: "geometry ?s1" "cursor_ok ?s1" "framebuffer ?s1 = framebuffer entry_machine" by simp_all
  obtain t where t: "isr_handler 6 (regs_of 0 entry_machine) ?s1 = Some t"
    "\<forall>x. x \<notin> framebuffer entry_machine \<longrightarrow> mem t x = mem ?s1 x"
    using isr_handler_prints [OF s1(1,2)] s1(3) by metis
  have "x \<notin> framebuffer entry_machine" if "x \<in> region (esp entry_machine - 76) 76" for x
    using that by (auto simp: framebuffer_def in_region_nat VGA_FRAMEBUFFER_BASE_def D)
  then have kept: "\<forall>x\<in>region (esp entry_machine - 76) 76. mem t x = mem ?s1 x" using t(2) by blast
  have "reg_ebx (regs_of 0 entry_machine) = 2" by (simp add: regs_of_def D)
  then show ?thesis
    using isr_stub_shows_registers [OF refl, of "isr_without_code (0, 0, 0) 0x200010 6 (take_interrupt entry_machine)"
      "(0, 0, 0)" "0x200010" 6 0 entry_machine] t(1) kept by auto
qed

end
