(* ===== verification/Bus_Scan.thy ===== *)
theory Bus_Scan
  imports Dispatch Delivery Heap_Objects
begin

text \<open>
  What the scan of the PCI buses (\<open>init\<close> in \<open>drivers/pci.cpp\<close>) does with the devices there are:
  the nested loops against the list of all functions that answer, and the drivers they start.
\<close>

section \<open>The functions of the machine\<close>

text \<open>
  The PCI standard: the address of register \<open>r\<close> of a function, how many functions a device has
  (eight if bit 7 of the header type of its first one is set), and in which order a scan of eight
  buses meets them.
\<close>

definition config_address :: "nat \<Rightarrow> nat \<Rightarrow> nat \<Rightarrow> u32" where
  "config_address b d f = 0x80000000 + of_nat (65536 * b + 2048 * d + 256 * f)"

definition function_header :: "(u32 \<Rightarrow> u32) \<Rightarrow> nat \<Rightarrow> nat \<Rightarrow> nat \<Rightarrow> device_header" where
  "function_header cfg b d f = header_of (\<lambda>r. cfg (config_address b d f + r))"

definition functions_of :: "(u32 \<Rightarrow> u32) \<Rightarrow> nat \<Rightarrow> nat \<Rightarrow> nat list" where
  "functions_of cfg b d = (if bit (header_type (function_header cfg b d 0)) 7 then [0..<8] else [0])"

type_synonym location = "nat \<times> nat \<times> nat"

definition device_functions :: "(u32 \<Rightarrow> u32) \<Rightarrow> nat \<Rightarrow> nat \<Rightarrow> location list" where
  "device_functions cfg b d = map (\<lambda>f. (b, d, f)) (functions_of cfg b d)"

definition bus_functions :: "(u32 \<Rightarrow> u32) \<Rightarrow> nat \<Rightarrow> location list" where
  "bus_functions cfg b = concat (map (device_functions cfg b) [0..<32])"

definition pci_functions :: "(u32 \<Rightarrow> u32) \<Rightarrow> location list" where
  "pci_functions cfg = concat (map (bus_functions cfg) [0..<8])"

text \<open>The classes that drive a function: an AMD PCnet-PCI II by its identifiers, an AHCI controller
  by its class code.\<close>

definition drivers_for :: "device_header \<Rightarrow> driver_class list" where
  "drivers_for h =
     (if (vendor_id h, device_id h) = (0x1022, 0x2000) then [Class_PCNET] else []) @
     (if (class_code h, sub_class h, prog_if h) = (0x01, 0x06, 0x01) then [Class_AHCI] else [])"

definition drivers_found :: "(u32 \<Rightarrow> u32) \<Rightarrow> driver_class list" where
  "drivers_found cfg = concat (map (\<lambda>(b, d, f). drivers_for (function_header cfg b d f)) (pci_functions cfg))"

section \<open>The scan as one loop\<close>

primrec in_turn :: "('x \<Rightarrow> 's \<Rightarrow> 's option) \<Rightarrow> 'x list \<Rightarrow> 's \<Rightarrow> 's option" where
  "in_turn f [] s = Some s"
| "in_turn f (x # xs) s = (case f x s of None \<Rightarrow> None | Some t \<Rightarrow> in_turn f xs t)"

lemma in_turn_append: "in_turn f (xs @ ys) s = (case in_turn f xs s of None \<Rightarrow> None | Some t \<Rightarrow> in_turn f ys t)"
  by (induction xs arbitrary: s) (auto split: option.split)

lemma in_turn_keeps:
  assumes "\<And>x s s'. R s \<Longrightarrow> f x s = Some s' \<Longrightarrow> R s'"
  shows "R s \<Longrightarrow> in_turn f xs s = Some s' \<Longrightarrow> R s'"
  by (induction xs arbitrary: s) (auto split: option.splits dest: assms)

text \<open>A driver is started: its object is built, registered and initialised.\<close>

definition start_driver :: "'a hlt \<Rightarrow> device_info \<Rightarrow> driver_class \<Rightarrow> 'a udp_scheme \<Rightarrow> 'a udp_scheme option" where
  "start_driver idle info c s =
     (case operator_new (if c = Class_PCNET then sizeof_PCNET else sizeof_AHCI) s of
        None \<Rightarrow> None
      | Some (driver, s) \<Rightarrow>
          (case register_driver driver (if c = Class_PCNET then new_PCNET info driver s else new_AHCI info driver s) of
             None \<Rightarrow> None
           | Some s \<Rightarrow> dev_init idle driver s))"

definition location_info :: "location \<Rightarrow> device_info" where
  "location_info = (\<lambda>(b, d, f). at_bdf (of_nat b) (of_nat d) (of_nat f))"

text \<open>One function: its header is read, for the first function of a device the register with the
  header type once before, then its drivers are started.\<close>

definition visit :: "(u32 \<Rightarrow> u32) \<Rightarrow> 'a hlt \<Rightarrow> location \<Rightarrow> 'a udp_scheme \<Rightarrow> 'a udp_scheme option" where
  "visit cfg idle l s =
     (let (b, d, f) = l;
          s = (if f = 0 then snd (config_read16 (location_info l) 0x0e s) else s);
          s = snd (get_device_header (location_info l) s)
      in in_turn (start_driver idle (location_info l)) (drivers_for (function_header cfg b d f)) s)"

section \<open>Addresses and headers\<close>

lemma of_nat_masked:
  "n < 2 ^ w \<Longrightarrow> n < 65536 \<Longrightarrow> ucast (of_nat n :: u16) AND mask w = (of_nat n :: u32)"
  by (simp flip: take_bit_eq_mask) (simp add: word_unat_eq_iff unsigned_take_bit_eq unsigned_ucast_eq
    unsigned_of_nat take_bit_nat_eq_self)

lemma or_is_sum: "(\<And>n. \<not> bit a n \<or> \<not> bit b n) \<Longrightarrow> a OR b = a + (b :: u32)"
  by (rule disjunctive_add_eq_or [symmetric], rule bit_word_eqI) (auto simp: bit_and_iff)

lemma get_id_address:
  assumes "b < 8" "d < 32" "f < 8" "r AND 0xfc = r"
  shows "get_id (location_info (b, d, f)) r = config_address b d f + r"
proof -
  let ?b = "ucast (of_nat b :: u16) :: u32" and ?d = "ucast (of_nat d :: u16) :: u32"
    and ?f = "ucast (of_nat f :: u16) :: u32"
  let ?A = "push_bit 31 1 :: u32" and ?B = "push_bit 16 (?b AND mask 8)" and ?D = "push_bit 11 (?d AND mask 5)"
    and ?F = "push_bit 8 (?f AND mask 3)" and ?R = "r AND 0xfc"
  note bits = bit_or_iff bit_field bit_enable bit_register
  have "?F OR ?R = ?F + ?R" "?D OR (?F OR ?R) = ?D + (?F OR ?R)" "?B OR (?D OR (?F OR ?R)) = ?B + (?D OR (?F OR ?R))"
    "?A OR (?B OR (?D OR (?F OR ?R))) = ?A + (?B OR (?D OR (?F OR ?R)))"
    by (rule or_is_sum, simp only: bits, linarith)+
  then have "get_id (location_info (b, d, f)) r = ?A + (?B + (?D + (?F + ?R)))"
    unfolding get_id_def location_info_def at_bdf_def low_mask by (simp only: device_info.simps prod.case)
  also have "\<dots> = config_address b d f + r"
    using assms by (simp add: of_nat_masked push_bit_eq_mult config_address_def algebra_simps)
  finally show ?thesis .
qed

lemma location_header:
  assumes "pci_answers cfg s" "b < 8" "d < 32" "f < 8"
  shows "fst (get_device_header (location_info (b, d, f)) s) = function_header cfg b d f"
proof -
  note at = get_id_address [OF assms(2-4)]
  show ?thesis
    unfolding get_device_header_fields [OF assms(1)] function_header_def header_of_def by (simp add: at)
qed

lemma function_count_functions:
  assumes "pci_answers cfg s" "b < 8" "d < 32"
  shows "fst (function_count (of_nat b) (of_nat d) s) = length (functions_of cfg b d)"
    "snd (function_count (of_nat b) (of_nat d) s) = snd (config_read16 (location_info (b, d, 0)) 0x0e s)"
proof -
  let ?v = "cfg (config_address b d 0 + 0x0c)"
  have "get_id (location_info (b, d, 0)) 0x0e = get_id (location_info (b, d, 0)) 0x0c" by (rule get_id_half)
  also have "\<dots> = config_address b d 0 + 0x0c" using assms by (intro get_id_address) simp_all
  finally have "fst (config_read16 (location_info (b, d, 0)) 0x0e s) = ucast (drop_bit 16 ?v)"
    using assms(1) by (simp add: config_read16_answer ucast_ffff)
  moreover have "bit (header_type (function_header cfg b d 0)) 7 \<longleftrightarrow> bit ?v 23"
    by (simp add: function_header_def header_of_def cfg_octet_def bit_ucast_iff bit_drop_bit_eq)
  moreover have "(x :: u16) AND 128 \<noteq> 0 \<longleftrightarrow> bit x 7" for x
    using and_exp_eq_0_iff_not_bit [of x 7] by simp
  ultimately show "fst (function_count (of_nat b) (of_nat d) s) = length (functions_of cfg b d)"
    "snd (function_count (of_nat b) (of_nat d) s) = snd (config_read16 (location_info (b, d, 0)) 0x0e s)"
    by (simp_all add: function_count_def location_info_def case_prod_unfold functions_of_def bit_ucast_iff
        bit_drop_bit_eq)
qed

section \<open>What a visit keeps\<close>

lemma io_only_pci_answers:
  assumes "io_only s s'"
  shows "pci_answers cfg s' = pci_answers cfg s"
proof -
  obtain m l c where s': "s' = s\<lparr>mem := m, port_log := l, cursor := c\<rparr>"
    using assms unfolding io_only_def by blast
  show ?thesis unfolding s' by (simp add: pci_answers_def)
qed

text \<open>Starting a driver adds its object to the registry and to the objects of its class.\<close>

lemma start_driver_registers:
  assumes safe: "\<And>s s'. idle s = Some s' \<Longrightarrow> io_only s s'"
    and run: "start_driver idle info c s = Some s'" and c: "c \<in> {Class_PCNET, Class_AHCI}"
  shows "pci_answers cfg s' = pci_answers cfg s"
    "registry_is s ds \<Longrightarrow> \<exists>p. registry_is s' (ds @ [p]) \<and> dynamic_class s' = (dynamic_class s)(p := Some c)"
proof -
  obtain p t where p: "operator_new (if c = Class_PCNET then sizeof_PCNET else sizeof_AHCI) s = Some (p, t)"
    using run by (auto simp: start_driver_def split: option.splits)
  define n where "n = (if c = Class_PCNET then new_PCNET info p t else new_AHCI info p t)"
  obtain m where n: "n = t\<lparr>mem := m, dynamic_class := (dynamic_class t)(p := Some c)\<rparr>"
    using c by (auto simp: n_def new_PCNET_def new_AHCI_def Let_def)
  obtain u where u: "register_driver p n = Some u" "dev_init idle p u = Some s'"
    using run p by (auto simp: start_driver_def n_def split: option.splits)
  have "io_only s t"
    using p io_only_operator_new_array by (auto simp: operator_new_def operator_new_array_def)
  then have t: "pci_answers cfg t = pci_answers cfg s" "registry_is t ds = registry_is s ds" "dynamic_class t = dynamic_class s"
    using io_only_pci_answers io_only_registry_is io_only_registry by blast+
  have s': "pci_answers cfg s' = pci_answers cfg u" "registry_is s' (ds @ [p]) = registry_is u (ds @ [p])"
      "dynamic_class s' = dynamic_class u"
    using io_only_dev_init(1) [OF safe u(2)] io_only_pci_answers io_only_registry_is io_only_registry by blast+
  have u': "pci_answers cfg u = pci_answers cfg n" "dynamic_class u = dynamic_class n"
    using u(1) by (auto simp: register_driver_def pci_answers_def split: if_splits)
  show "pci_answers cfg s' = pci_answers cfg s" using s'(1) u'(1) t(1) by (simp add: n pci_answers_def)
  assume "registry_is s ds"
  then have "registry_is n ds" using t(2) by (simp add: n registry_is_def)
  from registry_append(1) [OF this u(1)] have "registry_is s' (ds @ [p])" using s'(2) by simp
  then show "\<exists>p. registry_is s' (ds @ [p]) \<and> dynamic_class s' = (dynamic_class s)(p := Some c)"
    using s'(3) u'(2) t(3) by (intro exI [of _ p]) (simp add: n)
qed

lemma drivers_for_classes: "set (drivers_for h) \<subseteq> {Class_PCNET, Class_AHCI}"
  by (auto simp: drivers_for_def)

lemma start_drivers_register:
  assumes safe: "\<And>s s'. idle s = Some s' \<Longrightarrow> io_only s s'"
    and "set cs \<subseteq> {Class_PCNET, Class_AHCI}" "in_turn (start_driver idle info) cs s = Some s'"
  shows "pci_answers cfg s' = pci_answers cfg s"
    "registry_is s ds \<Longrightarrow> \<exists>ps. length ps = length cs \<and> registry_is s' (ds @ ps) \<and>
       dynamic_class s' = (dynamic_class s)(ps [\<mapsto>] cs)"
proof -
  have "pci_answers cfg s' = pci_answers cfg s \<and> (registry_is s ds \<longrightarrow> (\<exists>ps. length ps = length cs \<and>
     registry_is s' (ds @ ps) \<and> dynamic_class s' = (dynamic_class s)(ps [\<mapsto>] cs)))"
    using assms(2,3)
  proof (induction cs arbitrary: s ds)
    case Nil
    then show ?case by simp
  next
    case (Cons c cs)
    then obtain t where t: "start_driver idle info c s = Some t" "in_turn (start_driver idle info) cs t = Some s'"
      by (auto split: option.splits)
    have c: "c \<in> {Class_PCNET, Class_AHCI}" "set cs \<subseteq> {Class_PCNET, Class_AHCI}" using Cons.prems(1) by auto
    note one = start_driver_registers [OF safe t(1) c(1)]
    show ?case
    proof (intro conjI impI)
      show "pci_answers cfg s' = pci_answers cfg s" using Cons.IH [OF c(2) t(2)] one(1) by simp
      assume "registry_is s ds"
      then obtain p where p: "registry_is t (ds @ [p])" "dynamic_class t = (dynamic_class s)(p := Some c)"
        using one(2) [of ds] by blast
      then obtain ps where "length ps = length cs" "registry_is s' ((ds @ [p]) @ ps)"
        "dynamic_class s' = (dynamic_class t)(ps [\<mapsto>] cs)"
        using Cons.IH [OF c(2) t(2), of "ds @ [p]"] by blast
      then show "\<exists>ps. length ps = length (c # cs) \<and> registry_is s' (ds @ ps) \<and>
          dynamic_class s' = (dynamic_class s)(ps [\<mapsto>] c # cs)"
        using p(2) by (intro exI [of _ "p # ps"]) simp
    qed
  qed
  then show "pci_answers cfg s' = pci_answers cfg s"
    "registry_is s ds \<Longrightarrow> \<exists>ps. length ps = length cs \<and> registry_is s' (ds @ ps) \<and>
       dynamic_class s' = (dynamic_class s)(ps [\<mapsto>] cs)" by blast+
qed

text \<open>Reading the ports only adds to the log.\<close>

lemma visit_reads:
  assumes "pci_answers cfg s"
  obtains log where "visit cfg idle (b, d, f) s =
    in_turn (start_driver idle (location_info (b, d, f))) (drivers_for (function_header cfg b d f)) (s\<lparr>port_log := log\<rparr>)"
proof -
  have 1: "\<exists>l. snd (config_read16 info r s) = s\<lparr>port_log := l\<rparr>" for info r and s :: "'a udp_scheme"
    by (simp add: config_read16_def port_defs Let_def) (rule exI, rule refl)
  have 2: "\<exists>l. snd (get_device_header info s) = s\<lparr>port_log := l\<rparr>" if "pci_answers cfg s" for info and s :: "'a udp_scheme"
    using that by (simp add: get_device_header_def Let_def header_reads) (simp add: asked_def, rule exI, rule refl)
  obtain l where l: "(if f = 0 then snd (config_read16 (location_info (b, d, f)) 0x0e s) else s) = s\<lparr>port_log := l\<rparr>"
    using 1 [of "location_info (b, d, f)" "0x0e" s] by (cases "f = 0") (auto intro: that that [of "port_log s"])
  have "pci_answers cfg (s\<lparr>port_log := l\<rparr>)" using assms by (simp add: pci_answers_def)
  from 2 [OF this, of "location_info (b, d, f)"] obtain l' where
    "snd (get_device_header (location_info (b, d, f)) (s\<lparr>port_log := l\<rparr>)) = s\<lparr>port_log := l'\<rparr>" by auto
  then show ?thesis by (intro that [of l']) (simp add: visit_def l)
qed

lemma visit_registers:
  fixes s :: "'a udp_scheme"
  assumes safe: "\<And>s s'. idle s = Some s' \<Longrightarrow> io_only s s'" and answers: "pci_answers cfg s"
    and run: "visit cfg idle (b, d, f) s = Some s'"
  shows "pci_answers cfg s'"
    "registry_is s ds \<Longrightarrow> \<exists>ps. length ps = length (drivers_for (function_header cfg b d f)) \<and> registry_is s' (ds @ ps) \<and>
       dynamic_class s' = (dynamic_class s)(ps [\<mapsto>] drivers_for (function_header cfg b d f))"
proof -
  obtain log where log: "in_turn (start_driver idle (location_info (b, d, f))) (drivers_for (function_header cfg b d f))
      (s\<lparr>port_log := log\<rparr>) = Some s'" using visit_reads [OF answers, of idle b d f] run by metis
  note R = start_drivers_register [OF safe drivers_for_classes log]
  show "pci_answers cfg s'" using R(1) [of cfg] answers by (simp add: pci_answers_def)
  assume "registry_is s ds"
  then have "registry_is (s\<lparr>port_log := log\<rparr>) ds" by (simp add: registry_is_def)
  then show "\<exists>ps. length ps = length (drivers_for (function_header cfg b d f)) \<and> registry_is s' (ds @ ps) \<and>
       dynamic_class s' = (dynamic_class s)(ps [\<mapsto>] drivers_for (function_header cfg b d f))"
    using R(2) [of ds] by auto
qed

section \<open>The loops\<close>

lemma probe_starts:
  assumes "pci_answers cfg s" "b < 8" "d < 32" "f < 8"
  shows "probe idle (location_info (b, d, f)) s =
    in_turn (start_driver idle (location_info (b, d, f))) (drivers_for (function_header cfg b d f))
      (snd (get_device_header (location_info (b, d, f)) s))"
  using location_header [OF assms]
  by (auto simp: probe_def Let_def case_prod_unfold drivers_for_def start_driver_def split: option.split bind_split)

lemma visit_probe:
  assumes "pci_answers cfg s" "b < 8" "d < 32" "f < 8" "f \<noteq> 0"
  shows "probe idle (at_bdf (of_nat b) (of_nat d) (of_nat f)) s = visit cfg idle (b, d, f) s"
  using probe_starts [OF assms(1-4), of idle] assms(5) by (simp add: visit_def location_info_def)

lemma function_loop_visits:
  assumes safe: "\<And>s s'. idle s = Some s' \<Longrightarrow> io_only s s'" and bd: "b < 8" "d < 32"
  shows "pci_answers cfg s \<Longrightarrow> 0 < f \<Longrightarrow> f + n \<le> 8 \<Longrightarrow>
    function_loop n idle (of_nat b) (of_nat d) (of_nat f) s = in_turn (visit cfg idle) (map (\<lambda>f. (b, d, f)) [f..<f + n]) s"
proof (induction n arbitrary: f s)
  case 0
  then show ?case by simp
next
  case (Suc n)
  have visit: "probe idle (at_bdf (of_nat b) (of_nat d) (of_nat f)) s = visit cfg idle (b, d, f) s"
    using Suc.prems by (intro visit_probe [OF _ bd]) simp_all
  have rest: "function_loop n idle (of_nat b) (of_nat d) (of_nat f + 1) t =
      in_turn (visit cfg idle) (map (\<lambda>f. (b, d, f)) [Suc f..<f + Suc n]) t"
    if "visit cfg idle (b, d, f) s = Some t" for t
    using Suc.IH [of t "Suc f"] visit_registers(1) [OF _ Suc.prems(1) that] safe Suc.prems by (simp add: add.commute)
  have "[f..<f + Suc n] = f # [Suc f..<f + Suc n]" by (simp add: upt_conv_Cons)
  then show ?case using visit rest by (simp del: upt_Suc split: option.split)
qed

lemma device_visits:
  assumes safe: "\<And>s s'. idle s = Some s' \<Longrightarrow> io_only s s'" and bd: "b < 8" "d < 32" and answers: "pci_answers cfg s"
  shows "function_loop (fst (function_count (of_nat b) (of_nat d) s)) idle (of_nat b) (of_nat d) 0
      (snd (function_count (of_nat b) (of_nat d) s)) = in_turn (visit cfg idle) (device_functions cfg b d) s"
proof -
  let ?s = "snd (config_read16 (location_info (b, d, 0)) 0x0e s)"
  define n where "n = (if bit (header_type (function_header cfg b d 0)) 7 then 7 else 0 :: nat)"
  have n: "functions_of cfg b d = 0 # [1..<1 + n]" "n < 8" by (simp_all add: functions_of_def n_def upt_rec)
  note count = function_count_functions [OF answers bd]
  have fc: "fst (function_count (of_nat b) (of_nat d) s) = Suc n" using count(1) n(1) by simp
  have "pci_answers cfg ?s" using answers by (simp add: config_read16_answer)
  from probe_starts [OF this bd, of 0 idle]
  have first: "probe idle (at_bdf (of_nat b) (of_nat d) 0) ?s = visit cfg idle (b, d, 0) s"
    by (simp add: visit_def location_info_def)
  have rest: "function_loop n idle (of_nat b) (of_nat d) 1 t = in_turn (visit cfg idle) (map (\<lambda>f. (b, d, f)) [1..<1 + n]) t"
    if "visit cfg idle (b, d, 0) s = Some t" for t
    using function_loop_visits [where f = 1 and n = n and idle = idle and s = t and cfg = cfg, OF _ bd]
      visit_registers(1) [OF _ answers that] safe n(2) by simp
  show ?thesis
    unfolding fc count(2) device_functions_def n(1) using first rest by (simp split: option.split)
qed

lemma device_visits_keep:
  assumes safe: "\<And>s s'. idle s = Some s' \<Longrightarrow> io_only s s'" and "pci_answers cfg s"
    "in_turn (visit cfg idle) ls s = Some s'"
  shows "pci_answers cfg s'"
proof (rule in_turn_keeps [where R = "pci_answers cfg" and f = "visit cfg idle", OF _ assms(2,3)])
  show "pci_answers cfg t'" if "pci_answers cfg t" "visit cfg idle l t = Some t'" for l t t'
    using visit_registers(1) [OF _ that(1)] that(2) safe by (cases l) blast
qed

lemma device_loop_visits:
  assumes safe: "\<And>s s'. idle s = Some s' \<Longrightarrow> io_only s s'" and b: "b < 8"
  shows "pci_answers cfg s \<Longrightarrow> d + n \<le> 32 \<Longrightarrow>
    device_loop n idle (of_nat b) (of_nat d) s = in_turn (visit cfg idle) (concat (map (device_functions cfg b) [d..<d + n])) s"
proof (induction n arbitrary: d s)
  case 0
  then show ?case by simp
next
  case (Suc n)
  have d: "d < 32" using Suc.prems by simp
  note first = device_visits [OF safe b d Suc.prems(1)]
  have rest: "device_loop n idle (of_nat b) (of_nat d + 1) t =
      in_turn (visit cfg idle) (concat (map (device_functions cfg b) [Suc d..<d + Suc n])) t"
    if "in_turn (visit cfg idle) (device_functions cfg b d) s = Some t" for t
    using Suc.IH [of t "Suc d"] device_visits_keep [OF _ Suc.prems(1) that] safe Suc.prems by (simp add: add.commute)
  have "[d..<d + Suc n] = d # [Suc d..<d + Suc n]" by (simp add: upt_conv_Cons)
  then show ?case
    using first rest by (simp add: Let_def case_prod_unfold in_turn_append del: upt_Suc split: option.split)
qed

lemma bus_loop_visits:
  assumes safe: "\<And>s s'. idle s = Some s' \<Longrightarrow> io_only s s'"
  shows "pci_answers cfg s \<Longrightarrow> b + n \<le> 8 \<Longrightarrow>
    bus_loop n idle (of_nat b) s = in_turn (visit cfg idle) (concat (map (bus_functions cfg) [b..<b + n])) s"
proof (induction n arbitrary: b s)
  case 0
  then show ?case by simp
next
  case (Suc n)
  have first: "device_loop 32 idle (of_nat b) 0 s = in_turn (visit cfg idle) (bus_functions cfg b) s"
    using device_loop_visits [where d = 0 and n = 32 and b = b and idle = idle and s = s and cfg = cfg] safe Suc.prems
    by (simp add: bus_functions_def del: upt_Suc)
  have rest: "bus_loop n idle (of_nat b + 1) t =
      in_turn (visit cfg idle) (concat (map (bus_functions cfg) [Suc b..<b + Suc n])) t"
    if "in_turn (visit cfg idle) (bus_functions cfg b) s = Some t" for t
    using Suc.IH [of t "Suc b"] device_visits_keep [OF _ Suc.prems(1) that] safe Suc.prems by (simp add: add.commute)
  have "[b..<b + Suc n] = b # [Suc b..<b + Suc n]" by (simp add: upt_conv_Cons)
  then show ?case using first rest by (simp add: in_turn_append del: upt_Suc split: option.split)
qed

lemma pci_init_visits:
  assumes "\<And>s s'. idle s = Some s' \<Longrightarrow> io_only s s'" "pci_answers cfg s"
  shows "pci_init idle s = in_turn (visit cfg idle) (pci_functions cfg) s"
  unfolding pci_init_def pci_functions_def
  using bus_loop_visits [where b = 0 and n = 8 and idle = idle and s = s and cfg = cfg] assms
  by (simp del: upt_Suc upt_rec_numeral)

section \<open>Properties\<close>

lemma visits_register:
  fixes s :: "'a udp_scheme"
  assumes safe: "\<And>s s'. idle s = Some s' \<Longrightarrow> io_only s s'"
  shows "pci_answers cfg s \<Longrightarrow> registry_is s ds \<Longrightarrow> in_turn (visit cfg idle) ls s = Some s' \<Longrightarrow>
    cs = concat (map (\<lambda>(b, d, f). drivers_for (function_header cfg b d f)) ls) \<Longrightarrow>
    \<exists>ps. length ps = length cs \<and> registry_is s' (ds @ ps) \<and> dynamic_class s' = (dynamic_class s)(ps [\<mapsto>] cs)"
proof (induction ls arbitrary: s ds cs)
  case Nil
  then show ?case by simp
next
  case (Cons l ls)
  obtain b d f where l: "l = (b, d, f)" by (cases l)
  define c cs' where "c = drivers_for (function_header cfg b d f)"
    and "cs' = concat (map (\<lambda>(b, d, f). drivers_for (function_header cfg b d f)) ls)"
  have cs: "cs = c @ cs'" using Cons.prems(4) by (simp add: l c_def cs'_def)
  obtain t where t: "visit cfg idle (b, d, f) s = Some t" "in_turn (visit cfg idle) ls t = Some s'"
    using Cons.prems(3) l by (auto split: option.splits)
  have answers: "pci_answers cfg t" using visit_registers(1) [OF _ Cons.prems(1) t(1)] safe by blast
  obtain ps where ps: "length ps = length c" "registry_is t (ds @ ps)" "dynamic_class t = (dynamic_class s)(ps [\<mapsto>] c)"
    using visit_registers(2) [OF _ Cons.prems(1) t(1) Cons.prems(2)] safe unfolding c_def by blast
  obtain qs where qs: "length qs = length cs'" "registry_is s' ((ds @ ps) @ qs)" "dynamic_class s' = (dynamic_class t)(qs [\<mapsto>] cs')"
    using Cons.IH [OF answers ps(2) t(2) cs'_def] by blast
  have "(dynamic_class s)(ps @ qs [\<mapsto>] c @ cs') = (dynamic_class s)(ps [\<mapsto>] c, qs [\<mapsto>] cs')"
    using ps(1) by (simp add: map_upds_def)
  then show ?case using ps qs by (intro exI [of _ "ps @ qs"]) (simp add: cs)
qed

text \<open>
  C38. The bus scan finds every device it has a driver for. On a machine whose configuration space
  is \<open>cfg\<close>, the three nested loops are one pass over all functions that answer: of eight buses with
  32 devices each, eight functions where the header type says so and one otherwise, in this order,
  each with its header read and the drivers for it started at its address. When the pass comes to
  its end, the registry holds the drivers of before and then exactly one for every match, in the
  order of the pass, and the object each of them points to is of the class that matched (the later
  one, should the heap have handed out a pointer twice).
\<close>

theorem pci_init_finds_devices:
  fixes s :: "'a udp_scheme"
  assumes "\<And>s s'. idle s = Some s' \<Longrightarrow> io_only s s'" "pci_answers cfg s" "registry_is s ds"
  shows "pci_init idle s = in_turn (visit cfg idle) (pci_functions cfg) s \<and>
    (\<forall>s'. pci_init idle s = Some s' \<longrightarrow> (\<exists>ps. length ps = length (drivers_found cfg) \<and>
       registry_is s' (ds @ ps) \<and> dynamic_class s' = (dynamic_class s)(ps [\<mapsto>] drivers_found cfg)))"
proof -
  have pass: "pci_init idle s = in_turn (visit cfg idle) (pci_functions cfg) s"
    by (rule pci_init_visits [OF assms(1,2)])
  then show ?thesis
    using visits_register [OF _ assms(2,3) _ drivers_found_def] assms(1) by auto
qed

text \<open>A machine with an AHCI controller as the second function of device 2, and nothing else that
  the scan knows; the heap has a free block of 4 KiB at 1 MiB.\<close>

definition ahci_cfg :: "u32 \<Rightarrow> u32" where
  "ahci_cfg a = (if a = 0x8000100c then 0x00800000 else if a = 0x80001108 then 0x01060100 else 0)"

definition ahci_hw :: "io_event list \<Rightarrow> u16 \<Rightarrow> u32" where
  "ahci_hw log p = (case log of Out32 q a # _ \<Rightarrow> if q = PCI_COMMAND \<and> p = PCI_DATA then ahci_cfg a else 0 | _ \<Rightarrow> 0)"

definition ahci_machine :: udp where
  "ahci_machine = heap_allocator_init 0x100000 0x1000 (booted (\<lambda>_. 0) ahci_hw [])"

lemma ahci_machine_simps:
  "pci_answers ahci_cfg ahci_machine" "registry_is ahci_machine []" "dynamic_class ahci_machine = (\<lambda>_. None)"
  by (simp_all add: pci_answers_def registry_is_def ahci_machine_def heap_allocator_init_def booted_def ahci_hw_def)

lemma ahci_address:
  assumes "b < 8" "d < 32" "f < 8"
  shows "config_address b d f \<noteq> 0x8000100c" "config_address b d f \<noteq> 0x80001108"
    "config_address b d f + 8 \<noteq> 0x8000100c" "config_address b d f + 8 = 0x80001108 \<longleftrightarrow> (b, d, f) = (0, 2, 1)"
proof -
  define k where "k = 65536 * b + 2048 * d + 256 * f"
  have k: "k < 1048576" using assms by (simp add: k_def)
  then have u: "unat (config_address b d f) = 2147483648 + k" "unat (config_address b d f + 8) = 2147483656 + k"
    by (simp_all add: config_address_def k_def [symmetric] unat_word_ariths unsigned_of_nat take_bit_nat_eq_self)
  have "k mod 256 = 0" by (simp add: k_def mod_add_eq)
  then show "config_address b d f \<noteq> 0x8000100c" "config_address b d f \<noteq> 0x80001108" "config_address b d f + 8 \<noteq> 0x8000100c"
    using u by (auto simp: word_unat_eq_iff)
  have "config_address b d f + 8 = 0x80001108 \<longleftrightarrow> k = 4352" using u(2) by (simp add: word_unat_eq_iff)
  also have "\<dots> \<longleftrightarrow> (b, d, f) = (0, 2, 1)"
  proof
    assume "k = 4352"
    then have s: "256 * b + 8 * d + f = 17" by (simp add: k_def)
    then have b: "b = 0" by simp
    have d: "d = 2"
    proof (rule order_antisym)
      show "d \<le> 2" "2 \<le> d" using s b assms(3) by linarith+
    qed
    show "(b, d, f) = (0, 2, 1)" using s b d by simp
  qed (simp add: k_def)
  finally show "config_address b d f + 8 = 0x80001108 \<longleftrightarrow> (b, d, f) = (0, 2, 1)" .
qed

lemma ahci_drivers:
  assumes "b < 8" "d < 32" "f < 8"
  shows "drivers_for (function_header ahci_cfg b d f) = (if (b, d, f) = (0, 2, 1) then [Class_AHCI] else [])"
proof -
  have dw: "ahci_cfg (config_address b d f + 0) = 0"
    "ahci_cfg (config_address b d f + 8) = (if (b, d, f) = (0, 2, 1) then 0x01060100 else 0)"
    using ahci_address [OF assms] by (auto simp: ahci_cfg_def)
  then show ?thesis
    by (simp add: drivers_for_def function_header_def header_of_def cfg_half_def cfg_octet_def drop_bit_eq_div)
qed

lemma ahci_functions:
  obtains us vs where "pci_functions ahci_cfg = us @ (0, 2, 1) # vs"
    "set us \<union> set vs \<subseteq> {(b, d, f). b < 8 \<and> d < 32 \<and> f < 8} - {(0, 2, 1)}"
proof -
  have eight: "f < 8" if "f \<in> set (functions_of ahci_cfg b d)" for b d f
    using that by (auto simp: functions_of_def split: if_splits)
  have "bit (header_type (function_header ahci_cfg 0 2 0)) 7"
    by (simp add: function_header_def header_of_def cfg_octet_def config_address_def ahci_cfg_def bit_ucast_iff bit_drop_bit_eq)
  then have dev: "device_functions ahci_cfg 0 2 = (0, 2, 0) # (0, 2, 1) # map (\<lambda>f. (0, 2, f)) [2..<8]"
    by (simp add: device_functions_def functions_of_def upt_rec)
  let ?D = "device_functions ahci_cfg 0"
  have "[0..<32::nat] = 0 # 1 # 2 # [3..<32]" "[0..<8::nat] = 0 # [1..<8]" by (simp_all add: upt_rec)
  then have "pci_functions ahci_cfg = (?D 0 @ ?D 1 @ [(0, 2, 0)]) @ (0, 2, 1) #
      (map (\<lambda>f. (0, 2, f)) [2..<8] @ concat (map ?D [3..<32]) @ concat (map (bus_functions ahci_cfg) [1..<8]))"
    by (simp add: pci_functions_def bus_functions_def [of _ 0] dev del: upt_Suc upt_rec_numeral)
  moreover have "set (?D 0 @ ?D 1 @ [(0, 2, 0)]) \<union>
      set (map (\<lambda>f. (0, 2, f)) [2..<8] @ concat (map ?D [3..<32]) @ concat (map (bus_functions ahci_cfg) [1..<8]))
      \<subseteq> {(b, d, f). b < 8 \<and> d < 32 \<and> f < 8} - {(0, 2, 1)}"
    using eight by (auto simp: bus_functions_def device_functions_def simp del: upt_Suc upt_rec_numeral)
  ultimately show ?thesis by (rule that)
qed

lemma quiet_visits:
  assumes "\<forall>(b, d, f)\<in>set ls. drivers_for (function_header cfg b d f) = []"
  shows "pci_answers cfg s \<Longrightarrow> \<exists>log. in_turn (visit cfg idle) ls s = Some (s\<lparr>port_log := log\<rparr>)"
  using assms
proof (induction ls arbitrary: s)
  case Nil
  show ?case by (intro exI [of _ "port_log s"]) simp
next
  case (Cons l ls)
  obtain b d f where l: "l = (b, d, f)" by (cases l)
  obtain log where v: "visit cfg idle (b, d, f) s = Some (s\<lparr>port_log := log\<rparr>)"
    using visit_reads [OF Cons.prems(1), of idle b d f] Cons.prems(2) l by auto
  have "pci_answers cfg (s\<lparr>port_log := log\<rparr>)" using Cons.prems(1) by (simp add: pci_answers_def)
  from Cons.IH [OF this] obtain log' where "in_turn (visit cfg idle) ls (s\<lparr>port_log := log\<rparr>) = Some (s\<lparr>port_log := log'\<rparr>)"
    using Cons.prems(2) by auto
  then show ?case using v l by auto
qed

lemma start_ahci:
  assumes "mem s = mem ahci_machine" "heap_top s = heap_top ahci_machine" "registry_is s []"
  shows "\<exists>t. start_driver idle info Class_AHCI s = Some t"
proof -
  have "heap_inv ahci_machine [Block 0x100000 0x1000 False] 0x101010"
    using heap_init_inv [where base = "0x100000" and sz = "0x1000" and s = "booted (\<lambda>_. 0) ahci_hw []"]
    by (simp add: ahci_machine_def booted_def rd32_def)
  then have inv: "heap_inv s [Block 0x100000 0x1000 False] 0x101010" using assms(1,2) by (simp add: heap_inv_def)
  have "abs_malloc sizeof_AHCI [Block 0x100000 0x1000 False] = Some (0x100010, carve sizeof_AHCI (Block 0x100000 0x1000 False))"
    by (simp add: suitable_def sizeof_AHCI_def)
  from kmalloc_run [OF inv _ this] obtain m where m: "operator_new sizeof_AHCI s = Some (0x100010, s\<lparr>mem := m\<rparr>)"
    unfolding operator_new_def by auto
  define n where "n = new_AHCI info 0x100010 (s\<lparr>mem := m\<rparr>)"
  have n: "registry_is n []" "dynamic_class n 0x100010 = Some Class_AHCI"
    using assms(3) by (simp_all add: n_def new_AHCI_def registry_is_def)
  then obtain u where u: "register_driver 0x100010 n = Some u" "dynamic_class u = dynamic_class n"
    using register_driver_registry [OF n(1), of "0x100010"] by simp
  have "\<exists>t. ahci_init 0x100010 u = Some t"
  proof -
    have print: "\<exists>t. printf (lit (line ''AHCI MMIO base: %x'')) [v] w = Some t" for v w
    proof -
      let ?cs = "map byte_of_char ''AHCI MMIO base: '' @ hex_string v 0 @ [10]"
      have f: "format (lit (line ''AHCI MMIO base: %x'')) [v] = Some ?cs"
        by (simp add: lit_def line_def byte_of_char_def width_value_simps decimal_digit_def)
      have "unat c < 128" if "c \<in> set ?cs" for c
        using that string_chars [of c v 0] by (auto simp: byte_of_char_def)
      then have "puts ?cs w \<noteq> None" using puts_total [of ?cs w] by blast
      then show ?thesis unfolding printf_def numeral_2_eq_2 printf_depth_format f by auto
    qed
    then show ?thesis by (simp add: ahci_init_def Let_def case_prod_unfold)
  qed
  then show ?thesis using m u n(2) by (simp add: start_driver_def n_def dev_init_def)
qed

theorem pci_init_finds_devices_witness:
  "\<exists>s' p. pci_init Some ahci_machine = Some s' \<and> registry_is s' [p] \<and> dynamic_class s' p = Some Class_AHCI"
proof -
  obtain us vs where uv: "pci_functions ahci_cfg = us @ (0, 2, 1) # vs"
    "set us \<union> set vs \<subseteq> {(b, d, f). b < 8 \<and> d < 32 \<and> f < 8} - {(0, 2, 1)}" by (rule ahci_functions)
  have none: "drivers_for (function_header ahci_cfg b d f) = []" if "(b, d, f) \<in> set us \<union> set vs" for b d f
    using subsetD [OF uv(2) that] ahci_drivers [of b d f] by auto
  then have quiet: "\<forall>(b, d, f)\<in>set ls. drivers_for (function_header ahci_cfg b d f) = []" if "ls \<in> {us, vs}" for ls
    using that by blast
  have "concat (map (\<lambda>(b, d, f). drivers_for (function_header ahci_cfg b d f)) us) = []"
    "concat (map (\<lambda>(b, d, f). drivers_for (function_header ahci_cfg b d f)) vs) = []"
    using quiet [of us] quiet [of vs] by auto
  then have found: "drivers_found ahci_cfg = [Class_AHCI]"
    using ahci_drivers [of 0 2 1] by (simp add: drivers_found_def uv(1) del: concat_eq_Nil_conv)
  note M = ahci_machine_simps
  note F = pci_init_finds_devices [where idle = Some, OF _ M(1,2)]
  obtain log where 1: "in_turn (visit ahci_cfg Some) us ahci_machine = Some (ahci_machine\<lparr>port_log := log\<rparr>)"
    using quiet_visits [OF quiet M(1)] by blast
  let ?s = "ahci_machine\<lparr>port_log := log\<rparr>"
  have "pci_answers ahci_cfg ?s" using M(1) by (simp add: pci_answers_def)
  from visit_reads [OF this, of Some 0 2 1] obtain log' where "visit ahci_cfg Some (0, 2, 1) ?s =
      in_turn (start_driver Some (location_info (0, 2, 1))) [Class_AHCI] (?s\<lparr>port_log := log'\<rparr>)"
    using ahci_drivers [of 0 2 1] by auto
  moreover have "\<exists>t. start_driver Some (location_info (0, 2, 1)) Class_AHCI (?s\<lparr>port_log := log'\<rparr>) = Some t"
    by (rule start_ahci) (use M in \<open>simp_all add: registry_is_def\<close>)
  ultimately obtain t where 2: "visit ahci_cfg Some (0, 2, 1) ?s = Some t" by auto
  have "pci_answers ahci_cfg t"
    using visit_registers(1) [OF _ \<open>pci_answers ahci_cfg ?s\<close> 2] by simp
  then obtain log'' where 3: "in_turn (visit ahci_cfg Some) vs t = Some (t\<lparr>port_log := log''\<rparr>)"
    using quiet_visits [OF quiet] by blast
  have "pci_init Some ahci_machine = Some (t\<lparr>port_log := log''\<rparr>)"
    using F uv(1) 1 2 3 by (simp add: in_turn_append)
  moreover then obtain ps where "length ps = 1" "registry_is (t\<lparr>port_log := log''\<rparr>) ps"
      "dynamic_class (t\<lparr>port_log := log''\<rparr>) = (\<lambda>_. None)(ps [\<mapsto>] [Class_AHCI])"
    using F found M(3) by auto
  moreover from this(1) obtain p where "ps = [p]" by (auto simp: length_Suc_conv)
  ultimately show ?thesis by auto
qed

end
