(* ===== verification/Bit_Fields.thy ===== *)
theory Bit_Fields
  imports Pcnet_Driver Paging
begin

text \<open>
  The structures the hardware reads, with all their bit fields: the entries of the page
  tables (\<open>incl/memory/paging.hpp\<close>), the descriptors and the initialisation block of the
  adapter (\<open>incl/drivers/net/pcnet.hpp\<close>). The operations of \<open>Paging\<close>, \<open>Pcnet\<close> and
  \<open>Pcnet_Driver\<close> work on the words; here they are updates of one field of a record, and the
  fields beside it in the same word are kept.
\<close>

section \<open>Bits of a word\<close>

definition field_of :: "nat \<Rightarrow> nat \<Rightarrow> 'a::len word \<Rightarrow> 'a word" where
  "field_of lo n w = take_bit n (drop_bit lo w)"

lemma bit_field_of: "bit (field_of lo n w) k \<longleftrightarrow> k < n \<and> bit w (k + lo)"
  by (auto simp: field_of_def bit_take_bit_iff bit_drop_bit_eq add.commute)

section \<open>Entries of the page tables\<close>

text \<open>In a directory entry the first eight bits are also the byte \<open>flags\<close> of a union.\<close>

record page_dir_entry =
  pd_present :: bool
  pd_read_write :: bool
  pd_user_supervisor :: bool
  pd_write_through :: bool
  pd_cache_disable :: bool
  pd_accessed :: bool
  pd_unused :: bool
  pd_page_4mb :: bool
  pd_unused_high :: u32
  pd_address :: u32

definition page_dir_entry_of :: "u32 \<Rightarrow> page_dir_entry" where
  "page_dir_entry_of w =
     \<lparr>pd_present = bit w 0, pd_read_write = bit w 1, pd_user_supervisor = bit w 2, pd_write_through = bit w 3,
      pd_cache_disable = bit w 4, pd_accessed = bit w 5, pd_unused = bit w 6, pd_page_4mb = bit w 7,
      pd_unused_high = field_of 8 4 w, pd_address = field_of 12 20 w\<rparr>"

record page_table_entry =
  pt_present :: bool
  pt_read_write :: bool
  pt_user_supervisor :: bool
  pt_write_through :: bool
  pt_cache_disable :: bool
  pt_accessed :: bool
  pt_dirty :: bool
  pt_pat :: bool
  pt_global :: bool
  pt_unused :: u32
  pt_address :: u32

definition page_table_entry_of :: "u32 \<Rightarrow> page_table_entry" where
  "page_table_entry_of w =
     \<lparr>pt_present = bit w 0, pt_read_write = bit w 1, pt_user_supervisor = bit w 2, pt_write_through = bit w 3,
      pt_cache_disable = bit w 4, pt_accessed = bit w 5, pt_dirty = bit w 6, pt_pat = bit w 7, pt_global = bit w 8,
      pt_unused = field_of 9 3 w, pt_address = field_of 12 20 w\<rparr>"

text \<open>The fields cover the word.\<close>

lemma same_field: "field_of lo n v = field_of lo n w \<Longrightarrow> lo \<le> k \<Longrightarrow> k < lo + n \<Longrightarrow> bit v k \<longleftrightarrow> bit w k"
  using bit_field_of [of lo n v "k - lo"] bit_field_of [of lo n w "k - lo"] by (simp add: less_diff_conv2)

lemma page_table_entry_inject: "page_table_entry_of v = page_table_entry_of w \<longleftrightarrow> v = w"
proof
  assume h: "page_table_entry_of v = page_table_entry_of w"
  then have low: "\<forall>k\<in>{0, 1, 2, 3, 4, 5, 6, 7, 8}. bit v k = bit w k"
    and fields: "field_of 9 3 v = field_of 9 3 w" "field_of 12 20 v = field_of 12 20 w"
    by (simp_all add: page_table_entry_of_def)
  show "v = w"
  proof (rule bit_word_eqI)
    fix k assume "k < LENGTH(32)"
    then consider "k \<in> {0, 1, 2, 3, 4, 5, 6, 7, 8}" | "9 \<le> k" "k < 9 + 3" | "12 \<le> k" "k < 12 + 20"
      by simp linarith
    then show "bit v k = bit w k" using low same_field [OF fields(1)] same_field [OF fields(2)] by cases blast+
  qed
qed simp

lemma page_dir_entry_inject: "page_dir_entry_of v = page_dir_entry_of w \<longleftrightarrow> v = w"
proof
  assume h: "page_dir_entry_of v = page_dir_entry_of w"
  then have low: "\<forall>k\<in>{0, 1, 2, 3, 4, 5, 6, 7}. bit v k = bit w k"
    and fields: "field_of 8 4 v = field_of 8 4 w" "field_of 12 20 v = field_of 12 20 w"
    by (simp_all add: page_dir_entry_of_def)
  show "v = w"
  proof (rule bit_word_eqI)
    fix k assume "k < LENGTH(32)"
    then consider "k \<in> {0, 1, 2, 3, 4, 5, 6, 7}" | "8 \<le> k" "k < 8 + 4" | "12 \<le> k" "k < 12 + 20"
      by simp linarith
    then show "bit v k = bit w k" using low same_field [OF fields(1)] same_field [OF fields(2)] by cases blast+
  qed
qed simp

text \<open>What \<open>Paging\<close> reads of an entry.\<close>

lemma entry_fields:
  "entry_present w = pt_present (page_table_entry_of w)" "entry_present w = pd_present (page_dir_entry_of w)"
  "entry_address w = pt_address (page_table_entry_of w)" "entry_address w = pd_address (page_dir_entry_of w)"
proof -
  have "drop_bit 12 w = field_of 12 20 w" 
  proof (rule bit_word_eqI)
    fix n assume "n < LENGTH(32)"
    show "bit (drop_bit 12 w) n = bit (field_of 12 20 w) n"
      using bit_imp_le_length [of w "12 + n"] by (auto simp: bit_field_of bit_drop_bit_eq add.commute)
  qed
  then show "entry_address w = pt_address (page_table_entry_of w)" "entry_address w = pd_address (page_dir_entry_of w)"
    by (simp_all add: entry_address_def page_table_entry_of_def page_dir_entry_of_def)
qed (simp_all add: entry_present_def page_table_entry_of_def page_dir_entry_of_def)

text \<open>What it writes: one field each.\<close>

lemma mask_fff: "(0xfff :: u32) = mask 12" by (simp add: mask_eq_exp_minus_1)

lemma field_of_set:
  fixes w v :: u32
  shows "field_of 12 20 (w AND 0xfff OR push_bit 12 v) = take_bit 20 v"
    "lo + n \<le> 12 \<Longrightarrow> field_of lo n (w AND 0xfff OR push_bit 12 v) = field_of lo n w"
    "k < 12 \<Longrightarrow> bit (w AND 0xfff OR push_bit 12 v) k = bit w k"
  unfolding mask_fff
  by (auto intro!: bit_word_eqI simp: bit_field_of bit_or_iff bit_and_iff bit_mask_iff bit_push_bit_iff bit_take_bit_iff)

lemma field_of_flag:
  fixes w :: u32
  shows "lo + n \<le> 32 \<Longrightarrow> k < lo \<Longrightarrow> field_of lo n (w OR push_bit k 1) = field_of lo n w"
    "bit (w OR push_bit k 1) j \<longleftrightarrow> bit w j \<or> j = k \<and> k < 32"
  by (auto intro!: bit_word_eqI simp: bit_field_of bit_or_iff bit_exp_iff)

lemma set_address_field:
  "page_table_entry_of (rd32 (set_address a v m) a) = (page_table_entry_of (rd32 m a))\<lparr>pt_address := take_bit 20 v\<rparr>"
  "page_dir_entry_of (rd32 (set_address a v m) a) = (page_dir_entry_of (rd32 m a))\<lparr>pd_address := take_bit 20 v\<rparr>"
  by (simp_all add: set_address_def rd32_wr32_same page_table_entry_of_def page_dir_entry_of_def field_of_set)

lemma set_present_field:
  "page_table_entry_of (rd32 (set_present a m) a) = (page_table_entry_of (rd32 m a))\<lparr>pt_present := True\<rparr>"
  "page_dir_entry_of (rd32 (set_present a m) a) = (page_dir_entry_of (rd32 m a))\<lparr>pd_present := True\<rparr>"
  using field_of_flag [where k = 0] by (simp_all add: set_present_def rd32_wr32_same page_table_entry_of_def page_dir_entry_of_def)

lemma set_read_write_field:
  "page_table_entry_of (rd32 (set_read_write a m) a) = (page_table_entry_of (rd32 m a))\<lparr>pt_read_write := True\<rparr>"
  "page_dir_entry_of (rd32 (set_read_write a m) a) = (page_dir_entry_of (rd32 m a))\<lparr>pd_read_write := True\<rparr>"
  using field_of_flag [where k = 1] by (simp_all add: set_read_write_def rd32_wr32_same page_table_entry_of_def page_dir_entry_of_def)

text \<open>The entry \<open>map_page\<close> makes: present, writable, with the page's number; the rest stays.\<close>

lemma make_entry_fields:
  "page_table_entry_of (rd32 (make_entry a p m) a) =
    (page_table_entry_of (rd32 m a))\<lparr>pt_present := True, pt_read_write := True, pt_address := drop_bit 12 p\<rparr>"
proof -
  have three: "(3 :: u32) = mask 2" by (simp add: mask_eq_exp_minus_1)
  have "bit (w OR 3) k \<longleftrightarrow> bit w k \<or> k < 2" for w :: u32 and k
    unfolding three by (auto simp: bit_or_iff bit_mask_iff)
  moreover have "field_of lo n (w OR 3) = field_of lo n w" if "2 \<le> lo" for w :: u32 and lo n
    unfolding three by (rule bit_word_eqI) (use that in \<open>auto simp: bit_field_of bit_or_iff bit_mask_iff\<close>)
  moreover have "take_bit 20 (drop_bit 12 p) = drop_bit 12 p"
  proof (rule bit_word_eqI)
    fix n assume "n < LENGTH(32)"
    show "bit (take_bit 20 (drop_bit 12 p)) n = bit (drop_bit 12 p) n"
      using bit_imp_le_length [of p "12 + n"] by (auto simp: bit_take_bit_iff bit_drop_bit_eq add.commute)
  qed
  ultimately show ?thesis
    by (simp add: make_entry_def rd32_wr32_same page_table_entry_of_def field_of_set or.assoc [symmetric])
qed

section \<open>Descriptors of the adapter\<close>

record pcnet_rx_descr =
  rxd_buffer :: u32
  rxd_bcnt :: u16
  rxd_ones :: u16
  rxd_reserved :: u8
  rxd_enp :: bool
  rxd_stp :: bool
  rxd_buff :: bool
  rxd_crc :: bool
  rxd_oflo :: bool
  rxd_fram :: bool
  rxd_err :: bool
  rxd_own :: bool
  rxd_mcnt :: u16
  rxd_zeroes :: u16
  rxd_rpc :: u8
  rxd_rcc :: u8
  rxd_reserved2 :: u32

definition rx_descr_at :: "mem \<Rightarrow> u32 \<Rightarrow> pcnet_rx_descr" where
  "rx_descr_at m d =
     \<lparr>rxd_buffer = rd32 m d, rxd_bcnt = field_of 0 12 (rd16 m (d + 4)), rxd_ones = field_of 12 4 (rd16 m (d + 4)),
      rxd_reserved = rd8 m (d + 6), rxd_enp = bit (rd8 m (d + 7)) 0, rxd_stp = bit (rd8 m (d + 7)) 1,
      rxd_buff = bit (rd8 m (d + 7)) 2, rxd_crc = bit (rd8 m (d + 7)) 3, rxd_oflo = bit (rd8 m (d + 7)) 4,
      rxd_fram = bit (rd8 m (d + 7)) 5, rxd_err = bit (rd8 m (d + 7)) 6, rxd_own = bit (rd8 m (d + 7)) 7,
      rxd_mcnt = field_of 0 12 (rd16 m (d + 8)), rxd_zeroes = field_of 12 4 (rd16 m (d + 8)),
      rxd_rpc = rd8 m (d + 10), rxd_rcc = rd8 m (d + 11), rxd_reserved2 = rd32 m (d + 12)\<rparr>"

record pcnet_tx_descr =
  txd_buffer :: u32
  txd_bcnt :: u16
  txd_ones :: u16
  txd_reserved :: u8
  txd_enp :: bool
  txd_stp :: bool
  txd_def :: bool
  txd_one :: bool
  txd_more :: bool
  txd_add_no_fcs :: bool
  txd_err :: bool
  txd_own :: bool
  txd_trc :: u16
  txd_reserved2 :: u16
  txd_tdr :: u16
  txd_retry :: bool
  txd_lcar :: bool
  txd_lcol :: bool
  txd_ex_def :: bool
  txd_uflo :: bool
  txd_buff :: bool
  txd_reserved3 :: u32

definition tx_descr_at :: "mem \<Rightarrow> u32 \<Rightarrow> pcnet_tx_descr" where
  "tx_descr_at m d =
     \<lparr>txd_buffer = rd32 m d, txd_bcnt = field_of 0 12 (rd16 m (d + 4)), txd_ones = field_of 12 4 (rd16 m (d + 4)),
      txd_reserved = rd8 m (d + 6), txd_enp = bit (rd8 m (d + 7)) 0, txd_stp = bit (rd8 m (d + 7)) 1,
      txd_def = bit (rd8 m (d + 7)) 2, txd_one = bit (rd8 m (d + 7)) 3, txd_more = bit (rd8 m (d + 7)) 4,
      txd_add_no_fcs = bit (rd8 m (d + 7)) 5, txd_err = bit (rd8 m (d + 7)) 6, txd_own = bit (rd8 m (d + 7)) 7,
      txd_trc = field_of 0 4 (rd16 m (d + 8)), txd_reserved2 = field_of 4 12 (rd16 m (d + 8)),
      txd_tdr = field_of 0 10 (rd16 m (d + 10)), txd_retry = bit (rd16 m (d + 10)) 10,
      txd_lcar = bit (rd16 m (d + 10)) 11, txd_lcol = bit (rd16 m (d + 10)) 12, txd_ex_def = bit (rd16 m (d + 10)) 13,
      txd_uflo = bit (rd16 m (d + 10)) 14, txd_buff = bit (rd16 m (d + 10)) 15, txd_reserved3 = rd32 m (d + 12)\<rparr>"

text \<open>What the driver reads.\<close>

lemma descr_fields:
  "descr_buffer m d = rxd_buffer (rx_descr_at m d)" "descr_buffer m d = txd_buffer (tx_descr_at m d)"
  "descr_bcnt m d = rxd_bcnt (rx_descr_at m d)" "descr_bcnt m d = txd_bcnt (tx_descr_at m d)"
  "descr_flag OWN m d = rxd_own (rx_descr_at m d)" "descr_flag OWN m d = txd_own (tx_descr_at m d)"
  by (simp_all add: rx_descr_at_def tx_descr_at_def descr_buffer_def descr_bcnt_def descr_flag_def field_of_def
      take_bit_eq_mask mask_eq_exp_minus_1)

text \<open>What it writes: updates of one field.\<close>

lemma descr_writes_other:
  "rd16 (wr32 d v m) (d + 4) = rd16 m (d + 4)" "rd8 (wr32 d v m) (d + 6) = rd8 m (d + 6)"
  "rd8 (wr32 d v m) (d + 7) = rd8 m (d + 7)" "rd16 (wr32 d v m) (d + 8) = rd16 m (d + 8)"
  "rd8 (wr32 d v m) (d + 10) = rd8 m (d + 10)" "rd8 (wr32 d v m) (d + 11) = rd8 m (d + 11)"
  "rd16 (wr32 d v m) (d + 10) = rd16 m (d + 10)" "rd32 (wr32 d v m) (d + 12) = rd32 m (d + 12)"
  "rd32 (wr16 (d + 4) w m) d = rd32 m d" "rd8 (wr16 (d + 4) w m) (d + 6) = rd8 m (d + 6)"
  "rd8 (wr16 (d + 4) w m) (d + 7) = rd8 m (d + 7)" "rd16 (wr16 (d + 4) w m) (d + 8) = rd16 m (d + 8)"
  "rd8 (wr16 (d + 4) w m) (d + 10) = rd8 m (d + 10)" "rd8 (wr16 (d + 4) w m) (d + 11) = rd8 m (d + 11)"
  "rd16 (wr16 (d + 4) w m) (d + 10) = rd16 m (d + 10)" "rd32 (wr16 (d + 4) w m) (d + 12) = rd32 m (d + 12)"
  "rd32 (wr8 (d + 7) u m) d = rd32 m d" "rd16 (wr8 (d + 7) u m) (d + 4) = rd16 m (d + 4)"
  "rd8 (wr8 (d + 7) u m) (d + 6) = rd8 m (d + 6)" "rd16 (wr8 (d + 7) u m) (d + 8) = rd16 m (d + 8)"
  "rd8 (wr8 (d + 7) u m) (d + 10) = rd8 m (d + 10)" "rd8 (wr8 (d + 7) u m) (d + 11) = rd8 m (d + 11)"
  "rd16 (wr8 (d + 7) u m) (d + 10) = rd16 m (d + 10)" "rd32 (wr8 (d + 7) u m) (d + 12) = rd32 m (d + 12)"
  by (simp_all add: rd32_def rd16_def rd8_def wr32_def wr16_def wr8_def add.assoc)

lemma set_buffer_field:
  "rx_descr_at (set_descr_buffer d v m) d = (rx_descr_at m d)\<lparr>rxd_buffer := v\<rparr>"
  "tx_descr_at (set_descr_buffer d v m) d = (tx_descr_at m d)\<lparr>txd_buffer := v\<rparr>"
  by (simp_all add: set_descr_buffer_def rx_descr_at_def tx_descr_at_def rd32_wr32_same descr_writes_other)

lemma field_of_bcnt:
  fixes w v :: u16
  shows "field_of 0 12 (w AND 0xf000 OR v AND 0xfff) = take_bit 12 v" "field_of 12 4 (w AND 0xf000 OR v AND 0xfff) = field_of 12 4 w"
    "field_of 0 12 (w AND 0xfff OR push_bit 12 v) = field_of 0 12 w" "field_of 12 4 (w AND 0xfff OR push_bit 12 v) = take_bit 4 v"
proof -
  have m: "(0xf000 :: u16) = push_bit 12 (mask 4)" "(0xfff :: u16) = mask 12"
    by (simp_all add: mask_eq_exp_minus_1)
  show "field_of 0 12 (w AND 0xf000 OR v AND 0xfff) = take_bit 12 v" "field_of 12 4 (w AND 0xf000 OR v AND 0xfff) = field_of 12 4 w"
    "field_of 0 12 (w AND 0xfff OR push_bit 12 v) = field_of 0 12 w" "field_of 12 4 (w AND 0xfff OR push_bit 12 v) = take_bit 4 v"
    unfolding m
    by (auto intro!: bit_word_eqI simp: bit_field_of bit_or_iff bit_and_iff bit_mask_iff bit_push_bit_iff bit_take_bit_iff)
qed

lemma set_bcnt_field:
  "rx_descr_at (set_bcnt d v m) d = (rx_descr_at m d)\<lparr>rxd_bcnt := take_bit 12 (ucast v)\<rparr>"
  "tx_descr_at (set_bcnt d v m) d = (tx_descr_at m d)\<lparr>txd_bcnt := take_bit 12 (ucast v)\<rparr>"
  "rx_descr_at (set_ones d w m) d = (rx_descr_at m d)\<lparr>rxd_ones := take_bit 4 w\<rparr>"
  "tx_descr_at (set_ones d w m) d = (tx_descr_at m d)\<lparr>txd_ones := take_bit 4 w\<rparr>"
  by (simp_all add: set_bcnt_def set_ones_def rx_descr_at_def tx_descr_at_def rd16_wr16_same descr_writes_other field_of_bcnt)

lemma bit_raised: "k < 8 \<Longrightarrow> bit ((w :: u8) OR push_bit k 1) j \<longleftrightarrow> bit w j \<or> j = k"
  by (auto simp: bit_or_iff bit_exp_iff)

lemma raise_flag_field:
  "rx_descr_at (raise_flag OWN d m) d = (rx_descr_at m d)\<lparr>rxd_own := True\<rparr>"
  "tx_descr_at (raise_flag ENP d m) d = (tx_descr_at m d)\<lparr>txd_enp := True\<rparr>"
  "tx_descr_at (raise_flag STP d m) d = (tx_descr_at m d)\<lparr>txd_stp := True\<rparr>"
  "tx_descr_at (raise_flag OWN d m) d = (tx_descr_at m d)\<lparr>txd_own := True\<rparr>"
  using bit_raised [where k = 0] bit_raised [where k = 1] bit_raised [where k = 7]
  by (simp_all add: raise_flag_def rx_descr_at_def tx_descr_at_def rd8_wr8_same descr_writes_other)

section \<open>The initialisation block\<close>

record pcnet_init_block =
  ib_mode :: u16
  ib_reserved :: u8
  ib_rlen :: u8
  ib_reserved2 :: u8
  ib_tlen :: u8
  ib_mac :: "u8 list"
  ib_reserved3 :: u16
  ib_ladr_lo :: u32
  ib_ladr_hi :: u32
  ib_rdra :: u32
  ib_tdra :: u32

definition init_block_at :: "mem \<Rightarrow> u32 \<Rightarrow> pcnet_init_block" where
  "init_block_at m b =
     \<lparr>ib_mode = rd16 m b, ib_reserved = field_of 0 4 (rd8 m (b + 2)), ib_rlen = field_of 4 4 (rd8 m (b + 2)),
      ib_reserved2 = field_of 0 4 (rd8 m (b + 3)), ib_tlen = field_of 4 4 (rd8 m (b + 3)), ib_mac = bytes_at m (b + 4) 6,
      ib_reserved3 = rd16 m (b + 10), ib_ladr_lo = rd32 m (b + 12), ib_ladr_hi = rd32 m (b + 16),
      ib_rdra = rd32 m (b + 20), ib_tdra = rd32 m (b + 24)\<rparr>"

lemma field_of_len:
  fixes w v :: u8
  shows "field_of 0 4 (w AND 0x0f OR push_bit 4 v) = field_of 0 4 w" "field_of 4 4 (w AND 0x0f OR push_bit 4 v) = take_bit 4 v"
proof -
  have m: "(0x0f :: u8) = mask 4" by (simp add: mask_eq_exp_minus_1)
  show "field_of 0 4 (w AND 0x0f OR push_bit 4 v) = field_of 0 4 w" "field_of 4 4 (w AND 0x0f OR push_bit 4 v) = take_bit 4 v"
    unfolding m
    by (auto intro!: bit_word_eqI simp: bit_field_of bit_or_iff bit_and_iff bit_mask_iff bit_push_bit_iff bit_take_bit_iff)
qed

text \<open>The lengths and the two addresses are set before the hardware address is copied in.\<close>

lemma init_block_fields:
  assumes m1: "m1 = wr32 (b + 24) t (wr32 (b + 20) r (set_len_field (b + 3) y (set_len_field (b + 2) x m)))"
  shows "init_block_at m1 b = (init_block_at m b)\<lparr>ib_rlen := take_bit 4 x, ib_tlen := take_bit 4 y, ib_rdra := r, ib_tdra := t\<rparr>"
    "z \<notin> region b 28 \<Longrightarrow> m1 z = m z"
proof -
  have "m1 (b + 2) = m (b + 2) AND 0x0f OR push_bit 4 x" "m1 (b + 3) = m (b + 3) AND 0x0f OR push_bit 4 y"
    "rd32 m1 (b + 24) = t"
    by (simp_all add: m1 rd32_wr32_same set_len_field_def wr8_def rd8_def) (simp_all add: wr32_def)
  moreover have "rd32 m1 (b + 20) = r"
    unfolding m1 by (subst rd32_wr32_apart) (simp_all add: apart_def rd32_wr32_same)
  moreover have "rd16 m1 b = rd16 m b" "bytes_at m1 (b + 4) 6 = bytes_at m (b + 4) 6" "rd16 m1 (b + 10) = rd16 m (b + 10)"
    "rd32 m1 (b + 12) = rd32 m (b + 12)" "rd32 m1 (b + 16) = rd32 m (b + 16)"
    by (simp_all add: m1 set_len_field_def rd32_def rd16_def wr32_def wr8_def bytes_at_def upt_rec add.assoc)
  ultimately show "init_block_at m1 b = (init_block_at m b)\<lparr>ib_rlen := take_bit 4 x, ib_tlen := take_bit 4 y, ib_rdra := r, ib_tdra := t\<rparr>"
    by (simp add: init_block_at_def rd8_def field_of_len)
  assume z: "z \<notin> region b 28"
  have "region (b + 24) 4 \<subseteq> region b 28" "region (b + 20) 4 \<subseteq> region b 28" "region (b + 3) 1 \<subseteq> region b 28" "region (b + 2) 1 \<subseteq> region b 28"
    using region_offset [of 24 4 28 b] region_offset [of 20 4 28 b] region_offset [of 3 1 28 b] region_offset [of 2 1 28 b] by simp_all
  with z have "z \<notin> region (b + 24) 4" "z \<notin> region (b + 20) 4" "z \<notin> region (b + 3) 1" "z \<notin> region (b + 2) 1" by blast+
  then show "m1 z = m z" by (simp add: m1 set_len_field_def wr32_other wr8_other)
qed

lemma init_block_filled:
  assumes "apart src 6 b 28"
    and m1: "m1 = wr32 (b + 24) t (wr32 (b + 20) r (set_len_field (b + 3) y (set_len_field (b + 2) x m)))"
  shows "init_block_at (memcpy (b + 4) src 6 m1) b =
    (init_block_at m b)\<lparr>ib_rlen := take_bit 4 x, ib_tlen := take_bit 4 y, ib_mac := bytes_at m src 6, ib_rdra := r, ib_tdra := t\<rparr>"
proof -
  let ?m = "memcpy (b + 4) src 6 m1"
  note F = init_block_fields [OF m1]
  have other: "?m z = m1 z" if "z \<notin> region (b + 4) 6" for z using that by (simp add: memcpy_other)
  have a: "?m z = m1 z" if "z \<in> region (b + of_nat i) n" "apart (b + 4) 6 (b + of_nat i) n" for z i n
    using apart_notin [OF that(2,1)] other by blast
  have "rd16 ?m b = rd16 m1 b" "rd16 ?m (b + 10) = rd16 m1 (b + 10)"
    using a [where i = 0 and n = 2] a [where i = 10 and n = 2] by (auto intro!: rd16_cong simp: apart_def)
  moreover have "rd32 ?m (b + 12) = rd32 m1 (b + 12)" "rd32 ?m (b + 16) = rd32 m1 (b + 16)"
    "rd32 ?m (b + 20) = rd32 m1 (b + 20)" "rd32 ?m (b + 24) = rd32 m1 (b + 24)"
    using a [where i = 12 and n = 4] a [where i = 16 and n = 4] a [where i = 20 and n = 4] a [where i = 24 and n = 4]
    by (auto intro!: rd32_cong simp: apart_def)
  moreover have "?m (b + 2) = m1 (b + 2)" "?m (b + 3) = m1 (b + 3)"
    by (auto intro!: other simp: region_def unsigned_minus_1_eq_mask mask_eq_exp_minus_1)
  moreover have "bytes_at ?m (b + 4) 6 = bytes_at m src 6"
  proof -
    have "apart src 6 (b + 4) 6" using apart_offset [OF assms(1), of 0 6 4 6] by simp
    then have "bytes_at ?m (b + 4) 6 = bytes_at m1 src 6" using bytes_at_memcpy [of src 6 "b + 4" m1] by simp
    also have "\<dots> = bytes_at m src 6"
      using apart_disjoint [OF assms(1)] F(2) by (intro bytes_at_cong) auto
    finally show ?thesis .
  qed
  ultimately have "init_block_at ?m b = (init_block_at m1 b)\<lparr>ib_mac := bytes_at m src 6\<rparr>"
    by (simp add: init_block_at_def rd8_def)
  then show ?thesis unfolding F(1) by simp
qed

end
