(* ===== verification/Boot_Strings.thy ===== *)
theory Boot_Strings
  imports Memory
begin

text \<open>
  The string routines the boot loader is linked with, \<open>src/boot/legacy/string.c\<close>: a copy of
  the kernel's in C. They are the same functions.
\<close>

definition loader_memcpy :: "u32 \<Rightarrow> u32 \<Rightarrow> u32 \<Rightarrow> mem \<Rightarrow> u32 \<times> mem" where
  "loader_memcpy dst src sz m = (let old_dst = dst in (old_dst, movsb (unat sz) dst src m))"

function loader_memcmp_loop :: "mem \<Rightarrow> u32 \<Rightarrow> u32 \<Rightarrow> u32 \<Rightarrow> u32 \<Rightarrow> int" where
  "loader_memcmp_loop m lhs_uint rhs_uint count i =
     (if i < count then
        if rd8 m (lhs_uint + i) \<noteq> rd8 m (rhs_uint + i)
        then uint (rd8 m (lhs_uint + i)) - uint (rd8 m (rhs_uint + i))
        else loader_memcmp_loop m lhs_uint rhs_uint count (i + 1)
      else 0)"
  by pat_completeness auto
termination
proof (relation "measure (\<lambda>(m, lhs, rhs, count, i). unat count - unat i)", goal_cases)
  case 1
  show ?case by simp
next
  case (2 m lhs rhs count i)
  then have "unat i < unat count" "unat (i + 1) = unat i + 1"
    using unat_lt32 [of count] by (simp_all add: word_less_nat_alt unat_word_ariths)
  then show ?case by simp
qed

declare loader_memcmp_loop.simps [simp del]

definition loader_memcmp :: "mem \<Rightarrow> u32 \<Rightarrow> u32 \<Rightarrow> u32 \<Rightarrow> int" where
  "loader_memcmp m lhs rhs count = loader_memcmp_loop m lhs rhs count 0"

definition loader_memset :: "u32 \<Rightarrow> u8 \<Rightarrow> u32 \<Rightarrow> mem \<Rightarrow> u32 \<times> mem" where
  "loader_memset dst c count m = (let old_dst = dst in (old_dst, stosb (unat count) dst c m))"

definition loader_memset16 :: "u32 \<Rightarrow> u16 \<Rightarrow> u32 \<Rightarrow> mem \<Rightarrow> u32 \<times> mem" where
  "loader_memset16 dst c count m = (let old_dst = dst in (old_dst, stosw (unat count) dst c m))"

text \<open>Each returns its first argument and does to memory what the kernel's function does.\<close>

lemma loader_strings:
  "loader_memcpy dst src sz m = (dst, memcpy dst src sz m)"
  "loader_memset dst c sz m = (dst, memset dst c sz m)"
  "loader_memset16 dst w sz m = (dst, memset16 dst w sz m)"
  by (simp_all add: loader_memcpy_def loader_memset_def loader_memset16_def memcpy_def memset_def memset16_def Let_def)

lemma loader_memcmp_loop: "loader_memcmp_loop m lhs rhs count i = memcmp_loop m lhs rhs count i"
proof (induction m lhs rhs count i rule: loader_memcmp_loop.induct)
  case (1 m lhs rhs count i)
  then show ?case
    by (simp add: loader_memcmp_loop.simps [of m lhs] memcmp_loop.simps [of m lhs])
qed

lemma loader_memcmp: "loader_memcmp m lhs rhs count = byte_diff (bytes_at m lhs (unat count)) (bytes_at m rhs (unat count))"
  by (simp add: loader_memcmp_def loader_memcmp_loop memcmp_loop_byte_diff)

end
