(* ===== verification/Boot_Sector.thy ===== *)
theory Boot_Sector
  imports Boot_Load Boot_Strings
begin

text \<open>
  The boot sector, \<open>src/boot/legacy/stage1.asm\<close>: 512 bytes of 16-bit code that find the file
  of the boot loader on the disk, load it and jump to it. The variables of the definitions
  are the registers they are called after; the BIOS and the addresses the assembler gives to
  the labels behind the code are parameters.
\<close>

section \<open>The machine\<close>

text \<open>The services of the BIOS: the geometry (\<open>int 13h\<close>, \<open>ah = 8\<close>) gives \<open>dh\<close> and \<open>cl\<close> for the
  drive \<open>dl\<close>; the read (\<open>ah = 2\<close>) gets \<open>al\<close>, \<open>ch\<close>, \<open>cl\<close>, \<open>dh\<close>, \<open>dl\<close>, \<open>es\<close> and \<open>bx\<close> and gives
  the memory with the sectors in it or, with the carry flag, the status in \<open>ah\<close>.\<close>

record sector_bios =
  drive_geometry :: "u8 \<Rightarrow> u8 \<times> u8"
  read_sectors :: "u8 \<Rightarrow> u8 \<Rightarrow> u8 \<Rightarrow> u8 \<Rightarrow> u8 \<Rightarrow> u16 \<Rightarrow> u16 \<Rightarrow> mem \<Rightarrow> u8 + mem"

text \<open>The labels behind the code; those of the parameter block at its start are known.\<close>

record sector_labels =
  bootdev :: u16
  first_sect_at :: u16
  hex_digits :: u16
  stage2_file :: u16
  not_found_msg :: u16
  disk_read_err :: u16

definition FAT_ADDR_SEG :: u16 where "FAT_ADDR_SEG = 0x2000"
definition ROOT_DIR_ADDR_SEG :: u16 where "ROOT_DIR_ADDR_SEG = 0x3000"
definition NOSOKLDR_ADDR :: u16 where "NOSOKLDR_ADDR = 0x4000"

text \<open>The characters printed (\<open>int 10h\<close>, \<open>ah = 0eh\<close>) are kept.\<close>

record sector_machine = machine +
  tty :: "u8 list"

definition linear :: "u16 \<Rightarrow> u16 \<Rightarrow> u32" where
  "linear seg off = 16 * ucast seg + ucast off"

text \<open>How the code ends: in the jump to the loader, with the drive in \<open>dl\<close>, or in the endless
  loop \<open>jmp $\<close>. A trap of a division, or a loop that does not end, has no result.\<close>

datatype outcome = Jumps u16 u8 sector_machine | Hangs sector_machine

section \<open>Printing\<close>

text \<open>\<open>print\<close> with \<open>ds = 0\<close>: the characters up to a zero; behind it \<open>ah = 0eh\<close> and \<open>al = 0\<close>.\<close>

partial_function (option) print_loop :: "mem \<Rightarrow> u16 \<Rightarrow> u8 list \<Rightarrow> u8 list option" where
  "print_loop m si out =
     (let al = rd8 m (linear 0 si)
      in if al = 0 then Some out else print_loop m (si + 1) (out @ [al]))"

definition print_text :: "u16 \<Rightarrow> sector_machine \<Rightarrow> (u16 \<times> sector_machine) option" where
  "print_text si s = map_option (\<lambda>out. (0x0e00, s\<lparr>tty := out\<rparr>)) (print_loop (mem s) si (tty s))"

definition sector_print_hex :: "sector_labels \<Rightarrow> u16 \<Rightarrow> sector_machine \<Rightarrow> sector_machine" where
  "sector_print_hex L ax s =
     (let ax = push_bit 4 ax;
          al = drop_bit 4 (ucast ax :: u8);
          ah = (ucast (drop_bit 8 ax) :: u8);
          (ah, al) = (al, ah);
          bx = hex_digits L;
          al = rd8 (mem s) (linear 0 (bx + ucast al));
          s = s\<lparr>tty := tty s @ [al]\<rparr>;
          (ah, al) = (al, ah);
          al = rd8 (mem s) (linear 0 (bx + ucast al))
      in s\<lparr>tty := tty s @ [al]\<rparr>)"

section \<open>Reading sectors\<close>

definition sector_lba2chs :: "mem \<Rightarrow> u16 \<Rightarrow> (u16 \<times> u16 \<times> u16) option" where
  "sector_lba2chs m ax =
     (let cx = rd16 m 0x7c18
      in if cx = 0 then None
         else let dx = ax mod cx; ax = ax div cx; cx = dx + 1; bx = rd16 m 0x7c1a
              in if bx = 0 then None
                 else let dx = ax mod bx; ax = ax div bx; bx = dx in Some (ax, bx, cx))"

text \<open>The part behind \<open>.error\<close>.\<close>

definition disk_error :: "sector_labels \<Rightarrow> u8 \<Rightarrow> sector_machine \<Rightarrow> sector_machine option" where
  "disk_error L ah s =
     do {
       (ax, s) \<leftarrow> print_text (disk_read_err L) s;
       let al = (ucast (drop_bit 8 ax) :: u8);
       Some (sector_print_hex L (ucast al) s)
     }"

text \<open>On an error the code does not return: \<open>Inl\<close> the state it hangs in.\<close>

definition disk_read :: "sector_bios \<Rightarrow> sector_labels \<Rightarrow> u16 \<Rightarrow> u16 \<Rightarrow> u16 \<Rightarrow> u16 \<Rightarrow> sector_machine \<Rightarrow>
    (sector_machine + sector_machine) option" where
  "disk_read B L ax es bx cx s =
     do {
       let stacked_bx = bx;
       let stacked_cx = cx;
       let ax = ax AND 0xff;
       (ax, bx, cx) \<leftarrow> sector_lba2chs (mem s) ax;
       let dh = ucast bx;
       let ch = ucast ax;
       let cl = ucast cx;
       let al = ucast stacked_cx;
       let bx = stacked_bx;
       let dl = rd8 (mem s) (linear 0 (bootdev L));
       case read_sectors B al ch cl dh dl es bx (mem s) of
         Inl ah \<Rightarrow> map_option Inl (disk_error L ah s)
       | Inr m \<Rightarrow> Some (Inr (s\<lparr>mem := m\<rparr>))
     }"

section \<open>Finding the file\<close>

text \<open>\<open>repe cmpsb\<close> with \<open>cx = n\<close>: the zero flag after it.\<close>

fun repe_cmpsb :: "mem \<Rightarrow> u16 \<Rightarrow> u16 \<Rightarrow> u16 \<Rightarrow> u16 \<Rightarrow> nat \<Rightarrow> bool \<Rightarrow> bool" where
  "repe_cmpsb m ds si es di 0 zf = zf"
| "repe_cmpsb m ds si es di (Suc n) zf =
     (if rd8 m (linear ds si) = rd8 m (linear es di) then repe_cmpsb m ds (si + 1) es (di + 1) n True
      else False)"

text \<open>The entry that was found, or \<open>Some None\<close> at the end of the directory.\<close>

partial_function (option) find_loop :: "sector_labels \<Rightarrow> mem \<Rightarrow> u16 \<Rightarrow> u16 option option" where
  "find_loop L m bx =
     (let si = bx
      in if rd8 m (linear ROOT_DIR_ADDR_SEG si) = 0 then Some None
         else if repe_cmpsb m ROOT_DIR_ADDR_SEG si 0 (stage2_file L) 11 False then Some (Some bx)
         else find_loop L m (bx + 32))"

section \<open>Loading it\<close>

text \<open>\<open>jge\<close> is the signed comparison, and \<open>si\<close> is read with \<open>ds = 0\<close>.\<close>

partial_function (option) load_loop :: "sector_bios \<Rightarrow> sector_labels \<Rightarrow> u16 \<Rightarrow> u16 \<Rightarrow> u16 \<Rightarrow> sector_machine \<Rightarrow> outcome option" where
  "load_loop B L ax bx si s =
     (let ax = ax + rd16 (mem s) (linear 0 (first_sect_at L));
          cx = ucast (rd8 (mem s) 0x7c0d)
      in case disk_read B L ax 0 bx cx s of
           None \<Rightarrow> None
         | Some (Inl s) \<Rightarrow> Some (Hangs s)
         | Some (Inr s) \<Rightarrow>
             if 0xfff8 \<le>s rd16 (mem s) (linear 0 si)
             then Some (Jumps NOSOKLDR_ADDR (rd8 (mem s) (linear 0 (bootdev L))) s)
             else
               let ax = ucast (rd8 (mem s) 0x7c0d);
                   ax = ax * rd16 (mem s) 0x7c0b;
                   bx = bx + ax;
                   ax = ucast (rd8 (mem s) 0x7c0d);
                   cx = rd16 (mem s) (linear FAT_ADDR_SEG si);
                   cx = push_bit 1 cx;
                   si = cx;
                   cx = drop_bit 1 cx;
                   cx = cx - 2;
                   ax = ax * cx
               in load_loop B L ax bx si s)"

definition load_file :: "sector_bios \<Rightarrow> sector_labels \<Rightarrow> u16 \<Rightarrow> sector_machine \<Rightarrow> outcome option" where
  "load_file B L bx s =
     (let si = bx;
          ax = ucast (rd8 (mem s) 0x7c0d);
          cx = rd16 (mem s) (linear ROOT_DIR_ADDR_SEG (si + 0x1a));
          cx = push_bit 1 cx;
          si = cx;
          cx = drop_bit 1 cx;
          cx = cx - 2;
          ax = ax * cx
      in load_loop B L ax NOSOKLDR_ADDR si s)"

section \<open>From the start\<close>

text \<open>The drive is stored before \<open>ds\<close> is cleared: its value then, \<open>ds\<close>, is what the BIOS left. The
  geometry the BIOS gives replaces that of the parameter block: a byte of each word.\<close>

definition take_geometry :: "sector_bios \<Rightarrow> sector_labels \<Rightarrow> u16 \<Rightarrow> u8 \<Rightarrow> sector_machine \<Rightarrow> sector_machine" where
  "take_geometry B L ds dl s =
     (let s = s\<lparr>mem := wr8 (linear ds (bootdev L)) dl (mem s)\<rparr>;
          (dh, cl) = drive_geometry B dl;
          dh = dh + 1;
          s = s\<lparr>mem := wr8 0x7c1a dh (mem s)\<rparr>;
          cl = cl AND 0x3f
      in s\<lparr>mem := wr8 0x7c18 cl (mem s)\<rparr>)"

text \<open>The first sector of the root directory and the number of its sectors; \<open>div\<close> traps when
  the quotient has more than 16 bits.\<close>

definition root_extent :: "mem \<Rightarrow> (u16 \<times> u16) option" where
  "root_extent m =
     (let ax = ucast (rd8 m 0x7c10);
          ax = ax * rd16 m 0x7c16;
          ax = ax + rd16 m 0x7c0e;
          cx = ax;
          dx_ax = (ucast (rd16 m 0x7c11) * 32 :: u32);
          bx = rd16 m 0x7c0b
      in if bx = 0 \<or> 0xffff < dx_ax div ucast bx then None
         else let ax = ucast (dx_ax div ucast bx) in Some (cx, ax))"

definition boot_start :: "sector_bios \<Rightarrow> sector_labels \<Rightarrow> u16 \<Rightarrow> u8 \<Rightarrow> sector_machine \<Rightarrow> outcome option" where
  "boot_start B L ds dl s =
     do {
       let s = take_geometry B L ds dl s;
       r \<leftarrow> disk_read B L (rd16 (mem s) 0x7c0e) FAT_ADDR_SEG 0 (rd16 (mem s) 0x7c16) s;
       case r of Inl s \<Rightarrow> Some (Hangs s) | Inr s \<Rightarrow>
       do {
         (ax, cx) \<leftarrow> root_extent (mem s);
         let s = s\<lparr>mem := wr16 (linear 0 (first_sect_at L)) (ax + cx) (mem s)\<rparr>;
         r \<leftarrow> disk_read B L ax ROOT_DIR_ADDR_SEG 0 cx s;
         case r of Inl s \<Rightarrow> Some (Hangs s) | Inr s \<Rightarrow>
         do {
           found \<leftarrow> find_loop L (mem s) 0;
           case found of
             None \<Rightarrow> map_option (\<lambda>(ax, s). Hangs s) (print_text (not_found_msg L) s)
           | Some bx \<Rightarrow> load_file B L bx s
         }
       }
     }"

section \<open>What a read does\<close>

lemma sector_lba2chs: "sector_lba2chs = lba2chs"
  by (simp add: fun_eq_iff sector_lba2chs_def lba2chs_def)

lemma unat_linear: "unat (linear seg off) = 16 * unat seg + unat off"
proof -
  have u: "unat (ucast v :: u32) = unat v" for v :: u16
    using unat_lt16 [of v] by (simp add: unsigned_ucast_eq take_bit_eq_mod)
  show ?thesis
    using unat_lt16 [of seg] unat_lt16 [of off] by (simp add: linear_def unat_word_ariths u)
qed

text \<open>The documented behaviour of the read for one drive.\<close>

definition drive_service :: "sector_bios \<Rightarrow> u8 \<Rightarrow> (nat \<Rightarrow> u8 list) \<Rightarrow> nat \<Rightarrow> nat \<Rightarrow> bool" where
  "drive_service B drv disk spt heads \<longleftrightarrow> (\<forall>k. length (disk k) = 512) \<and>
     (\<forall>al ch cl dh es bx m. 0 < al \<and> 0 < unat cl mod 64 \<and> unat cl mod 64 \<le> spt \<and> unat dh < heads \<and>
        unat bx + 512 * unat al \<le> 65536 \<longrightarrow>
        read_sectors B al ch cl dh drv es bx m =
          Inr (write_bytes (linear es bx) (sectors disk (chs_sector spt heads ch cl dh) (unat al)) m))"

text \<open>Only the low byte of the sector number counts: \<open>ah\<close> is cleared before the division.\<close>

lemma disk_read_run:
  assumes D: "drive_service B drv disk spt heads" and G: "geometry (mem s) spt heads"
    and dev: "rd8 (mem s) (linear 0 (bootdev L)) = drv"
    and n: "n = unat (ucast cx :: u8)" "0 < n" "unat bx + 512 * n \<le> 65536"
  shows "disk_read B L ax es bx cx s =
    Some (Inr (s\<lparr>mem := write_bytes (linear es bx) (sectors disk (unat ax mod 256) n) (mem s)\<rparr>))"
proof -
  note g = G [unfolded geometry_def]
  let ?lba = "ax AND 0xff"
  define k where "k = unat ax mod 256"
  have k: "unat ?lba = k" "k < 256"
  proof -
    have "?lba = take_bit 8 ax" by (simp add: take_bit_eq_mask mask_eq_exp_minus_1)
    then show "unat ?lba = k" by (simp add: take_bit_eq_mod unat_mod k_def)
    show "k < 256" by (simp add: k_def)
  qed
  obtain c h t where chs: "lba2chs (mem s) ?lba = Some (c, h, t)"
    "unat c = k div spt div heads" "unat h = k div spt mod heads" "unat t = k mod spt + 1"
    using lba2chs_exact [OF G, of ?lba] unfolding k(1) by blast
  have t: "unat (ucast t :: u8) = k mod spt + 1" "k mod spt + 1 \<le> spt" "k mod spt + 1 < 64"
  proof -
    show "k mod spt + 1 \<le> spt" using g by (simp add: Suc_le_eq)
    then show "k mod spt + 1 < 64" using g by linarith
    then show "unat (ucast t :: u8) = k mod spt + 1" using chs(4) by (simp add: unsigned_ucast_eq take_bit_eq_mod)
  qed
  have h: "unat (ucast h :: u8) = k div spt mod heads" "k div spt mod heads < heads"
  proof -
    show "k div spt mod heads < heads" using g by simp
    then have "k div spt mod heads < 256" using g by linarith
    then show "unat (ucast h :: u8) = k div spt mod heads" using chs(3) by (simp add: unsigned_ucast_eq take_bit_eq_mod)
  qed
  have "k div spt div heads \<le> k" by (meson div_le_dividend order_trans)
  then have c: "unat (ucast c :: u8) = k div spt div heads" using chs(2) k(2) by (simp add: unsigned_ucast_eq take_bit_eq_mod)
  have "chs_sector spt heads (ucast c) (ucast t) (ucast h) = k"
    using t by (simp add: chs_sector_def c h(1))
  moreover have "0 < (ucast cx :: u8)" using n by (simp add: word_less_nat_alt)
  ultimately have "read_sectors B (ucast cx) (ucast c) (ucast t) (ucast h) drv es bx (mem s) =
      Inr (write_bytes (linear es bx) (sectors disk k n) (mem s))"
    using D t h n by (simp add: drive_service_def)
  then show ?thesis by (simp add: disk_read_def sector_lba2chs chs(1) Let_def dev k_def)
qed

section \<open>Bytes of a segment\<close>

definition seg_bytes :: "mem \<Rightarrow> u16 \<Rightarrow> u16 \<Rightarrow> nat \<Rightarrow> u8 list" where
  "seg_bytes m seg off n = map (\<lambda>i. m (linear seg (off + of_nat i))) [0..<n]"

lemma seg_bytes_0 [simp]: "seg_bytes m seg off 0 = []"
  by (simp add: seg_bytes_def)

lemma seg_bytes_nth: "i < n \<Longrightarrow> seg_bytes m seg off n ! i = m (linear seg (off + of_nat i))"
  by (simp add: seg_bytes_def)

lemma seg_bytes_Suc: "seg_bytes m seg off (Suc n) = m (linear seg off) # seg_bytes m seg (off + 1) n"
  by (simp add: seg_bytes_def map_upt_Suc add.assoc del: upt_Suc)

lemma repe_cmpsb_iff:
  "repe_cmpsb m ds si es di n zf \<longleftrightarrow> (if n = 0 then zf else seg_bytes m ds si n = seg_bytes m es di n)"
  by (induction m ds si es di n zf rule: repe_cmpsb.induct) (auto simp: seg_bytes_Suc rd8_def)

definition string_at :: "mem \<Rightarrow> u16 \<Rightarrow> u8 list \<Rightarrow> bool" where
  "string_at m a cs \<longleftrightarrow> 0 \<notin> set cs \<and> seg_bytes m 0 a (Suc (length cs)) = cs @ [0]"

lemma print_loop_string: "string_at m a cs \<Longrightarrow> print_loop m a out = Some (out @ cs)"
proof (induction cs arbitrary: a out)
  case Nil
  then show ?case by (subst print_loop.simps) (simp add: string_at_def seg_bytes_Suc rd8_def)
next
  case (Cons c cs)
  then have "c \<noteq> 0" "m (linear 0 a) = c" "string_at m (a + 1) cs"
    by (simp_all add: string_at_def seg_bytes_Suc)
  with Cons.IH show ?case by (subst print_loop.simps) (simp add: rd8_def)
qed

text \<open>What the directory of the file system says: the names up to the file, and its first cluster.\<close>

definition stage2_name :: "u8 list" where
  "stage2_name = map byte_of_char ''NOSOKLDRBIN''"

definition entry_name :: "u8 list \<Rightarrow> nat \<Rightarrow> u8 list" where
  "entry_name d i = take 11 (drop (32 * i) d)"

definition first_match :: "u8 list \<Rightarrow> nat \<Rightarrow> bool" where
  "first_match d i \<longleftrightarrow> 32 * i + 32 \<le> length d \<and> entry_name d i = stage2_name \<and>
     (\<forall>k<i. entry_name d k \<noteq> stage2_name \<and> d ! (32 * k) \<noteq> 0)"

lemma seg_bytes_list:
  assumes "\<And>j. j < length d \<Longrightarrow> m (linear seg (of_nat j)) = d ! j" "k + n \<le> length d"
  shows "seg_bytes m seg (of_nat k) n = take n (drop k d)"
proof (rule nth_equalityI)
  fix i assume "i < length (seg_bytes m seg (of_nat k) n)"
  then have "i < n" by (simp add: seg_bytes_def)
  then show "seg_bytes m seg (of_nat k) n ! i = take n (drop k d) ! i"
    using assms(1) [of "k + i"] assms(2) by (simp add: seg_bytes_def)
qed (use assms(2) in \<open>simp add: seg_bytes_def\<close>)

lemma find_loop_first:
  assumes d: "\<And>j. j < length d \<Longrightarrow> m (linear ROOT_DIR_ADDR_SEG (of_nat j)) = d ! j"
    and name: "seg_bytes m 0 (stage2_file L) 11 = stage2_name" and i: "first_match d i" and k: "k \<le> i"
  shows "find_loop L m (of_nat (32 * k)) = Some (Some (of_nat (32 * i)))"
  using k
proof (induction "i - k" arbitrary: k)
  case 0
  then have k: "k = i" by simp
  have len: "32 * i + 11 \<le> length d" using i by (simp add: first_match_def)
  have "seg_bytes m ROOT_DIR_ADDR_SEG (of_nat (32 * i)) 11 = stage2_name"
    using seg_bytes_list [OF d len] i by (simp add: first_match_def entry_name_def)
  moreover have "rd8 m (linear ROOT_DIR_ADDR_SEG (of_nat (32 * i))) = hd (seg_bytes m ROOT_DIR_ADDR_SEG (of_nat (32 * i)) 11)"
    by (simp add: rd8_def seg_bytes_def upt_rec)
  moreover have "hd stage2_name \<noteq> 0" by (simp add: stage2_name_def byte_of_char_def)
  ultimately show ?case
    using name by (subst find_loop.simps) (simp add: k repe_cmpsb_iff Let_def)
next
  case (Suc x)
  then have k: "k < i" by simp
  then have len: "32 * k + 11 \<le> length d" using i by (simp add: first_match_def)
  have "seg_bytes m ROOT_DIR_ADDR_SEG (of_nat (32 * k)) 11 \<noteq> stage2_name"
    using seg_bytes_list [OF d len] i k by (simp add: first_match_def entry_name_def)
  moreover have "rd8 m (linear ROOT_DIR_ADDR_SEG (of_nat (32 * k))) \<noteq> 0"
    using d [of "32 * k"] len i k by (simp add: rd8_def first_match_def)
  moreover have "find_loop L m (of_nat (32 * k) + 32) = Some (Some (of_nat (32 * i)))"
    using Suc(1) [of "Suc k"] Suc(2) k by (simp add: add.commute)
  ultimately show ?case
    using name by (subst find_loop.simps) (simp add: repe_cmpsb_iff Let_def)
qed

section \<open>Properties\<close>

text \<open>The labels, one behind the other as the source has them, in the 510 bytes of the sector.\<close>

definition layout :: "sector_labels \<Rightarrow> bool" where
  "layout L \<longleftrightarrow> 0x7c3e \<le> bootdev L \<and> bootdev L \<le> 0x7dfe - 68 \<and> first_sect_at L = bootdev L + 1 \<and>
     hex_digits L = bootdev L + 3 \<and> stage2_file L = bootdev L + 19 \<and> not_found_msg L = bootdev L + 30 \<and>
     disk_read_err L = bootdev L + 56"

definition sector_data :: "sector_labels \<Rightarrow> mem \<Rightarrow> bool" where
  "sector_data L m \<longleftrightarrow> seg_bytes m 0 (hex_digits L) 16 = map byte_of_char ''0123456789ABCDEF'' \<and>
     seg_bytes m 0 (stage2_file L) 11 = stage2_name \<and>
     string_at m (not_found_msg L) (map byte_of_char ''/NOSOKLDR.BIN not found'' @ [0x0a, 0x0d]) \<and>
     string_at m (disk_read_err L) (map byte_of_char ''Disk error '')"


section \<open>The way to the loader\<close>

text \<open>Memory after the geometry is taken: all below the tables is as before but five bytes.\<close>

definition set_up :: "sector_labels \<Rightarrow> u8 \<Rightarrow> u8 \<Rightarrow> u8 \<Rightarrow> mem \<Rightarrow> mem \<Rightarrow> bool" where
  "set_up L spt8 heads8 drv m m' \<longleftrightarrow>
     (\<forall>x. unat x < 0x20000 \<longrightarrow> x \<notin> {0x7c18, 0x7c1a, linear 0 (bootdev L), linear 0 (first_sect_at L), linear 0 (first_sect_at L) + 1} \<longrightarrow>
        m' x = m x) \<and>
     m' 0x7c18 = spt8 \<and> m' 0x7c1a = heads8 \<and> m' (linear 0 (bootdev L)) = drv"

lemma label_addresses:
  assumes "layout L"
  shows "unat (linear 0 (bootdev L)) = unat (bootdev L)" "unat (linear 0 (first_sect_at L)) = unat (bootdev L) + 1"
    "unat (linear 0 (first_sect_at L) + 1) = unat (bootdev L) + 2" "0x7c3e \<le> unat (bootdev L)" "unat (bootdev L) \<le> 0x7dba"
    "i < 1024 \<Longrightarrow> unat (linear 0 (bootdev L + of_nat i)) = unat (bootdev L) + i"
proof -
  show b: "0x7c3e \<le> unat (bootdev L)" "unat (bootdev L) \<le> 0x7dba"
    using assms by (simp_all add: layout_def word_le_nat_alt)
  have u: "unat (bootdev L + 1) = unat (bootdev L) + 1" using b by (simp add: unat_word_ariths)
  then show "unat (linear 0 (bootdev L)) = unat (bootdev L)" "unat (linear 0 (first_sect_at L)) = unat (bootdev L) + 1"
    using assms by (simp_all add: unat_linear layout_def)
  then show "unat (linear 0 (first_sect_at L) + 1) = unat (bootdev L) + 2" using b by (simp add: unat_word_ariths)
  show "unat (linear 0 (bootdev L + of_nat i)) = unat (bootdev L) + i" if "i < 1024"
    using that b by (simp add: unat_linear unat_word_ariths unsigned_of_nat take_bit_eq_mod)
qed

lemma set_up_geometry:
  assumes L: "layout L" and dh: "drive_geometry B drv = (dh, cl)"
  shows "\<exists>m'. take_geometry B L 0 drv s = s\<lparr>mem := m'\<rparr> \<and> set_up L (cl AND 0x3f) (dh + 1) drv (mem s) m'"
proof -
  note A = label_addresses [OF L]
  have "linear 0 (bootdev L) \<noteq> 0x7c18" "linear 0 (bootdev L) \<noteq> 0x7c1a" using A(1,4) by (auto simp: word_unat_eq_iff)
  then have "set_up L (cl AND 0x3f) (dh + 1) drv (mem s)
      (wr8 0x7c18 (cl AND 0x3f) (wr8 0x7c1a (dh + 1) (wr8 (linear 0 (bootdev L)) drv (mem s))))"
    by (simp add: set_up_def wr8_def)
  moreover have "take_geometry B L 0 drv s =
      s\<lparr>mem := wr8 0x7c18 (cl AND 0x3f) (wr8 0x7c1a (dh + 1) (wr8 (linear 0 (bootdev L)) drv (mem s)))\<rparr>"
    by (simp add: take_geometry_def dh Let_def)
  ultimately show ?thesis by blast
qed

lemma set_up_write:
  assumes "set_up L a b c m m'" "0x20000 \<le> unat p" "unat p + length bs \<le> 0x100000" "layout L"
  shows "set_up L a b c m (write_bytes p bs m')"
proof -
  have "write_bytes p bs m' x = m' x" if "unat x < 0x20000" for x
    using that assms(2,3) by (intro write_bytes_other) (auto simp: in_region_nat)
  then show ?thesis using assms(1) label_addresses [OF assms(4)] by (simp add: set_up_def)
qed

lemma set_up_first:
  assumes "set_up L a b c m m'" "layout L"
  shows "set_up L a b c m (wr16 (linear 0 (first_sect_at L)) v m')"
proof -
  note A = label_addresses [OF assms(2)]
  have "linear 0 (first_sect_at L) \<notin> {0x7c18, 0x7c1a, linear 0 (bootdev L)}"
    "linear 0 (first_sect_at L) + 1 \<notin> {0x7c18, 0x7c1a, linear 0 (bootdev L)}"
    using A by (auto simp: word_unat_eq_iff)
  then show ?thesis using assms(1) by (auto simp: set_up_def wr16_def)
qed

lemma set_up_low:
  assumes up: "set_up L a b c m m'" "layout L" and x: "unat x < 0x7c3e" "x \<noteq> 0x7c18" "x \<noteq> 0x7c1a"
  shows "m' x = m x"
proof -
  have "x \<noteq> linear 0 (bootdev L)" "x \<noteq> linear 0 (first_sect_at L)" "x \<noteq> linear 0 (first_sect_at L) + 1"
    using x(1) label_addresses(1-4) [OF up(2)] by auto
  then show ?thesis using up(1) x by (simp add: set_up_def)
qed

lemma set_up_fields:
  assumes up: "set_up L a b c m m'" "layout L"
  shows "bytes_per_sector (fat_bpb_at m' BPB_ADDR) = bytes_per_sector (fat_bpb_at m BPB_ADDR)"
    "secs_per_cluster (fat_bpb_at m' BPB_ADDR) = secs_per_cluster (fat_bpb_at m BPB_ADDR)"
    "reserved_count (fat_bpb_at m' BPB_ADDR) = reserved_count (fat_bpb_at m BPB_ADDR)"
    "fat_count (fat_bpb_at m' BPB_ADDR) = fat_count (fat_bpb_at m BPB_ADDR)"
    "root_dir_entries (fat_bpb_at m' BPB_ADDR) = root_dir_entries (fat_bpb_at m BPB_ADDR)"
    "secs_per_fat (fat_bpb_at m' BPB_ADDR) = secs_per_fat (fat_bpb_at m BPB_ADDR)"
    "m 0x7c19 = 0 \<Longrightarrow> m 0x7c1b = 0 \<Longrightarrow> rd16 m' 0x7c18 = ucast a \<and> rd16 m' 0x7c1a = ucast b"
    "rd8 m' (linear 0 (bootdev L)) = c"
    "seg_bytes m' 0 (stage2_file L) 11 = seg_bytes m 0 (stage2_file L) 11"
proof -
  note A = label_addresses [OF up(2)]
  note same = set_up_low [OF up]
  show "bytes_per_sector (fat_bpb_at m' BPB_ADDR) = bytes_per_sector (fat_bpb_at m BPB_ADDR)"
    "secs_per_cluster (fat_bpb_at m' BPB_ADDR) = secs_per_cluster (fat_bpb_at m BPB_ADDR)"
    "reserved_count (fat_bpb_at m' BPB_ADDR) = reserved_count (fat_bpb_at m BPB_ADDR)"
    "fat_count (fat_bpb_at m' BPB_ADDR) = fat_count (fat_bpb_at m BPB_ADDR)"
    "root_dir_entries (fat_bpb_at m' BPB_ADDR) = root_dir_entries (fat_bpb_at m BPB_ADDR)"
    "secs_per_fat (fat_bpb_at m' BPB_ADDR) = secs_per_fat (fat_bpb_at m BPB_ADDR)"
    by (simp_all add: fat_bpb_at_def BPB_ADDR_def rd16_def rd8_def same)
  show "rd16 m' 0x7c18 = ucast a \<and> rd16 m' 0x7c1a = ucast b" if "m 0x7c19 = 0" "m 0x7c1b = 0"
    using up(1) same [of "0x7c19"] same [of "0x7c1b"] that by (simp add: set_up_def rd16_def)
  show "rd8 m' (linear 0 (bootdev L)) = c" using up(1) by (simp add: set_up_def rd8_def)
  have "m' (linear 0 (stage2_file L + of_nat i)) = m (linear 0 (stage2_file L + of_nat i))" if "i < 11" for i
  proof -
    have "stage2_file L + of_nat i = bootdev L + of_nat (19 + i)" using up(2) by (simp add: layout_def)
    then have x: "unat (linear 0 (stage2_file L + of_nat i)) = unat (bootdev L) + (19 + i)"
      using A(6) [of "19 + i"] that by (simp add: add.assoc)
    show ?thesis
      using up(1) unfolding set_up_def using x A that by (auto simp: word_unat_eq_iff)
  qed
  then show "seg_bytes m' 0 (stage2_file L) 11 = seg_bytes m 0 (stage2_file L) 11"
    by (simp add: seg_bytes_def)
qed

text \<open>The data of the directory in the segment it is read to.\<close>

lemma linear_add:
  assumes "unat off + j < 65536"
  shows "linear seg (off + of_nat j) = linear seg off + of_nat j"
proof -
  have "unat (linear seg off + of_nat j) = unat (linear seg off) + j"
    using assms unat_lt16 [of seg] by (intro unat_add_of_nat) (simp add: unat_linear)
  moreover have "unat (off + of_nat j) = unat off + j" using assms by (intro unat_add_of_nat) simp
  ultimately show ?thesis by (simp add: word_unat_eq_iff unat_linear)
qed

lemma write_bytes_segment:
  assumes "unat off + length bs \<le> 65536" "j < length bs"
  shows "write_bytes (linear seg off) bs m (linear seg (off + of_nat j)) = bs ! j"
proof -
  have "bytes_at (write_bytes (linear seg off) bs m) (linear seg off) (length bs) ! j = bs ! j"
    using assms(1) by (subst bytes_at_write_bytes) simp_all
  then show ?thesis using assms by (simp add: linear_add)
qed

text \<open>A file system the boot sector can read: 512 bytes in a sector, tables of at most 64 KiB
  that begin in the first 256 sectors, clusters that fit between the loader's address and
  the boot sector; and a drive of at most 255 heads.\<close>

definition fat_readable :: "fat_bpb \<Rightarrow> nat \<Rightarrow> nat \<Rightarrow> bool" where
  "fat_readable b root rs \<longleftrightarrow> bytes_per_sector b = 512 \<and> 0 < unat (secs_per_fat b) \<and> unat (secs_per_fat b) \<le> 128 \<and>
     root = unat (reserved_count b) + unat (fat_count b) * unat (secs_per_fat b) \<and> root < 256 \<and>
     rs = unat (root_dir_entries b) * 32 div 512 \<and> 0 < rs \<and> rs \<le> 128 \<and>
     0 < unat (secs_per_cluster b) \<and> unat (secs_per_cluster b) \<le> 30"

definition drive_found :: "sector_bios \<Rightarrow> u8 \<Rightarrow> nat \<Rightarrow> nat \<Rightarrow> bool" where
  "drive_found B drv spt heads \<longleftrightarrow> (\<exists>dh cl. drive_geometry B drv = (dh, cl) \<and> dh \<noteq> 0xff \<and> heads = unat dh + 1 \<and>
     spt = unat (cl AND 0x3f) \<and> 0 < spt)"

lemma root_extent_run:
  assumes "fat_readable (fat_bpb_at m BPB_ADDR) root rs"
  shows "root_extent m = Some (of_nat root, of_nat rs)"
proof -
  let ?b = "fat_bpb_at m BPB_ADDR"
  have b: "rd16 m 0x7c0b = 512" "root = unat (rd16 m 0x7c0e) + unat (rd8 m 0x7c10) * unat (rd16 m 0x7c16)"
    "rs = unat (rd16 m 0x7c11) * 32 div 512" "rs \<le> 128" "root < 256"
    using assms by (simp_all add: fat_readable_def fat_bpb_at_def BPB_ADDR_def)
  have u: "unat (ucast v :: u32) = unat v" for v :: u16
    using unat_lt16 [of v] by (simp add: unsigned_ucast_eq take_bit_eq_mod)
  define q where "q = (ucast (rd16 m 0x7c11) * 32 div 512 :: u32)"
  have q: "unat q = rs"
    using unat_lt16 [of "rd16 m 0x7c11"] by (simp add: q_def b(3) unat_div unat_word_ariths u)
  then have "\<not> 0xffff < q" "ucast q = (of_nat rs :: u16)"
    using b(4) by (simp_all add: word_less_nat_alt word_unat_eq_iff unsigned_ucast_eq unsigned_of_nat take_bit_eq_mod)
  moreover have "ucast (rd8 m 0x7c10) * rd16 m 0x7c16 + rd16 m 0x7c0e = (of_nat root :: u16)"
  proof -
    have "of_nat (unat (rd8 m 0x7c10)) = (ucast (rd8 m 0x7c10) :: u16)" by simp
    then show ?thesis unfolding b(2) by (simp add: add.commute)
  qed
  ultimately show ?thesis
    by (simp add: root_extent_def Let_def b(1) q_def)
qed

lemma set_up_geometry_ok:
  assumes up: "set_up L (cl AND 0x3f) (dh + 1) drv m m'" and L: "layout L" and zero: "m 0x7c19 = 0" "m 0x7c1b = 0"
    and d: "dh \<noteq> 0xff" "heads = unat dh + 1" "spt = unat (cl AND 0x3f)" "0 < spt"
  shows "geometry m' spt heads"
proof -
  have "unat dh < 255" using d(1) unat_lt8 [of dh] by (auto simp: word_unat_eq_iff)
  then have h: "unat (dh + 1) = heads" using d(2) by (simp add: unat_word_ariths)
  have "cl AND 0x3f = take_bit 6 cl" by (simp add: take_bit_eq_mask mask_eq_exp_minus_1)
  then have "spt < 64" using d(3) by (simp add: take_bit_eq_mod unat_mod)
  moreover have "unat (ucast v :: u16) = unat v" for v :: u8
    using unat_lt8 [of v] by (simp add: unsigned_ucast_eq take_bit_eq_mod)
  ultimately show ?thesis
    using set_up_fields(7) [OF up L zero] h d \<open>unat dh < 255\<close> by (simp add: geometry_def)
qed

text \<open>The first cluster, and the jump if the word at twice its number says so.\<close>

lemma load_one_cluster:
  assumes D: "drive_service B drv disk spt heads" and G: "geometry (mem s) spt heads"
    and dev: "rd8 (mem s) (linear 0 (bootdev L)) = drv"
    and n: "n = unat (rd8 (mem s) 0x7c0d)" "0 < n" "n \<le> 30"
    and lba: "unat (ax + rd16 (mem s) (linear 0 (first_sect_at L))) = lba" "lba < 256" and L: "layout L"
    and stop: "0xfff8 \<le>s rd16 (mem s) (linear 0 si)" "unat si + 2 \<le> 0x4000"
  shows "load_loop B L ax NOSOKLDR_ADDR si s =
    Some (Jumps NOSOKLDR_ADDR drv (s\<lparr>mem := write_bytes 0x4000 (sectors disk lba n) (mem s)\<rparr>))"
proof -
  let ?m = "write_bytes 0x4000 (sectors disk lba n) (mem s)"
  have len: "length (sectors disk lba n) = 512 * n" using D by (simp add: drive_service_def length_sectors)
  have other: "?m x = mem s x" if "unat x < 0x4000 \<or> 0x7c00 \<le> unat x" for x
    using that n(3) by (intro write_bytes_other) (auto simp: in_region_nat len)
  have cx: "unat (ucast (ucast (rd8 (mem s) 0x7c0d) :: u16) :: u8) = n"
  proof -
    have "(ucast (ucast v :: u16) :: u8) = v" for v :: u8 by (rule bit_word_eqI) (simp add: bit_ucast_iff)
    then show ?thesis by (simp add: n(1))
  qed
  have read: "disk_read B L (ax + rd16 (mem s) (linear 0 (first_sect_at L))) 0 NOSOKLDR_ADDR (ucast (rd8 (mem s) 0x7c0d)) s =
      Some (Inr (s\<lparr>mem := ?m\<rparr>))"
    using disk_read_run [OF D G dev cx [symmetric] n(2), of NOSOKLDR_ADDR _ 0] n(3) lba
    by (simp add: NOSOKLDR_ADDR_def linear_def)
  have si: "unat (linear 0 si) = unat si" "unat (linear 0 si + 1) = unat si + 1"
    using stop(2) by (simp_all add: unat_linear unat_word_ariths)
  have "rd16 ?m (linear 0 si) = rd16 (mem s) (linear 0 si)"
    using si stop(2) by (simp add: rd16_def other)
  moreover have "rd8 ?m (linear 0 (bootdev L)) = drv"
    using label_addresses(1,4) [OF L] dev by (simp add: rd8_def other)
  ultimately show ?thesis
    using stop(1) by (subst load_loop.simps) (simp add: Let_def read)
qed

text \<open>From the entry of the directory to its first cluster.\<close>

lemma load_file_run:
  assumes D: "drive_service B drv disk spt heads" and G: "geometry (mem s) spt heads"
    and dev: "rd8 (mem s) (linear 0 (bootdev L)) = drv"
    and n: "n = unat (rd8 (mem s) 0x7c0d)" "0 < n" "n \<le> 30" and L: "layout L"
    and first: "rd16 (mem s) (linear 0 (first_sect_at L)) = of_nat k"
    and c: "rd16 (mem s) (linear ROOT_DIR_ADDR_SEG (bx + 0x1a)) = c" "2 \<le> unat c" "k + (unat c - 2) * n < 256"
    and stop: "0xfff8 \<le>s rd16 (mem s) (2 * ucast c)"
  shows "load_file B L bx s =
    Some (Jumps NOSOKLDR_ADDR drv (s\<lparr>mem := write_bytes 0x4000 (sectors disk (k + (unat c - 2) * n) n) (mem s)\<rparr>))"
proof -
  have "(unat c - 2) * 1 \<le> (unat c - 2) * n" using n(2) by (intro mult_le_mono2) simp
  then have small: "unat c < 258" using c(3) by linarith
  have "unat (push_bit 1 c) = 2 * unat c" using small by (simp add: unat_word_ariths push_bit_eq_mult)
  then have si: "push_bit 1 c = 2 * c" "unat (2 * c) = 2 * unat c" "drop_bit 1 (2 * c) = c"
    using small by (simp_all add: push_bit_eq_mult word_unat_eq_iff unat_drop_bit_eq drop_bit_eq_div unat_word_ariths)
  have lin: "linear 0 (2 * c) = 2 * ucast c"
  proof -
    have "unat (ucast c :: u32) = unat c" using small by (simp add: unsigned_ucast_eq take_bit_eq_mod)
    then have "unat (2 * ucast c :: u32) = 2 * unat c" using small by (simp add: unat_word_ariths)
    then show ?thesis using si(2) by (simp add: word_unat_eq_iff unat_linear)
  qed
  have "ucast (rd8 (mem s) 0x7c0d) * (c - 2) + of_nat k = (of_nat (k + (unat c - 2) * n) :: u16)"
  proof -
    have "of_nat (unat c - 2) = c - 2" using c(2) by (simp add: of_nat_diff)
    moreover have "of_nat n = (ucast (rd8 (mem s) 0x7c0d) :: u16)" by (simp add: n(1))
    ultimately show ?thesis by (simp add: mult.commute add.commute)
  qed
  moreover have "unat (of_nat (k + (unat c - 2) * n) :: u16) = k + (unat c - 2) * n"
    using c(3) by (simp add: unsigned_of_nat take_bit_eq_mod del: of_nat_add of_nat_mult)
  ultimately have "unat (ucast (rd8 (mem s) 0x7c0d) * (c - 2) + of_nat k :: u16) = k + (unat c - 2) * n"
    by (simp only:)
  then have "load_loop B L (ucast (rd8 (mem s) 0x7c0d) * (c - 2)) NOSOKLDR_ADDR (2 * c) s =
    Some (Jumps NOSOKLDR_ADDR drv (s\<lparr>mem := write_bytes 0x4000 (sectors disk (k + (unat c - 2) * n) n) (mem s)\<rparr>))"
    using stop si(2) small c(3)
    by (intro load_one_cluster [OF D G dev n _ _ L]) (simp_all add: first lin)
  then show ?thesis by (simp only: load_file_def Let_def c(1) si(1,3))
qed

text \<open>
  C16. The boot sector loads the boot loader: on a file system in its reach whose directory has
  an entry NOSOKLDRBIN, it reads the first cluster of the file to 0x4000 and jumps there with
  the number of the drive, without printing. For this the word at twice the number of the
  cluster in the first bytes of memory must not be between 0x8000 and 0xfff7: it is this
  word the code takes for the entry of the file allocation table, which does not matter.
\<close>

theorem boot_sector_loads:
  fixes s :: sector_machine
  defines "b \<equiv> fat_bpb_at (mem s) BPB_ADDR"
  assumes L: "layout L" "sector_data L (mem s)" "rd8 (mem s) 0x7c19 = 0" "rd8 (mem s) 0x7c1b = 0"
    and drive: "drive_found B drv spt heads" "drive_service B drv disk spt heads"
    and fat: "fat_readable b root rs" and found: "first_match (sectors disk root rs) i"
    and c: "of_le16 (drop (32 * i + 26) (sectors disk root rs)) = c" "2 \<le> unat c"
      "lba = root + rs + (unat c - 2) * unat (secs_per_cluster b)" "lba < 256"
    and stop: "0xfff8 \<le>s rd16 (mem s) (2 * ucast c)"
  shows "\<exists>s'. boot_start B L 0 drv s = Some (Jumps NOSOKLDR_ADDR drv s') \<and> tty s' = tty s \<and>
    bytes_at (mem s') 0x4000 (512 * unat (secs_per_cluster b)) = sectors disk lba (unat (secs_per_cluster b))"
proof -
  let ?n = "unat (secs_per_cluster b)" and ?spf = "unat (secs_per_fat b)"
  let ?d = "sectors disk root rs" and ?first = "linear 0 (first_sect_at L)"
  note F = fat [unfolded fat_readable_def]
  have R: "root < 256" "0 < rs" "rs \<le> 128" using F by blast+
  have ld: "length (sectors disk k n) = 512 * n" for k n using drive(2) by (simp add: drive_service_def length_sectors)
  obtain dh cl where g: "drive_geometry B drv = (dh, cl)" "dh \<noteq> 0xff" "heads = unat dh + 1" "spt = unat (cl AND 0x3f)" "0 < spt"
    using drive(1) by (auto simp: drive_found_def)
  obtain m1 where m1: "take_geometry B L 0 drv s = s\<lparr>mem := m1\<rparr>" "set_up L (cl AND 0x3f) (dh + 1) drv (mem s) m1"
    using set_up_geometry [OF L(1) g(1)] by blast
  have zero: "mem s 0x7c19 = 0" "mem s 0x7c1b = 0" using L by (simp_all add: rd8_def)
  note G = set_up_geometry_ok [OF _ L(1) zero g(2-5)]
  define m2 where "m2 = write_bytes (linear FAT_ADDR_SEG 0) (sectors disk (unat (reserved_count b) mod 256) ?spf) m1"
  define m3 where "m3 = wr16 ?first (of_nat root + of_nat rs) m2"
  define m4 where "m4 = write_bytes (linear ROOT_DIR_ADDR_SEG 0) ?d m3"
  have up2: "set_up L (cl AND 0x3f) (dh + 1) drv (mem s) m2"
    unfolding m2_def using F by (intro set_up_write [OF m1(2) _ _ L(1)]) (simp_all add: unat_linear ld FAT_ADDR_SEG_def)
  have up3: "set_up L (cl AND 0x3f) (dh + 1) drv (mem s) m3"
    unfolding m3_def by (rule set_up_first [OF up2 L(1)])
  have up4: "set_up L (cl AND 0x3f) (dh + 1) drv (mem s) m4"
    unfolding m4_def using F by (intro set_up_write [OF up3 _ _ L(1)]) (simp_all add: unat_linear ld ROOT_DIR_ADDR_SEG_def)
  note S1 = set_up_fields [OF m1(2) L(1)] and S2 = set_up_fields [OF up2 L(1)]
    and S3 = set_up_fields [OF up3 L(1)] and S4 = set_up_fields [OF up4 L(1)]
  have bpb: "rd16 m 0x7c0e = reserved_count (fat_bpb_at m BPB_ADDR)" "rd16 m 0x7c16 = secs_per_fat (fat_bpb_at m BPB_ADDR)"
    "rd8 m 0x7c0d = secs_per_cluster (fat_bpb_at m BPB_ADDR)" for m
    by (simp_all add: fat_bpb_at_def BPB_ADDR_def)
  have "disk_read B L (rd16 m1 0x7c0e) FAT_ADDR_SEG 0 (rd16 m1 0x7c16) (s\<lparr>mem := m1\<rparr>) = Some (Inr (s\<lparr>mem := m2\<rparr>))"
  proof -
    have "?spf = unat (ucast (secs_per_fat b) :: u8)" using F by (simp add: unsigned_ucast_eq take_bit_eq_mod)
    then show ?thesis
      using disk_read_run [OF drive(2), of "s\<lparr>mem := m1\<rparr>" L ?spf "secs_per_fat b" 0 "reserved_count b" FAT_ADDR_SEG]
        G [OF m1(2)] F S1 by (simp add: bpb b_def m2_def)
  qed
  moreover have "root_extent m2 = Some (of_nat root, of_nat rs)"
  proof (rule root_extent_run)
    show "fat_readable (fat_bpb_at m2 BPB_ADDR) root rs"
      using fat S2 by (simp add: fat_readable_def b_def)
  qed
  moreover have "disk_read B L (of_nat root) ROOT_DIR_ADDR_SEG 0 (of_nat rs) (s\<lparr>mem := m3\<rparr>) = Some (Inr (s\<lparr>mem := m4\<rparr>))"
  proof -
    have "rs = unat (ucast (of_nat rs :: u16) :: u8)" "unat (of_nat root :: u16) mod 256 = root"
      using R by (simp_all add: unsigned_ucast_eq unsigned_of_nat take_bit_eq_mod)
    then show ?thesis
      using disk_read_run [OF drive(2), of "s\<lparr>mem := m3\<rparr>" L rs "of_nat rs" 0 "of_nat root" ROOT_DIR_ADDR_SEG]
        G [OF up3] R S3 by (simp add: m4_def)
  qed
  moreover have dir: "m4 (linear ROOT_DIR_ADDR_SEG (of_nat j)) = ?d ! j" if "j < length ?d" for j
    using write_bytes_segment [of 0 ?d j ROOT_DIR_ADDR_SEG m3] that F by (simp add: m4_def ld)
  moreover have "find_loop L m4 0 = Some (Some (of_nat (32 * i)))"
    using find_loop_first [OF dir _ found, of L 0] S4(9) L(2) by (simp add: sector_data_def)
  moreover have "load_file B L (of_nat (32 * i)) (s\<lparr>mem := m4\<rparr>) =
      Some (Jumps NOSOKLDR_ADDR drv (s\<lparr>mem := write_bytes 0x4000 (sectors disk lba ?n) m4\<rparr>))"
  proof -
    have i: "32 * i + 32 \<le> 512 * rs" using found by (simp add: first_match_def ld)
    let ?off = "of_nat (32 * i) + 0x1a :: u16"
    have off: "?off = of_nat (32 * i + 26)" "unat ?off = 32 * i + 26"
      using i R by (simp_all add: unat_word_ariths unsigned_of_nat take_bit_eq_mod)
    have "linear ROOT_DIR_ADDR_SEG ?off + 1 = linear ROOT_DIR_ADDR_SEG (of_nat (32 * i + 27))"
      using linear_add [of ?off 1 ROOT_DIR_ADDR_SEG] off i R by (simp add: add.commute)
    then have "rd16 m4 (linear ROOT_DIR_ADDR_SEG ?off) = c"
      using dir [of "32 * i + 26"] dir [of "32 * i + 27"] i unfolding off(1) c(1) [symmetric]
      by (simp add: rd16_def of_le16_def ld add.commute)
    moreover have "rd16 m4 ?first = of_nat (root + rs)"
    proof -
      have "m4 x = m3 x" if "unat x < 0x20000" for x
        unfolding m4_def using that R by (intro write_bytes_other) (auto simp: in_region_nat ld unat_linear ROOT_DIR_ADDR_SEG_def)
      then have "rd16 m4 ?first = rd16 m3 ?first" using label_addresses [OF L(1)] by (simp add: rd16_def)
      then show ?thesis by (simp add: m3_def rd16_wr16_same)
    qed
    moreover have "rd16 m4 (2 * ucast c) = rd16 (mem s) (2 * ucast c)"
    proof -
      have "(unat c - 2) * 1 \<le> (unat c - 2) * ?n" using F by (intro mult_le_mono2) simp
      then have "unat c < 258" using c(3,4) by linarith
      then have "unat (2 * ucast c :: u32) < 516" "unat (2 * ucast c + 1 :: u32) < 517"
        by (simp_all add: unat_word_ariths unsigned_ucast_eq take_bit_eq_mod)
      then have "m4 (2 * ucast c) = mem s (2 * ucast c)" "m4 (2 * ucast c + 1) = mem s (2 * ucast c + 1)"
        by (auto intro!: set_up_low [OF up4 L(1)])
      then show ?thesis by (simp add: rd16_def)
    qed
    ultimately show ?thesis
      using load_file_run [OF drive(2), of "s\<lparr>mem := m4\<rparr>" L ?n "root + rs" "of_nat (32 * i)" c]
        G [OF up4] S4 F c L(1) stop by (simp add: bpb b_def)
  qed
  ultimately have "boot_start B L 0 drv s =
      Some (Jumps NOSOKLDR_ADDR drv (s\<lparr>mem := write_bytes 0x4000 (sectors disk lba ?n) m4\<rparr>))"
    by (simp add: boot_start_def m1(1) m3_def [symmetric])
  moreover have "bytes_at (write_bytes 0x4000 (sectors disk lba ?n) m4) 0x4000 (512 * ?n) = sectors disk lba ?n"
    using bytes_at_write_bytes [of "sectors disk lba ?n" "0x4000" m4] F by (simp add: ld)
  ultimately show ?thesis by simp
qed

text \<open>A disk with one cluster of the loader, and the sector with its strings at \<open>0x7d00\<close>.\<close>

definition tiny_disk :: "nat \<Rightarrow> u8 list" where
  "tiny_disk k =
     (if k = 2 then stage2_name @ replicate 15 0 @ [2, 0] @ replicate 484 0
      else replicate 512 (if k = 3 then 0x90 else 0))"

definition sector_strings :: "u8 list" where
  "sector_strings = [0, 0, 0] @ map byte_of_char ''0123456789ABCDEF'' @ stage2_name @
     map byte_of_char ''/NOSOKLDR.BIN not found'' @ [0x0a, 0x0d, 0] @ map byte_of_char ''Disk error '' @ [0]"

definition tiny_sector :: mem where
  "tiny_sector = (\<lambda>x. if 0x7d00 \<le> x \<and> x < 0x7d44 then sector_strings ! unat (x - 0x7d00)
     else ((\<lambda>_. 0)(0x7c0c := 2, 0x7c0d := 1, 0x7c0e := 1, 0x7c10 := 1, 0x7c11 := 16, 0x7c16 := 1, 0x7c18 := 63, 0x7c1a := 16)) x)"

definition tiny_labels :: sector_labels where
  "tiny_labels = \<lparr>bootdev = 0x7d00, first_sect_at = 0x7d01, hex_digits = 0x7d03, stage2_file = 0x7d13,
     not_found_msg = 0x7d1e, disk_read_err = 0x7d38\<rparr>"

definition tiny_bios :: sector_bios where
  "tiny_bios = \<lparr>drive_geometry = (\<lambda>_. (15, 63)), read_sectors = (\<lambda>al ch cl dh dl es bx m.
     Inr (write_bytes (linear es bx) (sectors tiny_disk (chs_sector 63 16 ch cl dh) (unat al)) m))\<rparr>"

definition tiny_machine :: sector_machine where
  "tiny_machine = \<lparr>mem = tiny_sector, port_log = [], hw8 = (\<lambda>_ _. 0), hw16 = (\<lambda>_ _. 0), hw32 = (\<lambda>_ _. 0), tty = []\<rparr>"

lemma tiny_layout: "layout tiny_labels"
  by (simp add: layout_def tiny_labels_def)

lemma tiny_string:
  assumes "k + n \<le> 68" "off = 0x7d00 + of_nat k"
  shows "seg_bytes tiny_sector 0 off n = take n (drop k sector_strings)"
proof (rule nth_equalityI)
  have len: "length sector_strings = 68" by (simp add: sector_strings_def stage2_name_def)
  then show "length (seg_bytes tiny_sector 0 off n) = length (take n (drop k sector_strings))"
    using assms(1) by (simp add: seg_bytes_def)
  fix i assume "i < length (seg_bytes tiny_sector 0 off n)"
  then have i: "i < n" by (simp add: seg_bytes_def)
  define x where "x = linear 0 (0x7d00 + of_nat (k + i))"
  have u: "unat (of_nat (k + i) :: u16) = k + i"
    using i assms(1) by (simp add: unsigned_of_nat take_bit_eq_mod del: of_nat_add)
  then have x: "unat x = 0x7d00 + (k + i)" using i assms(1) by (simp add: x_def unat_linear unat_word_ariths)
  then have "0x7d00 \<le> x" "x < 0x7d44" "unat (x - 0x7d00) = k + i"
    using i assms(1) by (simp_all add: word_le_nat_alt word_less_nat_alt unat_sub32)
  then have "tiny_sector x = sector_strings ! (k + i)" by (simp add: tiny_sector_def)
  then show "seg_bytes tiny_sector 0 off n ! i = take n (drop k sector_strings) ! i"
    using i assms len by (simp add: seg_bytes_nth x_def add.assoc)
qed

lemma string_atI: "0 \<notin> set cs \<Longrightarrow> length cs + 1 = n \<Longrightarrow> seg_bytes m 0 a n = cs @ [0] \<Longrightarrow> string_at m a cs"
  by (auto simp: string_at_def)

lemma tiny_data: "sector_data tiny_labels (mem tiny_machine)"
proof -
  have "string_at tiny_sector 0x7d1e (map byte_of_char ''/NOSOKLDR.BIN not found'' @ [0x0a, 0x0d])"
    by (rule string_atI [of _ 26]) (simp_all add: tiny_string [of 30 26] sector_strings_def stage2_name_def byte_of_char_def)
  moreover have "string_at tiny_sector 0x7d38 (map byte_of_char ''Disk error '')"
    by (rule string_atI [of _ 12]) (simp_all add: tiny_string [of 56 12] sector_strings_def stage2_name_def byte_of_char_def)
  moreover have "seg_bytes tiny_sector 0 0x7d03 16 = map byte_of_char ''0123456789ABCDEF''"
    "seg_bytes tiny_sector 0 0x7d13 11 = stage2_name"
    by (simp_all add: tiny_string [of 3 16] tiny_string [of 19 11] sector_strings_def stage2_name_def)
  ultimately show ?thesis by (simp add: sector_data_def tiny_labels_def tiny_machine_def)
qed


theorem boot_sector_loads_witness:
  "\<exists>s'. boot_start tiny_bios tiny_labels 0 0x80 tiny_machine = Some (Jumps 0x4000 0x80 s') \<and>
    bytes_at (mem s') 0x4000 512 = replicate 512 0x90"
proof -
  have m: "mem tiny_machine = tiny_sector" by (simp add: tiny_machine_def)
  have b: "fat_readable (fat_bpb_at (mem tiny_machine) BPB_ADDR) 2 1" "secs_per_cluster (fat_bpb_at (mem tiny_machine) BPB_ADDR) = 1"
    by (simp_all add: m fat_readable_def fat_bpb_at_def BPB_ADDR_def tiny_sector_def rd16_def rd8_def)
  have "\<forall>k. length (tiny_disk k) = 512" by (simp add: tiny_disk_def stage2_name_def)
  then have drive: "drive_found tiny_bios 0x80 63 16" "drive_service tiny_bios 0x80 tiny_disk 63 16"
    by (auto simp: drive_found_def drive_service_def tiny_bios_def)
  have root: "sectors tiny_disk 2 1 = stage2_name @ replicate 15 0 @ [2, 0] @ replicate 484 0"
    "sectors tiny_disk 3 1 = replicate 512 0x90"
    by (simp_all add: sectors_def tiny_disk_def)
  have found: "first_match (sectors tiny_disk 2 1) 0" "of_le16 (drop (32 * 0 + 26) (sectors tiny_disk 2 1)) = 2"
    unfolding root by (simp_all add: first_match_def entry_name_def stage2_name_def of_le16_def)
  have zero: "rd8 (mem tiny_machine) 0x7c19 = 0" "rd8 (mem tiny_machine) 0x7c1b = 0"
    and "rd16 (mem tiny_machine) (2 * ucast (2 :: u16)) = 0"
    by (simp_all add: m tiny_sector_def rd8_def rd16_def)
  moreover have "0xfff8 \<le>s (0 :: u16)" by code_simp
  ultimately have stop: "0xfff8 \<le>s rd16 (mem tiny_machine) (2 * ucast (2 :: u16))" by simp
  have "\<exists>s'. boot_start tiny_bios tiny_labels 0 0x80 tiny_machine = Some (Jumps NOSOKLDR_ADDR 0x80 s') \<and> tty s' = tty tiny_machine \<and>
    bytes_at (mem s') 0x4000 (512 * unat (1 :: u8)) = sectors tiny_disk 3 (unat (1 :: u8))"
    by (rule boot_sector_loads [OF tiny_layout tiny_data zero drive b(1) found, unfolded b(2)]) (use stop in simp_all)
  then show ?thesis by (auto simp: root [unfolded One_nat_def] NOSOKLDR_ADDR_def)
qed

end
