(* ===== verification/Spec2Isabelle.thy ===== *)
theory Spec2Isabelle
  imports Heap_Contract Checksums Pcnet_Ring Delivery Discover Task_Ring Kmain Startup Preemption
    Bus_Scan Bit_Fields Boot_Sector
begin

text \<open>
  A verification development for the nOSok kernel (32-bit x86, C++), paths below are
  relative to the sources.

  \<^bold>\<open>The program.\<close> The boot sector loads the boot loader. That reads the file of the kernel from a
  FAT file system, copies the segments of its ELF image, sets a video mode and enters the kernel, whose first instructions
  enable paging and call \<open>kmain\<close> (\<open>src/kernel/main.cpp\<close>) with the boot information. That brings
  up the page frame allocator, the page tables, the heap, the console, the interrupt
  controllers and the task manager, scans the PCI bus for drivers, obtains an address by
  DHCP and starts two threads. Received frames enter through the interrupt handler of the
  PCnet driver and go up through ethernet, ARP, IPv4 and UDP to a socket, where \<open>recv\<close>
  waits for them; packets sent go down the same way.

  \<^bold>\<open>State.\<close> One record, extended by each component with its globals in the order of the
  theories below: the byte memory, the log of port accesses and the heap first, the task
  manager and then the other registers of the processor last. The loader and the boot sector
  have states of their own on top of memory and ports. An operation takes a state of its own component or of any extension of it.
  Objects, tables, packets and stacks are in the byte memory, at the offsets the i386 ABI
  gives them; pointers are 32-bit words, so that aliasing is what it is in the code. Integers
  are words of their width. An operation that may not return or that runs into behaviour the
  language leaves undefined (an array index out of range, a virtual call through an object
  without the method) has an option as its result.

  \<^bold>\<open>Theories and files.\<close>

    \<^item> \<open>Prelude\<close>: types, regions of the address space, collections of simplification rules.
    \<^item> \<open>Memory\<close> (\<open>std/string.cpp\<close>), \<open>Inet\<close> (\<open>std/inet.cpp\<close>), \<open>Machine\<close> (\<open>drivers/io.cpp\<close>,
      \<open>debug/bochs.cpp\<close>).
    \<^item> \<open>Frames\<close> (\<open>memory/frame_alloc.cpp\<close>) and \<open>Heap\<close> (\<open>memory/alloc.cpp\<close>), both providers of
      the interface in \<open>Allocator\<close>; \<open>Heap_Spec\<close> has the list of blocks the heap stands for,
      \<open>Heap_Contract\<close> the interpretation and the properties of the heap, \<open>Heap_Objects\<close> the heap
      as seen by the clients that link nodes in it. \<open>Paging\<close> (\<open>memory/paging.cpp\<close>).
    \<^item> \<open>Video\<close> (\<open>drivers/video.cpp\<close>) with an abstract console, \<open>Printf\<close> (\<open>std/printf.cpp\<close>).
    \<^item> \<open>Devices\<close> (\<open>drivers/devices.cpp\<close>), \<open>Pci\<close> and \<open>Drivers\<close> (\<open>drivers/pci.cpp\<close>,
      \<open>drivers/block.cpp\<close>, \<open>drivers/block/ahci.cpp\<close>, \<open>drivers/net/rtl8139.cpp\<close>), \<open>Interrupts\<close>
      (\<open>cpu/interrupts.cpp\<close>), \<open>Dispatch\<close> (an interrupt through registry and drivers),
      \<open>Bus_Scan\<close> (which drivers the scan of the PCI buses starts).
    \<^item> \<open>Pcnet\<close> and \<open>Pcnet_Driver\<close> (\<open>drivers/net/pcnet.cpp\<close>), \<open>Pcnet_Ring\<close> (the transmit ring).
    \<^item> \<open>Packets\<close> (the packed headers of \<open>incl/net\<close>), \<open>Ethernet\<close>, \<open>Arp\<close>, \<open>Ip\<close>, \<open>Udp\<close>, \<open>Dhcp\<close>
      (\<open>net/*.cpp\<close>), \<open>Receive\<close> (their receive side); \<open>Arp_Cache\<close>, \<open>Checksums\<close>, \<open>Delivery\<close> and
      \<open>Dhcp_Options\<close> hold their properties.
    \<^item> \<open>Tasks\<close> (\<open>task/taskmgr.cpp\<close>, \<open>cpu/context_switch.asm\<close>) and \<open>Task_Ring\<close>; \<open>Kmain\<close>
      (\<open>main.cpp\<close>).
    \<^item> \<open>Boot_Formats\<close> (\<open>incl/fs/fat.h\<close>, \<open>incl/elf.h\<close>, \<open>incl/boot\<close>) and \<open>Bootloader\<close>
      (\<open>src/boot/legacy/nosokldr.c\<close>, the disk access of \<open>nosokldr.asm\<close>); \<open>Boot_Load\<close> (what is
      loaded) and \<open>Boot_Image\<close> (segments, video mode, entering the kernel).
    \<^item> \<open>Boot_Sector\<close> (\<open>src/boot/legacy/stage1.asm\<close>) and \<open>Boot_Strings\<close> (\<open>src/boot/legacy/string.c\<close>).
    \<^item> \<open>Bit_Fields\<close>: the structures of \<open>incl/memory/paging.hpp\<close> and \<open>incl/drivers/net/pcnet.hpp\<close> with all
      their fields, and the writes of \<open>Paging\<close> and \<open>Pcnet\<close> as updates of one field.
    \<^item> \<open>Heap_Buffers\<close> (what a function that uses a temporary buffer leaves of the heap), \<open>Transmit\<close> (a
      datagram through UDP, IPv4 and ethernet to the adapter) and \<open>Datagrams\<close> (the frame on the
      wire, its delivery at the other end, the answers to address requests); \<open>Discover\<close> (the
      messages of the DHCP client on the wire).
    \<^item> \<open>Display\<close> (the mapping of the framebuffer) and \<open>Startup\<close> (the entry code and the first part
      of \<open>kmain\<close> together).
    \<^item> \<open>Kernel_Entry\<close> (\<open>src/kernel/entry.asm\<close>) with the first page tables, \<open>Boot_Chain\<close> (the boot
      information from the loader to \<open>kmain\<close>); \<open>Interrupt_Stubs\<close> (\<open>cpu/interrupts.asm\<close>) and
      \<open>Preemption\<close> (what the stubs and the timer promise).
    \<^item> \<open>Polling\<close> (loops that wait for a flag, as functions and by instructions), \<open>Effects\<close> (what an operation can change) and
      \<open>Example_Machine\<close> (a concrete state for the witnesses) serve several components.

  \<^bold>\<open>Interfaces.\<close> The locale \<open>allocator\<close> states the contract of an allocator and is interpreted
  on frames and on heap blocks; a run of requests and releases is safe by the lemmas proved
  in it. \<open>object_store\<close> states what a client may assume of its objects (apart from each
  other, kept by writes to others) and is interpreted on the heap; the ARP cache and the ring
  of tasks rest on it. \<open>polling\<close> is interpreted on the waiting loops of \<open>recv\<close> and of the
  driver's \<open>init\<close>, \<open>irq_methods\<close> on the virtual call of the drivers.

  \<^bold>\<open>What is shown.\<close> Memory: the heap implements first fit with coalescing on a list of blocks,
  every run of its clients keeps blocks disjoint and their contents; the frame allocator hands
  out distinct frames; mapping and unmapping change one translation. Output: \<open>putc\<close> implements
  a console of characters, \<open>printf\<close> prints the text its reference gives. Interrupts: the table
  after \<open>init\<close>, masks, delivery to the registered drivers; the bus scan starts one driver for
  every function of the machine that has one. Network: headers read back, the checksums verify at the receiver (for UDP exactly when
  the length is even or the last byte zero), the transmit ring hands frames over in order, \<open>sendto\<close>
  puts exactly one frame with the data on the wire and leaves the heap as it was, a receiver
  of this kind delivers these data, address requests are answered from the cache, the messages
  of the DHCP client go out (and one block of the heap with each of them is lost), the conditions for a frame to reach its socket, when \<open>recv\<close> returns and what its
  loop does with interrupts between its instructions, the cache as an
  association list, DHCP options read back. Tasks: creation and switch keep the ring, a
  task switched back to has its registers again, also when the timer has interrupted it. Boot:
  the boot sector has the first cluster of the loader in memory and jumps to it; the loader
  ends and has the whole file in memory, in the sectors it can address; every segment
  of the image is at its place; which video mode is set and which is reported; the first page
  tables; the boot information reaches \<open>kmain\<close>; the whole framebuffer is mapped; from the first
  instruction of the kernel to a cleared screen with heap and interrupts set up. Stubs: where an interrupted program goes on,
  and what an exception handler is shown. Several theorems state where the code
  does not do what it means to: the stack of a new task, the lost wake-up in \<open>recv\<close>, the
  null registry entries that are followed, sizes that wrap in \<open>kmalloc\<close>, the lengths in \<open>clear\<close>,
  page tables and uninitialised sections that are not cleared, the video mode that is reported but
  not set, the registers the interrupt stubs do not save and the error code they do not drop, the
  cluster chain the boot sector does not follow and the status it does not print.

  \<^bold>\<open>Bounds and fuel.\<close> \<open>print_hex\<close> and \<open>print_dec\<close> print their digits through \<open>printf\<close>, which
  calls them; the model closes the recursion at depth 2, and \<open>printf_formats\<close> shows that more
  changes nothing. Loops over linked structures and loops that wait
  are partial functions: not ending is having no result, and where they end is proved. All
  other loops are structural or come with a termination proof.

  \<^bold>\<open>Parameters.\<close> The answers of the hardware to port reads (functions of the log so far), what
  interrupts do while the kernel waits or halts, the addresses chosen by the linker (stubs,
  threads, font), the addresses and the uninitialised bytes of objects on the stack, what a C++ function leaves in the
  registers it need not keep, and the services of the BIOS (records of functions, \<open>bios\<close> and \<open>sector_bios\<close>), the addresses the
  assembler gives to labels. Where a
  property needs more of the hardware, as for the configuration mechanism of PCI, the disk service
  for the boot drive (\<open>disk_service\<close>, \<open>drive_service\<close>) or the VESA service (\<open>vesa_service\<close>), it is a premise that states the documented
  behaviour.

  \<^bold>\<open>Not modelled.\<close> Memory is accessed as if all of it were mapped one to one: the page tables
  are data, their effect on later accesses is not taken into account. Device interrupts come in the
  waiting loops only (and, by \<open>poll_step\<close>, at every point of the loop of \<open>recv\<close>), not between any
  two instructions; the stubs around them are modelled for one interrupt at a time. The switches
  between processor modes around the BIOS calls (\<open>nosokldr.asm\<close>) are left out, and so is the stack of
  the 16-bit code: the boot sector sets \<open>ss\<close> but leaves the stack pointer of the BIOS. What
  the adapter does with a descriptor given to it is outside the program.
\<close>

end
